(* ===== verification/Prelude.thy ===== *)
theory Prelude
  imports Main "HOL-Library.Word"
begin

text \<open>
  Shared vocabulary of the development.

  Machine integers are \<open>'n word\<close> at the width the Rust source gives them; a \<open>u8\<close> buffer is a
  \<open>byte list\<close>; a \<open>&str\<close> or \<open>String\<close> is a \<open>string\<close>, read as its UTF-8 bytes (so \<open>length\<close>
  is \<open>str::len\<close>).  \<open>Result<T, E>\<close> is the sum \<open>'e + 'a\<close> with the abbreviations \<open>Err\<close> and \<open>Ok\<close>.
  The theory holds the byte-order conversions (\<open>to_be_bytes\<close>, \<open>from_le_bytes\<close>, ...), the search
  functions of slices and strings (\<open>find\<close>, \<open>rfind\<close>, \<open>windows(n).position\<close>), the integer parsers of
  the standard library, and the lemmas about them that the components share.
\<close>

unbundle bit_operations_syntax

named_theorems byte_simps \<open>byte-order conversions and byte literals\<close>
named_theorems frame_defs \<open>definitions of the wire frame builders\<close>

section \<open>Types\<close>

type_synonym byte = "8 word"
type_synonym u16 = "16 word"
type_synonym u32 = "32 word"
type_synonym u64 = "64 word"

abbreviation Err :: "'e \<Rightarrow> 'e + 'a" where
  "Err \<equiv> Inl"

abbreviation Ok :: "'a \<Rightarrow> 'e + 'a" where
  "Ok \<equiv> Inr"

section \<open>Strings and bytes\<close>

definition as_bytes :: "string \<Rightarrow> byte list" where
  "as_bytes s = map of_char s"

definition byte_char :: "byte \<Rightarrow> char" where
  "byte_char b = char_of (unat b)"

definition of_bytes :: "byte list \<Rightarrow> string" where
  "of_bytes bs = map byte_char bs"

lemma unat_byte_lt: "unat (b :: byte) < 256"
  using unsigned_less [of b] by simp

lemma of_char_byte_char [simp]: "of_char (byte_char b) = b"
proof -
  have "(of_char (byte_char b) :: nat) = unat b"
    using unat_byte_lt [of b] by (simp add: byte_char_def)
  then have "of_nat (of_char (byte_char b) :: nat) = (of_nat (unat b) :: byte)" by simp
  then show ?thesis by (simp add: of_nat_of_char)
qed

lemma byte_char_of_char [simp]: "byte_char (of_char c) = c"
proof -
  have "(of_char c :: byte) = of_nat (of_char c :: nat)" by (simp only: of_nat_of_char)
  then have "unat (of_char c :: byte) = (of_char c :: nat)"
    by (simp add: unat_of_nat)
  then show ?thesis by (simp add: byte_char_def)
qed

lemma length_as_bytes [simp]: "length (as_bytes s) = length s"
  by (simp add: as_bytes_def)

lemma length_of_bytes [simp]: "length (of_bytes bs) = length bs"
  by (simp add: of_bytes_def)

lemma as_bytes_Nil [simp]: "as_bytes [] = []"
  by (simp add: as_bytes_def)

lemma as_bytes_append [simp]: "as_bytes (s @ t) = as_bytes s @ as_bytes t"
  by (simp add: as_bytes_def)

lemma as_bytes_Cons [simp]: "as_bytes (c # s) = of_char c # as_bytes s"
  by (simp add: as_bytes_def)

lemma as_bytes_of_bytes [simp]: "as_bytes (of_bytes bs) = bs"
  by (simp add: as_bytes_def of_bytes_def map_idI)

lemma of_bytes_as_bytes [simp]: "of_bytes (as_bytes s) = s"
  by (simp add: as_bytes_def of_bytes_def map_idI)

text \<open>A byte between two literals is one of finitely many literals.\<close>

lemma byte_range:
  fixes c :: byte
  assumes "l \<le> c" "c \<le> u"
  shows "list_ex (\<lambda>n. c = of_nat n) [unat l..<Suc (unat u)]"
proof -
  have "unat c \<in> set [unat l..<Suc (unat u)]"
    using assms unfolding set_upt word_le_nat_alt by simp
  moreover have "c = of_nat (unat c)" by simp
  ultimately show ?thesis unfolding list_ex_iff by blast
qed

section \<open>Byte order\<close>

definition u16_to_be_bytes :: "u16 \<Rightarrow> byte list" where
  "u16_to_be_bytes w = [ucast (drop_bit 8 w), ucast w]"

definition u16_to_le_bytes :: "u16 \<Rightarrow> byte list" where
  "u16_to_le_bytes w = [ucast w, ucast (drop_bit 8 w)]"

definition u16_from_be_bytes :: "byte \<Rightarrow> byte \<Rightarrow> u16" where
  "u16_from_be_bytes a b = push_bit 8 (ucast a) OR ucast b"

definition u16_from_le_bytes :: "byte \<Rightarrow> byte \<Rightarrow> u16" where
  "u16_from_le_bytes a b = u16_from_be_bytes b a"

definition u32_to_be_bytes :: "u32 \<Rightarrow> byte list" where
  "u32_to_be_bytes w =
     [ucast (drop_bit 24 w), ucast (drop_bit 16 w), ucast (drop_bit 8 w), ucast w]"

definition u32_from_be_bytes :: "byte \<Rightarrow> byte \<Rightarrow> byte \<Rightarrow> byte \<Rightarrow> u32" where
  "u32_from_be_bytes a b c d =
     push_bit 24 (ucast a) OR push_bit 16 (ucast b) OR push_bit 8 (ucast c) OR ucast d"

lemma length_to_bytes [simp]:
  "length (u16_to_be_bytes w) = 2"
  "length (u16_to_le_bytes w) = 2"
  "length (u32_to_be_bytes v) = 4"
  by (simp_all add: u16_to_be_bytes_def u16_to_le_bytes_def u32_to_be_bytes_def)

lemma bit_byte_ge [simp]: "8 \<le> n \<Longrightarrow> bit (b :: byte) n = False"
  by (auto dest: bit_imp_le_length)

lemma byte_eq_bits:
  "(a :: byte) = b \<longleftrightarrow> bit a 0 = bit b 0 \<and> bit a 1 = bit b 1 \<and> bit a 2 = bit b 2 \<and> bit a 3 = bit b 3
     \<and> bit a 4 = bit b 4 \<and> bit a 5 = bit b 5 \<and> bit a 6 = bit b 6 \<and> bit a 7 = bit b 7"
proof -
  have "{n. n < 8} = {0, 1, 2, 3, 4, 5, 6, 7 :: nat}" by auto
  then have "(\<forall>n < 8. bit a n = bit b n) \<longleftrightarrow> (\<forall>n \<in> {0, 1, 2, 3, 4, 5, 6, 7}. bit a n = bit b n)" by blast
  moreover have "a = b \<longleftrightarrow> (\<forall>n < 8. bit a n = bit b n)"
    by (auto intro: bit_word_eqI)
  ultimately show ?thesis by simp
qed

lemma unat_ucast_byte [simp]: "unat (ucast (b :: byte) :: u16) = unat b"
  using unat_byte_lt [of b] by (simp add: unsigned_ucast_eq take_bit_eq_mod)

lemma u16_from_be_bytes_to [byte_simps]:
  "u16_from_be_bytes (ucast (drop_bit 8 w)) (ucast w) = w"
  unfolding u16_from_be_bytes_def
  by (rule bit_word_eqI) (auto simp: bit_simps)

lemma u16_to_be_bytes_from [byte_simps]:
  "u16_to_be_bytes (u16_from_be_bytes a b) = [a, b]"
  unfolding u16_to_be_bytes_def u16_from_be_bytes_def
  by (auto intro!: bit_word_eqI simp: bit_simps)

lemma u32_from_be_bytes_to [byte_simps]:
  "u32_from_be_bytes (ucast (drop_bit 24 w)) (ucast (drop_bit 16 w)) (ucast (drop_bit 8 w)) (ucast w) = w"
  unfolding u32_from_be_bytes_def
proof (rule bit_word_eqI)
  fix n assume n: "n < LENGTH(32)"
  consider "n < 8" | "8 \<le> n \<and> n < 16" | "16 \<le> n \<and> n < 24" | "24 \<le> n" by linarith
  then show "bit (push_bit 24 (ucast (ucast (drop_bit 24 w) :: byte)) OR
      push_bit 16 (ucast (ucast (drop_bit 16 w) :: byte)) OR
      push_bit 8 (ucast (ucast (drop_bit 8 w) :: byte)) OR ucast (ucast w :: byte) :: u32) n = bit w n"
    using n by cases (auto simp: bit_simps)
qed

lemma u32_to_be_bytes_from [byte_simps]:
  "u32_to_be_bytes (u32_from_be_bytes a b c d) = [a, b, c, d]"
  unfolding u32_to_be_bytes_def u32_from_be_bytes_def
  by (auto intro!: bit_word_eqI simp: bit_simps)

lemma unat_u16_from_be_bytes: "unat (u16_from_be_bytes a b) = 256 * unat a + unat b"
proof -
  have dis: "push_bit 8 (ucast a :: u16) AND ucast b = 0"
    by (rule bit_word_eqI) (auto simp: bit_simps)
  have lo: "unat (ucast b :: u16) = unat b"
    by simp
  have ua: "unat (ucast a :: u16) = unat a"
    by simp
  note bd = unat_byte_lt [of a] unat_byte_lt [of b]
  have hi: "unat (push_bit 8 (ucast a :: u16)) = 256 * unat a"
    using bd ua by (simp add: push_bit_eq_mult unat_word_ariths)
  have "push_bit 8 (ucast a :: u16) OR ucast b = push_bit 8 (ucast a) + ucast b"
    using dis by (simp add: disjunctive_add_eq_or)
  then show ?thesis
    using hi lo bd by (simp add: u16_from_be_bytes_def unat_word_ariths)
qed

lemma unat_u16_from_le_bytes: "unat (u16_from_le_bytes a b) = 256 * unat b + unat a"
  by (simp add: u16_from_le_bytes_def unat_u16_from_be_bytes)

lemma u16_from_le_bytes_to [byte_simps]:
  "u16_from_le_bytes (ucast w) (ucast (drop_bit 8 w)) = w"
  by (simp add: u16_from_le_bytes_def u16_from_be_bytes_to)

section \<open>Slices and searches\<close>

text \<open>The Rust slice \<open>&xs[i..j]\<close>, for \<open>i \<le> j \<le> xs.len()\<close>.\<close>

definition slice :: "nat \<Rightarrow> nat \<Rightarrow> 'a list \<Rightarrow> 'a list" where
  "slice i j xs = take (j - i) (drop i xs)"

lemma length_slice [simp]: "j \<le> length xs \<Longrightarrow> length (slice i j xs) = j - i"
  by (simp add: slice_def)

text \<open>\<open>iter().position(P)\<close> and \<open>iter().rposition(P)\<close>.\<close>

fun position :: "('a \<Rightarrow> bool) \<Rightarrow> 'a list \<Rightarrow> nat option" where
  "position P [] = None"
| "position P (x # xs) = (if P x then Some 0 else map_option Suc (position P xs))"

fun rposition :: "('a \<Rightarrow> bool) \<Rightarrow> 'a list \<Rightarrow> nat option" where
  "rposition P [] = None"
| "rposition P (x # xs) =
     (case rposition P xs of
        Some i \<Rightarrow> Some (Suc i)
      | None \<Rightarrow> if P x then Some 0 else None)"

lemma position_None_iff: "position P xs = None \<longleftrightarrow> (\<forall>x \<in> set xs. \<not> P x)"
  by (induction xs) auto

lemma rposition_None_iff: "rposition P xs = None \<longleftrightarrow> (\<forall>x \<in> set xs. \<not> P x)"
  by (induction xs) (auto split: option.splits)

lemma position_SomeD:
  "position P xs = Some i \<Longrightarrow>
     i < length xs \<and> P (xs ! i) \<and> take i xs @ xs ! i # drop (Suc i) xs = xs \<and> (\<forall>x \<in> set (take i xs). \<not> P x)"
  by (induction xs arbitrary: i) (auto split: if_splits)

lemma rposition_SomeD:
  "rposition P xs = Some i \<Longrightarrow>
     i < length xs \<and> P (xs ! i) \<and> take i xs @ xs ! i # drop (Suc i) xs = xs \<and> (\<forall>x \<in> set (drop (Suc i) xs). \<not> P x)"
proof (induction xs arbitrary: i)
  case Nil
  then show ?case by simp
next
  case (Cons x xs)
  show ?case
  proof (cases "rposition P xs")
    case None
    with Cons.prems have "i = 0" "P x" by (auto split: if_splits)
    with None show ?thesis by (auto simp: rposition_None_iff)
  next
    case (Some j)
    with Cons.prems have "i = Suc j" by simp
    with Cons.IH [OF Some] show ?thesis by simp
  qed
qed

lemma position_append_hit:
  "P x \<Longrightarrow> (\<forall>y \<in> set ys. \<not> P y) \<Longrightarrow> position P (ys @ x # zs) = Some (length ys)"
  by (induction ys) auto

lemma rposition_append_hit:
  "P x \<Longrightarrow> (\<forall>y \<in> set zs. \<not> P y) \<Longrightarrow> rposition P (ys @ x # zs) = Some (length ys)"
proof (induction ys)
  case Nil
  then have "rposition P zs = None" by (simp add: rposition_None_iff)
  with Nil.prems show ?case by simp
qed simp

text \<open>\<open>windows(pat.len()).position(|w| w == pat)\<close> for a non-empty pattern.\<close>

fun find_sub :: "'a list \<Rightarrow> 'a list \<Rightarrow> nat option" where
  "find_sub pat [] = None"
| "find_sub pat (x # xs) =
     (if take (length pat) (x # xs) = pat then Some 0 else map_option Suc (find_sub pat xs))"

lemma find_sub_SomeD:
  "find_sub pat xs = Some i \<Longrightarrow>
     take i xs @ pat @ drop (i + length pat) xs = xs \<and> i + length pat \<le> length xs"
proof (induction xs arbitrary: i)
  case Nil
  then show ?case by simp
next
  case (Cons x xs)
  show ?case
  proof (cases "take (length pat) (x # xs) = pat")
    case True
    with Cons.prems have i: "i = 0" by simp
    have "pat @ drop (length pat) (x # xs) = x # xs"
      using True by (metis append_take_drop_id)
    moreover have "length pat \<le> length (x # xs)"
      using True by (metis length_take min.cobounded1)
    ultimately show ?thesis using i by simp
  next
    case False
    with Cons.prems obtain j where "i = Suc j" "find_sub pat xs = Some j"
      by (auto split: if_splits)
    with Cons.IH [of j] show ?thesis by simp
  qed
qed

text \<open>\<open>str::split(c)\<close>.\<close>

fun split_on :: "'a \<Rightarrow> 'a list \<Rightarrow> 'a list list" where
  "split_on c [] = [[]]"
| "split_on c (x # xs) =
     (if x = c then [] # split_on c xs
      else (case split_on c xs of p # ps \<Rightarrow> (x # p) # ps | [] \<Rightarrow> [[x]]))"

lemma split_on_not_Nil [simp]: "split_on c xs \<noteq> []"
  by (cases xs) (auto split: list.splits)

lemma split_on_no_sep: "c \<notin> set xs \<Longrightarrow> split_on c xs = [xs]"
  by (induction xs) auto

lemma split_on_append: "c \<notin> set xs \<Longrightarrow> split_on c (xs @ c # ys) = xs # split_on c ys"
  by (induction xs) auto

lemma split_on_parts: "p \<in> set (split_on c xs) \<Longrightarrow> set p \<subseteq> set xs - {c}"
proof (induction xs arbitrary: p)
  case (Cons x xs)
  show ?case
  proof (cases "split_on c xs")
    case (Cons q qs)
    then show ?thesis
      using Cons.prems Cons.IH [of p] Cons.IH [of q] by (auto split: if_splits)
  qed simp
qed simp

lemma split_on_cover:
  "u \<in> set xs \<Longrightarrow> u = c \<or> (\<exists>p \<in> set (split_on c xs). u \<in> set p)"
proof (induction xs)
  case (Cons x xs)
  show ?case
  proof (cases "split_on c xs")
    case (Cons q qs)
    then show ?thesis using Cons.prems Cons.IH by auto
  qed simp
qed simp

section \<open>Decimal integers\<close>

definition is_ascii_digit :: "byte \<Rightarrow> bool" where
  "is_ascii_digit c \<longleftrightarrow> 0x30 \<le> c \<and> c \<le> 0x39"

definition digit_char :: "char \<Rightarrow> bool" where
  "digit_char c \<longleftrightarrow> is_ascii_digit (of_char c)"

definition digit_val :: "char \<Rightarrow> nat" where
  "digit_val c = unat (of_char c - 0x30 :: byte)"

definition dec_val :: "string \<Rightarrow> nat" where
  "dec_val s = foldl (\<lambda>n c. 10 * n + digit_val c) 0 s"

text \<open>
  \<open>str::parse::<i64>()\<close>: an optional sign, at least one ASCII digit, nothing else, and no overflow.
\<close>

definition parse_i64 :: "string \<Rightarrow> int option" where
  "parse_i64 s =
     (let neg = (s \<noteq> [] \<and> hd s = CHR ''-'');
          ds = (if s \<noteq> [] \<and> (hd s = CHR ''-'' \<or> hd s = CHR ''+'') then tl s else s)
      in if ds = [] \<or> \<not> list_all digit_char ds then None
         else if neg then (if dec_val ds \<le> 2 ^ 63 then Some (- int (dec_val ds)) else None)
         else (if dec_val ds < 2 ^ 63 then Some (int (dec_val ds)) else None))"

text \<open>Decimal printing of a natural number, as \<open>{}\<close> does for unsigned integers.\<close>

definition digit_of :: "nat \<Rightarrow> char" where
  "digit_of d = byte_char (0x30 + of_nat d)"

fun show_nat :: "nat \<Rightarrow> string" where
  "show_nat n = (if n < 10 then [digit_of n] else show_nat (n div 10) @ [digit_of (n mod 10)])"

declare show_nat.simps [simp del]

lemma digit_of_range: "d < 10 \<Longrightarrow> digit_char (digit_of d) \<and> digit_val (digit_of d) = d"
proof -
  assume d: "d < 10"
  have u: "unat (0x30 + of_nat d :: byte) = 48 + d"
    using d by (simp add: unat_word_ariths unat_of_nat)
  have "(0x30::byte) \<le> 0x30 + of_nat d" "(0x30 + of_nat d :: byte) \<le> 0x39"
    using d u by (simp_all add: word_le_nat_alt)
  moreover have "unat (of_nat d :: byte) = d"
    using d by (simp add: unat_of_nat)
  ultimately show ?thesis
    by (simp add: digit_char_def is_ascii_digit_def digit_val_def digit_of_def)
qed

lemma dec_val_snoc [simp]: "dec_val (s @ [c]) = 10 * dec_val s + digit_val c"
  by (simp add: dec_val_def)

lemma dec_val_Cons: "dec_val (c # s) = digit_val c * 10 ^ length s + dec_val s"
proof (induction s rule: rev_induct)
  case Nil
  then show ?case by (simp add: dec_val_def)
next
  case (snoc d s)
  have "dec_val (c # s @ [d]) = 10 * dec_val (c # s) + digit_val d"
    using dec_val_snoc [of "c # s" d] by simp
  with snoc show ?case by simp
qed

lemma show_nat_digits: "list_all digit_char (show_nat n) \<and> show_nat n \<noteq> []"
proof (induction n rule: show_nat.induct)
  case (1 n)
  show ?case
    using 1 by (cases "n < 10") (simp_all add: show_nat.simps [of n] digit_of_range)
qed

lemma dec_val_show_nat [simp]: "dec_val (show_nat n) = n"
proof (induction n rule: show_nat.induct)
  case (1 n)
  show ?case
  proof (cases "n < 10")
    case True
    have "dec_val [digit_of n] = dec_val ([] @ [digit_of n])" by simp
    also have "\<dots> = n" unfolding dec_val_snoc using digit_of_range [OF True] by (simp add: dec_val_def)
    finally show ?thesis using True by (simp add: show_nat.simps [of n])
  next
    case False
    with 1 show ?thesis by (simp add: show_nat.simps [of n] digit_of_range)
  qed
qed

lemma digit_char_not_special:
  "digit_char c \<Longrightarrow> c \<noteq> CHR ''-'' \<and> c \<noteq> CHR ''+'' \<and> c \<noteq> CHR '':'' \<and> c \<noteq> CHR ''@'' \<and> c \<noteq> CHR ''.''"
  by (auto simp: digit_char_def is_ascii_digit_def)

lemma parse_i64_show_nat: "n < 2 ^ 63 \<Longrightarrow> parse_i64 (show_nat n) = Some (int n)"
proof -
  assume n: "n < 2 ^ 63"
  obtain c cs where s: "show_nat n = c # cs"
    using show_nat_digits [of n] by (cases "show_nat n") auto
  then have "digit_char c" using show_nat_digits [of n] by simp
  then have "c \<noteq> CHR ''-''" "c \<noteq> CHR ''+''" by (auto dest: digit_char_not_special)
  then show ?thesis
    using n s show_nat_digits [of n] dec_val_show_nat [of n]
    by (simp add: parse_i64_def)
qed

end
