(* ===== verification/RustStr.thy ===== *)
theory RustStr
  imports Prelude
begin

text \<open>
  The text functions of the Rust standard library that the HTTP, configuration and JSON code calls:
  UTF-8 validation and lossy decoding, \<open>str::trim\<close>, ASCII case, and hexadecimal integers.  A
  \<open>string\<close> is the UTF-8 byte sequence of a \<open>str\<close>, as everywhere in the development.
\<close>

section \<open>I/O errors\<close>

text \<open>The kinds of \<open>io::Error\<close> the code distinguishes; every other kind is \<open>OtherIo\<close>.\<close>

datatype io_kind = UnexpectedEof | TimedOut | WouldBlock | InvalidData | WriteZero
  | ConnectionReset | BrokenPipe | OtherIo

section \<open>UTF-8\<close>

definition in_range :: "byte \<Rightarrow> byte \<Rightarrow> byte list \<Rightarrow> bool" where
  "in_range lo hi bs \<longleftrightarrow> (case bs of b # _ \<Rightarrow> lo \<le> b \<and> b \<le> hi | [] \<Rightarrow> False)"

text \<open>The permitted range of the second byte after the lead byte \<open>b\<close>.\<close>

definition second_range :: "byte \<Rightarrow> byte \<times> byte" where
  "second_range b =
     (if b = 0xe0 then (0xa0, 0xbf) else if b = 0xed then (0x80, 0x9f)
      else if b = 0xf0 then (0x90, 0xbf) else if b = 0xf4 then (0x80, 0x8f) else (0x80, 0xbf))"

text \<open>
  The first character of a non-empty byte sequence: its length and whether it is well formed (for an
  ill-formed one, the length of the maximal subpart that one replacement character stands for).
\<close>

definition utf8_step :: "byte list \<Rightarrow> nat \<times> bool" where
  "utf8_step bs =
     (case bs of
        [] \<Rightarrow> (1, False)
      | b # r1 \<Rightarrow>
          let (lo, hi) = second_range b in
          if b < 0x80 then (1, True)
          else if 0xc2 \<le> b \<and> b \<le> 0xdf then
            (if in_range 0x80 0xbf r1 then (2, True) else (1, False))
          else if 0xe0 \<le> b \<and> b \<le> 0xef then
            (if \<not> in_range lo hi r1 then (1, False)
             else if \<not> in_range 0x80 0xbf (drop 1 r1) then (2, False) else (3, True))
          else if 0xf0 \<le> b \<and> b \<le> 0xf4 then
            (if \<not> in_range lo hi r1 then (1, False)
             else if \<not> in_range 0x80 0xbf (drop 1 r1) then (2, False)
             else if \<not> in_range 0x80 0xbf (drop 2 r1) then (3, False) else (4, True))
          else (1, False))"

lemma utf8_step_pos: "0 < fst (utf8_step bs)"
  by (simp add: utf8_step_def Let_def case_prod_beta split: list.split)

function utf8_valid :: "byte list \<Rightarrow> bool" where
  "utf8_valid bs = (if bs = [] then True
     else if snd (utf8_step bs) then utf8_valid (drop (fst (utf8_step bs)) bs) else False)"
  by pat_completeness auto
termination
  by (relation "measure length") (auto simp: utf8_step_pos)

function from_utf8_lossy :: "byte list \<Rightarrow> byte list" where
  "from_utf8_lossy bs = (if bs = [] then [] else
     (if snd (utf8_step bs) then take (fst (utf8_step bs)) bs else [0xef, 0xbf, 0xbd])
       @ from_utf8_lossy (drop (fst (utf8_step bs)) bs))"
  by pat_completeness auto
termination
  by (relation "measure length") (auto simp: utf8_step_pos)

declare utf8_valid.simps [simp del] from_utf8_lossy.simps [simp del]

definition ascii_bytes :: "byte list \<Rightarrow> bool" where
  "ascii_bytes bs \<longleftrightarrow> list_all (\<lambda>b. b < 0x80) bs"

lemma utf8_step_ascii: "b < 0x80 \<Longrightarrow> utf8_step (b # bs) = (1, True)"
  by (simp add: utf8_step_def Let_def case_prod_beta)

lemma utf8_valid_ascii: "ascii_bytes bs \<Longrightarrow> utf8_valid bs"
proof (induction bs)
  case Nil
  then show ?case by (simp add: utf8_valid.simps [of "[]"])
next
  case (Cons b bs)
  then show ?case by (simp add: ascii_bytes_def utf8_valid.simps [of "b # bs"] utf8_step_ascii)
qed

lemma from_utf8_lossy_Nil [simp]: "from_utf8_lossy [] = []"
  by (simp add: from_utf8_lossy.simps)

text \<open>A valid byte sequence is decoded unchanged.\<close>

lemma from_utf8_lossy_valid: "utf8_valid bs \<Longrightarrow> from_utf8_lossy bs = bs"
proof (induction bs rule: utf8_valid.induct)
  case (1 bs)
  then show ?case
    by (cases "bs = []")
      (simp_all add: utf8_valid.simps [of bs] from_utf8_lossy.simps [of bs] split: if_splits)
qed

lemmas from_utf8_lossy_ascii = from_utf8_lossy_valid [OF utf8_valid_ascii]

section \<open>White space\<close>

text \<open>
  \<open>char::is_whitespace\<close> at the start of a byte sequence: the length of the white-space character
  there, 0 if there is none.  The Unicode \<open>White_Space\<close> characters are TAB to CR, the space, U+0085,
  U+00A0, U+1680, U+2000 to U+200A, U+2028, U+2029, U+202F, U+205F and U+3000.
\<close>

definition ascii_ws :: "byte \<Rightarrow> bool" where
  "ascii_ws b \<longleftrightarrow> (0x09 \<le> b \<and> b \<le> 0x0d) \<or> b = 0x20"

definition ws3 :: "byte \<Rightarrow> byte \<Rightarrow> byte \<Rightarrow> bool" where
  "ws3 a b c \<longleftrightarrow>
     (a = 0xe1 \<and> b = 0x9a \<and> c = 0x80)
   \<or> (a = 0xe2 \<and> b = 0x80 \<and> ((0x80 \<le> c \<and> c \<le> 0x8a) \<or> c = 0xa8 \<or> c = 0xa9 \<or> c = 0xaf))
   \<or> (a = 0xe2 \<and> b = 0x81 \<and> c = 0x9f)
   \<or> (a = 0xe3 \<and> b = 0x80 \<and> c = 0x80)"

definition ws_len :: "byte list \<Rightarrow> nat" where
  "ws_len bs =
     (case bs of
        [] \<Rightarrow> 0
      | a # r \<Rightarrow> if ascii_ws a then 1
          else (case r of [] \<Rightarrow> 0
                | b # r2 \<Rightarrow> if a = 0xc2 \<and> (b = 0x85 \<or> b = 0xa0) then 2
                    else (case r2 of [] \<Rightarrow> 0 | c # _ \<Rightarrow> if ws3 a b c then 3 else 0)))"

text \<open>The same at the end, on the reversed sequence.\<close>

definition ws_len_rev :: "byte list \<Rightarrow> nat" where
  "ws_len_rev bs =
     (case bs of
        [] \<Rightarrow> 0
      | c # r \<Rightarrow> if ascii_ws c then 1
          else (case r of [] \<Rightarrow> 0
                | b # r2 \<Rightarrow> if b = 0xc2 \<and> (c = 0x85 \<or> c = 0xa0) then 2
                    else (case r2 of [] \<Rightarrow> 0 | a # _ \<Rightarrow> if ws3 a b c then 3 else 0)))"

lemma ws_len_Nil [simp]: "ws_len [] = 0" "ws_len_rev [] = 0"
  by (simp_all add: ws_len_def ws_len_rev_def)

function trim_front :: "(byte list \<Rightarrow> nat) \<Rightarrow> byte list \<Rightarrow> byte list" where
  "trim_front ws bs = (if ws bs = 0 \<or> bs = [] then bs else trim_front ws (drop (ws bs) bs))"
  by pat_completeness auto
termination
  by (relation "measure (\<lambda>(ws, bs). length bs)") auto

declare trim_front.simps [simp del]

definition trim :: "string \<Rightarrow> string" where
  "trim s = of_bytes (rev (trim_front ws_len_rev (rev (trim_front ws_len (as_bytes s)))))"

text \<open>Text that neither begins nor ends with white space is left alone.\<close>

definition graphic :: "char \<Rightarrow> bool" where
  "graphic c \<longleftrightarrow> 0x21 \<le> (of_char c :: byte) \<and> (of_char c :: byte) \<le> 0x7e"

lemma ws_len_graphic:
  assumes "0x21 \<le> b" "b \<le> 0x7e"
  shows "ws_len (b # bs) = 0" "ws_len_rev (b # bs) = 0"
proof -
  have n: "33 \<le> unat b" "unat b \<le> 126" using assms by (simp_all add: word_le_nat_alt)
  have c: "\<not> ascii_ws b" "b \<noteq> 0xc2" "b \<noteq> 0x85" "b \<noteq> 0xa0" "\<not> ws3 b x y" "\<not> ws3 x y b" for x y
    using n by (auto simp: ascii_ws_def ws3_def word_le_nat_alt)
  show "ws_len (b # bs) = 0" "ws_len_rev (b # bs) = 0"
    using c by (auto simp: ws_len_def ws_len_rev_def split: list.split)
qed

lemma trim_graphic:
  assumes "s = [] \<or> (graphic (hd s) \<and> graphic (last s))"
  shows "trim s = s"
proof (cases "s = []")
  case True
  then show ?thesis by (simp add: trim_def trim_front.simps of_bytes_def)
next
  case False
  obtain c cs where s: "s = c # cs" using False by (cases s) auto
  obtain ds d where s': "s = ds @ [d]" using False by (cases s rule: rev_cases) auto
  have "hd s = c" "last s = d" by (simp add: s, simp add: s')
  then have "graphic c" "graphic d" using assms False by simp_all
  then have "ws_len (as_bytes s) = 0" "ws_len_rev (rev (as_bytes s)) = 0"
    by (simp add: s graphic_def ws_len_graphic, simp add: s' graphic_def ws_len_graphic)
  then have "trim_front ws_len (as_bytes s) = as_bytes s"
    "trim_front ws_len_rev (rev (as_bytes s)) = rev (as_bytes s)"
    by (simp_all add: trim_front.simps)
  then show ?thesis by (simp add: trim_def)
qed

text \<open>One ASCII space before such text is removed (the space after a header's colon).\<close>

lemma trim_space:
  assumes "s = [] \<or> (graphic (hd s) \<and> graphic (last s))"
  shows "trim (CHR '' '' # s) = s"
proof -
  have "trim_front ws_len (as_bytes (CHR '' '' # s)) = trim_front ws_len (as_bytes s)"
    by (subst trim_front.simps) (simp add: ws_len_def ascii_ws_def)
  then have "trim (CHR '' '' # s) = trim s" by (simp add: trim_def)
  with trim_graphic [OF assms] show ?thesis by simp
qed

section \<open>ASCII case\<close>

definition to_ascii_lower :: "char \<Rightarrow> char" where
  "to_ascii_lower c =
     (let b = of_char c :: byte in if 0x41 \<le> b \<and> b \<le> 0x5a then byte_char (b + 0x20) else c)"

definition to_ascii_upper :: "char \<Rightarrow> char" where
  "to_ascii_upper c =
     (let b = of_char c :: byte in if 0x61 \<le> b \<and> b \<le> 0x7a then byte_char (b - 0x20) else c)"

definition eq_ignore_ascii_case :: "string \<Rightarrow> string \<Rightarrow> bool" where
  "eq_ignore_ascii_case s t \<longleftrightarrow> map to_ascii_lower s = map to_ascii_lower t"

lemma eq_ignore_ascii_case_refl [simp]: "eq_ignore_ascii_case s s"
  by (simp add: eq_ignore_ascii_case_def)

section \<open>Hexadecimal integers\<close>

definition hex_char_val :: "char \<Rightarrow> nat option" where
  "hex_char_val c =
     (let b = of_char c :: byte in
      if 0x30 \<le> b \<and> b \<le> 0x39 then Some (unat b - 48)
      else if 0x61 \<le> b \<and> b \<le> 0x66 then Some (unat b - 87)
      else if 0x41 \<le> b \<and> b \<le> 0x46 then Some (unat b - 55)
      else None)"

definition hex_val :: "string \<Rightarrow> nat" where
  "hex_val s = foldl (\<lambda>n c. 16 * n + the (hex_char_val c)) 0 s"

text \<open>\<open>i64::from_str_radix(s, 16)\<close>.\<close>

definition parse_hex_i64 :: "string \<Rightarrow> int option" where
  "parse_hex_i64 s =
     (let neg = (s \<noteq> [] \<and> hd s = CHR ''-'');
          ds = (if s \<noteq> [] \<and> (hd s = CHR ''-'' \<or> hd s = CHR ''+'') then tl s else s)
      in if ds = [] \<or> \<not> list_all (\<lambda>c. hex_char_val c \<noteq> None) ds then None
         else if neg then (if hex_val ds \<le> 2 ^ 63 then Some (- int (hex_val ds)) else None)
         else (if hex_val ds < 2 ^ 63 then Some (int (hex_val ds)) else None))"

text \<open>The \<open>{:x}\<close> format of an unsigned integer.\<close>

definition hex_digit_of :: "nat \<Rightarrow> char" where
  "hex_digit_of d = byte_char (if d < 10 then 0x30 + of_nat d else 0x57 + of_nat d)"

fun show_hex :: "nat \<Rightarrow> string" where
  "show_hex n = (if n < 16 then [hex_digit_of n] else show_hex (n div 16) @ [hex_digit_of (n mod 16)])"

declare show_hex.simps [simp del]

lemma hex_char_val_digit: "d < 16 \<Longrightarrow> hex_char_val (hex_digit_of d) = Some d"
proof -
  assume d: "d < 16"
  have u: "unat (0x30 + of_nat d :: byte) = 48 + d" "unat (0x57 + of_nat d :: byte) = 87 + d"
    using d by (simp_all add: unat_word_ariths unat_of_nat)
  then show ?thesis
    using d by (auto simp: hex_char_val_def hex_digit_of_def Let_def word_le_nat_alt)
qed

lemma graphic_hex_digit: "d < 16 \<Longrightarrow> graphic (hex_digit_of d) \<and> hex_digit_of d \<notin> set ''+-; ''"
proof -
  assume d: "d < 16"
  have u: "unat (0x30 + of_nat d :: byte) = 48 + d" "unat (0x57 + of_nat d :: byte) = 87 + d"
    using d by (simp_all add: unat_word_ariths unat_of_nat)
  have "of_char (hex_digit_of d) = (if d < 10 then 0x30 + of_nat d else 0x57 + of_nat d :: byte)"
    by (simp add: hex_digit_of_def)
  then have b: "unat (of_char (hex_digit_of d) :: byte) = (if d < 10 then 48 + d else 87 + d)"
    using u by simp
  moreover have "unat (of_char c :: byte) = n \<Longrightarrow> unat (of_char (hex_digit_of d) :: byte) \<noteq> n \<Longrightarrow> hex_digit_of d \<noteq> c"
    for c n by auto
  ultimately show ?thesis
    using d by (auto simp: graphic_def word_le_nat_alt split: if_splits)
qed

lemma show_hex_chars:
  "show_hex n \<noteq> [] \<and> (\<forall>c \<in> set (show_hex n). \<exists>d < 16. c = hex_digit_of d)"
proof (induction n rule: show_hex.induct)
  case (1 n)
  show ?case
  proof (cases "n < 16")
    case True
    then show ?thesis by (auto simp: show_hex.simps [of n])
  next
    case False
    moreover have "\<exists>d < 16. hex_digit_of (n mod 16) = hex_digit_of d" by (rule exI [of _ "n mod 16"]) simp
    ultimately show ?thesis using 1 by (auto simp: show_hex.simps [of n])
  qed
qed

lemma hex_val_snoc [simp]: "hex_val (s @ [c]) = 16 * hex_val s + the (hex_char_val c)"
  by (simp add: hex_val_def)

lemma hex_val_show_hex [simp]: "hex_val (show_hex n) = n"
proof (induction n rule: show_hex.induct)
  case (1 n)
  show ?case
  proof (cases "n < 16")
    case True
    then show ?thesis by (simp add: show_hex.simps [of n] hex_val_def hex_char_val_digit)
  next
    case False
    with 1 show ?thesis by (simp add: show_hex.simps [of n] hex_char_val_digit)
  qed
qed

lemma parse_hex_i64_show_hex: "n < 2 ^ 63 \<Longrightarrow> parse_hex_i64 (show_hex n) = Some (int n)"
proof -
  assume n: "n < 2 ^ 63"
  obtain c cs where s: "show_hex n = c # cs" using show_hex_chars [of n] by (cases "show_hex n") auto
  then have "c \<noteq> CHR ''-''" "c \<noteq> CHR ''+''"
    using show_hex_chars [of n] graphic_hex_digit by auto
  moreover have "list_all (\<lambda>c. hex_char_val c \<noteq> None) (show_hex n)"
    using show_hex_chars [of n] by (auto simp: list_all_iff hex_char_val_digit)
  ultimately show ?thesis
    using n s hex_val_show_hex [of n] by (simp add: parse_hex_i64_def)
qed

end
