(* ===== verification/HttpCore.thy ===== *)
theory HttpCore
  imports RustStr "HOL-Library.List_Lexorder" "HOL-Library.Char_ord" "HOL-Library.AList"
begin

text \<open>
  \<open>src/httpx/mod.rs\<close>: status texts, the \<open>Header\<close> multimap with canonical keys, URLs, the request
  record and the error types of the HTTP layer.  The \<open>HashMap\<close> inside \<open>Header\<close> is an association
  list with distinct keys; the code never depends on its order, since it sorts the entries before
  printing them.  Case conversion of non-ASCII letters in header names is the identity here.
\<close>

section \<open>Constants and status texts\<close>

definition METHOD_GET :: string where "METHOD_GET = ''GET''"
definition METHOD_POST :: string where "METHOD_POST = ''POST''"

definition STATUS_OK :: nat where "STATUS_OK = 200"
definition STATUS_BAD_REQUEST :: nat where "STATUS_BAD_REQUEST = 400"
definition STATUS_NOT_FOUND :: nat where "STATUS_NOT_FOUND = 404"
definition STATUS_METHOD_NOT_ALLOWED :: nat where "STATUS_METHOD_NOT_ALLOWED = 405"
definition STATUS_PAYLOAD_TOO_LARGE :: nat where "STATUS_PAYLOAD_TOO_LARGE = 413"
definition STATUS_URI_TOO_LONG :: nat where "STATUS_URI_TOO_LONG = 414"
definition STATUS_UPGRADE_REQUIRED :: nat where "STATUS_UPGRADE_REQUIRED = 426"
definition STATUS_REQUEST_HEADER_TOO_BIG :: nat where "STATUS_REQUEST_HEADER_TOO_BIG = 431"
definition STATUS_INTERNAL_SERVER_ERROR :: nat where "STATUS_INTERNAL_SERVER_ERROR = 500"
definition STATUS_BAD_GATEWAY :: nat where "STATUS_BAD_GATEWAY = 502"

definition status_text :: "nat \<Rightarrow> string" where
  "status_text code =
     (if code = 200 then ''OK''
      else if code = 400 then ''Bad Request''
      else if code = 401 then ''Unauthorized''
      else if code = 403 then ''Forbidden''
      else if code = 404 then ''Not Found''
      else if code = 405 then ''Method Not Allowed''
      else if code = 408 then ''Request Timeout''
      else if code = 413 then ''Payload Too Large''
      else if code = 414 then ''URI Too Long''
      else if code = 415 then ''Unsupported Media Type''
      else if code = 417 then ''Expectation Failed''
      else if code = 426 then ''Upgrade Required''
      else if code = 431 then ''Request Header Fields Too Large''
      else if code = 500 then ''Internal Server Error''
      else if code = 501 then ''Not Implemented''
      else if code = 502 then ''Bad Gateway''
      else if code = 503 then ''Service Unavailable''
      else if code = 504 then ''Gateway Timeout''
      else '''')"

section \<open>Header\<close>

definition canonical_part :: "string \<Rightarrow> string" where
  "canonical_part part =
     (case part of [] \<Rightarrow> [] | c # cs \<Rightarrow> to_ascii_upper c # map to_ascii_lower cs)"

text \<open>\<open>join(sep)\<close>.\<close>

fun join_with :: "string \<Rightarrow> string list \<Rightarrow> string" where
  "join_with sep [] = []"
| "join_with sep [p] = p"
| "join_with sep (p # q # ps) = p @ sep @ join_with sep (q # ps)"

definition canonical_mime_header_key :: "string \<Rightarrow> string" where
  "canonical_mime_header_key key = join_with ''-'' (map canonical_part (split_on (CHR ''-'') key))"

type_synonym header = "(string \<times> string list) list"

definition header_new :: header where
  "header_new = []"

definition header_values :: "string \<Rightarrow> header \<Rightarrow> string list option" where
  "header_values key h = map_of h (canonical_mime_header_key key)"

definition header_get :: "string \<Rightarrow> header \<Rightarrow> string option" where
  "header_get key h =
     (case map_of h (canonical_mime_header_key key) of
        Some (v # _) \<Rightarrow> Some v
      | _ \<Rightarrow> None)"

definition header_set :: "string \<Rightarrow> string \<Rightarrow> header \<Rightarrow> header" where
  "header_set key value h = AList.update (canonical_mime_header_key key) [value] h"

definition header_add :: "string \<Rightarrow> string \<Rightarrow> header \<Rightarrow> header" where
  "header_add key value h =
     (let ck = canonical_mime_header_key key;
          vs = (case map_of h ck of Some vs \<Rightarrow> vs | None \<Rightarrow> [])
      in AList.update ck (vs @ [value]) h)"

definition header_del :: "string \<Rightarrow> header \<Rightarrow> header" where
  "header_del key h = AList.delete (canonical_mime_header_key key) h"

text \<open>The entries in the order in which responses and requests print them.\<close>

definition header_sorted :: "header \<Rightarrow> header" where
  "header_sorted h = sort_key fst h"

text \<open>The \<open>write!(w, "{k}: {v}\r\n")\<close> loop over the sorted entries.\<close>

definition header_line :: "string \<Rightarrow> string \<Rightarrow> byte list" where
  "header_line k v = as_bytes (k @ '': '' @ v) @ [0x0d, 0x0a]"

definition header_lines :: "header \<Rightarrow> byte list" where
  "header_lines h = concat (map (\<lambda>(k, vs). concat (map (header_line k) vs)) (header_sorted h))"

section \<open>URL, request and errors\<close>

record url =
  url_path :: string
  url_raw_query :: string

definition url_string :: "url \<Rightarrow> string" where
  "url_string u = (if url_raw_query u = [] then url_path u else url_path u @ ''?'' @ url_raw_query u)"

record request =
  req_method :: string
  req_url :: url
  req_header :: header
  req_body :: "byte list"
  req_host :: string
  req_remote_addr :: string
  req_content_length :: int

record http_protocol_error =
  pe_status :: nat
  pe_msg :: string

definition protocol_error :: "nat \<Rightarrow> string \<Rightarrow> http_protocol_error" where
  "protocol_error st msg = \<lparr>pe_status = st, pe_msg = msg\<rparr>"

datatype read_request_error = Protocol http_protocol_error | Eof | Io io_kind

text \<open>\<open>From<io::Error>\<close>.\<close>

definition from_io :: "io_kind \<Rightarrow> read_request_error" where
  "from_io e = (if e = UnexpectedEof then Eof else Io e)"

section \<open>Laws of the header map\<close>

definition header_inv :: "header \<Rightarrow> bool" where
  "header_inv h \<longleftrightarrow> distinct (map fst h) \<and> (\<forall>(k, vs) \<in> set h. vs \<noteq> [])"

lemma header_inv_new [simp]: "header_inv header_new"
  by (simp add: header_inv_def header_new_def)

lemma header_get_set: "canonical_mime_header_key k = canonical_mime_header_key k' \<Longrightarrow>
  header_get k (header_set k' v h) = Some v"
  by (simp add: header_get_def header_set_def update_conv')

lemma header_get_set_other: "canonical_mime_header_key k \<noteq> canonical_mime_header_key k' \<Longrightarrow>
  header_get k (header_set k' v h) = header_get k h"
  by (simp add: header_get_def header_set_def update_conv')

lemma header_get_del: "header_get k (header_del k h) = None"
  by (simp add: header_get_def header_del_def delete_conv')

lemma update_entries: "x \<in> set (AList.update k v h) \<Longrightarrow> x = (k, v) \<or> x \<in> set h"
  by (induction h) (auto split: if_splits)

lemma header_inv_set: "header_inv h \<Longrightarrow> header_inv (header_set k v h)"
  unfolding header_inv_def header_set_def
  by (auto intro: distinct_update dest!: update_entries)

lemma header_inv_add: "header_inv h \<Longrightarrow> header_inv (header_add k v h)"
  unfolding header_inv_def header_add_def
  by (auto simp: Let_def intro: distinct_update dest!: update_entries)

lemma header_inv_del: "header_inv h \<Longrightarrow> header_inv (header_del k h)"
  unfolding header_inv_def header_del_def
  by (auto simp: AList.delete_eq distinct_map_filter)

lemma header_values_add:
  "header_values k (header_add k' v h) =
     (if canonical_mime_header_key k = canonical_mime_header_key k'
      then Some ((case header_values k h of Some vs \<Rightarrow> vs | None \<Rightarrow> []) @ [v]) else header_values k h)"
  by (simp add: header_values_def header_add_def Let_def update_conv')

end
