(* ===== verification/HttpParse.thy ===== *)
theory HttpParse
  imports HttpCore "HOL-Library.Monad_Syntax"
begin

text \<open>
  \<open>src/httpx/parse.rs\<close>: the request parser of the server and the response parser of the client.

  A buffered reader is the bytes still to come and what the connection does after them.  \<open>EndEof\<close> is an
  orderly end of stream: every further read returns 0 bytes, \<open>k\<close> more times when a deadline reader of
  \<open>server.rs\<close> or \<open>deadline_io.rs\<close> then reports \<open>TimedOut\<close>, or for ever when there is no deadline.
  \<open>EndErr\<close> is a failing read.  \<open>read_line\<close> may loop without consuming anything, so it and
  its callers live in the option monad: \<open>None\<close> is a call that never returns.
\<close>

section \<open>Readers\<close>

datatype reader_end = EndEof "nat option" | EndErr io_kind

record reader =
  rd_input :: "byte list"
  rd_end :: reader_end

text \<open>A read at the end of the input.\<close>

definition read_end :: "reader_end \<Rightarrow> io_kind option \<times> reader_end" where
  "read_end e =
     (case e of
        EndErr k \<Rightarrow> (Some k, e)
      | EndEof None \<Rightarrow> (None, e)
      | EndEof (Some 0) \<Rightarrow> (Some TimedOut, e)
      | EndEof (Some (Suc n)) \<Rightarrow> (None, EndEof (Some n)))"

text \<open>
  \<open>BufRead::read_until(b'\n', buf)\<close>: the bytes appended to the buffer (also when it fails), the result
  and the reader afterwards.
\<close>

definition read_until_lf :: "reader \<Rightarrow> byte list \<times> (io_kind + nat) \<times> reader" where
  "read_until_lf r =
     (case position (\<lambda>b. b = 0x0a) (rd_input r) of
        Some i \<Rightarrow> (take (Suc i) (rd_input r), Ok (Suc i), r\<lparr>rd_input := drop (Suc i) (rd_input r)\<rparr>)
      | None \<Rightarrow>
          (case read_end (rd_end r) of (er, e') \<Rightarrow>
             (rd_input r, (case er of Some k \<Rightarrow> Err k | None \<Rightarrow> Ok (length (rd_input r))),
              \<lparr>rd_input = [], rd_end = e'\<rparr>)))"

text \<open>\<open>Read::read_exact\<close> of \<open>n\<close> bytes.\<close>

definition read_exact :: "nat \<Rightarrow> reader \<Rightarrow> (io_kind + byte list) \<times> reader" where
  "read_exact n r =
     (if n \<le> length (rd_input r)
      then (Ok (take n (rd_input r)), r\<lparr>rd_input := drop n (rd_input r)\<rparr>)
      else (case read_end (rd_end r) of (er, e') \<Rightarrow>
        (Err (case er of Some k \<Rightarrow> k | None \<Rightarrow> UnexpectedEof), \<lparr>rd_input = [], rd_end = e'\<rparr>)))"

section \<open>Lines\<close>

definition MAX_REQUEST_LINE_BYTES :: nat where "MAX_REQUEST_LINE_BYTES = 8 * 1024"
definition MAX_HEADER_BYTES :: nat where "MAX_HEADER_BYTES = 16 * 1024"
definition MAX_HEADER_COUNT :: nat where "MAX_HEADER_COUNT = 64"
definition MAX_BODY_BYTES :: int where "MAX_BODY_BYTES = 1048576"

definition strip_crlf :: "byte list \<Rightarrow> string" where
  "strip_crlf buf =
     of_bytes (from_utf8_lossy
       (if 2 \<le> length buf \<and> buf ! (length buf - 2) = 0x0d \<and> buf ! (length buf - 1) = 0x0a
        then take (length buf - 2) buf
        else if buf \<noteq> [] \<and> last buf = 0x0a then take (length buf - 1) buf
        else buf))"

type_synonym 'a read_result = "((read_request_error + 'a) \<times> reader) option"

partial_function (option) read_line_loop :: "nat \<Rightarrow> byte list \<Rightarrow> reader \<Rightarrow> string read_result" where
  "read_line_loop limit buf0 r0 =
     (case read_until_lf r0 of (app, res, r) \<Rightarrow>
        let buf = buf0 @ app in
        (case res of
          Err e \<Rightarrow> Some (Err (if e = UnexpectedEof \<and> buf = [] then Eof else Io e), r)
        | Ok b \<Rightarrow>
            if b = 0 \<and> buf = [] then Some (Err Eof, r)
            else if length buf > limit then
              Some (Err (Protocol (protocol_error STATUS_URI_TOO_LONG
                (''line '' @ show_nat (length buf) @ '' bytes exceeds '' @ show_nat limit @ '' max''))), r)
            else if buf \<noteq> [] \<and> last buf = 0x0a then Some (Ok (strip_crlf buf), r)
            else if length buf \<ge> limit then
              Some (Err (Protocol (protocol_error STATUS_URI_TOO_LONG ''line exceeds bufio buffer'')), r)
            else read_line_loop limit buf r))"

definition read_line :: "nat \<Rightarrow> reader \<Rightarrow> string read_result" where
  "read_line limit r = read_line_loop limit [] r"

section \<open>Requests\<close>

definition parse_request_line :: "string \<Rightarrow> read_request_error + (string \<times> string \<times> string)" where
  "parse_request_line line =
     (case position (\<lambda>c. c = CHR '' '') line of
        None \<Rightarrow> Err (Protocol (protocol_error STATUS_BAD_REQUEST (''malformed request line: '' @ line)))
      | Some sp1 \<Rightarrow>
          let rest = drop (sp1 + 1) line in
          (case position (\<lambda>c. c = CHR '' '') rest of
             None \<Rightarrow> Err (Protocol (protocol_error STATUS_BAD_REQUEST (''malformed request line: '' @ line)))
           | Some sp2 \<Rightarrow>
               let meth = take sp1 line; target = take sp2 rest; version = drop (sp2 + 1) rest in
               if meth = [] \<or> target = [] \<or> version = []
               then Err (Protocol (protocol_error STATUS_BAD_REQUEST (''empty field in request line: '' @ line)))
               else Ok (meth, target, version)))"

definition parse_content_length :: "string \<Rightarrow> read_request_error + int" where
  "parse_content_length cl =
     (case parse_i64 cl of
        None \<Rightarrow> Err (Protocol (protocol_error STATUS_BAD_REQUEST (''invalid Content-Length: '' @ cl)))
      | Some n \<Rightarrow>
          if n < 0 then Err (Protocol (protocol_error STATUS_BAD_REQUEST (''invalid Content-Length: '' @ cl)))
          else Ok n)"

text \<open>The loop \<open>for i in 0..=MAX_HEADER_COUNT\<close>; the first argument counts the iterations left.\<close>

fun read_headers_loop ::
  "nat \<Rightarrow> header \<Rightarrow> nat \<Rightarrow> string \<Rightarrow> reader \<Rightarrow> (header \<times> string) read_result" where
  "read_headers_loop 0 headers total_bytes host r =
     Some (Err (Protocol (protocol_error STATUS_REQUEST_HEADER_TOO_BIG ''exceeded maxHeaderCount loop'')), r)"
| "read_headers_loop (Suc left) headers total_bytes0 host r0 =
     do {
       (lr, r) \<leftarrow> read_line MAX_REQUEST_LINE_BYTES r0;
       (case lr of
          Err e \<Rightarrow> Some (Err e, r)
        | Ok line \<Rightarrow>
            if line = [] then Some (Ok (headers, host), r)
            else
              let total_bytes = total_bytes0 + length line + 2; i = MAX_HEADER_COUNT - left in
              if total_bytes > MAX_HEADER_BYTES then
                Some (Err (Protocol (protocol_error STATUS_REQUEST_HEADER_TOO_BIG ''header section exceeds limit'')), r)
              else if i \<ge> MAX_HEADER_COUNT then
                Some (Err (Protocol (protocol_error STATUS_REQUEST_HEADER_TOO_BIG ''too many headers'')), r)
              else
                (case position (\<lambda>c. c = CHR '':'') line of
                   Some (Suc p) \<Rightarrow>
                     let key = trim (take (Suc p) line);
                         value = trim (drop (Suc p + 1) line);
                         ck = canonical_mime_header_key key
                     in read_headers_loop left (header_add ck value headers) total_bytes
                          (if ck = ''Host'' \<and> host = [] then value else host) r
                 | _ \<Rightarrow> Some (Err (Protocol (protocol_error STATUS_BAD_REQUEST (''malformed header: '' @ line))), r)))
     }"

definition read_headers :: "reader \<Rightarrow> (header \<times> string) read_result" where
  "read_headers r = read_headers_loop (MAX_HEADER_COUNT + 1) header_new 0 [] r"

definition split_path_query :: "string \<Rightarrow> string \<times> string" where
  "split_path_query target =
     (case position (\<lambda>c. c = CHR ''?'') target of
        Some i \<Rightarrow> (take i target, drop (i + 1) target)
      | None \<Rightarrow> (target, []))"

text \<open>The body stage, after \<open>on_headers_done\<close>.\<close>

definition read_body :: "header \<Rightarrow> reader \<Rightarrow> (read_request_error + (int \<times> byte list)) \<times> reader" where
  "read_body headers r =
     (case header_get ''Content-Length'' headers of
        None \<Rightarrow> (Ok (0, []), r)
      | Some cl \<Rightarrow>
          (case parse_content_length cl of
             Err e \<Rightarrow> (Err e, r)
           | Ok n \<Rightarrow>
               if n > MAX_BODY_BYTES then
                 (Err (Protocol (protocol_error STATUS_PAYLOAD_TOO_LARGE
                    (''body '' @ show_nat (nat n) @ '' bytes exceeds '' @ show_nat (nat MAX_BODY_BYTES) @ '' max''))), r)
               else if n > 0 then
                 (case read_exact (nat n) r of
                    (Err e, r') \<Rightarrow> (Err (from_io e), r')
                  | (Ok b, r') \<Rightarrow> (Ok (n, b), r'))
               else (Ok (n, []), r)))"

text \<open>\<open>on_headers_done\<close> is the callback that switches the deadline of the reader.\<close>

definition read_request :: "(reader \<Rightarrow> reader) \<Rightarrow> reader \<Rightarrow> request read_result" where
  "read_request on_headers_done r0 =
     do {
       (lr, r1) \<leftarrow> read_line MAX_REQUEST_LINE_BYTES r0;
       (case lr of
          Err e \<Rightarrow> Some (Err e, r1)
        | Ok line \<Rightarrow>
            (case parse_request_line line of
               Err e \<Rightarrow> Some (Err e, r1)
             | Ok (meth, target, version) \<Rightarrow>
                 if version \<noteq> ''HTTP/1.1'' \<and> version \<noteq> ''HTTP/1.0'' then
                   Some (Err (Protocol (protocol_error STATUS_UPGRADE_REQUIRED
                     (''unsupported HTTP version: '' @ version))), r1)
                 else if meth \<noteq> METHOD_GET \<and> meth \<noteq> METHOD_POST then
                   Some (Err (Protocol (protocol_error STATUS_METHOD_NOT_ALLOWED
                     (''unsupported method: '' @ meth))), r1)
                 else
                   do {
                     (hr, r2) \<leftarrow> read_headers r1;
                     (case hr of
                        Err e \<Rightarrow> Some (Err e, r2)
                      | Ok (headers, host) \<Rightarrow>
                          if version = ''HTTP/1.1'' \<and> host = [] then
                            Some (Err (Protocol (protocol_error STATUS_BAD_REQUEST ''HTTP/1.1 requires Host header'')), r2)
                          else if (case header_get ''Transfer-Encoding'' headers of
                                     None \<Rightarrow> False
                                   | Some te \<Rightarrow> list_ex (\<lambda>part. eq_ignore_ascii_case (trim part) ''chunked'')
                                                 (split_on (CHR '','') te)) then
                            Some (Err (Protocol (protocol_error STATUS_BAD_REQUEST ''chunked request body not supported'')), r2)
                          else
                            (case read_body headers (on_headers_done r2) of
                               (Err e, r3) \<Rightarrow> Some (Err e, r3)
                             | (Ok (n, body), r3) \<Rightarrow>
                                 if (case header_get ''Upgrade'' headers of
                                       None \<Rightarrow> False | Some up \<Rightarrow> eq_ignore_ascii_case up ''h2c'') then
                                   Some (Err (Protocol (protocol_error STATUS_UPGRADE_REQUIRED
                                     ''HTTP/2 cleartext upgrade not supported'')), r3)
                                 else
                                   let (path, query) = split_path_query target in
                                   Some (Ok \<lparr>req_method = meth, req_url = \<lparr>url_path = path, url_raw_query = query\<rparr>,
                                     req_header = headers, req_body = body, req_host = host,
                                     req_remote_addr = [], req_content_length = n\<rparr>, r3)))
                   }))
     }"

section \<open>Responses\<close>

text \<open>\<open>line.splitn(3, ' ')\<close>: at most three parts, the last one taken whole.\<close>

definition splitn3 :: "char \<Rightarrow> string \<Rightarrow> string list" where
  "splitn3 c s =
     (case position (\<lambda>x. x = c) s of
        None \<Rightarrow> [s]
      | Some i \<Rightarrow>
          (case position (\<lambda>x. x = c) (drop (i + 1) s) of
             None \<Rightarrow> [take i s, drop (i + 1) s]
           | Some j \<Rightarrow> [take i s, take j (drop (i + 1) s), drop (i + 1 + j + 1) s]))"

text \<open>\<open>str::parse::<u16>()\<close>.\<close>

definition parse_u16 :: "string \<Rightarrow> nat option" where
  "parse_u16 s =
     (let ds = (if s \<noteq> [] \<and> hd s = CHR ''+'' then tl s else s) in
      if ds = [] \<or> \<not> list_all digit_char ds \<or> dec_val ds \<ge> 65536 then None else Some (dec_val ds))"

definition parse_status_line :: "string \<Rightarrow> http_protocol_error + nat" where
  "parse_status_line line =
     (let parts = splitn3 (CHR '' '') line in
      if length parts < 2 then Err (protocol_error STATUS_BAD_GATEWAY (''malformed status line: '' @ line))
      else if take 5 (parts ! 0) \<noteq> ''HTTP/'' then
        Err (protocol_error STATUS_BAD_GATEWAY (''missing HTTP/ prefix: '' @ line))
      else
        (case parse_u16 (parts ! 1) of
           None \<Rightarrow> Err (protocol_error STATUS_BAD_GATEWAY (''invalid status code: '' @ parts ! 1))
         | Some code \<Rightarrow>
             if \<not> (100 \<le> code \<and> code \<le> 999)
             then Err (protocol_error STATUS_BAD_GATEWAY (''invalid status code: '' @ parts ! 1))
             else Ok code))"

record client_response =
  resp_status_code :: nat
  resp_header :: header
  resp_body :: "byte list"

text \<open>\<open>io_err_from_read_request\<close>, up to the message text of the \<open>io::Error\<close>.\<close>

definition io_err_from_read_request :: "read_request_error \<Rightarrow> io_kind" where
  "io_err_from_read_request e = (case e of Io k \<Rightarrow> k | Eof \<Rightarrow> UnexpectedEof | Protocol _ \<Rightarrow> InvalidData)"

type_synonym 'a io_result = "((io_kind + 'a) \<times> reader) option"

partial_function (option) read_trailers :: "byte list \<Rightarrow> reader \<Rightarrow> byte list io_result" where
  "read_trailers buf r0 =
     do {
       (lr, r) \<leftarrow> read_line MAX_REQUEST_LINE_BYTES r0;
       (case lr of
          Err e \<Rightarrow> Some (Err InvalidData, r)
        | Ok trailer \<Rightarrow> if trailer = [] then Some (Ok buf, r) else read_trailers buf r)
     }"

definition chunk_size_str :: "string \<Rightarrow> string" where
  "chunk_size_str line = takeWhile (\<lambda>c. c \<noteq> CHR '';'' \<and> c \<noteq> CHR '' '' \<and> c \<noteq> CHR 0x09) line"

partial_function (option) read_chunks :: "byte list \<Rightarrow> reader \<Rightarrow> byte list io_result" where
  "read_chunks buf r0 =
     do {
       (lr, r1) \<leftarrow> read_line 256 r0;
       (case lr of
          Err e \<Rightarrow> Some (Err InvalidData, r1)
        | Ok line \<Rightarrow>
            (case parse_hex_i64 (chunk_size_str line) of
               None \<Rightarrow> Some (Err InvalidData, r1)
             | Some sz \<Rightarrow>
                 if sz < 0 then Some (Err InvalidData, r1)
                 else if sz = 0 then read_trailers buf r1
                 else if int (length buf) + sz > MAX_BODY_BYTES then Some (Err InvalidData, r1)
                 else
                   (case read_exact (nat sz) r1 of
                      (Err e, r2) \<Rightarrow> Some (Err InvalidData, r2)
                    | (Ok chunk, r2) \<Rightarrow>
                        (case read_exact 2 r2 of
                           (Err e, r3) \<Rightarrow> Some (Err InvalidData, r3)
                         | (Ok crlf, r3) \<Rightarrow> read_chunks (buf @ chunk) r3))))
     }"

definition read_chunked_body :: "reader \<Rightarrow> byte list io_result" where
  "read_chunked_body r = read_chunks [] r"

definition read_response :: "reader \<Rightarrow> client_response io_result" where
  "read_response r0 =
     do {
       (lr, r1) \<leftarrow> read_line MAX_REQUEST_LINE_BYTES r0;
       (case lr of
          Err e \<Rightarrow> Some (Err (io_err_from_read_request e), r1)
        | Ok line \<Rightarrow>
            (case parse_status_line line of
               Err e \<Rightarrow> Some (Err InvalidData, r1)
             | Ok code \<Rightarrow>
                 do {
                   (hr, r2) \<leftarrow> read_headers r1;
                   (case hr of
                      Err e \<Rightarrow> Some (Err (io_err_from_read_request e), r2)
                    | Ok (headers, _) \<Rightarrow>
                        do {
                          (br, r3) \<leftarrow>
                            (case header_get ''Transfer-Encoding'' headers of
                               Some te \<Rightarrow>
                                 if eq_ignore_ascii_case te ''chunked'' then read_chunked_body r2
                                 else Some (Ok [], r2)
                             | None \<Rightarrow>
                                 (case header_get ''Content-Length'' headers of
                                    None \<Rightarrow> Some (Ok [], r2)
                                  | Some cl \<Rightarrow>
                                      (case parse_i64 cl of
                                         None \<Rightarrow> Some (Err InvalidData, r2)
                                       | Some n \<Rightarrow>
                                           if n < 0 \<or> n > MAX_BODY_BYTES then Some (Err InvalidData, r2)
                                           else Some (read_exact (nat n) r2))));
                          (case br of
                             Err e \<Rightarrow> Some (Err e, r3)
                           | Ok body \<Rightarrow>
                               Some (Ok \<lparr>resp_status_code = code, resp_header = headers, resp_body = body\<rparr>, r3))
                        })
                 }))
     }"

section \<open>When a line read returns\<close>

definition has_lf :: "byte list \<Rightarrow> bool" where
  "has_lf bs \<longleftrightarrow> 0x0a \<in> set bs"

lemma position_lf_None: "position (\<lambda>b. b = 0x0a) bs = None \<longleftrightarrow> \<not> has_lf bs"
  by (auto simp: position_None_iff has_lf_def)

lemma read_line_hit:
  assumes "position (\<lambda>b. b = 0x0a) (rd_input r) = Some i"
  shows "read_line limit r =
    Some (if Suc i > limit then
            Err (Protocol (protocol_error STATUS_URI_TOO_LONG
              (''line '' @ show_nat (Suc i) @ '' bytes exceeds '' @ show_nat limit @ '' max'')))
          else Ok (strip_crlf (take (Suc i) (rd_input r))), r\<lparr>rd_input := drop (Suc i) (rd_input r)\<rparr>)"
proof -
  have i: "i < length (rd_input r)" "rd_input r ! i = 0x0a" using position_SomeD [OF assms] by auto
  then have "length (take (Suc i) (rd_input r)) = Suc i" "take (Suc i) (rd_input r) \<noteq> []"
    "last (take (Suc i) (rd_input r)) = 0x0a" by (auto simp: take_Suc_conv_app_nth)
  then show ?thesis
    unfolding read_line_def
    by (subst read_line_loop.simps) (simp add: read_until_lf_def assms Let_def)
qed

text \<open>Once the end of stream is reached with a partial line in the buffer, the loop never returns.\<close>

definition stuck :: "nat \<Rightarrow> byte list \<Rightarrow> reader \<Rightarrow> bool" where
  "stuck limit buf r \<longleftrightarrow>
     buf \<noteq> [] \<and> last buf \<noteq> 0x0a \<and> length buf < limit \<and> rd_input r = [] \<and> rd_end r = EndEof None"

lemma read_line_loop_stuck:
  assumes "read_line_loop limit buf r = Some y"
  shows "\<not> stuck limit buf r"
proof (rule read_line_loop.raw_induct [OF _ assms, of "\<lambda>limit buf r y. \<not> stuck limit buf r"])
  fix f limit buf r y
  assume IH: "\<And>limit buf r y. f limit buf r = Some y \<Longrightarrow> \<not> stuck limit buf r"
    and eq: "(case read_until_lf r of (app, res, r) \<Rightarrow>
        let buf = buf @ app in
        (case res of
          Err e \<Rightarrow> Some (Err (if e = UnexpectedEof \<and> buf = [] then Eof else Io e), r)
        | Ok b \<Rightarrow>
            if b = 0 \<and> buf = [] then Some (Err Eof, r)
            else if length buf > limit then
              Some (Err (Protocol (protocol_error STATUS_URI_TOO_LONG
                (''line '' @ show_nat (length buf) @ '' bytes exceeds '' @ show_nat limit @ '' max''))), r)
            else if buf \<noteq> [] \<and> last buf = 0x0a then Some (Ok (strip_crlf buf), r)
            else if length buf \<ge> limit then
              Some (Err (Protocol (protocol_error STATUS_URI_TOO_LONG ''line exceeds bufio buffer'')), r)
            else f limit buf r)) = Some y"
  show "\<not> stuck limit buf r"
  proof
    assume s: "stuck limit buf r"
    then have "read_until_lf r = ([], Ok 0, r)" by (auto simp: stuck_def read_until_lf_def read_end_def)
    with eq s have "f limit buf r = Some y" by (simp add: stuck_def)
    with IH s show False by blast
  qed
qed

lemma read_line_loop_no_lf:
  assumes "\<not> has_lf (rd_input r)" "buf @ rd_input r \<noteq> []" "last (buf @ rd_input r) \<noteq> 0x0a"
    "length (buf @ rd_input r) < limit" "read_end (rd_end r) = (None, e)"
  shows "read_line_loop limit buf r = read_line_loop limit (buf @ rd_input r) \<lparr>rd_input = [], rd_end = e\<rparr>"
  using assms
  by (subst read_line_loop.simps)
    (auto simp: read_until_lf_def Let_def position_lf_None [THEN iffD2] simp del: last_append)

lemma read_line_loop_timed:
  "buf \<noteq> [] \<Longrightarrow> last buf \<noteq> 0x0a \<Longrightarrow> length buf < limit \<Longrightarrow>
   read_line_loop limit buf \<lparr>rd_input = [], rd_end = EndEof (Some k)\<rparr> =
     Some (Err (Io TimedOut), \<lparr>rd_input = [], rd_end = EndEof (Some 0)\<rparr>)"
proof (induction k)
  case 0
  then show ?case by (subst read_line_loop.simps) (simp add: read_until_lf_def read_end_def Let_def)
next
  case (Suc k)
  then show ?case
    by (subst read_line_loop_no_lf) (simp_all add: has_lf_def read_end_def)
qed

lemma last_no_lf: "\<not> has_lf bs \<Longrightarrow> bs \<noteq> [] \<Longrightarrow> last bs \<noteq> 0x0a"
  by (metis has_lf_def last_in_set)

lemma read_line_partial:
  assumes "\<not> has_lf (rd_input r)" "rd_input r \<noteq> []" "length (rd_input r) < limit"
  shows "read_line limit r = None \<longleftrightarrow> rd_end r = EndEof None"
proof -
  have pos: "position (\<lambda>b. b = 0x0a) (rd_input r) = None" using assms by (simp add: position_lf_None)
  have l: "last (rd_input r) \<noteq> 0x0a" using assms last_no_lf by simp
  have step: "read_line limit r = read_line_loop limit (rd_input r) \<lparr>rd_input = [], rd_end = e\<rparr>"
    if "read_end (rd_end r) = (None, e)" for e
    unfolding read_line_def using that l assms by (subst read_line_loop_no_lf) simp_all
  have fail: "read_line limit r \<noteq> None" if "read_end (rd_end r) = (Some k, e)" for k e
    unfolding read_line_def by (subst read_line_loop.simps) (simp add: read_until_lf_def pos that Let_def)
  consider k where "rd_end r = EndErr k" | "rd_end r = EndEof None" | "rd_end r = EndEof (Some 0)"
    | k where "rd_end r = EndEof (Some (Suc k))"
    by (metis not0_implies_Suc option.exhaust reader_end.exhaust)
  then show ?thesis
  proof cases
    case 2
    have "read_line_loop limit (rd_input r) \<lparr>rd_input = [], rd_end = EndEof None\<rparr> = None"
      using read_line_loop_stuck [of limit "rd_input r" "\<lparr>rd_input = [], rd_end = EndEof None\<rparr>"] l assms
      by (auto simp: stuck_def not_Some_eq [symmetric])
    then show ?thesis using step 2 by (simp add: read_end_def)
  next
    case 4
    then show ?thesis using step read_line_loop_timed l assms by (simp add: read_end_def)
  qed (use fail in \<open>simp_all add: read_end_def\<close>)
qed

lemma read_line_no_partial:
  assumes "\<not> has_lf (rd_input r)" "rd_input r = [] \<or> limit \<le> length (rd_input r)"
  shows "read_line limit r \<noteq> None"
proof -
  have "position (\<lambda>b. b = 0x0a) (rd_input r) = None" using assms by (simp add: position_lf_None)
  then show ?thesis
    unfolding read_line_def using assms(2)
    by (subst read_line_loop.simps) (auto simp: read_until_lf_def Let_def split: prod.split option.split)
qed

text \<open>
  C40. \<open>read_line\<close> fails to return exactly when the peer closes the connection in the middle of a
  line shorter than the limit and no read deadline is set: \<open>read_until\<close> then reports 0 bytes for ever,
  which the loop takes for progress because its buffer is not empty.  In every other case, a deadline
  included, it returns.
\<close>

theorem read_line_diverges_iff:
  "read_line limit r = None \<longleftrightarrow>
     rd_end r = EndEof None \<and> rd_input r \<noteq> [] \<and> \<not> has_lf (rd_input r) \<and> length (rd_input r) < limit"
proof (cases "has_lf (rd_input r)")
  case True
  then obtain i where "position (\<lambda>b. b = 0x0a) (rd_input r) = Some i"
    using position_lf_None by (metis option.exhaust)
  from read_line_hit [OF this] True show ?thesis by simp
next
  case False
  then show ?thesis
    using read_line_partial [OF False, of limit] read_line_no_partial [OF False, of limit]
    by (cases "rd_input r = [] \<or> limit \<le> length (rd_input r)") auto
qed

section \<open>Lines of text\<close>

definition text_char :: "char \<Rightarrow> bool" where
  "text_char c \<longleftrightarrow> 0x20 \<le> (of_char c :: byte) \<and> (of_char c :: byte) \<le> 0x7e"

definition crlf :: "byte list" where
  "crlf = [0x0d, 0x0a]"

lemma graphic_text_char: "graphic c \<Longrightarrow> text_char c"
  by (simp add: graphic_def text_char_def word_le_nat_alt)

lemma text_char_bytes:
  assumes "list_all text_char s"
  shows "ascii_bytes (as_bytes s)" "\<not> has_lf (as_bytes s)" "0x0d \<notin> set (as_bytes s)"
proof -
  have r: "unat b < 128 \<and> b \<noteq> 0x0a \<and> b \<noteq> 0x0d" if "b \<in> set (as_bytes s)" for b
    using assms that by (auto simp: as_bytes_def list_all_iff text_char_def word_le_nat_alt)
  show "ascii_bytes (as_bytes s)" using r by (auto simp: ascii_bytes_def list_all_iff word_less_nat_alt)
  show "\<not> has_lf (as_bytes s)" "0x0d \<notin> set (as_bytes s)" using r by (auto simp: has_lf_def)
qed

text \<open>A printable line followed by CRLF is read back exactly and leaves what follows.\<close>

lemma read_line_text:
  assumes "list_all text_char s" "length s + 2 \<le> limit"
  shows "read_line limit \<lparr>rd_input = as_bytes s @ crlf @ rest, rd_end = e\<rparr>
    = Some (Ok s, \<lparr>rd_input = rest, rd_end = e\<rparr>)"
proof -
  note tb = text_char_bytes [OF assms(1)]
  have p: "position (\<lambda>b. b = 0x0a) ((as_bytes s @ [0x0d]) @ 0x0a # rest) = Some (length (as_bytes s @ [0x0d]))"
    using tb(2) by (intro position_append_hit) (auto simp: has_lf_def)
  have "strip_crlf (as_bytes s @ [0x0d, 0x0a]) = s"
    using tb(1) by (simp add: strip_crlf_def nth_append from_utf8_lossy_ascii)
  then show ?thesis
    using read_line_hit [of "\<lparr>rd_input = as_bytes s @ crlf @ rest, rd_end = e\<rparr>" "length s + 1" limit] p assms(2)
    by (simp add: crlf_def)
qed

section \<open>Header sections\<close>

text \<open>What the writers of this code print as field names and values.\<close>

definition good_key :: "string \<Rightarrow> bool" where
  "good_key k \<longleftrightarrow> k \<noteq> [] \<and> list_all graphic k \<and> CHR '':'' \<notin> set k \<and> canonical_mime_header_key k = k"

definition good_value :: "string \<Rightarrow> bool" where
  "good_value v \<longleftrightarrow> list_all text_char v \<and> (v = [] \<or> (graphic (hd v) \<and> graphic (last v)))"

definition good_fields :: "(string \<times> string) list \<Rightarrow> bool" where
  "good_fields kvs \<longleftrightarrow> list_all (\<lambda>(k, v). good_key k \<and> good_value v \<and> length k + length v + 4 \<le> MAX_REQUEST_LINE_BYTES) kvs"

definition fields_bytes :: "(string \<times> string) list \<Rightarrow> byte list" where
  "fields_bytes kvs = concat (map (\<lambda>(k, v). header_line k v) kvs)"

definition fields_size :: "(string \<times> string) list \<Rightarrow> nat" where
  "fields_size kvs = sum_list (map (\<lambda>(k, v). length k + length v + 4) kvs)"

definition host_after :: "string \<Rightarrow> string \<times> string \<Rightarrow> string" where
  "host_after host kv = (if fst kv = ''Host'' \<and> host = [] then snd kv else host)"

lemma good_key_trim: "good_key k \<Longrightarrow> trim k = k"
  by (rule trim_graphic) (auto simp: good_key_def list_all_iff)

lemma header_line_text:
  assumes "good_key k" "good_value v"
  shows "list_all text_char (k @ '': '' @ v)"
  using assms by (auto simp: good_key_def good_value_def list_all_iff text_char_def
      dest!: graphic_text_char [unfolded text_char_def] bspec)

lemma read_headers_loop_field:
  assumes "good_key k" "good_value v" "length k + length v + 4 \<le> MAX_REQUEST_LINE_BYTES"
    and "total_bytes + (length k + length v + 4) \<le> MAX_HEADER_BYTES" "0 < left" "left \<le> MAX_HEADER_COUNT"
  shows "read_headers_loop (Suc left) headers total_bytes host
      \<lparr>rd_input = header_line k v @ rest, rd_end = e\<rparr>
    = read_headers_loop left (header_add k v headers) (total_bytes + (length k + length v + 4))
        (host_after host (k, v)) \<lparr>rd_input = rest, rd_end = e\<rparr>"
proof -
  define line where "line = k @ '': '' @ v"
  have rl: "read_line MAX_REQUEST_LINE_BYTES \<lparr>rd_input = header_line k v @ rest, rd_end = e\<rparr>
      = Some (Ok line, \<lparr>rd_input = rest, rd_end = e\<rparr>)"
    using read_line_text [OF header_line_text [OF assms(1,2)], of MAX_REQUEST_LINE_BYTES rest e] assms(3)
    by (simp add: header_line_def crlf_def line_def)
  obtain p where k: "length k = Suc p" using assms(1) by (cases k) (auto simp: good_key_def)
  have "position (\<lambda>c. c = CHR '':'') (k @ CHR '':'' # CHR '' '' # v) = Some (length k)"
    using assms(1) by (intro position_append_hit) (auto simp: good_key_def)
  then have p: "position (\<lambda>c. c = CHR '':'') line = Some (Suc p)" using k by (simp add: line_def)
  have tv: "trim (CHR '' '' # v) = v" using assms(2) by (intro trim_space) (simp add: good_value_def)
  have ck: "canonical_mime_header_key k = k" using assms(1) by (simp add: good_key_def)
  have parts: "take (Suc p) line = k" "drop (Suc (Suc p)) line = CHR '' '' # v" "line \<noteq> []"
    "length line = length k + length v + 2"
    using k by (simp_all add: line_def)
  have tot: "total_bytes + length line + 2 = total_bytes + (length k + length v + 4)"
    and cnt: "\<not> MAX_HEADER_COUNT - left \<ge> MAX_HEADER_COUNT"
    using parts(4) assms(5,6) by simp_all
  have big: "\<not> total_bytes + (length k + length v + 4) > MAX_HEADER_BYTES" using assms(4) by simp
  have sp: "drop (Suc p + 1) line = CHR '' '' # v" using parts(2) by simp
  show ?thesis
    by (simp only: read_headers_loop.simps rl bind.bind_lunit prod.case sum.case parts(1,3) if_False Let_def
        tot cnt big p option.case nat.case good_key_trim [OF assms(1)] sp tv ck host_after_def fst_conv snd_conv)
qed

lemma read_headers_loop_fields:
  assumes "good_fields kvs" "total_bytes + fields_size kvs \<le> MAX_HEADER_BYTES"
    and "length kvs < left" "left \<le> MAX_HEADER_COUNT + 1"
  shows "read_headers_loop left headers total_bytes host
      \<lparr>rd_input = fields_bytes kvs @ crlf @ rest, rd_end = e\<rparr>
    = Some (Ok (fold (\<lambda>(k, v). header_add k v) kvs headers, foldl host_after host kvs),
        \<lparr>rd_input = rest, rd_end = e\<rparr>)"
  using assms
proof (induction kvs arbitrary: left headers total_bytes host)
  case Nil
  then obtain l where "left = Suc l" by (cases left) auto
  moreover have "read_line MAX_REQUEST_LINE_BYTES \<lparr>rd_input = crlf @ rest, rd_end = e\<rparr>
      = Some (Ok [], \<lparr>rd_input = rest, rd_end = e\<rparr>)"
    using read_line_text [of "[]" MAX_REQUEST_LINE_BYTES rest e] by (simp add: MAX_REQUEST_LINE_BYTES_def)
  ultimately show ?case by (simp add: fields_bytes_def)
next
  case (Cons kv kvs)
  obtain k v where kv: "kv = (k, v)" by (cases kv)
  obtain l where l: "left = Suc l" using Cons.prems by (cases left) auto
  have "read_headers_loop left headers total_bytes host
      \<lparr>rd_input = header_line k v @ (fields_bytes kvs @ crlf @ rest), rd_end = e\<rparr>
    = read_headers_loop l (header_add k v headers) (total_bytes + (length k + length v + 4))
        (host_after host (k, v)) \<lparr>rd_input = fields_bytes kvs @ crlf @ rest, rd_end = e\<rparr>"
    unfolding l using Cons.prems kv l
    by (intro read_headers_loop_field) (auto simp: good_fields_def fields_size_def)
  also have "\<dots> = Some (Ok (fold (\<lambda>(k, v). header_add k v) kvs (header_add k v headers),
      foldl host_after (host_after host (k, v)) kvs), \<lparr>rd_input = rest, rd_end = e\<rparr>)"
    using Cons.prems kv l by (intro Cons.IH) (auto simp: good_fields_def fields_size_def)
  finally show ?case using kv by (simp add: fields_bytes_def)
qed

lemma read_headers_fields:
  assumes "good_fields kvs" "fields_size kvs \<le> MAX_HEADER_BYTES" "length kvs \<le> MAX_HEADER_COUNT"
  shows "read_headers \<lparr>rd_input = fields_bytes kvs @ crlf @ rest, rd_end = e\<rparr>
    = Some (Ok (fold (\<lambda>(k, v). header_add k v) kvs [], foldl host_after [] kvs), \<lparr>rd_input = rest, rd_end = e\<rparr>)"
  unfolding read_headers_def header_new_def using assms by (intro read_headers_loop_fields) simp_all

text \<open>Reading back the fields of a header map gives the map, in the sorted order in which it was printed.\<close>

definition header_fields :: "header \<Rightarrow> (string \<times> string) list" where
  "header_fields h = concat (map (\<lambda>(k, vs). map (Pair k) vs) h)"

lemma header_lines_fields: "header_lines h = fields_bytes (header_fields (header_sorted h))"
proof -
  have "concat (map (\<lambda>(k, vs). concat (map (header_line k) vs)) h')
      = concat (map (\<lambda>(k, v). header_line k v) (concat (map (\<lambda>(k, vs). map (Pair k) vs) h')))" for h'
    by (induction h') (auto simp: comp_def)
  then show ?thesis by (simp add: header_lines_def fields_bytes_def header_fields_def)
qed

lemma update_append_new: "k \<notin> fst ` set h \<Longrightarrow> AList.update k v h = h @ [(k, v)]"
  by (induction h) auto

lemma update_append_last: "k \<notin> fst ` set h \<Longrightarrow> AList.update k w (h @ [(k, v)]) = h @ [(k, w)]"
  by (induction h) auto

lemma fold_header_add_same:
  assumes "k \<notin> fst ` set h" "canonical_mime_header_key k = k"
  shows "fold (\<lambda>(k, v). header_add k v) (map (Pair k) vs) (h @ [(k, us)]) = h @ [(k, us @ vs)]"
proof (induction vs arbitrary: us)
  case (Cons v vs)
  have "map_of h k = None" using assms(1) by (simp add: map_of_eq_None_iff)
  then show ?case
    using Cons assms by (simp add: header_add_def Let_def update_append_last map_add_def)
qed simp

lemma fold_header_add_fields:
  assumes "header_inv (h @ h')" "\<forall>k \<in> fst ` set h'. canonical_mime_header_key k = k"
  shows "fold (\<lambda>(k, v). header_add k v) (header_fields h') h = h @ h'"
  using assms
proof (induction h' arbitrary: h)
  case Nil
  then show ?case by (simp add: header_fields_def)
next
  case (Cons kvs h')
  obtain k v vs where kvs: "kvs = (k, v # vs)"
    using Cons.prems(1) by (cases kvs; cases "snd kvs") (auto simp: header_inv_def)
  have k: "k \<notin> fst ` set h" "canonical_mime_header_key k = k"
    using Cons.prems kvs by (auto simp: header_inv_def)
  then have "header_add k v h = h @ [(k, [v])]"
    by (simp add: header_add_def Let_def update_append_new map_of_eq_None_iff [THEN iffD2])
  then have "fold (\<lambda>(k, v). header_add k v) (header_fields (kvs # h')) h
      = fold (\<lambda>(k, v). header_add k v) (header_fields h') (h @ [(k, [v] @ vs)])"
    using fold_header_add_same [OF k, of vs "[v]"] kvs by (simp add: header_fields_def)
  also have "\<dots> = (h @ [(k, v # vs)]) @ h'"
    using Cons.prems kvs by (subst Cons.IH) simp_all
  finally show ?case using kvs by simp
qed

section \<open>Chunked bodies\<close>

definition chunk_bytes :: "byte list \<Rightarrow> byte list" where
  "chunk_bytes data = as_bytes (show_hex (length data)) @ crlf @ data @ crlf"

definition last_chunk :: "byte list" where
  "last_chunk = as_bytes ''0'' @ crlf @ crlf"

lemma length_show_hex: "n < 16 ^ Suc k \<Longrightarrow> length (show_hex n) \<le> Suc k"
proof (induction k arbitrary: n)
  case 0
  then show ?case by (simp add: show_hex.simps [of n])
next
  case (Suc k)
  then have "n div 16 < 16 ^ Suc k" by (simp add: less_mult_imp_div_less mult.commute)
  from Suc.IH [OF this] show ?case by (simp add: show_hex.simps [of n])
qed

lemma show_hex_text: "list_all text_char (show_hex n)" "chunk_size_str (show_hex n) = show_hex n"
proof -
  have c: "graphic c \<and> c \<noteq> CHR '';'' \<and> c \<noteq> CHR '' ''" if "c \<in> set (show_hex n)" for c
    using that show_hex_chars [of n] graphic_hex_digit by fastforce
  then show "list_all text_char (show_hex n)" by (auto simp: list_all_iff graphic_text_char)
  have "c \<noteq> CHR 0x09" if "c \<in> set (show_hex n)" for c
    using c [OF that] by (auto simp: graphic_def)
  with c show "chunk_size_str (show_hex n) = show_hex n" by (auto simp: chunk_size_str_def takeWhile_eq_all_conv)
qed

lemma read_chunks_chunk:
  assumes "data \<noteq> []" "int (length buf) + int (length data) \<le> MAX_BODY_BYTES"
  shows "read_chunks buf \<lparr>rd_input = chunk_bytes data @ rest, rd_end = e\<rparr>
    = read_chunks (buf @ data) \<lparr>rd_input = rest, rd_end = e\<rparr>"
proof -
  have len: "length data < 16 ^ Suc 5" using assms(2) by (simp add: MAX_BODY_BYTES_def)
  have rl: "read_line 256 \<lparr>rd_input = chunk_bytes data @ rest, rd_end = e\<rparr>
      = Some (Ok (show_hex (length data)), \<lparr>rd_input = data @ crlf @ rest, rd_end = e\<rparr>)"
    using read_line_text [OF show_hex_text(1), of "length data" 256 "data @ crlf @ rest" e] length_show_hex [OF len]
    by (simp add: chunk_bytes_def)
  have ph: "parse_hex_i64 (show_hex (length data)) = Some (int (length data))"
    using len by (intro parse_hex_i64_show_hex) simp
  show ?thesis
    by (subst read_chunks.simps)
      (use assms in \<open>simp add: rl ph show_hex_text(2) read_exact_def crlf_def\<close>)
qed

lemma read_chunks_last:
  "read_chunks buf \<lparr>rd_input = last_chunk @ rest, rd_end = e\<rparr> = Some (Ok buf, \<lparr>rd_input = rest, rd_end = e\<rparr>)"
proof -
  have rl: "read_line 256 \<lparr>rd_input = last_chunk @ rest, rd_end = e\<rparr>
      = Some (Ok ''0'', \<lparr>rd_input = crlf @ rest, rd_end = e\<rparr>)"
    using read_line_text [of "''0''" 256 "crlf @ rest" e] by (simp add: last_chunk_def text_char_def)
  have rt: "read_trailers buf \<lparr>rd_input = crlf @ rest, rd_end = e\<rparr> = Some (Ok buf, \<lparr>rd_input = rest, rd_end = e\<rparr>)"
    using read_line_text [of "[]" MAX_REQUEST_LINE_BYTES rest e]
    by (subst read_trailers.simps) (simp add: MAX_REQUEST_LINE_BYTES_def)
  have "parse_hex_i64 (chunk_size_str ''0'') = Some 0"
    by (simp add: parse_hex_i64_def chunk_size_str_def hex_char_val_def hex_val_def)
  then show ?thesis by (subst read_chunks.simps) (simp add: rl rt)
qed

lemma read_chunks_all:
  assumes "[] \<notin> set ds" "int (length buf) + int (length (concat ds)) \<le> MAX_BODY_BYTES"
  shows "read_chunks buf \<lparr>rd_input = concat (map chunk_bytes ds) @ last_chunk @ rest, rd_end = e\<rparr>
    = Some (Ok (buf @ concat ds), \<lparr>rd_input = rest, rd_end = e\<rparr>)"
  using assms
proof (induction ds arbitrary: buf)
  case Nil
  then show ?case by (simp add: read_chunks_last)
next
  case (Cons d ds)
  then show ?case
    using read_chunks_chunk [of d buf "concat (map chunk_bytes ds) @ last_chunk @ rest" e] by auto
qed

end
