(* ===== verification/IoWriter.thy ===== *)
theory IoWriter
  imports HttpCore
begin

text \<open>
  The output side of the HTTP server: \<open>io::Write\<close> with its provided \<open>write_all\<close> and \<open>write_fmt\<close>, the
  standard library's \<open>BufWriter\<close>, and the deadline-checking socket writers of \<open>deadline_io.rs\<close> and
  \<open>server.rs\<close>.  The locale \<open>byte_writer\<close> is the contract of \<open>io::Write\<close>: what a writer has accepted
  grows by exactly the bytes it reports.  \<open>BufWriter\<close> turns a writer into a writer.
\<close>

section \<open>The provided methods of \<open>io::Write\<close>\<close>

type_synonym 'w write_fn = "byte list \<Rightarrow> 'w \<Rightarrow> (io_kind + nat) \<times> 'w"
type_synonym 'w flush_fn = "'w \<Rightarrow> (io_kind + unit) \<times> 'w"

function write_all :: "'w write_fn \<Rightarrow> byte list \<Rightarrow> 'w \<Rightarrow> (io_kind + unit) \<times> 'w" where
  "write_all wr b w =
     (if b = [] then (Ok (), w)
      else (case wr b w of
              (Err e, w') \<Rightarrow> (Err e, w')
            | (Ok n, w') \<Rightarrow> if n = 0 then (Err WriteZero, w') else write_all wr (drop n b) w'))"
  by pat_completeness auto
termination
  by (relation "measure (\<lambda>(wr, b, w). length b)") auto

declare write_all.simps [simp del]

text \<open>\<open>write!\<close>: one \<open>write_all\<close> per piece of the format, stopping at the first error.\<close>

fun write_fmt :: "(byte list \<Rightarrow> 'w \<Rightarrow> (io_kind + unit) \<times> 'w) \<Rightarrow> byte list list \<Rightarrow> 'w \<Rightarrow> (io_kind + unit) \<times> 'w" where
  "write_fmt wa [] w = (Ok (), w)"
| "write_fmt wa (p # ps) w =
     (case wa p w of (Err e, w') \<Rightarrow> (Err e, w') | (Ok _, w') \<Rightarrow> write_fmt wa ps w')"

section \<open>BufWriter\<close>

definition DEFAULT_BUF_SIZE :: nat where "DEFAULT_BUF_SIZE = 8192"

record 'w bufw =
  bw_buf :: "byte list"
  bw_inner :: 'w

definition bufw_new :: "'w \<Rightarrow> 'w bufw" where
  "bufw_new w = \<lparr>bw_buf = [], bw_inner = w\<rparr>"

function flush_buf_loop :: "'w write_fn \<Rightarrow> byte list \<Rightarrow> 'w \<Rightarrow> (io_kind + unit) \<times> byte list \<times> 'w" where
  "flush_buf_loop wr b w =
     (if b = [] then (Ok (), [], w)
      else (case wr b w of
              (Err e, w') \<Rightarrow> (Err e, b, w')
            | (Ok n, w') \<Rightarrow> if n = 0 then (Err WriteZero, b, w') else flush_buf_loop wr (drop n b) w'))"
  by pat_completeness auto
termination
  by (relation "measure (\<lambda>(wr, b, w). length b)") auto

declare flush_buf_loop.simps [simp del]

definition flush_buf :: "'w write_fn \<Rightarrow> 'w bufw \<Rightarrow> (io_kind + unit) \<times> 'w bufw" where
  "flush_buf wr bw = (case flush_buf_loop wr (bw_buf bw) (bw_inner bw) of
     (r, b, w) \<Rightarrow> (r, \<lparr>bw_buf = b, bw_inner = w\<rparr>))"

text \<open>
  \<open>write\<close> and \<open>write_all\<close>: data that fits is buffered; otherwise the buffer is flushed first, and
  data as large as the buffer goes to the inner writer directly.
\<close>

definition make_room :: "'w write_fn \<Rightarrow> byte list \<Rightarrow> 'w bufw \<Rightarrow> (io_kind + unit) \<times> 'w bufw" where
  "make_room wr b bw =
     (if length b > DEFAULT_BUF_SIZE - length (bw_buf bw) then flush_buf wr bw else (Ok (), bw))"

definition bufw_write :: "'w write_fn \<Rightarrow> 'w bufw write_fn" where
  "bufw_write wr b bw =
     (case make_room wr b bw of
        (Err e, bw') \<Rightarrow> (Err e, bw')
      | (Ok _, bw') \<Rightarrow>
          if length b \<ge> DEFAULT_BUF_SIZE
          then (case wr b (bw_inner bw') of (r, w) \<Rightarrow> (r, bw'\<lparr>bw_inner := w\<rparr>))
          else (Ok (length b), bw'\<lparr>bw_buf := bw_buf bw' @ b\<rparr>))"

definition bufw_write_all :: "'w write_fn \<Rightarrow> byte list \<Rightarrow> 'w bufw \<Rightarrow> (io_kind + unit) \<times> 'w bufw" where
  "bufw_write_all wr b bw =
     (case make_room wr b bw of
        (Err e, bw') \<Rightarrow> (Err e, bw')
      | (Ok _, bw') \<Rightarrow>
          if length b \<ge> DEFAULT_BUF_SIZE
          then (case write_all wr b (bw_inner bw') of (r, w) \<Rightarrow> (r, bw'\<lparr>bw_inner := w\<rparr>))
          else (Ok (), bw'\<lparr>bw_buf := bw_buf bw' @ b\<rparr>))"

definition bufw_flush :: "'w write_fn \<Rightarrow> 'w flush_fn \<Rightarrow> 'w bufw flush_fn" where
  "bufw_flush wr fl bw =
     (case flush_buf wr bw of
        (Err e, bw') \<Rightarrow> (Err e, bw')
      | (Ok _, bw') \<Rightarrow> (case fl (bw_inner bw') of (r, w) \<Rightarrow> (r, bw'\<lparr>bw_inner := w\<rparr>)))"

section \<open>Sockets with an absolute deadline\<close>

text \<open>
  A TCP stream for writing: the bytes the kernel has accepted, the timeout set on the socket, and the
  environment: the clock at each call and what the kernel does with the \<open>i\<close>-th write.  A kernel that
  accepts more bytes than offered does not exist, so a count is cut at the length offered.
\<close>

record tcp_stream =
  tcp_out :: "byte list"
  tcp_timeout :: "nat option"
  tcp_calls :: nat
  tcp_clock :: "nat \<Rightarrow> nat"
  tcp_kernel :: "nat \<Rightarrow> io_kind + nat"
  tcp_deadline :: "nat option"

text \<open>\<open>apply_write_deadline(stream, deadline)\<close>; times in milliseconds.\<close>

definition apply_write_deadline :: "nat option \<Rightarrow> tcp_stream \<Rightarrow> (io_kind + unit) \<times> tcp_stream" where
  "apply_write_deadline dl s =
     (case dl of
        None \<Rightarrow> (Ok (), s\<lparr>tcp_timeout := None\<rparr>)
      | Some d \<Rightarrow>
          let now = tcp_clock s (tcp_calls s) in
          if now \<ge> d then (Err TimedOut, s)
          else (Ok (), s\<lparr>tcp_timeout := Some (max (d - now) 1)\<rparr>))"

definition kernel_write :: "tcp_stream write_fn" where
  "kernel_write b s =
     (case tcp_kernel s (tcp_calls s) of
        Err e \<Rightarrow> (Err e, s\<lparr>tcp_calls := tcp_calls s + 1\<rparr>)
      | Ok n \<Rightarrow> (Ok (min n (length b)),
          s\<lparr>tcp_calls := tcp_calls s + 1, tcp_out := tcp_out s @ take n b\<rparr>))"

definition deadline_write :: "tcp_stream write_fn" where
  "deadline_write b s =
     (case apply_write_deadline (tcp_deadline s) s of
        (Err e, s') \<Rightarrow> (Err e, s')
      | (Ok _, s') \<Rightarrow> kernel_write b s')"

definition deadline_flush :: "tcp_stream flush_fn" where
  "deadline_flush s = apply_write_deadline (tcp_deadline s) s"

section \<open>The contract\<close>

text \<open>What a \<open>BufWriter\<close> has accepted: what its inner writer has, and the buffer.\<close>

definition bufw_acc :: "('w \<Rightarrow> byte list) \<Rightarrow> 'w bufw \<Rightarrow> byte list" where
  "bufw_acc acc bw = acc (bw_inner bw) @ bw_buf bw"

definition bufw_healthy :: "('w \<Rightarrow> bool) \<Rightarrow> 'w bufw \<Rightarrow> bool" where
  "bufw_healthy healthy bw \<longleftrightarrow> healthy (bw_inner bw)"

locale byte_writer =
  fixes wr :: "'w write_fn" and fl :: "'w flush_fn" and acc :: "'w \<Rightarrow> byte list"
  assumes wr_ok: "wr b w = (Ok n, w') \<Longrightarrow> n \<le> length b \<and> acc w' = acc w @ take n b"
    and wr_err: "wr b w = (Err e, w') \<Longrightarrow> acc w' = acc w"
    and fl_acc: "fl w = (r, w') \<Longrightarrow> acc w' = acc w"
begin

lemma write_all_ok:
  "write_all wr b w = (Ok (), w') \<Longrightarrow> acc w' = acc w @ b"
proof (induction "length b" arbitrary: b w rule: less_induct)
  case less
  show ?case
  proof (cases "b = []")
    case True
    then show ?thesis using less.prems by (simp add: write_all.simps)
  next
    case False
    then obtain n w1 where n: "wr b w = (Ok n, w1)" "n \<noteq> 0" "write_all wr (drop n b) w1 = (Ok (), w')"
      using less.prems by (auto simp: write_all.simps [of wr b] split: prod.splits sum.splits if_splits)
    then have "acc w' = acc w1 @ drop n b" using False by (intro less.hyps) simp_all
    with wr_ok [OF n(1)] show ?thesis by simp
  qed
qed

lemma flush_buf_loop_acc:
  "flush_buf_loop wr b w = (r, b', w') \<Longrightarrow> acc w' @ b' = acc w @ b \<and> (r = Ok () \<longrightarrow> b' = [])"
proof (induction "length b" arbitrary: b w rule: less_induct)
  case less
  show ?case
  proof (cases "b = []")
    case True
    then show ?thesis using less.prems by (simp add: flush_buf_loop.simps)
  next
    case False
    consider e w1 where "wr b w = (Err e, w1)" | w1 where "wr b w = (Ok 0, w1)"
      | n w1 where "wr b w = (Ok (Suc n), w1)"
      by (metis not0_implies_Suc old.prod.exhaust sum.exhaust_sel)
    then show ?thesis
    proof cases
      case 1
      then show ?thesis using less.prems False wr_err [OF 1] by (auto simp: flush_buf_loop.simps [of wr b])
    next
      case 2
      then show ?thesis using less.prems False wr_ok [OF 2] by (auto simp: flush_buf_loop.simps [of wr b])
    next
      case 3
      then have "flush_buf_loop wr (drop (Suc n) b) w1 = (r, b', w')"
        using less.prems False by (simp add: flush_buf_loop.simps [of wr b])
      from less.hyps [OF _ this] wr_ok [OF 3] False show ?thesis by simp
    qed
  qed
qed

lemma flush_buf_acc: "flush_buf wr bw = (r, bw') \<Longrightarrow> bufw_acc acc bw' = bufw_acc acc bw \<and> (r = Ok () \<longrightarrow> bw_buf bw' = [])"
  by (auto simp: flush_buf_def bufw_acc_def split: prod.splits dest!: flush_buf_loop_acc)

lemma make_room_acc:
  assumes "make_room wr b bw = (r, bw')"
  shows "bufw_acc acc bw' = bufw_acc acc bw" "r = Ok () \<Longrightarrow> length b \<ge> DEFAULT_BUF_SIZE \<Longrightarrow> bw_buf bw' = []"
proof -
  show "bufw_acc acc bw' = bufw_acc acc bw"
    using assms by (auto simp: make_room_def split: if_splits dest: flush_buf_acc)
  assume "r = Ok ()" "length b \<ge> DEFAULT_BUF_SIZE"
  then show "bw_buf bw' = []"
    using assms length_greater_0_conv [of "bw_buf bw"]
    by (cases "bw_buf bw = []") (auto simp: make_room_def DEFAULT_BUF_SIZE_def split: if_splits dest: flush_buf_acc
        simp del: length_greater_0_conv)
qed

text \<open>A \<open>BufWriter\<close> over a writer keeps the contract.\<close>

lemma bufw_byte_writer: "byte_writer (bufw_write wr) (bufw_flush wr fl) (bufw_acc acc)"
proof
  fix b bw n bw'
  assume "bufw_write wr b bw = (Ok n, bw')"
  then obtain bw1 where m: "make_room wr b bw = (Ok (), bw1)"
    and r: "(if length b \<ge> DEFAULT_BUF_SIZE
          then (case wr b (bw_inner bw1) of (r, w) \<Rightarrow> (r, bw1\<lparr>bw_inner := w\<rparr>))
          else (Ok (length b), bw1\<lparr>bw_buf := bw_buf bw1 @ b\<rparr>)) = (Ok n, bw')"
    by (cases "make_room wr b bw"; cases "fst (make_room wr b bw)") (auto simp: bufw_write_def)
  then show "n \<le> length b \<and> bufw_acc acc bw' = bufw_acc acc bw @ take n b"
    using make_room_acc [OF m]
    by (auto simp: bufw_acc_def split: if_splits prod.splits dest!: wr_ok)
next
  fix b bw e bw'
  assume "bufw_write wr b bw = (Err e, bw')"
  then show "bufw_acc acc bw' = bufw_acc acc bw"
    by (auto simp: bufw_write_def bufw_acc_def split: prod.splits sum.splits if_splits
        dest!: make_room_acc(1) wr_err)
next
  fix bw r bw'
  assume "bufw_flush wr fl bw = (r, bw')"
  then show "bufw_acc acc bw' = bufw_acc acc bw"
    by (auto simp: bufw_flush_def bufw_acc_def split: prod.splits sum.splits dest!: flush_buf_acc fl_acc)
qed

lemma bufw_write_all_ok:
  assumes "bufw_write_all wr b bw = (Ok (), bw')"
  shows "bufw_acc acc bw' = bufw_acc acc bw @ b"
proof -
  obtain bw1 where m: "make_room wr b bw = (Ok (), bw1)"
    and r: "(if length b \<ge> DEFAULT_BUF_SIZE
          then (case write_all wr b (bw_inner bw1) of (r, w) \<Rightarrow> (r, bw1\<lparr>bw_inner := w\<rparr>))
          else (Ok (), bw1\<lparr>bw_buf := bw_buf bw1 @ b\<rparr>)) = (Ok (), bw')"
    using assms by (cases "make_room wr b bw"; cases "fst (make_room wr b bw)") (auto simp: bufw_write_all_def)
  then show ?thesis
    using make_room_acc [OF m]
    by (auto simp: bufw_acc_def split: if_splits prod.splits dest!: write_all_ok)
qed

lemma bufw_write_fmt_ok:
  "write_fmt (bufw_write_all wr) ps bw = (Ok (), bw') \<Longrightarrow> bufw_acc acc bw' = bufw_acc acc bw @ concat ps"
  by (induction ps arbitrary: bw) (auto split: prod.splits sum.splits dest!: bufw_write_all_ok)

lemma bufw_flush_acc: "bufw_flush wr fl bw = (r, bw') \<Longrightarrow> bufw_acc acc bw' = bufw_acc acc bw"
  by (rule byte_writer.fl_acc [OF bufw_byte_writer])

lemma bufw_flush_buf: "bufw_flush wr fl bw = (Ok (), bw') \<Longrightarrow> bw_buf bw' = []"
  by (auto simp: bufw_flush_def split: prod.splits sum.splits dest!: flush_buf_acc)

end

text \<open>A writer whose connection is healthy accepts something of every non-empty offer.\<close>

locale healthy_writer = byte_writer wr fl acc
  for wr :: "'w write_fn" and fl :: "'w flush_fn" and acc :: "'w \<Rightarrow> byte list" +
  fixes healthy :: "'w \<Rightarrow> bool"
  assumes wr_healthy: "healthy w \<Longrightarrow> b \<noteq> [] \<Longrightarrow> \<exists>n w'. wr b w = (Ok n, w') \<and> 0 < n \<and> healthy w'"
    and fl_healthy: "healthy w \<Longrightarrow> \<exists>w'. fl w = (Ok (), w') \<and> healthy w'"
begin

lemma write_all_healthy: "healthy w \<Longrightarrow> \<exists>w'. write_all wr b w = (Ok (), w') \<and> healthy w'"
proof (induction "length b" arbitrary: b w rule: less_induct)
  case less
  show ?case
  proof (cases "b = []")
    case False
    obtain n w1 where n: "wr b w = (Ok n, w1)" "0 < n" "healthy w1" using wr_healthy [OF less.prems False] by blast
    with less.hyps [of "drop n b" w1] False show ?thesis by (simp add: write_all.simps [of wr b])
  qed (simp add: write_all.simps less.prems)
qed

lemma flush_buf_loop_healthy: "healthy w \<Longrightarrow> \<exists>w'. flush_buf_loop wr b w = (Ok (), [], w') \<and> healthy w'"
proof (induction "length b" arbitrary: b w rule: less_induct)
  case less
  show ?case
  proof (cases "b = []")
    case False
    obtain n w1 where n: "wr b w = (Ok n, w1)" "0 < n" "healthy w1" using wr_healthy [OF less.prems False] by blast
    with less.hyps [of "drop n b" w1] False show ?thesis by (simp add: flush_buf_loop.simps [of wr b])
  qed (simp add: flush_buf_loop.simps less.prems)
qed

lemma flush_buf_healthy: "bufw_healthy healthy bw \<Longrightarrow> \<exists>bw'. flush_buf wr bw = (Ok (), bw') \<and> bufw_healthy healthy bw'"
  using flush_buf_loop_healthy [of "bw_inner bw" "bw_buf bw"] by (auto simp: flush_buf_def bufw_healthy_def)

lemma make_room_healthy: "bufw_healthy healthy bw \<Longrightarrow> \<exists>bw'. make_room wr b bw = (Ok (), bw') \<and> bufw_healthy healthy bw'"
  using flush_buf_healthy by (simp add: make_room_def)

lemma bufw_write_all_healthy:
  assumes "bufw_healthy healthy bw"
  shows "\<exists>bw'. bufw_write_all wr b bw = (Ok (), bw') \<and> bufw_healthy healthy bw'"
proof -
  obtain bw1 where m: "make_room wr b bw = (Ok (), bw1)" "bufw_healthy healthy bw1" using make_room_healthy [OF assms] by blast
  then show ?thesis
    using write_all_healthy [of "bw_inner bw1" b] by (auto simp: bufw_write_all_def bufw_healthy_def)
qed

lemma bufw_healthy_writer: "healthy_writer (bufw_write wr) (bufw_flush wr fl) (bufw_acc acc) (bufw_healthy healthy)"
proof (intro healthy_writer.intro bufw_byte_writer healthy_writer_axioms.intro)
  fix bw and b :: "byte list"
  assume h: "bufw_healthy healthy bw" and b: "b \<noteq> []"
  obtain bw1 where m: "make_room wr b bw = (Ok (), bw1)" "bufw_healthy healthy bw1" using make_room_healthy [OF h] by blast
  then show "\<exists>n bw'. bufw_write wr b bw = (Ok n, bw') \<and> 0 < n \<and> bufw_healthy healthy bw'"
    using wr_healthy [of "bw_inner bw1" b] b by (auto simp: bufw_write_def bufw_healthy_def)
next
  fix bw
  assume "bufw_healthy healthy bw"
  then obtain bw1 where m: "flush_buf wr bw = (Ok (), bw1)" "bufw_healthy healthy bw1" using flush_buf_healthy by blast
  then show "\<exists>bw'. bufw_flush wr fl bw = (Ok (), bw') \<and> bufw_healthy healthy bw'"
    using fl_healthy [of "bw_inner bw1"] by (auto simp: bufw_flush_def bufw_healthy_def)
qed

lemma write_fmt_healthy:
  "bufw_healthy healthy bw \<Longrightarrow> \<exists>bw'. write_fmt (bufw_write_all wr) ps bw = (Ok (), bw') \<and> bufw_healthy healthy bw'"
proof (induction ps arbitrary: bw)
  case (Cons p ps)
  then show ?case using bufw_write_all_healthy [OF Cons.prems, of p] by auto
qed simp

end

lemma take_min: "take (min n (length b)) b = take n b"
  by (simp add: min_def)

section \<open>The contract holds for the server's connections\<close>

text \<open>The kernel accepts data from now on, and the deadline, if there is one, is not reached.\<close>

definition before_deadline :: "tcp_stream \<Rightarrow> bool" where
  "before_deadline s \<longleftrightarrow>
     (case tcp_deadline s of None \<Rightarrow> True | Some d \<Rightarrow> \<forall>i \<ge> tcp_calls s. tcp_clock s i < d)"

definition tcp_healthy :: "tcp_stream \<Rightarrow> bool" where
  "tcp_healthy s \<longleftrightarrow> before_deadline s \<and> (\<forall>i \<ge> tcp_calls s. \<exists>n > 0. tcp_kernel s i = Ok n)"

lemma apply_write_deadline_healthy:
  assumes "before_deadline s"
  obtains x where "apply_write_deadline (tcp_deadline s) s = (Ok (), s\<lparr>tcp_timeout := x\<rparr>)"
  using assms
  by (fastforce simp: apply_write_deadline_def before_deadline_def Let_def not_le split: option.splits)

interpretation tcp: healthy_writer deadline_write deadline_flush tcp_out tcp_healthy
proof
  fix b s n s'
  assume "deadline_write b s = (Ok n, s')"
  then show "n \<le> length b \<and> tcp_out s' = tcp_out s @ take n b"
    by (auto simp: deadline_write_def apply_write_deadline_def kernel_write_def Let_def take_min
        split: option.splits sum.splits if_splits)
next
  fix b s e s'
  assume "deadline_write b s = (Err e, s')"
  then show "tcp_out s' = tcp_out s"
    by (auto simp: deadline_write_def apply_write_deadline_def kernel_write_def Let_def
        split: option.splits sum.splits if_splits)
next
  fix s r s'
  assume "deadline_flush s = (r, s')"
  then show "tcp_out s' = tcp_out s"
    by (auto simp: deadline_flush_def apply_write_deadline_def Let_def split: option.splits if_splits)
next
  fix s and b :: "byte list"
  assume h: "tcp_healthy s" and b: "b \<noteq> []"
  then obtain n where n: "n > 0" "tcp_kernel s (tcp_calls s) = Ok n" by (auto simp: tcp_healthy_def)
  obtain x where x: "apply_write_deadline (tcp_deadline s) s = (Ok (), s\<lparr>tcp_timeout := x\<rparr>)"
    using h apply_write_deadline_healthy [of s] by (auto simp: tcp_healthy_def)
  from n h b show "\<exists>n s'. deadline_write b s = (Ok n, s') \<and> 0 < n \<and> tcp_healthy s'"
    by (auto simp: deadline_write_def x kernel_write_def tcp_healthy_def before_deadline_def split: option.splits)
next
  fix s
  assume h: "tcp_healthy s"
  obtain x where "apply_write_deadline (tcp_deadline s) s = (Ok (), s\<lparr>tcp_timeout := x\<rparr>)"
    using h apply_write_deadline_healthy [of s] by (auto simp: tcp_healthy_def)
  then show "\<exists>s'. deadline_flush s = (Ok (), s') \<and> tcp_healthy s'"
    using h by (auto simp: deadline_flush_def tcp_healthy_def before_deadline_def split: option.splits)
qed

text \<open>The \<open>BufWriter\<close> of \<open>serve_conn_inner\<close> over the deadline writer.\<close>

interpretation conn: healthy_writer "bufw_write deadline_write" "bufw_flush deadline_write deadline_flush"
  "bufw_acc tcp_out" "bufw_healthy tcp_healthy"
  by (rule tcp.bufw_healthy_writer)

end
