(* ===== verification/Rtp.thy ===== *)
theory Rtp
  imports Prelude
begin

text \<open>
  RTP header parsing and Annex-B NAL extraction of \<open>src/video/rtp.rs\<close>.  The lemmas show which
  datagrams \<open>parse_rtp\<close> accepts and what it reads from them, and that \<open>extract_nals_annexb\<close> is the
  inverse of start-code framing.
\<close>

section \<open>RTP packets\<close>

definition RTP_HEADER_LEN :: nat where
  "RTP_HEADER_LEN = 12"

definition NAL_TYPE_NON_IDR :: byte where
  "NAL_TYPE_NON_IDR = 1"

definition NAL_TYPE_IDR :: byte where
  "NAL_TYPE_IDR = 5"

definition NAL_TYPE_SPS :: byte where
  "NAL_TYPE_SPS = 7"

definition NAL_TYPE_PPS :: byte where
  "NAL_TYPE_PPS = 8"

record rtp_packet =
  rp_marker :: bool
  rp_pt :: byte
  rp_seq :: u16
  rp_timestamp :: u32
  rp_ssrc :: u32
  rp_payload :: "byte list"

datatype rtp_error =
    RtpTooShort nat
  | RtpVersion byte
  | RtpCsrcCount byte
  | RtpExtension

definition parse_rtp :: "byte list \<Rightarrow> rtp_error + rtp_packet" where
  "parse_rtp b =
     (if length b < RTP_HEADER_LEN then Err (RtpTooShort (length b))
      else
        let v = drop_bit 6 (b ! 0) AND 0x03 in
        if v \<noteq> 2 then Err (RtpVersion v)
        else
          let cc = b ! 0 AND 0x0f in
          if cc \<noteq> 0 then Err (RtpCsrcCount cc)
          else
            let x = drop_bit 4 (b ! 0) AND 0x01 in
            if x \<noteq> 0 then Err RtpExtension
            else Ok \<lparr>
              rp_marker = (drop_bit 7 (b ! 1) = 1),
              rp_pt = b ! 1 AND 0x7f,
              rp_seq = u16_from_be_bytes (b ! 2) (b ! 3),
              rp_timestamp = u32_from_be_bytes (b ! 4) (b ! 5) (b ! 6) (b ! 7),
              rp_ssrc = u32_from_be_bytes (b ! 8) (b ! 9) (b ! 10) (b ! 11),
              rp_payload = drop RTP_HEADER_LEN b\<rparr>)"

section \<open>NAL units\<close>

record nal_unit =
  nal_type :: byte
  nal_data :: "byte list"
  nal_timestamp :: u32
  nal_epoch :: u32

definition START_CODE :: "byte list" where
  "START_CODE = [0x00, 0x00, 0x00, 0x01]"

definition find_start_code :: "byte list \<Rightarrow> nat option" where
  "find_start_code hay = find_sub START_CODE hay"

text \<open>The \<open>NalUnit\<close> literal of the source, built from a non-empty run of bytes.\<close>

definition mk_nal :: "byte list \<Rightarrow> u32 \<Rightarrow> nal_unit" where
  "mk_nal data ts = \<lparr>nal_type = hd data AND 0x1f, nal_data = data, nal_timestamp = ts, nal_epoch = 0\<rparr>"

text \<open>The loop behind the first start code.\<close>

function nal_loop :: "byte list \<Rightarrow> u32 \<Rightarrow> nal_unit list" where
  "nal_loop rest ts =
     (case find_start_code rest of
        None \<Rightarrow> if rest \<noteq> [] then [mk_nal rest ts] else []
      | Some i \<Rightarrow>
          (if take i rest \<noteq> [] then [mk_nal (take i rest) ts] else [])
          @ nal_loop (drop (i + length START_CODE) rest) ts)"
  by pat_completeness auto
termination
proof (relation "measure (\<lambda>(rest, ts). length rest)")
  fix rest :: "byte list" and ts :: u32 and i
  assume "find_start_code rest = Some i"
  then have "i + length START_CODE \<le> length rest"
    unfolding find_start_code_def by (blast dest: find_sub_SomeD)
  then show "((drop (i + length START_CODE) rest, ts), rest, ts) \<in> measure (\<lambda>(rest, ts). length rest)"
    by (simp add: START_CODE_def)
qed simp

declare nal_loop.simps [simp del]

definition extract_nals_annexb :: "byte list \<Rightarrow> u32 \<Rightarrow> nal_unit list" where
  "extract_nals_annexb payload ts =
     (case find_start_code payload of
        None \<Rightarrow> if payload \<noteq> [] then [mk_nal payload ts] else []
      | Some i \<Rightarrow>
          (if i > 0 then [mk_nal (take i payload) ts] else [])
          @ nal_loop (drop (i + length START_CODE) payload) ts)"

section \<open>Correctness of header parsing\<close>

text \<open>The 12-byte header a sender writes: version 2, the padding bit, no extension, no CSRC.\<close>

definition rtp_header :: "bool \<Rightarrow> rtp_packet \<Rightarrow> byte list" where
  "rtp_header padding p =
     [if padding then 0xa0 else 0x80,
      (if rp_marker p then 0x80 else 0) OR (rp_pt p AND 0x7f)]
     @ u16_to_be_bytes (rp_seq p) @ u32_to_be_bytes (rp_timestamp p) @ u32_to_be_bytes (rp_ssrc p)"

lemma marker_pt_byte:
  "drop_bit 7 ((if m then 0x80 else 0) OR (t AND 0x7f) :: byte) = (if m then 1 else 0)"
  "((if m then 0x80 else 0) OR (t AND 0x7f) :: byte) AND 0x7f = t AND 0x7f"
  "drop_bit 7 b = 1 \<Longrightarrow> 0x80 OR (b AND 0x7f) = (b :: byte)"
  "drop_bit 7 b \<noteq> 1 \<Longrightarrow> (b AND 0x7f) = (b :: byte)"
  by (auto simp: byte_eq_bits bit_simps)

lemma first_byte_ok:
  "drop_bit 6 b AND 0x03 = 2 \<and> b AND 0x0f = 0 \<and> drop_bit 4 b AND 0x01 = 0
     \<longleftrightarrow> b = (0x80 :: byte) \<or> b = 0xa0"
  by (auto simp: byte_eq_bits bit_simps)

lemma parse_rtp_complete:
  assumes "rp_pt p AND 0x7f = rp_pt p"
  shows "parse_rtp (rtp_header padding p @ rp_payload p) = Ok p"
proof -
  have "drop_bit 6 (if padding then 0xa0 else 0x80 :: byte) AND 0x03 = 2"
    "(if padding then 0xa0 else 0x80 :: byte) AND 0x0f = 0"
    "drop_bit 4 (if padding then 0xa0 else 0x80 :: byte) AND 0x01 = 0"
    using first_byte_ok [of "if padding then 0xa0 else 0x80"] by auto
  moreover define mb where "mb = (if rp_marker p then 0x80 else 0) OR (rp_pt p AND 0x7f)"
  moreover have "(drop_bit 7 mb = 1) = rp_marker p" "mb AND 0x7f = rp_pt p"
    using assms unfolding mb_def marker_pt_byte by simp_all
  ultimately show ?thesis
    unfolding parse_rtp_def rtp_header_def RTP_HEADER_LEN_def u16_to_be_bytes_def u32_to_be_bytes_def
      mb_def [symmetric]
    by (simp add: byte_simps Let_def)
qed

lemma parse_rtp_sound:
  assumes "parse_rtp b = Ok p"
  shows "rp_pt p AND 0x7f = rp_pt p \<and> (\<exists>padding. b = rtp_header padding p @ rp_payload p)"
proof -
  have len: "12 \<le> length b" and first: "b ! 0 = 0x80 \<or> b ! 0 = 0xa0"
    and p: "p = \<lparr>rp_marker = (drop_bit 7 (b ! 1) = 1), rp_pt = b ! 1 AND 0x7f,
      rp_seq = u16_from_be_bytes (b ! 2) (b ! 3),
      rp_timestamp = u32_from_be_bytes (b ! 4) (b ! 5) (b ! 6) (b ! 7),
      rp_ssrc = u32_from_be_bytes (b ! 8) (b ! 9) (b ! 10) (b ! 11), rp_payload = drop 12 b\<rparr>"
    using assms unfolding parse_rtp_def RTP_HEADER_LEN_def Let_def first_byte_ok [symmetric]
    by (simp_all only: sum.distinct sum.inject not_less simp_thms split: if_splits)
  obtain b0 b1 b2 b3 b4 b5 b6 b7 b8 b9 b10 b11 r where
    b: "b = b0 # b1 # b2 # b3 # b4 # b5 # b6 # b7 # b8 # b9 # b10 # b11 # r"
    using len by (auto simp: eval_nat_numeral Suc_le_length_iff)
  have "b = rtp_header (b0 = 0xa0) p @ rp_payload p"
    using first unfolding p b by (auto simp: rtp_header_def byte_simps marker_pt_byte)
  then show ?thesis using p by auto
qed

text \<open>
  \<open>parse_rtp\<close> accepts exactly the datagrams that start with a version-2 header without extension and
  without CSRC entries; the padding bit may be set and any payload type is accepted.  Every field of the
  returned packet is the one the header encodes, and the payload is everything behind the 12 header bytes.
\<close>

theorem parse_rtp_iff:
  "parse_rtp b = Ok p \<longleftrightarrow>
     rp_pt p AND 0x7f = rp_pt p \<and> (\<exists>padding. b = rtp_header padding p @ rp_payload p)"
  using parse_rtp_sound [of b p] parse_rtp_complete [of p] by blast

section \<open>Correctness of NAL extraction\<close>

lemma START_CODE_not_Nil [simp]: "START_CODE \<noteq> []" "length START_CODE = 4"
  by (simp_all add: START_CODE_def)

text \<open>The start code has no border, so a code behind a code-free prefix is found where it stands.\<close>

lemma take_4_prefix:
  assumes "take 4 (x # xs) \<noteq> START_CODE"
  shows "take 4 ((x # xs) @ START_CODE @ ys) \<noteq> START_CODE"
proof -
  consider "xs = []" | a where "xs = [a]" | a b where "xs = [a, b]" | a b c r where "xs = a # b # c # r"
    by (cases xs rule: list.exhaust; cases "tl xs" rule: list.exhaust; cases "tl (tl xs)" rule: list.exhaust) auto
  then show ?thesis
    using assms by cases (auto simp: START_CODE_def)
qed

lemma find_sub_start_code:
  "find_sub START_CODE xs = None \<Longrightarrow> find_sub START_CODE (xs @ START_CODE @ ys) = Some (length xs)"
proof (induction xs)
  case Nil
  then show ?case by (simp add: START_CODE_def)
next
  case (Cons x xs)
  then have "take 4 (x # xs) \<noteq> START_CODE" "find_sub START_CODE xs = None"
    by (auto split: if_splits)
  with Cons.IH take_4_prefix [of x xs ys] show ?case by simp
qed

text \<open>A NAL unit that framing can carry: non-empty and free of start codes.\<close>

definition nal_clean :: "byte list \<Rightarrow> bool" where
  "nal_clean d \<longleftrightarrow> d \<noteq> [] \<and> find_start_code d = None"

definition annexb_join :: "byte list list \<Rightarrow> byte list" where
  "annexb_join ds = concat (map (\<lambda>d. START_CODE @ d) ds)"

lemma nal_loop_join:
  "list_all nal_clean ds \<Longrightarrow> nal_clean d \<Longrightarrow>
     nal_loop (d @ annexb_join ds) ts = map (\<lambda>d. mk_nal d ts) (d # ds)"
proof (induction ds arbitrary: d)
  case Nil
  then show ?case by (subst nal_loop.simps) (simp add: nal_clean_def annexb_join_def)
next
  case (Cons e ds)
  have "find_start_code (d @ annexb_join (e # ds)) = Some (length d)"
    using Cons.prems find_sub_start_code [of d "e @ annexb_join ds"]
    by (simp add: nal_clean_def annexb_join_def find_start_code_def)
  moreover have "drop (length d + 4) (d @ annexb_join (e # ds)) = e @ annexb_join ds"
    by (simp add: annexb_join_def)
  ultimately show ?case
    using Cons.prems Cons.IH [of e]
    by (subst nal_loop.simps) (simp add: nal_clean_def)
qed

text \<open>
  NAL extraction inverts Annex-B framing: for NAL units that are non-empty and contain no start code,
  extracting from their start-code framed concatenation gives exactly these units in order, each with its
  type taken from its first byte, the frame's timestamp and epoch 0.
\<close>

theorem extract_nals_roundtrip:
  assumes "list_all nal_clean ds"
  shows "extract_nals_annexb (annexb_join ds) ts = map (\<lambda>d. mk_nal d ts) ds"
proof (cases ds)
  case Nil
  then show ?thesis by (simp add: annexb_join_def extract_nals_annexb_def find_start_code_def)
next
  case (Cons d es)
  have "find_start_code (annexb_join ds) = Some 0"
    using find_sub_start_code [of "[]" "d @ annexb_join es"]
    by (simp add: Cons annexb_join_def find_start_code_def)
  moreover have "drop 4 (annexb_join ds) = d @ annexb_join es"
    by (simp add: Cons annexb_join_def)
  ultimately show ?thesis
    using assms nal_loop_join [of es d ts] Cons by (simp add: extract_nals_annexb_def)
qed

theorem extract_nals_roundtrip_witness:
  "extract_nals_annexb (annexb_join [[0x67, 1], [0x68, 0, 0], [0x65]]) 7
     = map (\<lambda>d. mk_nal d 7) [[0x67, 1], [0x68, 0, 0], [0x65]]"
  by (rule extract_nals_roundtrip) (simp add: nal_clean_def find_start_code_def START_CODE_def)

end
