(* ===== verification/FrameBuffer.thy ===== *)
theory FrameBuffer
  imports Rtp
begin

text \<open>
  The fan-out buffer of \<open>src/video/frame_buffer.rs\<close>.  A consumer's \<open>sync_channel(64)\<close> is a queue in
  a store indexed by channel number; a sender is a channel number.  \<open>fb_push\<close> is split, as in the
  source, into the part under the mutex (seed update and snapshot of the senders) and the delivery outside
  it, so that other operations can come between the two; the step relation at the end interleaves them.
  The lemmas show the drop-newest discipline, the consistency of the seeds and the state invariant under
  every interleaving.
\<close>

definition CONSUMER_CHAN_DEPTH :: nat where
  "CONSUMER_CHAN_DEPTH = 64"

datatype wait_idr_error = WaitClosed | WaitTimeout

record chan =
  ch_queue :: "nal_unit list"
  ch_rx_alive :: bool

record frame_buffer =
  fb_sps :: "nal_unit option"
  fb_pps :: "nal_unit option"
  fb_idr :: "nal_unit option"
  fb_idr_ready :: bool
  fb_closed :: bool
  fb_consumers :: "(nat \<times> nat) list"
  fb_next_id :: nat
  fb_chans :: "chan list"

definition new_frame_buffer :: frame_buffer where
  "new_frame_buffer = \<lparr>fb_sps = None, fb_pps = None, fb_idr = None, fb_idr_ready = False,
     fb_closed = False, fb_consumers = [], fb_next_id = 0, fb_chans = []\<rparr>"

section \<open>Operations\<close>

text \<open>The critical section of \<open>push\<close>: update the seeds, return the senders to deliver to.\<close>

definition store_seed :: "nal_unit \<Rightarrow> frame_buffer \<Rightarrow> frame_buffer" where
  "store_seed n fb =
     (if nal_type n = NAL_TYPE_SPS then fb\<lparr>fb_sps := Some n\<rparr>
      else if nal_type n = NAL_TYPE_PPS then fb\<lparr>fb_pps := Some n\<rparr>
      else if nal_type n = NAL_TYPE_IDR then fb\<lparr>fb_idr := Some n, fb_idr_ready := True\<rparr>
      else fb)"

definition push_locked :: "nal_unit \<Rightarrow> frame_buffer \<Rightarrow> nat list \<times> frame_buffer" where
  "push_locked n fb =
     (if fb_closed fb then ([], fb)
      else let fb1 = store_seed n fb in (map snd (fb_consumers fb1), fb1))"

text \<open>\<open>SyncSender::try_send\<close>: full or disconnected channels discard the value.\<close>

definition try_send :: "nal_unit \<Rightarrow> nat \<Rightarrow> frame_buffer \<Rightarrow> frame_buffer" where
  "try_send n c fb =
     (let ch = fb_chans fb ! c in
      if ch_rx_alive ch \<and> length (ch_queue ch) < CONSUMER_CHAN_DEPTH
      then fb\<lparr>fb_chans := (fb_chans fb)[c := ch\<lparr>ch_queue := ch_queue ch @ [n]\<rparr>]\<rparr>
      else fb)"

definition fan_out :: "nal_unit \<Rightarrow> nat list \<Rightarrow> frame_buffer \<Rightarrow> frame_buffer" where
  "fan_out n senders fb = fold (try_send n) senders fb"

definition fb_push :: "nal_unit \<Rightarrow> frame_buffer \<Rightarrow> frame_buffer" where
  "fb_push n fb = (case push_locked n fb of (senders, fb1) \<Rightarrow> fan_out n senders fb1)"

text \<open>
  \<open>subscribe\<close> returns the receiver (its channel), the subscription handle's id and the new state; a closed
  buffer gives a channel without sender and a handle without id.
\<close>

definition subscribe :: "frame_buffer \<Rightarrow> nat \<times> nat option \<times> frame_buffer" where
  "subscribe fb =
     (let c = length (fb_chans fb);
          fb1 = fb\<lparr>fb_chans := fb_chans fb @ [\<lparr>ch_queue = [], ch_rx_alive = True\<rparr>]\<rparr>
      in if fb_closed fb then (c, None, fb1)
         else (c, Some (fb_next_id fb),
               fb1\<lparr>fb_next_id := fb_next_id fb + 1, fb_consumers := fb_consumers fb @ [(fb_next_id fb, c)]\<rparr>))"

definition latest_idr :: "frame_buffer \<Rightarrow> (nal_unit \<times> nal_unit \<times> nal_unit) option" where
  "latest_idr fb =
     (case (fb_sps fb, fb_pps fb, fb_idr fb) of
        (Some sps, Some pps, Some idr) \<Rightarrow>
          if nal_epoch sps = nal_epoch idr \<and> nal_epoch pps = nal_epoch idr then Some (sps, pps, idr) else None
      | _ \<Rightarrow> None)"

text \<open>
  The loop of \<open>wait_idr\<close>.  Each iteration holds the lock and sees a buffer state and the time left until
  the deadline (0 when it has passed); the list is what the successive iterations see.  \<open>None\<close> is a wait
  that has not returned yet.
\<close>

fun wait_idr :: "(frame_buffer \<times> nat) list \<Rightarrow> (wait_idr_error + unit) option" where
  "wait_idr [] = None"
| "wait_idr ((fb, remaining) # obs) =
     (if fb_closed fb then Some (Err WaitClosed)
      else if fb_idr_ready fb then Some (Ok ())
      else if remaining = 0 then Some (Err WaitTimeout)
      else wait_idr obs)"

definition close :: "frame_buffer \<Rightarrow> frame_buffer" where
  "close fb = (if fb_closed fb then fb else fb\<lparr>fb_closed := True, fb_consumers := []\<rparr>)"

definition consumer_count :: "frame_buffer \<Rightarrow> nat" where
  "consumer_count fb = length (fb_consumers fb)"

definition remove_consumer :: "nat \<Rightarrow> frame_buffer \<Rightarrow> frame_buffer" where
  "remove_consumer i fb = fb\<lparr>fb_consumers := filter (\<lambda>(cid, _). cid \<noteq> i) (fb_consumers fb)\<rparr>"

text \<open>Dropping a \<open>Subscription\<close> (explicitly or by scope end).\<close>

definition drop_subscription :: "nat option \<Rightarrow> frame_buffer \<Rightarrow> frame_buffer" where
  "drop_subscription sid fb = (case sid of None \<Rightarrow> fb | Some i \<Rightarrow> remove_consumer i fb)"

text \<open>The consumer's side of the channel: \<open>recv\<close> takes the oldest value, dropping the receiver disconnects.\<close>

definition chan_recv :: "nat \<Rightarrow> frame_buffer \<Rightarrow> nal_unit option \<times> frame_buffer" where
  "chan_recv c fb =
     (case ch_queue (fb_chans fb ! c) of
        [] \<Rightarrow> (None, fb)
      | n # q \<Rightarrow> (Some n, fb\<lparr>fb_chans := (fb_chans fb)[c := (fb_chans fb ! c)\<lparr>ch_queue := q\<rparr>]\<rparr>))"

definition drop_receiver :: "nat \<Rightarrow> frame_buffer \<Rightarrow> frame_buffer" where
  "drop_receiver c fb =
     fb\<lparr>fb_chans := (fb_chans fb)[c := (fb_chans fb ! c)\<lparr>ch_rx_alive := False\<rparr>]\<rparr>"

section \<open>The state invariant\<close>

definition fb_inv :: "frame_buffer \<Rightarrow> bool" where
  "fb_inv fb \<longleftrightarrow>
     (\<forall>ch \<in> set (fb_chans fb). length (ch_queue ch) \<le> CONSUMER_CHAN_DEPTH)
   \<and> distinct (map fst (fb_consumers fb)) \<and> distinct (map snd (fb_consumers fb))
   \<and> (\<forall>(i, c) \<in> set (fb_consumers fb). i < fb_next_id fb \<and> c < length (fb_chans fb))
   \<and> (fb_closed fb \<longrightarrow> fb_consumers fb = [])
   \<and> (fb_idr_ready fb \<longleftrightarrow> fb_idr fb \<noteq> None)
   \<and> (\<forall>n. fb_sps fb = Some n \<longrightarrow> nal_type n = NAL_TYPE_SPS)
   \<and> (\<forall>n. fb_pps fb = Some n \<longrightarrow> nal_type n = NAL_TYPE_PPS)
   \<and> (\<forall>n. fb_idr fb = Some n \<longrightarrow> nal_type n = NAL_TYPE_IDR)"

lemma nal_types_distinct [simp]:
  "NAL_TYPE_SPS \<noteq> NAL_TYPE_PPS" "NAL_TYPE_SPS \<noteq> NAL_TYPE_IDR" "NAL_TYPE_PPS \<noteq> NAL_TYPE_IDR"
  "NAL_TYPE_PPS \<noteq> NAL_TYPE_SPS" "NAL_TYPE_IDR \<noteq> NAL_TYPE_SPS" "NAL_TYPE_IDR \<noteq> NAL_TYPE_PPS"
  by (simp_all add: NAL_TYPE_SPS_def NAL_TYPE_PPS_def NAL_TYPE_IDR_def)

lemma fb_inv_new: "fb_inv new_frame_buffer"
  by (simp add: fb_inv_def new_frame_buffer_def)

lemma fb_inv_store_seed: "fb_inv fb \<Longrightarrow> fb_inv (store_seed n fb)"
  by (simp add: fb_inv_def store_seed_def)

lemma fb_inv_push_locked: "fb_inv fb \<Longrightarrow> fb_inv (snd (push_locked n fb))"
  by (simp add: push_locked_def Let_def fb_inv_store_seed)

lemma fb_inv_try_send:
  assumes "fb_inv fb"
  shows "fb_inv (try_send n c fb)"
  using assms
  by (auto simp: fb_inv_def try_send_def Let_def dest!: set_update_subset_insert [THEN subsetD] split: if_splits)

lemma fb_inv_fan_out: "fb_inv fb \<Longrightarrow> fb_inv (fan_out n cs fb)"
  unfolding fan_out_def by (induction cs arbitrary: fb) (simp_all add: fb_inv_try_send)

lemma fb_inv_push: "fb_inv fb \<Longrightarrow> fb_inv (fb_push n fb)"
  using fb_inv_push_locked [of fb n] by (auto simp: fb_push_def fb_inv_fan_out split: prod.splits)

lemma fb_inv_subscribe: "fb_inv fb \<Longrightarrow> fb_inv (snd (snd (subscribe fb)))"
  by (fastforce simp: fb_inv_def subscribe_def Let_def)

lemma fb_inv_close: "fb_inv fb \<Longrightarrow> fb_inv (close fb)"
  by (simp add: fb_inv_def close_def)

lemma fb_inv_remove_consumer: "fb_inv fb \<Longrightarrow> fb_inv (remove_consumer i fb)"
  by (auto simp: fb_inv_def remove_consumer_def distinct_map_filter)

lemma fb_inv_drop_subscription: "fb_inv fb \<Longrightarrow> fb_inv (drop_subscription s fb)"
  by (simp add: drop_subscription_def fb_inv_remove_consumer split: option.splits)

lemma fb_inv_chan_recv:
  assumes "fb_inv fb" "c < length (fb_chans fb)"
  shows "fb_inv (snd (chan_recv c fb))"
proof (cases "ch_queue (fb_chans fb ! c)")
  case Nil
  with assms show ?thesis by (simp add: chan_recv_def)
next
  case (Cons n q)
  moreover have "length (ch_queue (fb_chans fb ! c)) \<le> CONSUMER_CHAN_DEPTH"
    using assms by (simp add: fb_inv_def)
  ultimately show ?thesis
    using assms(1) by (auto simp: fb_inv_def chan_recv_def dest!: set_update_subset_insert [THEN subsetD])
qed

lemma fb_inv_drop_receiver:
  assumes "fb_inv fb" "c < length (fb_chans fb)"
  shows "fb_inv (drop_receiver c fb)"
  using assms by (auto simp: fb_inv_def drop_receiver_def dest!: set_update_subset_insert [THEN subsetD])

section \<open>Drop-newest delivery\<close>

abbreviation chan_queue :: "frame_buffer \<Rightarrow> nat \<Rightarrow> nal_unit list" where
  "chan_queue fb c \<equiv> ch_queue (fb_chans fb ! c)"

abbreviation chan_alive :: "frame_buffer \<Rightarrow> nat \<Rightarrow> bool" where
  "chan_alive fb c \<equiv> ch_rx_alive (fb_chans fb ! c)"

lemma try_send_simps [simp]:
  "fb_consumers (try_send n c fb) = fb_consumers fb"
  "fb_closed (try_send n c fb) = fb_closed fb"
  "length (fb_chans (try_send n c fb)) = length (fb_chans fb)"
  "fb_sps (try_send n c fb) = fb_sps fb" "fb_pps (try_send n c fb) = fb_pps fb" "fb_idr (try_send n c fb) = fb_idr fb"
  by (simp_all add: try_send_def Let_def)

lemma try_send_alive: "chan_alive (try_send n c fb) d = chan_alive fb d"
  by (cases "c < length (fb_chans fb)"; cases "d = c") (simp_all add: try_send_def Let_def list_update_beyond)

lemma try_send_queue:
  "d < length (fb_chans fb) \<Longrightarrow> chan_queue (try_send n c fb) d =
     (if c = d \<and> chan_alive fb d \<and> length (chan_queue fb d) < CONSUMER_CHAN_DEPTH
      then chan_queue fb d @ [n] else chan_queue fb d)"
  by (cases "d = c") (simp_all add: try_send_def Let_def)

lemma fan_out_simps [simp]:
  "fb_consumers (fan_out n cs fb) = fb_consumers fb"
  "fb_closed (fan_out n cs fb) = fb_closed fb"
  "length (fb_chans (fan_out n cs fb)) = length (fb_chans fb)"
  "chan_alive (fan_out n cs fb) d = chan_alive fb d"
  unfolding fan_out_def by (induction cs arbitrary: fb) (simp_all add: try_send_alive)

lemma fan_out_queue:
  "d < length (fb_chans fb) \<Longrightarrow> distinct cs \<Longrightarrow> chan_queue (fan_out n cs fb) d =
     (if d \<in> set cs \<and> chan_alive fb d \<and> length (chan_queue fb d) < CONSUMER_CHAN_DEPTH
      then chan_queue fb d @ [n] else chan_queue fb d)"
  unfolding fan_out_def by (induction cs arbitrary: fb) (auto simp: try_send_queue try_send_alive)

lemma store_seed_simps [simp]:
  "fb_consumers (store_seed n fb) = fb_consumers fb" "fb_closed (store_seed n fb) = fb_closed fb"
  "fb_chans (store_seed n fb) = fb_chans fb"
  by (simp_all add: store_seed_def)

lemma fb_push_simps:
  assumes "\<not> fb_closed fb"
  shows "fb_push n fb = fan_out n (map snd (fb_consumers fb)) (store_seed n fb)"
  using assms by (simp add: fb_push_def push_locked_def Let_def)

lemma fb_push_subscribed:
  assumes "fb_inv fb" "\<not> fb_closed fb" "(i, c) \<in> set (fb_consumers fb)" "chan_alive fb c"
  shows "chan_queue (fb_push n fb) c = take CONSUMER_CHAN_DEPTH (chan_queue fb c @ [n])"
proof -
  have c: "c < length (fb_chans fb)" and d: "distinct (map snd (fb_consumers fb))" and m: "c \<in> snd ` set (fb_consumers fb)"
    using assms(1,3) by (auto simp: fb_inv_def) (metis snd_conv image_eqI)+
  have "length (chan_queue fb c) \<le> CONSUMER_CHAN_DEPTH" using assms(1) c by (simp add: fb_inv_def)
  then show ?thesis
    using c d m assms(2,4) fan_out_queue [of c "store_seed n fb" "map snd (fb_consumers fb)" n]
    by (simp add: fb_push_simps)
qed

text \<open>
  C30. Fan-out is drop-newest and lossless below the channel depth: pushing any sequence of NAL units while
  a subscribed consumer reads nothing leaves in its channel the old contents followed by the new units in
  order, cut off at 64; nothing queued is ever removed or reordered.
\<close>

theorem push_drop_newest:
  assumes "fb_inv fb" "\<not> fb_closed fb" "(i, c) \<in> set (fb_consumers fb)" "chan_alive fb c"
  shows "chan_queue (fold fb_push ns fb) c = take CONSUMER_CHAN_DEPTH (chan_queue fb c @ ns)"
  using assms
proof (induction ns arbitrary: fb)
  case Nil
  then have "length (chan_queue fb c) \<le> CONSUMER_CHAN_DEPTH"
    by (auto simp: fb_inv_def)
  then show ?case by simp
next
  case (Cons n ns)
  have "fb_inv (fb_push n fb)" "\<not> fb_closed (fb_push n fb)" "(i, c) \<in> set (fb_consumers (fb_push n fb))"
    "chan_alive (fb_push n fb) c"
    using Cons.prems by (simp_all add: fb_inv_push) (simp_all add: fb_push_simps)
  from Cons.IH [OF this] have "chan_queue (fold fb_push (n # ns) fb) c
      = take CONSUMER_CHAN_DEPTH (chan_queue (fb_push n fb) c @ ns)" by simp
  also have "\<dots> = take CONSUMER_CHAN_DEPTH (chan_queue fb c @ n # ns)"
    using fb_push_subscribed [OF Cons.prems] by (cases "length (chan_queue fb c) < CONSUMER_CHAN_DEPTH") simp_all
  finally show ?case .
qed

theorem push_drop_newest_witness:
  "let fb = snd (snd (subscribe new_frame_buffer)) in
   chan_queue (fold fb_push [mk_nal [0x65] 1, mk_nal [0x61] 2] fb) 0
     = take CONSUMER_CHAN_DEPTH (chan_queue fb 0 @ [mk_nal [0x65] 1, mk_nal [0x61] 2])"
  unfolding Let_def
  by (rule push_drop_newest [where i = 0], rule fb_inv_subscribe [OF fb_inv_new])
    (simp_all add: subscribe_def new_frame_buffer_def Let_def)

section \<open>Interleaving\<close>

text \<open>
  The shared buffer with the one RTP thread that pushes.  \<open>fs_inflight\<close> is a push that has left the
  critical section and has not delivered to all the senders it copied.
\<close>

record fb_sys =
  fs_buf :: frame_buffer
  fs_inflight :: "(nal_unit \<times> nat list) option"

definition fb_init :: fb_sys where
  "fb_init = \<lparr>fs_buf = new_frame_buffer, fs_inflight = None\<rparr>"

inductive fb_step :: "fb_sys \<Rightarrow> fb_sys \<Rightarrow> bool" where
  step_lock: "fs_inflight s = None \<Longrightarrow> push_locked n (fs_buf s) = (cs, b) \<Longrightarrow>
     fb_step s \<lparr>fs_buf = b, fs_inflight = Some (n, cs)\<rparr>"
| step_send: "fs_inflight s = Some (n, c # cs) \<Longrightarrow>
     fb_step s \<lparr>fs_buf = try_send n c (fs_buf s), fs_inflight = Some (n, cs)\<rparr>"
| step_return: "fs_inflight s = Some (n, []) \<Longrightarrow> fb_step s (s\<lparr>fs_inflight := None\<rparr>)"
| step_subscribe: "subscribe (fs_buf s) = (c, sid, b) \<Longrightarrow> fb_step s (s\<lparr>fs_buf := b\<rparr>)"
| step_unsubscribe: "fb_step s (s\<lparr>fs_buf := drop_subscription sid (fs_buf s)\<rparr>)"
| step_close: "fb_step s (s\<lparr>fs_buf := close (fs_buf s)\<rparr>)"
| step_recv: "c < length (fb_chans (fs_buf s)) \<Longrightarrow> chan_recv c (fs_buf s) = (v, b) \<Longrightarrow> fb_step s (s\<lparr>fs_buf := b\<rparr>)"
| step_drop_receiver: "c < length (fb_chans (fs_buf s)) \<Longrightarrow> fb_step s (s\<lparr>fs_buf := drop_receiver c (fs_buf s)\<rparr>)"

inductive fb_reachable :: "fb_sys \<Rightarrow> bool" where
  reach_init: "fb_reachable fb_init"
| reach_step: "fb_reachable s \<Longrightarrow> fb_step s t \<Longrightarrow> fb_reachable t"

definition fs_inv :: "fb_sys \<Rightarrow> bool" where
  "fs_inv s \<longleftrightarrow> fb_inv (fs_buf s)
     \<and> (\<forall>n cs. fs_inflight s = Some (n, cs) \<longrightarrow> (\<forall>c \<in> set cs. c < length (fb_chans (fs_buf s))))"

lemma chans_grow:
  "length (fb_chans (snd (snd (subscribe fb)))) = Suc (length (fb_chans fb))"
  "length (fb_chans (close fb)) = length (fb_chans fb)"
  "length (fb_chans (drop_subscription sid fb)) = length (fb_chans fb)"
  "length (fb_chans (snd (chan_recv c fb))) = length (fb_chans fb)"
  "length (fb_chans (drop_receiver c fb)) = length (fb_chans fb)"
  by (simp_all add: subscribe_def close_def drop_subscription_def remove_consumer_def chan_recv_def
      drop_receiver_def Let_def split: option.splits list.splits)

lemma fs_inv_buf:
  "fs_inv s \<Longrightarrow> fb_inv b \<Longrightarrow> length (fb_chans (fs_buf s)) \<le> length (fb_chans b) \<Longrightarrow> fs_inv (s\<lparr>fs_buf := b\<rparr>)"
  unfolding fs_inv_def by (auto dest: less_le_trans)

lemma push_locked_chans:
  assumes "fb_inv fb"
  shows "\<forall>c \<in> set (fst (push_locked n fb)). c < length (fb_chans (snd (push_locked n fb)))"
proof -
  have "\<forall>(i, c) \<in> set (fb_consumers fb). c < length (fb_chans fb)" using assms unfolding fb_inv_def by blast
  then show ?thesis by (auto simp: push_locked_def Let_def)
qed

lemma fb_step_inv: "fb_step s t \<Longrightarrow> fs_inv s \<Longrightarrow> fs_inv t"
proof (induction rule: fb_step.induct)
  case (step_lock s n cs b)
  then show ?case
    using fb_inv_push_locked [of "fs_buf s" n] push_locked_chans [of "fs_buf s" n] by (simp add: fs_inv_def)
next
  case (step_send s n c cs)
  then show ?case by (simp add: fs_inv_def fb_inv_try_send)
next
  case (step_return s n)
  then show ?case by (simp add: fs_inv_def)
next
  case (step_subscribe s c sid b)
  then show ?case using fb_inv_subscribe [of "fs_buf s"] chans_grow(1) [of "fs_buf s"]
    by (intro fs_inv_buf) (simp_all add: fs_inv_def)
next
  case (step_recv c s v b)
  then show ?case using fb_inv_chan_recv [of "fs_buf s" c] chans_grow(4) [of c "fs_buf s"]
    by (intro fs_inv_buf) (simp_all add: fs_inv_def)
qed (intro fs_inv_buf; simp add: fs_inv_def fb_inv_drop_subscription fb_inv_close fb_inv_drop_receiver chans_grow)+

lemma fb_reachable_inv: "fb_reachable s \<Longrightarrow> fs_inv s"
proof (induction rule: fb_reachable.induct)
  case reach_init
  show ?case by (simp add: fs_inv_def fb_init_def fb_inv_new)
next
  case (reach_step s t)
  then show ?case by (blast intro: fb_step_inv)
qed

lemma latest_idr_Some:
  "latest_idr fb = Some (sps, pps, idr) \<Longrightarrow>
     fb_sps fb = Some sps \<and> fb_pps fb = Some pps \<and> fb_idr fb = Some idr
     \<and> nal_epoch sps = nal_epoch idr \<and> nal_epoch pps = nal_epoch idr"
  by (simp add: latest_idr_def split: option.splits if_splits)

text \<open>
  C31. In every reachable state of the buffer, under any interleaving of pushes, deliveries, subscriptions,
  unsubscriptions, reads and close, no channel holds more than 64 NAL units, subscription ids are distinct,
  a closed buffer has no consumer, and a seed triple that is handed out consists of an SPS, a PPS and an IDR
  of one and the same stream epoch.
\<close>

theorem fb_reachable_safe:
  assumes "fb_reachable s"
  shows "(\<forall>ch \<in> set (fb_chans (fs_buf s)). length (ch_queue ch) \<le> CONSUMER_CHAN_DEPTH)
    \<and> distinct (map fst (fb_consumers (fs_buf s)))
    \<and> (fb_closed (fs_buf s) \<longrightarrow> consumer_count (fs_buf s) = 0)
    \<and> (\<forall>sps pps idr. latest_idr (fs_buf s) = Some (sps, pps, idr) \<longrightarrow>
         nal_type sps = NAL_TYPE_SPS \<and> nal_type pps = NAL_TYPE_PPS \<and> nal_type idr = NAL_TYPE_IDR
         \<and> nal_epoch sps = nal_epoch idr \<and> nal_epoch pps = nal_epoch idr)"
proof (intro conjI)
  have inv: "fb_inv (fs_buf s)" using fb_reachable_inv [OF assms] by (simp add: fs_inv_def)
  then show "\<forall>ch \<in> set (fb_chans (fs_buf s)). length (ch_queue ch) \<le> CONSUMER_CHAN_DEPTH"
    "distinct (map fst (fb_consumers (fs_buf s)))" "fb_closed (fs_buf s) \<longrightarrow> consumer_count (fs_buf s) = 0"
    by (simp_all add: fb_inv_def consumer_count_def)
  show "\<forall>sps pps idr. latest_idr (fs_buf s) = Some (sps, pps, idr) \<longrightarrow>
         nal_type sps = NAL_TYPE_SPS \<and> nal_type pps = NAL_TYPE_PPS \<and> nal_type idr = NAL_TYPE_IDR
         \<and> nal_epoch sps = nal_epoch idr \<and> nal_epoch pps = nal_epoch idr"
    using inv latest_idr_Some unfolding fb_inv_def by blast
qed

theorem fb_reachable_safe_witness:
  "let s = \<lparr>fs_buf = snd (push_locked (mk_nal [0x65] 1) new_frame_buffer), fs_inflight = Some (mk_nal [0x65] 1, [])\<rparr> in
   distinct (map fst (fb_consumers (fs_buf s)))"
proof -
  let ?b = "snd (push_locked (mk_nal [0x65] 1) new_frame_buffer)"
  have "push_locked (mk_nal [0x65] 1) (fs_buf fb_init) = ([], ?b)"
    by (simp add: push_locked_def fb_init_def new_frame_buffer_def Let_def)
  then have "fb_step fb_init \<lparr>fs_buf = ?b, fs_inflight = Some (mk_nal [0x65] 1, [])\<rparr>"
    by (intro step_lock) (simp_all add: fb_init_def)
  then have "fb_reachable \<lparr>fs_buf = ?b, fs_inflight = Some (mk_nal [0x65] 1, [])\<rparr>"
    by (rule reach_step [OF reach_init])
  from fb_reachable_safe [OF this] show ?thesis by (simp add: Let_def)
qed

text \<open>
  Closing is final: in any step from a closed buffer the buffer stays closed, keeps no consumer and
  keeps its seeds, so a push that comes after the close changes nothing a later reader of the seeds sees.
\<close>

theorem closed_is_final:
  assumes "fb_step s t" "fb_closed (fs_buf s)" "fs_inv s"
  shows "fb_closed (fs_buf t) \<and> consumer_count (fs_buf t) = 0 \<and> latest_idr (fs_buf t) = latest_idr (fs_buf s)"
proof -
  have cons: "fb_consumers (fs_buf s) = []" using assms(2,3) by (simp add: fs_inv_def fb_inv_def)
  show ?thesis
    using assms(1,2) cons
    by cases (auto simp: push_locked_def subscribe_def drop_subscription_def remove_consumer_def close_def
        chan_recv_def drop_receiver_def consumer_count_def latest_idr_def Let_def split: option.splits list.splits)
qed

theorem closed_is_final_witness:
  "let s = fb_init\<lparr>fs_buf := close new_frame_buffer\<rparr>; t = \<lparr>fs_buf = close new_frame_buffer, fs_inflight = Some (mk_nal [0x65] 1, [])\<rparr>
   in fb_step s t \<and> fb_closed (fs_buf t) \<and> consumer_count (fs_buf t) = 0"
proof -
  let ?s = "fb_init\<lparr>fs_buf := close new_frame_buffer\<rparr>"
  let ?t = "\<lparr>fs_buf = close new_frame_buffer, fs_inflight = Some (mk_nal [0x65] 1, [])\<rparr>"
  have st: "fb_step ?s ?t"
    by (rule step_lock) (simp_all add: fb_init_def push_locked_def close_def new_frame_buffer_def)
  have c: "fb_closed (fs_buf ?s)" by (simp add: close_def new_frame_buffer_def)
  have i: "fs_inv ?s" by (simp add: fs_inv_def fb_init_def fb_inv_close fb_inv_new)
  from closed_is_final [OF st c i] st show ?thesis unfolding Let_def by blast
qed

section \<open>Waiting for the first keyframe\<close>

text \<open>
  The wait returns as soon as some iteration sees the buffer closed, a keyframe or an expired deadline,
  and not before; it answers by the first such iteration, with closed taking precedence over a keyframe and
  a keyframe over the deadline.
\<close>

theorem wait_idr_result:
  "wait_idr obs =
     map_option (\<lambda>(fb, remaining). if fb_closed fb then Err WaitClosed
                                   else if fb_idr_ready fb then Ok () else Err WaitTimeout)
       (List.find (\<lambda>(fb, remaining). fb_closed fb \<or> fb_idr_ready fb \<or> remaining = 0) obs)"
  by (induction obs rule: wait_idr.induct) auto

end
