(* ===== verification/Transmux.thy ===== *)
theory Transmux
  imports FrameBuffer
begin

text \<open>
  The FLV container writer of \<open>src/video/transmux.rs\<close>: the static tag builders and the
  \<open>StreamWriter\<close> that turns the NAL units of a \<open>FrameBuffer\<close> consumer into FLV tags.  The output
  \<open>W: Write\<close> is a parameter: \<open>wr\<close> is \<open>write_all\<close> and \<open>fl\<close> is \<open>flush\<close>, each returning whether it
  succeeded and the new sink.  The lemmas show that the produced byte stream is a well-formed FLV file whose
  tags are the ones intended, and that its timestamps never go back across stream restarts.
\<close>

section \<open>Static builders\<close>

definition FLV_HEADER_SIZE :: nat where "FLV_HEADER_SIZE = 9"
definition FLV_TAG_HEADER_SIZE :: nat where "FLV_TAG_HEADER_SIZE = 11"
definition FLV_TAG_TYPE_VIDEO :: byte where "FLV_TAG_TYPE_VIDEO = 0x09"
definition FLV_VIDEO_CODEC_H264 :: byte where "FLV_VIDEO_CODEC_H264 = 0x07"
definition FLV_AVC_SEQ_HEADER :: byte where "FLV_AVC_SEQ_HEADER = 0x00"
definition FLV_AVC_NALU :: byte where "FLV_AVC_NALU = 0x01"
definition FLV_FRAME_TYPE_KEY :: byte where "FLV_FRAME_TYPE_KEY = 0x10"
definition FLV_FRAME_TYPE_INTER :: byte where "FLV_FRAME_TYPE_INTER = 0x20"
definition SEGMENT_GAP_MS :: u32 where "SEGMENT_GAP_MS = 40"

definition flv_header :: "byte list" where
  "flv_header = as_bytes ''FLV'' @ [0x01] @ [0x01] @ u32_to_be_bytes (of_nat FLV_HEADER_SIZE) @ [0, 0, 0, 0]"

definition pack_avc_decoder_config :: "byte list \<Rightarrow> byte list \<Rightarrow> byte list option" where
  "pack_avc_decoder_config sps pps =
     (if length sps < 4 \<or> pps = [] then None
      else Some ([1, sps ! 1, sps ! 2, sps ! 3, 0xff, 0xe1]
             @ u16_to_be_bytes (of_nat (length sps)) @ sps
             @ [1] @ u16_to_be_bytes (of_nat (length pps)) @ pps))"

text \<open>The \<open>as u8\<close> casts of the shifted sizes and timestamps keep the low byte.\<close>

definition wrap_tag :: "byte \<Rightarrow> u32 \<Rightarrow> byte list \<Rightarrow> byte list" where
  "wrap_tag tag_type timestamp body =
     (let data_size = of_nat (length body) :: u32;
          ts24 = timestamp AND 0x00ffffff;
          ts_ext = ucast (drop_bit 24 timestamp AND 0xff) :: byte;
          prev = of_nat FLV_TAG_HEADER_SIZE + data_size
      in [tag_type,
          ucast (drop_bit 16 data_size), ucast (drop_bit 8 data_size), ucast data_size,
          ucast (drop_bit 16 ts24), ucast (drop_bit 8 ts24), ucast ts24, ts_ext,
          0, 0, 0] @ body @ u32_to_be_bytes prev)"

definition build_avc_sequence_header_tag :: "byte list \<Rightarrow> byte list \<Rightarrow> u32 \<Rightarrow> byte list option" where
  "build_avc_sequence_header_tag sps pps ts =
     (case pack_avc_decoder_config sps pps of
        None \<Rightarrow> None
      | Some cfg \<Rightarrow>
          Some (wrap_tag FLV_TAG_TYPE_VIDEO ts
            ([FLV_FRAME_TYPE_KEY OR FLV_VIDEO_CODEC_H264, FLV_AVC_SEQ_HEADER, 0, 0, 0] @ cfg)))"

definition build_avc_nalu_tag :: "nal_unit list \<Rightarrow> u32 \<Rightarrow> byte list option" where
  "build_avc_nalu_tag nals ts =
     (if nals = [] then None
      else
        let keyframe = list_ex (\<lambda>n. nal_type n = NAL_TYPE_IDR) nals;
            frame_type_byte = (if keyframe then FLV_FRAME_TYPE_KEY OR FLV_VIDEO_CODEC_H264
                               else FLV_FRAME_TYPE_INTER OR FLV_VIDEO_CODEC_H264)
        in Some (wrap_tag FLV_TAG_TYPE_VIDEO ts
             ([frame_type_byte, FLV_AVC_NALU, 0, 0, 0]
              @ concat (map (\<lambda>n. u32_to_be_bytes (of_nat (length (nal_data n))) @ nal_data n) nals))))"

section \<open>StreamWriter\<close>

datatype stream_error = StreamClosed | StreamIo

record stream_writer =
  base_rtp_timestamp :: u32
  base_rtp_set :: bool
  current_epoch :: u32
  segment_base_flv :: u32
  last_flv_ts :: u32
  seg_sps :: "byte list option"
  seg_pps :: "byte list option"
  pending_seq_header :: bool

definition new_stream_writer :: stream_writer where
  "new_stream_writer = \<lparr>base_rtp_timestamp = 0, base_rtp_set = False, current_epoch = 0,
     segment_base_flv = 0, last_flv_ts = 0, seg_sps = None, seg_pps = None, pending_seq_header = False\<rparr>"

definition saturating_add :: "u32 \<Rightarrow> u32 \<Rightarrow> u32" where
  "saturating_add a b = (if unat a + unat b < 2 ^ 32 then a + b else 0xffffffff)"

definition relative_flv_timestamp :: "u32 \<Rightarrow> stream_writer \<Rightarrow> u32 \<times> stream_writer" where
  "relative_flv_timestamp rtp_ts sw =
     (if \<not> base_rtp_set sw
      then (segment_base_flv sw, sw\<lparr>base_rtp_timestamp := rtp_ts, base_rtp_set := True\<rparr>)
      else
        let within = (rtp_ts - base_rtp_timestamp sw) div 90;
            out = saturating_add (segment_base_flv sw) within
        in (out, if out > last_flv_ts sw then sw\<lparr>last_flv_ts := out\<rparr> else sw))"

text \<open>The priming assignments of \<open>run\<close> from the seed triple.\<close>

definition prime :: "nal_unit \<Rightarrow> nal_unit \<Rightarrow> nal_unit \<Rightarrow> stream_writer \<Rightarrow> stream_writer" where
  "prime sps pps idr sw = sw\<lparr>base_rtp_timestamp := nal_timestamp idr, base_rtp_set := True,
     current_epoch := nal_epoch idr, segment_base_flv := 0, last_flv_ts := 0,
     seg_sps := Some (nal_data sps), seg_pps := Some (nal_data pps)\<rparr>"

definition seed_tags :: "nal_unit \<Rightarrow> nal_unit \<Rightarrow> nal_unit \<Rightarrow> byte list list" where
  "seed_tags sps pps idr =
     (case build_avc_sequence_header_tag (nal_data sps) (nal_data pps) 0 of None \<Rightarrow> [] | Some seq \<Rightarrow> [seq])
     @ (case build_avc_nalu_tag [idr] 0 of None \<Rightarrow> [] | Some t \<Rightarrow> [t])"

text \<open>The epoch check at the top of the subscription loop.\<close>

definition rebase :: "nal_unit \<Rightarrow> stream_writer \<Rightarrow> stream_writer" where
  "rebase n sw =
     (if nal_epoch n \<noteq> current_epoch sw then
        let b = saturating_add (last_flv_ts sw) SEGMENT_GAP_MS in
        sw\<lparr>current_epoch := nal_epoch n, base_rtp_timestamp := nal_timestamp n, base_rtp_set := True,
           segment_base_flv := b, last_flv_ts := b, pending_seq_header := True\<rparr>
      else sw)"

text \<open>
  The body of the loop for one NAL unit: the tags it writes, in order, whether it reaches the final
  \<open>flush\<close> (a parameter set does not), and the new state.
\<close>

definition handle_nal :: "nal_unit \<Rightarrow> stream_writer \<Rightarrow> byte list list \<times> bool \<times> stream_writer" where
  "handle_nal n sw0 =
     (let sw = rebase n sw0 in
      if nal_type n = NAL_TYPE_SPS then ([], False, sw\<lparr>seg_sps := Some (nal_data n)\<rparr>)
      else if nal_type n = NAL_TYPE_PPS then ([], False, sw\<lparr>seg_pps := Some (nal_data n)\<rparr>)
      else
        let hdr = (if pending_seq_header sw \<and> nal_type n = NAL_TYPE_IDR then
                     (case (seg_sps sw, seg_pps sw) of
                        (Some sps, Some pps) \<Rightarrow>
                          (case build_avc_sequence_header_tag sps pps (segment_base_flv sw) of
                             Some seq \<Rightarrow> [seq] | None \<Rightarrow> [])
                      | _ \<Rightarrow> [])
                   else []);
            sw1 = (if pending_seq_header sw \<and> nal_type n = NAL_TYPE_IDR
                   then sw\<lparr>pending_seq_header := False\<rparr> else sw)
        in (case relative_flv_timestamp (nal_timestamp n) sw1 of
              (ts, sw2) \<Rightarrow>
                (hdr @ (case build_avc_nalu_tag [n] ts of Some t \<Rightarrow> [t] | None \<Rightarrow> []), True, sw2)))"

text \<open>Consecutive \<open>write_all\<close> calls, stopping at the first failure.\<close>

fun write_tags :: "(byte list \<Rightarrow> 'w \<Rightarrow> bool \<times> 'w) \<Rightarrow> byte list list \<Rightarrow> 'w \<Rightarrow> bool \<times> 'w" where
  "write_tags wr [] w = (True, w)"
| "write_tags wr (t # ts) w =
     (case wr t w of (ok, w1) \<Rightarrow> if ok then write_tags wr ts w1 else (False, w1))"

text \<open>What \<open>rx.recv_timeout(IDLE_PROBE)\<close> returns.\<close>

datatype recv_result = RecvNal nal_unit | RecvTimeout | RecvDisconnected

text \<open>
  The subscription loop over the results its \<open>recv_timeout\<close> calls return; \<open>None\<close> when the list ends
  before the loop has returned.
\<close>

fun stream_loop ::
  "(byte list \<Rightarrow> 'w \<Rightarrow> bool \<times> 'w) \<Rightarrow> ('w \<Rightarrow> bool \<times> 'w) \<Rightarrow> recv_result list \<Rightarrow> stream_writer \<Rightarrow> 'w
     \<Rightarrow> (stream_error + unit) option \<times> stream_writer \<times> 'w" where
  "stream_loop wr fl [] sw w = (None, sw, w)"
| "stream_loop wr fl (RecvDisconnected # evs) sw w = (Some (Ok ()), sw, w)"
| "stream_loop wr fl (RecvTimeout # evs) sw w =
     (case fl w of (ok, w1) \<Rightarrow>
        if ok then stream_loop wr fl evs sw w1 else (Some (Err StreamIo), sw, w1))"
| "stream_loop wr fl (RecvNal n # evs) sw w =
     (case handle_nal n sw of (tags, flushes, sw1) \<Rightarrow>
        (case write_tags wr tags w of (ok, w1) \<Rightarrow>
           if \<not> ok then (Some (Err StreamIo), sw1, w1)
           else stream_loop wr fl evs sw1 (if flushes then snd (fl w1) else w1)))"

definition stream_run ::
  "(byte list \<Rightarrow> 'w \<Rightarrow> bool \<times> 'w) \<Rightarrow> ('w \<Rightarrow> bool \<times> 'w) \<Rightarrow> frame_buffer \<Rightarrow> recv_result list
     \<Rightarrow> stream_writer \<Rightarrow> 'w \<Rightarrow> (stream_error + unit) option \<times> stream_writer \<times> 'w" where
  "stream_run wr fl buf evs sw w =
     (case wr flv_header w of (ok, w1) \<Rightarrow>
        if \<not> ok then (Some (Err StreamIo), sw, w1)
        else
          let w2 = snd (fl w1) in
          (case latest_idr buf of
             None \<Rightarrow> (Some (Err StreamClosed), sw, w2)
           | Some (sps, pps, idr) \<Rightarrow>
               let sw1 = prime sps pps idr sw in
               (case write_tags wr (seed_tags sps pps idr) w2 of (ok2, w3) \<Rightarrow>
                  if \<not> ok2 then (Some (Err StreamIo), sw1, w3)
                  else stream_loop wr fl evs sw1 (snd (fl w3)))))"


section \<open>A reference FLV reader\<close>

text \<open>
  What a player does with the bytes: read one tag (type, 24+8 bit timestamp, body, and the
  \<open>PreviousTagSize\<close> that must repeat the tag's length), then the whole file.
\<close>

definition read_tag :: "byte list \<Rightarrow> ((byte \<times> u32 \<times> byte list) \<times> byte list) option" where
  "read_tag bs =
     (if length bs < 11 then None
      else
        let n = unat (bs ! 1) * 65536 + unat (bs ! 2) * 256 + unat (bs ! 3); rest = drop 11 bs in
        if slice 8 11 bs \<noteq> [0, 0, 0] \<or> length rest < n + 4
           \<or> slice n (n + 4) rest \<noteq> u32_to_be_bytes (of_nat (11 + n)) then None
        else Some ((bs ! 0, u32_from_be_bytes (bs ! 7) (bs ! 4) (bs ! 5) (bs ! 6), take n rest), drop (n + 4) rest))"

lemma read_tag_shorter: "read_tag bs = Some (e, rest) \<Longrightarrow> length rest < length bs"
  by (auto simp: read_tag_def Let_def split: if_splits)

function demux :: "byte list \<Rightarrow> (byte \<times> u32 \<times> byte list) list option" where
  "demux bs = (if bs = [] then Some [] else
     (case read_tag bs of None \<Rightarrow> None | Some (e, rest) \<Rightarrow> map_option ((#) e) (demux rest)))"
  by pat_completeness auto
termination
  by (relation "measure length") (auto dest: read_tag_shorter)

declare demux.simps [simp del]

definition flv_demux :: "byte list \<Rightarrow> (byte \<times> u32 \<times> byte list) list option" where
  "flv_demux bs = (if take 13 bs = flv_header then demux (drop 13 bs) else None)"

text \<open>The NAL unit a video tag carries, and whether it is marked as a key frame.\<close>

definition tag_nal :: "byte \<times> u32 \<times> byte list \<Rightarrow> (bool \<times> byte list) option" where
  "tag_nal e = (case e of (ty, ts, body) \<Rightarrow>
     if ty = FLV_TAG_TYPE_VIDEO \<and> 9 \<le> length body \<and> slice 1 5 body = [FLV_AVC_NALU, 0, 0, 0]
        \<and> slice 5 9 body = u32_to_be_bytes (of_nat (length body - 9))
     then Some (body ! 0 = 0x17, drop 9 body) else None)"

lemma unat_shift_bytes:
  assumes "n < 2 ^ 24"
  shows "unat (ucast (drop_bit 16 (of_nat n :: u32)) :: byte) * 65536
       + unat (ucast (drop_bit 8 (of_nat n :: u32)) :: byte) * 256
       + unat (ucast (of_nat n :: u32) :: byte) = n"
proof -
  have n: "unat (of_nat n :: u32) = n" using assms by (simp add: unat_of_nat take_bit_nat_eq_self)
  have "unat (ucast (drop_bit k (of_nat n :: u32)) :: byte) = n div 2 ^ k mod 256" for k
  proof -
    have "unat (drop_bit k (of_nat n :: u32)) = n div 2 ^ k"
      using assms by (simp only: unsigned_drop_bit_eq n) (simp add: drop_bit_eq_div take_bit_nat_eq_self)
    then show ?thesis by (simp add: unsigned_ucast_eq take_bit_eq_mod)
  qed
  from this [of 16] this [of 8] this [of 0]
  have "unat (ucast (drop_bit 16 (of_nat n :: u32)) :: byte) = n div 65536 mod 256"
    "unat (ucast (drop_bit 8 (of_nat n :: u32)) :: byte) = n div 256 mod 256"
    "unat (ucast (of_nat n :: u32) :: byte) = n mod 256" by simp_all
  moreover have "n div 65536 mod 256 * 65536 + n div 256 mod 256 * 256 + n mod 256 = n"
  proof -
    have a: "n = n div 256 * 256 + n mod 256" by simp
    have b: "n div 256 = n div 65536 * 256 + n div 256 mod 256"
      using div_mult_mod_eq [of "n div 256" 256] by (simp add: div_mult2_eq [symmetric])
    have c: "n div 65536 mod 256 = n div 65536" using assms by (simp add: less_mult_imp_div_less)
    show ?thesis unfolding c using a b by linarith
  qed
  ultimately show ?thesis by presburger
qed

lemma ts_bytes:
  fixes ts :: u32
  shows "u32_from_be_bytes (ucast (drop_bit 24 ts AND 0xff)) (ucast (drop_bit 16 (ts AND 0x00ffffff)))
     (ucast (drop_bit 8 (ts AND 0x00ffffff))) (ucast (ts AND 0x00ffffff)) = ts"
proof -
  have m: "(0x00ffffff :: u32) = mask 24" "(0xff :: u32) = mask 8" by (simp_all add: mask_eq_exp_minus_1)
  have "(ucast (drop_bit 24 ts AND 0xff) :: byte) = ucast (drop_bit 24 ts)"
    "(ucast (drop_bit 16 (ts AND 0x00ffffff)) :: byte) = ucast (drop_bit 16 ts)"
    "(ucast (drop_bit 8 (ts AND 0x00ffffff)) :: byte) = ucast (drop_bit 8 ts)"
    "(ucast (ts AND 0x00ffffff) :: byte) = ucast ts"
    unfolding m by (simp_all add: byte_eq_bits bit_simps)
  then show ?thesis
    using u32_from_be_bytes_to [of ts] by (simp add: u32_to_be_bytes_def)
qed

lemma read_tag_wrap:
  assumes "length body < 2 ^ 24"
  shows "read_tag (wrap_tag ty ts body @ rest) = Some ((ty, ts, body), rest)"
proof -
  let ?d = "of_nat (length body) :: u32"
  let ?h = "[ty, ucast (drop_bit 16 ?d), ucast (drop_bit 8 ?d), ucast ?d,
     ucast (drop_bit 16 (ts AND 0x00ffffff)), ucast (drop_bit 8 (ts AND 0x00ffffff)),
     ucast (ts AND 0x00ffffff), ucast (drop_bit 24 ts AND 0xff), 0, 0, 0] :: byte list"
  have w: "wrap_tag ty ts body @ rest = ?h @ body @ u32_to_be_bytes (of_nat (11 + length body)) @ rest"
    by (simp add: wrap_tag_def Let_def FLV_TAG_HEADER_SIZE_def)
  have n: "unat (?h ! 1) * 65536 + unat (?h ! 2) * 256 + unat (?h ! 3) = length body"
    using unat_shift_bytes [OF assms] by simp
  have "read_tag (?h @ body @ u32_to_be_bytes (of_nat (11 + length body)) @ rest) =
      Some ((ty, u32_from_be_bytes (ucast (drop_bit 24 ts AND 0xff)) (ucast (drop_bit 16 (ts AND 0x00ffffff)))
        (ucast (drop_bit 8 (ts AND 0x00ffffff))) (ucast (ts AND 0x00ffffff)), body), rest)"
    unfolding read_tag_def Let_def using n
    by (simp add: slice_def)
  then show ?thesis by (simp only: w ts_bytes)
qed

section \<open>What the stream contains\<close>

text \<open>The tags written while the events last, and the NAL units handled.\<close>

fun event_nals :: "recv_result list \<Rightarrow> nal_unit list" where
  "event_nals [] = []"
| "event_nals (RecvDisconnected # evs) = []"
| "event_nals (RecvTimeout # evs) = event_nals evs"
| "event_nals (RecvNal n # evs) = n # event_nals evs"

fun nals_tags :: "nal_unit list \<Rightarrow> stream_writer \<Rightarrow> byte list list" where
  "nals_tags [] sw = []"
| "nals_tags (n # ns) sw = fst (handle_nal n sw) @ nals_tags ns (snd (snd (handle_nal n sw)))"

fun nals_state :: "nal_unit list \<Rightarrow> stream_writer \<Rightarrow> stream_writer" where
  "nals_state [] sw = sw"
| "nals_state (n # ns) sw = nals_state ns (snd (snd (handle_nal n sw)))"

lemma nals_tags_append: "nals_tags (ms @ ns) sw = nals_tags ms sw @ nals_tags ns (nals_state ms sw)"
  by (induction ms arbitrary: sw) simp_all

definition is_param :: "nal_unit \<Rightarrow> bool" where
  "is_param n \<longleftrightarrow> nal_type n = NAL_TYPE_SPS \<or> nal_type n = NAL_TYPE_PPS"

definition small_nal :: "nal_unit \<Rightarrow> bool" where
  "small_nal n \<longleftrightarrow> length (nal_data n) < 2 ^ 23 - 16"

definition small_sets :: "stream_writer \<Rightarrow> bool" where
  "small_sets sw \<longleftrightarrow> (\<forall>d. seg_sps sw = Some d \<or> seg_pps sw = Some d \<longrightarrow> length d < 2 ^ 23 - 16)"

text \<open>A tag as the writer builds it: type, timestamp and a body that fits the 24-bit size field.\<close>

definition good_tag :: "byte list \<Rightarrow> u32 \<Rightarrow> byte list \<Rightarrow> bool" where
  "good_tag t ts body \<longleftrightarrow> t = wrap_tag FLV_TAG_TYPE_VIDEO ts body \<and> length body < 2 ^ 24"

lemma wrap_tag_not_Nil [simp]: "wrap_tag ty ts b \<noteq> []"
  by (simp add: wrap_tag_def Let_def)

lemma demux_wrap:
  "length body < 2 ^ 24 \<Longrightarrow>
   demux (wrap_tag ty ts body @ rest) = map_option ((#) (ty, ts, body)) (demux rest)"
  by (subst demux.simps) (simp add: read_tag_wrap)

lemma demux_Nil [simp]: "demux [] = Some []"
  by (subst demux.simps) simp

lemma demux_tags:
  assumes "list_all2 (\<lambda>t (ts, body). good_tag t ts body) tags es"
  shows "demux (concat tags) = Some (map (Pair FLV_TAG_TYPE_VIDEO) es)"
  using assms
proof (induction tags arbitrary: es)
  case Nil
  then show ?case by simp
next
  case (Cons t tags)
  then obtain ts body es' where "es = (ts, body) # es'" "good_tag t ts body"
    and tl: "list_all2 (\<lambda>t (ts, body). good_tag t ts body) tags es'"
    by (auto simp: list_all2_Cons1)
  with Cons.IH [OF tl] show ?case by (simp add: good_tag_def demux_wrap)
qed

text \<open>The two kinds of tag bodies.\<close>

definition nalu_body :: "nal_unit \<Rightarrow> byte list" where
  "nalu_body n = [if nal_type n = NAL_TYPE_IDR then 0x17 else 0x27, FLV_AVC_NALU, 0, 0, 0]
     @ u32_to_be_bytes (of_nat (length (nal_data n))) @ nal_data n"

lemma build_avc_nalu_tag_single:
  "build_avc_nalu_tag [n] ts = Some (wrap_tag FLV_TAG_TYPE_VIDEO ts (nalu_body n))"
  by (simp add: build_avc_nalu_tag_def nalu_body_def Let_def FLV_FRAME_TYPE_KEY_def
      FLV_FRAME_TYPE_INTER_def FLV_VIDEO_CODEC_H264_def)

lemma tag_nal_nalu_body: "tag_nal (FLV_TAG_TYPE_VIDEO, ts, nalu_body n) = Some (nal_type n = NAL_TYPE_IDR, nal_data n)"
  by (simp add: tag_nal_def nalu_body_def slice_def)

definition is_seq_body :: "byte list \<Rightarrow> bool" where
  "is_seq_body body \<longleftrightarrow> take 5 body = [0x17, FLV_AVC_SEQ_HEADER, 0, 0, 0]"

lemma build_avc_sequence_header_tag_cases:
  assumes "length sps < 2 ^ 23 - 16" "length pps < 2 ^ 23 - 16"
  obtains "build_avc_sequence_header_tag sps pps ts = None"
  | body where "build_avc_sequence_header_tag sps pps ts = Some (wrap_tag FLV_TAG_TYPE_VIDEO ts body)"
      "good_tag (wrap_tag FLV_TAG_TYPE_VIDEO ts body) ts body" "is_seq_body body"
proof (cases "length sps < 4 \<or> pps = []")
  case True
  then show thesis
    by (intro that(1)) (auto simp: build_avc_sequence_header_tag_def pack_avc_decoder_config_def)
next
  case False
  then show thesis
    using assms
    by (intro that(2)) (auto simp: build_avc_sequence_header_tag_def pack_avc_decoder_config_def good_tag_def
        is_seq_body_def FLV_FRAME_TYPE_KEY_def FLV_VIDEO_CODEC_H264_def)
qed

lemma tag_nal_seq_body: "is_seq_body body \<Longrightarrow> tag_nal (ty, ts, body) = None"
  by (auto simp: is_seq_body_def tag_nal_def slice_def FLV_AVC_SEQ_HEADER_def FLV_AVC_NALU_def
      take_Cons' eval_nat_numeral Suc_le_length_iff split: list.splits if_splits)

text \<open>The relation between the tags written and the NAL units they must carry.\<close>

definition tags_carry :: "byte list list \<Rightarrow> (bool \<times> byte list) list \<Rightarrow> bool" where
  "tags_carry tags nals \<longleftrightarrow> (\<exists>es. list_all2 (\<lambda>t (ts, body). good_tag t ts body) tags es
     \<and> List.map_filter (\<lambda>e. tag_nal (FLV_TAG_TYPE_VIDEO, e)) es = nals)"

lemma tags_carry_Nil [simp]: "tags_carry [] []"
  by (simp add: tags_carry_def List.map_filter_def)

lemma tags_carry_append: "tags_carry s m \<Longrightarrow> tags_carry t n \<Longrightarrow> tags_carry (s @ t) (m @ n)"
  unfolding tags_carry_def by (auto simp: List.map_filter_def intro!: list_all2_appendI)

lemma tags_carry_demux:
  assumes "tags_carry tags nals"
  shows "\<exists>es. demux (concat tags) = Some es \<and> List.map_filter tag_nal es = nals"
  using assms demux_tags unfolding tags_carry_def
  by (fastforce simp: List.map_filter_def filter_map comp_def)

definition carried :: "nal_unit \<Rightarrow> bool \<times> byte list" where
  "carried n = (nal_type n = NAL_TYPE_IDR, nal_data n)"

lemma nalu_tag_carry:
  "small_nal n \<Longrightarrow> tags_carry [wrap_tag FLV_TAG_TYPE_VIDEO ts (nalu_body n)] [carried n]"
  unfolding tags_carry_def
  by (rule exI [of _ "[(ts, nalu_body n)]"])
    (simp add: List.map_filter_def tag_nal_nalu_body carried_def good_tag_def small_nal_def,
     simp add: nalu_body_def)

lemma seq_tag_carry:
  assumes "length sps < 2 ^ 23 - 16" "length pps < 2 ^ 23 - 16"
  shows "tags_carry (case build_avc_sequence_header_tag sps pps ts of Some seq \<Rightarrow> [seq] | None \<Rightarrow> []) []"
  using assms
proof (cases rule: build_avc_sequence_header_tag_cases [of sps pps ts])
  case 1
  then show ?thesis by simp
next
  case (2 body)
  then show ?thesis
    unfolding tags_carry_def
    by (intro exI [of _ "[(ts, body)]"]) (simp add: List.map_filter_def tag_nal_seq_body)
qed

lemma relative_flv_timestamp_sets [simp]:
  "seg_sps (snd (relative_flv_timestamp r sw)) = seg_sps sw"
  "seg_pps (snd (relative_flv_timestamp r sw)) = seg_pps sw"
  "segment_base_flv (snd (relative_flv_timestamp r sw)) = segment_base_flv sw"
  "current_epoch (snd (relative_flv_timestamp r sw)) = current_epoch sw"
  "pending_seq_header (snd (relative_flv_timestamp r sw)) = pending_seq_header sw"
  by (simp_all add: relative_flv_timestamp_def Let_def)

lemma rebase_sets [simp]:
  "seg_sps (rebase n sw) = seg_sps sw" "seg_pps (rebase n sw) = seg_pps sw"
  by (simp_all add: rebase_def Let_def)

lemma handle_nal_param:
  "is_param n \<Longrightarrow> fst (handle_nal n sw) = []"
  by (auto simp: handle_nal_def Let_def is_param_def)

lemma handle_nal_slice:
  assumes "\<not> is_param n"
  shows "fst (handle_nal n sw) =
     (if pending_seq_header (rebase n sw) \<and> nal_type n = NAL_TYPE_IDR then
        (case (seg_sps sw, seg_pps sw) of
           (Some sps, Some pps) \<Rightarrow>
             (case build_avc_sequence_header_tag sps pps (segment_base_flv (rebase n sw)) of
                Some seq \<Rightarrow> [seq] | None \<Rightarrow> [])
         | _ \<Rightarrow> []) else [])
     @ [wrap_tag FLV_TAG_TYPE_VIDEO (fst (relative_flv_timestamp (nal_timestamp n) (rebase n sw))) (nalu_body n)]"
  using assms
  by (simp add: handle_nal_def Let_def is_param_def build_avc_nalu_tag_single case_prod_beta
      relative_flv_timestamp_def)

lemma handle_nal_small_sets:
  assumes "small_sets sw" "small_nal n"
  shows "small_sets (snd (snd (handle_nal n sw)))"
  using assms
  by (auto simp: handle_nal_def Let_def small_sets_def small_nal_def case_prod_beta)

lemma handle_nal_carry:
  assumes "small_sets sw" "small_nal n"
  shows "tags_carry (fst (handle_nal n sw)) (if is_param n then [] else [carried n])"
proof (cases "is_param n")
  case True
  then show ?thesis by (simp add: handle_nal_param)
next
  case False
  have "tags_carry (if pending_seq_header (rebase n sw) \<and> nal_type n = NAL_TYPE_IDR then
        (case (seg_sps sw, seg_pps sw) of
           (Some sps, Some pps) \<Rightarrow>
             (case build_avc_sequence_header_tag sps pps (segment_base_flv (rebase n sw)) of
                Some seq \<Rightarrow> [seq] | None \<Rightarrow> [])
         | _ \<Rightarrow> []) else []) []"
    using assms(1) seq_tag_carry
    by (auto simp: small_sets_def split: option.split)
  from tags_carry_append [OF this nalu_tag_carry [OF assms(2)]] False show ?thesis
    by (simp add: handle_nal_slice)
qed

lemma nals_tags_carry:
  assumes "small_sets sw" "list_all small_nal ns"
  shows "tags_carry (nals_tags ns sw) (map carried (filter (\<lambda>n. \<not> is_param n) ns))"
  using assms
proof (induction ns arbitrary: sw)
  case Nil
  then show ?case by simp
next
  case (Cons n ns)
  then have "tags_carry (nals_tags ns (snd (snd (handle_nal n sw)))) (map carried (filter (\<lambda>n. \<not> is_param n) ns))"
    by (intro Cons.IH) (simp_all add: handle_nal_small_sets)
  from tags_carry_append [OF handle_nal_carry [of sw n] this] Cons.prems show ?case
    by (cases "is_param n") simp_all
qed

lemma seed_tags_carry:
  assumes "small_nal sps" "small_nal pps" "small_nal idr"
  shows "tags_carry (seed_tags sps pps idr) [carried idr]"
proof -
  have "tags_carry (case build_avc_sequence_header_tag (nal_data sps) (nal_data pps) 0 of
      Some seq \<Rightarrow> [seq] | None \<Rightarrow> []) []"
    using assms by (intro seq_tag_carry) (simp_all add: small_nal_def)
  from tags_carry_append [OF this nalu_tag_carry [OF assms(3), of 0]] show ?thesis
    by (simp add: seed_tags_def build_avc_nalu_tag_single option.case_eq_if)
qed

section \<open>Timestamps across stream segments\<close>

text \<open>The timestamps carried by the tags of a run, in order, as a player reads them.\<close>

definition tag_timestamp :: "byte list \<Rightarrow> u32" where
  "tag_timestamp t = u32_from_be_bytes (t ! 7) (t ! 4) (t ! 5) (t ! 6)"

lemma tag_timestamp_wrap [simp]: "tag_timestamp (wrap_tag ty ts body) = ts"
  using ts_bytes [of ts] by (simp add: tag_timestamp_def wrap_tag_def Let_def)

lemma unat_saturating_add: "unat (saturating_add a b) = min (unat a + unat b) (2 ^ 32 - 1)"
  by (auto simp: saturating_add_def unat_word_ariths min_def)

lemma saturating_add_ge: "a \<le> saturating_add a b"
proof -
  have "unat a < 2 ^ LENGTH(32)" by (rule unsigned_less)
  then show ?thesis by (simp add: word_le_nat_alt unat_saturating_add)
qed

lemma saturating_add_mono: "a \<le> a' \<Longrightarrow> saturating_add a b \<le> saturating_add a' b"
  by (simp add: word_le_nat_alt unat_saturating_add)

definition ts_inv :: "stream_writer \<Rightarrow> bool" where
  "ts_inv sw \<longleftrightarrow> segment_base_flv sw \<le> last_flv_ts sw"

text \<open>
  One step: every tag carries a timestamp between the segment base in force and the maximum
  \<open>last_flv_ts\<close> of the new state, and both bounds only grow.
\<close>

lemma relative_flv_timestamp_bounds:
  assumes "relative_flv_timestamp r sw = (ts, sw')" "ts_inv sw"
  shows "segment_base_flv sw \<le> ts" "ts \<le> last_flv_ts sw'" "last_flv_ts sw \<le> last_flv_ts sw'" "ts_inv sw'"
  using assms saturating_add_ge [of "segment_base_flv sw"]
  by (auto simp: relative_flv_timestamp_def ts_inv_def Let_def split: if_splits intro: order_trans)

lemma rebase_bounds:
  assumes "ts_inv sw"
  shows "ts_inv (rebase n sw)" "last_flv_ts sw \<le> last_flv_ts (rebase n sw)"
    "segment_base_flv sw \<le> segment_base_flv (rebase n sw)"
    "nal_epoch n \<noteq> current_epoch sw \<Longrightarrow>
       segment_base_flv (rebase n sw) = saturating_add (last_flv_ts sw) SEGMENT_GAP_MS"
  using assms saturating_add_ge [of "last_flv_ts sw" SEGMENT_GAP_MS]
  by (auto simp: rebase_def ts_inv_def Let_def)

lemma seq_tag_timestamp:
  "build_avc_sequence_header_tag sps pps ts = Some t \<Longrightarrow> tag_timestamp t = ts"
  by (auto simp: build_avc_sequence_header_tag_def split: option.splits)

lemma handle_nal_bounds:
  assumes "ts_inv sw" "handle_nal n sw = (tags, f, sw')"
  shows "ts_inv sw'" "last_flv_ts sw \<le> last_flv_ts sw'" "segment_base_flv sw' = segment_base_flv (rebase n sw)"
    "t \<in> set tags \<Longrightarrow> segment_base_flv sw' \<le> tag_timestamp t \<and> tag_timestamp t \<le> last_flv_ts sw'"
proof -
  let ?r = "rebase n sw"
  obtain ts sw2 where rel: "relative_flv_timestamp (nal_timestamp n)
      (if pending_seq_header ?r \<and> nal_type n = NAL_TYPE_IDR then ?r\<lparr>pending_seq_header := False\<rparr> else ?r) = (ts, sw2)"
    by fastforce
  have inv: "ts_inv ?r" "last_flv_ts sw \<le> last_flv_ts ?r" using rebase_bounds [OF assms(1)] by simp_all
  then have "ts_inv (if pending_seq_header ?r \<and> nal_type n = NAL_TYPE_IDR then ?r\<lparr>pending_seq_header := False\<rparr> else ?r)"
    by (simp add: ts_inv_def)
  note b = relative_flv_timestamp_bounds [OF rel this]
  have base: "segment_base_flv sw2 = segment_base_flv ?r"
    using relative_flv_timestamp_sets(3) [of "nal_timestamp n"
      "if pending_seq_header ?r \<and> nal_type n = NAL_TYPE_IDR then ?r\<lparr>pending_seq_header := False\<rparr> else ?r"]
    by (simp add: rel)
  have st: "sw' = (if is_param n then (if nal_type n = NAL_TYPE_SPS then ?r\<lparr>seg_sps := Some (nal_data n)\<rparr>
      else ?r\<lparr>seg_pps := Some (nal_data n)\<rparr>) else sw2)"
    using assms(2) rel by (auto simp: handle_nal_def Let_def is_param_def split: if_splits)
  show "ts_inv sw'" using inv(1) b(4) by (simp add: st ts_inv_def)
  show "last_flv_ts sw \<le> last_flv_ts sw'" using inv(2) b(3) by (auto simp: st split: if_splits)
  show "segment_base_flv sw' = segment_base_flv ?r" using base by (simp add: st)
  assume t: "t \<in> set tags"
  then have np: "\<not> is_param n" using assms(2) handle_nal_param [of n sw] by auto
  then have "tag_timestamp t = segment_base_flv ?r \<or> tag_timestamp t = ts"
    using t assms(2) rel by (auto simp: handle_nal_def Let_def is_param_def build_avc_nalu_tag_single
        dest!: seq_tag_timestamp split: if_splits option.splits)
  then show "segment_base_flv sw' \<le> tag_timestamp t \<and> tag_timestamp t \<le> last_flv_ts sw'"
    using b base np by (auto simp: st ts_inv_def split: if_splits)
qed

lemma nals_bounds_aux:
  "ts_inv sw \<Longrightarrow> ts_inv (nals_state ns sw) \<and> last_flv_ts sw \<le> last_flv_ts (nals_state ns sw)
     \<and> (\<forall>t \<in> set (nals_tags ns sw). tag_timestamp t \<le> last_flv_ts (nals_state ns sw))"
proof (induction ns arbitrary: sw)
  case Nil
  then show ?case by simp
next
  case (Cons n ns)
  obtain tags f sw' where h: "handle_nal n sw = (tags, f, sw')" by (cases "handle_nal n sw")
  note hb = handle_nal_bounds [OF Cons.prems h]
  from Cons.IH [OF hb(1)] hb(2,4) h show ?case by (fastforce intro: order_trans)
qed

lemma nals_bounds:
  assumes "ts_inv sw"
  shows "ts_inv (nals_state ns sw)" "last_flv_ts sw \<le> last_flv_ts (nals_state ns sw)"
    "t \<in> set (nals_tags ns sw) \<Longrightarrow> tag_timestamp t \<le> last_flv_ts (nals_state ns sw)"
  using nals_bounds_aux [OF assms, of ns] by blast+

lemma nals_tags_ge_base:
  assumes "ts_inv sw" "t \<in> set (nals_tags ns sw)"
  shows "segment_base_flv sw \<le> tag_timestamp t"
  using assms
proof (induction ns arbitrary: sw)
  case Nil
  then show ?case by simp
next
  case (Cons n ns)
  obtain tags f sw' where h: "handle_nal n sw = (tags, f, sw')" by (cases "handle_nal n sw")
  note hb = handle_nal_bounds [OF Cons.prems(1) h] and rb = rebase_bounds(3) [OF Cons.prems(1), of n]
  show ?case
  proof (cases "t \<in> set tags")
    case True
    then show ?thesis using hb(3,4) rb by (auto intro: order_trans)
  next
    case False
    then have "segment_base_flv sw' \<le> tag_timestamp t" using Cons hb(1) h by auto
    then show ?thesis using hb(3) rb by (auto intro: order_trans)
  qed
qed

lemma ts_inv_prime [simp]: "ts_inv (prime sps pps idr sw)"
  by (simp add: ts_inv_def prime_def)

text \<open>
  C28. When the intercom restarts its RTP stream (a NAL unit with a new epoch, after any units \<open>ms\<close> of
  earlier epochs), every tag written from then on, whatever follows, has an FLV timestamp at least 40 ms
  after every tag written before, up to saturation at the largest 32-bit value: playback time never jumps
  back across restarts, although the RTP clock does.
\<close>

theorem restart_timestamps_advance:
  assumes "t1 \<in> set (seed_tags sps pps idr @ nals_tags ms (prime sps pps idr sw))"
    and "nal_epoch n \<noteq> current_epoch (nals_state ms (prime sps pps idr sw))"
    and "t2 \<in> set (nals_tags (n # ns) (nals_state ms (prime sps pps idr sw)))"
  shows "unat (tag_timestamp t2) \<ge> min (unat (tag_timestamp t1) + 40) (2 ^ 32 - 1)"
proof -
  let ?p = "prime sps pps idr sw" and ?s = "nals_state ms (prime sps pps idr sw)"
  have s: "ts_inv ?s" by (simp add: nals_bounds)
  have "tag_timestamp t1 = 0 \<or> tag_timestamp t1 \<le> last_flv_ts ?s"
    using assms(1) nals_bounds(3) [of ?p t1 ms]
    by (auto simp: seed_tags_def build_avc_nalu_tag_single dest: seq_tag_timestamp [OF sym] seq_tag_timestamp
        split: option.splits)
  then have t1: "tag_timestamp t1 \<le> last_flv_ts ?s" by auto
  obtain tags f s' where h: "handle_nal n ?s = (tags, f, s')" by (cases "handle_nal n ?s")
  note hb = handle_nal_bounds [OF s h]
  have base: "segment_base_flv s' = saturating_add (last_flv_ts ?s) SEGMENT_GAP_MS"
    using rebase_bounds(4) [OF s assms(2)] hb(3) by simp
  have "t2 \<in> set tags \<or> t2 \<in> set (nals_tags ns s')" using assms(3) h by simp
  then have "segment_base_flv s' \<le> tag_timestamp t2"
    using hb(1,4) nals_tags_ge_base by blast
  moreover have "saturating_add (tag_timestamp t1) SEGMENT_GAP_MS \<le> segment_base_flv s'"
    unfolding base by (rule saturating_add_mono [OF t1])
  ultimately show ?thesis
    by (simp add: word_le_nat_alt unat_saturating_add SEGMENT_GAP_MS_def)
qed

text \<open>A witness: one frame 100 ms into the first segment, then a restarted stream whose RTP clock begins at 5.\<close>

definition wit_nal :: "byte \<Rightarrow> u32 \<Rightarrow> u32 \<Rightarrow> nal_unit" where
  "wit_nal ty ts ep = \<lparr>nal_type = ty, nal_data = [ty, 1, 2, 3], nal_timestamp = ts, nal_epoch = ep\<rparr>"

theorem restart_timestamps_advance_witness:
  "tag_timestamp (nals_tags [wit_nal 1 10000 0] (prime (wit_nal 7 0 0) (wit_nal 8 0 0) (wit_nal 5 1000 0) new_stream_writer) ! 0) = 100
   \<and> unat (tag_timestamp (nals_tags [wit_nal 5 5 1] (nals_state [wit_nal 1 10000 0]
        (prime (wit_nal 7 0 0) (wit_nal 8 0 0) (wit_nal 5 1000 0) new_stream_writer)) ! 1)) \<ge> 140"
proof -
  let ?p = "prime (wit_nal 7 0 0) (wit_nal 8 0 0) (wit_nal 5 1000 0) new_stream_writer"
  let ?s = "nals_state [wit_nal 1 10000 0] ?p"
  note defs = wit_nal_def prime_def new_stream_writer_def handle_nal_def rebase_def Let_def relative_flv_timestamp_def
    NAL_TYPE_SPS_def NAL_TYPE_PPS_def NAL_TYPE_IDR_def saturating_add_def
  have a: "nals_tags [wit_nal 1 10000 0] ?p = [wrap_tag FLV_TAG_TYPE_VIDEO 100 (nalu_body (wit_nal 1 10000 0))]"
    by (simp add: defs build_avc_nalu_tag_single)
  have e: "nal_epoch (wit_nal 5 5 1) \<noteq> current_epoch ?s" by (simp add: defs)
  have l: "length (nals_tags [wit_nal 5 5 1] ?s) = 2"
    by (simp add: defs build_avc_nalu_tag_single build_avc_sequence_header_tag_def pack_avc_decoder_config_def)
  then have m: "nals_tags [wit_nal 5 5 1] ?s ! 1 \<in> set (nals_tags [wit_nal 5 5 1] ?s)" by simp
  have ts: "tag_timestamp (nals_tags [wit_nal 1 10000 0] ?p ! 0) = 100" unfolding a by simp
  have "nals_tags [wit_nal 1 10000 0] ?p ! 0 \<in> set (seed_tags (wit_nal 7 0 0) (wit_nal 8 0 0) (wit_nal 5 1000 0)
      @ nals_tags [wit_nal 1 10000 0] ?p)" unfolding a by simp
  from restart_timestamps_advance [OF this e m] show ?thesis unfolding ts by simp
qed

section \<open>Running over a sink\<close>

text \<open>
  What the stream writer needs of its output: an accepted \<open>write_all\<close> appends its bytes to what the other
  side will read, a \<open>flush\<close> adds nothing.  \<open>rep w bs\<close> says that the sink \<open>w\<close> has accepted the body \<open>bs\<close>.
\<close>

locale byte_sink =
  fixes wr :: "byte list \<Rightarrow> 'w \<Rightarrow> bool \<times> 'w"
    and fl :: "'w \<Rightarrow> bool \<times> 'w"
    and rep :: "'w \<Rightarrow> byte list \<Rightarrow> bool"
  assumes wr_rep: "rep w bs \<Longrightarrow> wr b w = (True, w') \<Longrightarrow> rep w' (bs @ b)"
    and fl_rep: "rep w bs \<Longrightarrow> rep (snd (fl w)) bs"
begin

lemma write_tags_rep:
  "rep w bs \<Longrightarrow> write_tags wr tags w = (True, w') \<Longrightarrow> rep w' (bs @ concat tags)"
proof (induction tags arbitrary: w bs)
  case Nil
  then show ?case by simp
next
  case (Cons t tags)
  obtain ok w1 where h: "wr t w = (ok, w1)" by (cases "wr t w")
  with Cons.prems(2) have ok and w: "write_tags wr tags w1 = (True, w')" by (simp_all split: if_splits)
  with Cons.IH [OF wr_rep [OF Cons.prems(1)] w] h show ?case by simp
qed

lemma stream_loop_rep:
  assumes "rep w bs" "stream_loop wr fl evs sw w = (r, sw', w')" "r \<noteq> Some (Err StreamIo)"
  shows "rep w' (bs @ concat (nals_tags (event_nals evs) sw))"
  using assms
proof (induction evs arbitrary: w bs sw)
  case Nil
  then show ?case by simp
next
  case (Cons ev evs)
  show ?case
  proof (cases ev)
    case RecvDisconnected
    then show ?thesis using Cons.prems by simp
  next
    case RecvTimeout
    obtain ok w1 where f: "fl w = (ok, w1)" by (cases "fl w")
    then have ok: ok using Cons.prems(2,3) RecvTimeout by (cases ok) auto
    have "rep w1 bs" using fl_rep [OF Cons.prems(1)] f by simp
    moreover have "stream_loop wr fl evs sw w1 = (r, sw', w')" using Cons.prems(2) RecvTimeout f ok by simp
    ultimately show ?thesis using Cons.IH [of w1 bs sw] Cons.prems(3) RecvTimeout by simp
  next
    case (RecvNal n)
    obtain tags f sw1 where h: "handle_nal n sw = (tags, f, sw1)" by (cases "handle_nal n sw")
    obtain ok w1 where wt: "write_tags wr tags w = (ok, w1)" by (cases "write_tags wr tags w")
    have ok: "ok" using Cons.prems(2,3) RecvNal h wt by (cases ok) simp_all
    then have "rep (if f then snd (fl w1) else w1) (bs @ concat tags)"
      using write_tags_rep [OF Cons.prems(1)] wt fl_rep by simp
    moreover have "stream_loop wr fl evs sw1 (if f then snd (fl w1) else w1) = (r, sw', w')"
      using Cons.prems(2) RecvNal h wt ok by simp
    ultimately have "rep w' ((bs @ concat tags) @ concat (nals_tags (event_nals evs) sw1))"
      using Cons.IH Cons.prems(3) by blast
    then show ?thesis using RecvNal h by simp
  qed
qed

lemma stream_run_rep:
  assumes "rep w bs" "latest_idr buf = Some (sps, pps, idr)" "stream_run wr fl buf evs sw w = (r, sw', w')"
    and "r \<noteq> Some (Err StreamIo)"
  shows "rep w' (bs @ flv_header @ concat (seed_tags sps pps idr @ nals_tags (event_nals evs) (prime sps pps idr sw)))"
proof -
  obtain ok w1 where h: "wr flv_header w = (ok, w1)" by (cases "wr flv_header w")
  have ok: ok using assms(2-4) h by (auto simp: stream_run_def split: if_splits)
  obtain ok2 w3 where s: "write_tags wr (seed_tags sps pps idr) (snd (fl w1)) = (ok2, w3)" by (cases "write_tags wr (seed_tags sps pps idr) (snd (fl w1))")
  have ok2: ok2 using assms(2-4) h s by (auto simp: stream_run_def Let_def split: if_splits)
  have l: "stream_loop wr fl evs (prime sps pps idr sw) (snd (fl w3)) = (r, sw', w')"
    using assms(2,3) h s ok ok2 by (simp add: stream_run_def Let_def)
  have "rep (snd (fl w1)) (bs @ flv_header)" using h ok assms(1) wr_rep fl_rep by simp
  then have "rep (snd (fl w3)) ((bs @ flv_header) @ concat (seed_tags sps pps idr))"
    using write_tags_rep [of "snd (fl w1)" "bs @ flv_header" "seed_tags sps pps idr" w3] s ok2
    by (intro fl_rep) (simp only: simp_thms)
  from stream_loop_rep [OF this l assms(4)] show ?thesis by simp
qed

text \<open>So the body is an FLV file that carries the seed key frame and then every slice NAL, once and in order.\<close>

lemma stream_run_flv:
  assumes "rep w []" "latest_idr buf = Some (sps, pps, idr)" "stream_run wr fl buf evs sw w = (r, sw', w')"
    and "r \<noteq> Some (Err StreamIo)" "list_all small_nal ([sps, pps, idr] @ event_nals evs)"
  shows "\<exists>body es. rep w' body \<and> flv_demux body = Some es
     \<and> List.map_filter tag_nal es = map carried (idr # filter (\<lambda>n. \<not> is_param n) (event_nals evs))"
proof -
  let ?tags = "seed_tags sps pps idr @ nals_tags (event_nals evs) (prime sps pps idr sw)"
  have "small_sets (prime sps pps idr sw)" using assms(5) by (auto simp: small_sets_def prime_def small_nal_def)
  then have "tags_carry ?tags ([carried idr] @ map carried (filter (\<lambda>n. \<not> is_param n) (event_nals evs)))"
    using assms(5) by (intro tags_carry_append seed_tags_carry nals_tags_carry) simp_all
  then obtain es where es: "demux (concat ?tags) = Some es"
    "List.map_filter tag_nal es = map carried (idr # filter (\<lambda>n. \<not> is_param n) (event_nals evs))"
    using tags_carry_demux by fastforce
  have "take 13 (flv_header @ concat ?tags) = flv_header \<and> drop 13 (flv_header @ concat ?tags) = concat ?tags"
    by (simp add: flv_header_def)
  then have "flv_demux (flv_header @ concat ?tags) = Some es" using es(1) by (simp only: flv_demux_def) simp
  with stream_run_rep [OF assms(1-4)] es(2) show ?thesis by auto
qed

end

text \<open>A sink that is still accepting data: then the writer never stops on an I/O error.\<close>

locale live_sink = byte_sink wr fl rep
  for wr :: "byte list \<Rightarrow> 'w \<Rightarrow> bool \<times> 'w" and fl :: "'w \<Rightarrow> bool \<times> 'w" and rep :: "'w \<Rightarrow> byte list \<Rightarrow> bool" +
  fixes live :: "'w \<Rightarrow> bool"
  assumes wr_live: "live w \<Longrightarrow> \<exists>w'. wr b w = (True, w') \<and> live w'"
    and fl_live: "live w \<Longrightarrow> \<exists>w'. fl w = (True, w') \<and> live w'"
begin

lemma write_tags_live: "live w \<Longrightarrow> \<exists>w'. write_tags wr tags w = (True, w') \<and> live w'"
proof (induction tags arbitrary: w)
  case (Cons t tags)
  then show ?case using wr_live [of w t] by auto
qed simp

lemma stream_loop_live: "live w \<Longrightarrow> fst (stream_loop wr fl evs sw w) \<noteq> Some (Err StreamIo)"
proof (induction evs arbitrary: w sw)
  case (Cons ev evs)
  show ?case
  proof (cases ev)
    case (RecvNal n)
    obtain tags f sw1 where h: "handle_nal n sw = (tags, f, sw1)" by (cases "handle_nal n sw")
    obtain w1 where w1: "write_tags wr tags w = (True, w1)" "live w1" using write_tags_live [OF Cons.prems] by blast
    then have "live (if f then snd (fl w1) else w1)" using fl_live [of w1] by auto
    with Cons.IH RecvNal h w1 show ?thesis by simp
  next
    case RecvTimeout
    obtain w1 where "fl w = (True, w1)" "live w1" using fl_live [OF Cons.prems] by blast
    with Cons.IH RecvTimeout show ?thesis by simp
  qed simp
qed simp

lemma stream_run_live:
  assumes "live w"
  shows "fst (stream_run wr fl buf evs sw w) \<noteq> Some (Err StreamIo)"
proof -
  obtain w1 where 1: "wr flv_header w = (True, w1)" "live w1" using wr_live [OF assms] by blast
  obtain w2 where 2: "fl w1 = (True, w2)" "live w2" using fl_live [OF 1(2)] by blast
  have "fst (case write_tags wr (seed_tags sps pps idr) w2 of (ok2, w3) \<Rightarrow>
      if \<not> ok2 then (Some (Err StreamIo), sw1, w3) else stream_loop wr fl evs sw1 (snd (fl w3)))
      \<noteq> Some (Err StreamIo)" for sps pps idr sw1
  proof -
    obtain w3 where 3: "write_tags wr (seed_tags sps pps idr) w2 = (True, w3)" "live w3"
      using write_tags_live [OF 2(2)] by blast
    obtain w4 where 4: "fl w3 = (True, w4)" "live w4" using fl_live [OF 3(2)] by blast
    then show ?thesis using 3 stream_loop_live [OF 4(2)] by simp
  qed
  then show ?thesis
    using 1 2 by (simp add: stream_run_def Let_def split: option.split prod.split)
qed

end

end
