(* ===== verification/HttpResponse.thy ===== *)
theory HttpResponse
  imports HttpParse IoWriter Transmux
begin

text \<open>
  \<open>src/httpx/response.rs\<close>: the response writer handed to handlers, over any \<open>W: Write\<close> (the pair
  \<open>wr\<close>, \<open>fl\<close>).  The lemmas show that what it writes is read back by the client of the same code base, and
  that it is a sink for the FLV stream writer.
\<close>

section \<open>ResponseWriterImpl\<close>

record 'w response_writer =
  rw_bw :: "'w bufw"
  rw_headers :: header
  rw_wrote_header :: bool
  rw_status :: nat
  rw_chunked :: bool

definition rw_new :: "'w \<Rightarrow> 'w response_writer" where
  "rw_new inner = \<lparr>rw_bw = bufw_new inner, rw_headers = header_new, rw_wrote_header = False,
     rw_status = 0, rw_chunked = False\<rparr>"

text \<open>\<open>w.header().set(k, v)\<close>.\<close>

definition rw_header_set :: "string \<Rightarrow> string \<Rightarrow> 'w response_writer \<Rightarrow> 'w response_writer" where
  "rw_header_set k v w = w\<lparr>rw_headers := header_set k v (rw_headers w)\<rparr>"

text \<open>The status line and the header lines, as the pieces of the \<open>write!\<close> calls; errors are ignored.\<close>

definition status_pieces :: "nat \<Rightarrow> byte list list" where
  "status_pieces code =
     (let reason = (if status_text code = [] then ''Status'' else status_text code) in
      [as_bytes ''HTTP/1.1 '', as_bytes (show_nat code), as_bytes '' '', as_bytes reason, crlf])"

fun write_header_lines :: "'w write_fn \<Rightarrow> (string \<times> string) list \<Rightarrow> 'w bufw \<Rightarrow> 'w bufw" where
  "write_header_lines wr [] bw = bw"
| "write_header_lines wr ((k, v) # kvs) bw =
     write_header_lines wr kvs
       (snd (write_fmt (bufw_write_all wr) [as_bytes k, as_bytes '': '', as_bytes v, crlf] bw))"

definition rw_write_header :: "'w write_fn \<Rightarrow> nat \<Rightarrow> 'w response_writer \<Rightarrow> 'w response_writer" where
  "rw_write_header wr code w =
     (if rw_wrote_header w then w
      else
        let h1 = header_set ''Connection'' ''close'' (rw_headers w);
            ch = (header_get ''Content-Length'' h1 = None);
            h2 = (if ch then header_set ''Transfer-Encoding'' ''chunked'' h1 else h1);
            bw1 = snd (write_fmt (bufw_write_all wr) (status_pieces code) (rw_bw w));
            bw2 = write_header_lines wr (header_fields (header_sorted h2)) bw1;
            bw3 = snd (bufw_write_all wr crlf bw2)
        in w\<lparr>rw_wrote_header := True, rw_status := code, rw_headers := h2,
             rw_chunked := (if ch then True else rw_chunked w), rw_bw := bw3\<rparr>)"

definition write_chunk :: "'w write_fn \<Rightarrow> byte list \<Rightarrow> 'w bufw \<Rightarrow> (io_kind + nat) \<times> 'w bufw" where
  "write_chunk wr data bw =
     (case write_fmt (bufw_write_all wr) [as_bytes (show_hex (length data)), crlf] bw of
        (Err e, bw1) \<Rightarrow> (Err e, bw1)
      | (Ok _, bw1) \<Rightarrow>
          (case bufw_write_all wr data bw1 of
             (Err e, bw2) \<Rightarrow> (Err e, bw2)
           | (Ok _, bw2) \<Rightarrow>
               (case bufw_write_all wr crlf bw2 of
                  (Err e, bw3) \<Rightarrow> (Err e, bw3)
                | (Ok _, bw3) \<Rightarrow> (Ok (length data), bw3))))"

definition rw_write :: "'w write_fn \<Rightarrow> byte list \<Rightarrow> 'w response_writer \<Rightarrow> (io_kind + nat) \<times> 'w response_writer" where
  "rw_write wr data w0 =
     (let w = (if rw_wrote_header w0 then w0 else rw_write_header wr STATUS_OK w0) in
      if data = [] then (Ok 0, w)
      else if rw_chunked w then (case write_chunk wr data (rw_bw w) of (r, bw) \<Rightarrow> (r, w\<lparr>rw_bw := bw\<rparr>))
      else (case bufw_write wr data (rw_bw w) of (r, bw) \<Rightarrow> (r, w\<lparr>rw_bw := bw\<rparr>)))"

definition rw_flush :: "'w write_fn \<Rightarrow> 'w flush_fn \<Rightarrow> 'w response_writer \<Rightarrow> (io_kind + unit) \<times> 'w response_writer" where
  "rw_flush wr fl w0 =
     (let w = (if rw_wrote_header w0 then w0 else rw_write_header wr STATUS_OK w0) in
      case bufw_flush wr fl (rw_bw w) of (r, bw) \<Rightarrow> (r, w\<lparr>rw_bw := bw\<rparr>))"

definition rw_finish :: "'w write_fn \<Rightarrow> 'w flush_fn \<Rightarrow> 'w response_writer \<Rightarrow> (io_kind + unit) \<times> 'w response_writer" where
  "rw_finish wr fl w0 =
     (let w = (if rw_wrote_header w0 then w0 else rw_write_header wr STATUS_OK w0) in
      case (if rw_chunked w then bufw_write_all wr last_chunk (rw_bw w) else (Ok (), rw_bw w)) of
        (Err e, bw) \<Rightarrow> (Err e, w\<lparr>rw_bw := bw\<rparr>)
      | (Ok _, bw) \<Rightarrow> (case bufw_flush wr fl bw of (r, bw') \<Rightarrow> (r, w\<lparr>rw_bw := bw'\<rparr>)))"

text \<open>The adapter \<open>ResponseBodyWriter\<close> of \<open>control.rs\<close>, with the \<open>write_all\<close> that \<open>StreamWriter\<close> calls.\<close>

definition body_write_all :: "'w write_fn \<Rightarrow> byte list \<Rightarrow> 'w response_writer \<Rightarrow> bool \<times> 'w response_writer" where
  "body_write_all wr b w = (case write_all (rw_write wr) b w of (r, w') \<Rightarrow> (r = Ok (), w'))"

definition body_flush :: "'w write_fn \<Rightarrow> 'w flush_fn \<Rightarrow> 'w response_writer \<Rightarrow> bool \<times> 'w response_writer" where
  "body_flush wr fl w = (case rw_flush wr fl w of (r, w') \<Rightarrow> (r = Ok (), w'))"

section \<open>What has been sent\<close>

definition rw_acc :: "('w \<Rightarrow> byte list) \<Rightarrow> 'w response_writer \<Rightarrow> byte list" where
  "rw_acc acc w = bufw_acc acc (rw_bw w)"

text \<open>The header has been written as \<open>head\<close>, and the chunks sent so far carry the body \<open>bs\<close>.\<close>

definition chunked_body :: "('w \<Rightarrow> byte list) \<Rightarrow> byte list \<Rightarrow> 'w response_writer \<Rightarrow> byte list \<Rightarrow> bool" where
  "chunked_body acc head w bs \<longleftrightarrow> rw_wrote_header w \<and> rw_chunked w
     \<and> (\<exists>ds. [] \<notin> set ds \<and> concat ds = bs \<and> rw_acc acc w = head @ concat (map chunk_bytes ds))"

text \<open>The bytes of the status line and of the header section.\<close>

definition head_bytes :: "nat \<Rightarrow> header \<Rightarrow> byte list" where
  "head_bytes code h = concat (status_pieces code) @ header_lines h @ crlf"

definition final_headers :: "header \<Rightarrow> header" where
  "final_headers h =
     (let h1 = header_set ''Connection'' ''close'' h in
      if header_get ''Content-Length'' h1 = None then header_set ''Transfer-Encoding'' ''chunked'' h1 else h1)"

context byte_writer
begin

lemma write_chunk_ok:
  assumes "write_chunk wr data bw = (Ok n, bw')"
  shows "n = length data \<and> bufw_acc acc bw' = bufw_acc acc bw @ chunk_bytes data"
proof -
  obtain bw1 where 1: "write_fmt (bufw_write_all wr) [as_bytes (show_hex (length data)), crlf] bw = (Ok (), bw1)"
    using assms by (auto simp: write_chunk_def split: prod.splits sum.splits)
  obtain bw2 where 2: "bufw_write_all wr data bw1 = (Ok (), bw2)"
    using assms 1 by (auto simp: write_chunk_def split: prod.splits sum.splits)
  have 3: "bufw_write_all wr crlf bw2 = (Ok (), bw')" "n = length data"
    using assms 1 2 by (auto simp: write_chunk_def split: prod.splits sum.splits)
  show ?thesis
    using bufw_write_fmt_ok [OF 1] bufw_write_all_ok [OF 2] bufw_write_all_ok [OF 3(1)] 3(2)
    by (simp add: chunk_bytes_def)
qed

lemma rw_write_chunked:
  assumes "chunked_body acc head w bs" "data \<noteq> []" "rw_write wr data w = (Ok n, w')"
  shows "n = length data \<and> chunked_body acc head w' (bs @ data)"
proof -
  obtain ds where ds: "[] \<notin> set ds" "concat ds = bs" "bufw_acc acc (rw_bw w) = head @ concat (map chunk_bytes ds)"
    and w: "rw_wrote_header w" "rw_chunked w"
    using assms(1) by (auto simp: chunked_body_def rw_acc_def)
  obtain bw where c: "write_chunk wr data (rw_bw w) = (Ok n, bw)" "w' = w\<lparr>rw_bw := bw\<rparr>"
    using assms(2,3) w by (auto simp: rw_write_def split: prod.splits)
  have "\<exists>ds. [] \<notin> set ds \<and> concat ds = bs @ data \<and> bufw_acc acc bw = head @ concat (map chunk_bytes ds)"
    by (rule exI [of _ "ds @ [data]"]) (use ds assms(2) write_chunk_ok [OF c(1)] in auto)
  then show ?thesis using w c write_chunk_ok [OF c(1)] by (simp add: chunked_body_def rw_acc_def)
qed

lemma body_sink: "byte_sink (body_write_all wr) (body_flush wr fl) (chunked_body acc head)"
proof
  fix w bs b w'
  assume r: "chunked_body acc head w bs" and "body_write_all wr b w = (True, w')"
  then have wa: "write_all (rw_write wr) b w = (Ok (), w')" by (auto simp: body_write_all_def split: prod.splits)
  show "chunked_body acc head w' (bs @ b)"
  proof (cases "b = []")
    case True
    then show ?thesis using r wa by (simp add: write_all.simps)
  next
    case False
    then obtain n w1 where n: "rw_write wr b w = (Ok n, w1)" "write_all (rw_write wr) (drop n b) w1 = (Ok (), w')"
      using wa by (auto simp: write_all.simps [of _ b] split: prod.splits sum.splits if_splits)
    with rw_write_chunked [OF r False n(1)] show ?thesis by (simp add: write_all.simps [of _ "[]"])
  qed
next
  fix w bs
  assume r: "chunked_body acc head w bs"
  obtain x bw where "bufw_flush wr fl (rw_bw w) = (x, bw)" by (cases "bufw_flush wr fl (rw_bw w)")
  with r bufw_flush_acc [OF this] show "chunked_body acc head (snd (body_flush wr fl w)) bs"
    by (simp add: chunked_body_def body_flush_def rw_flush_def rw_acc_def)
qed

end

section \<open>Responses are read back by the client\<close>

definition rw_healthy :: "('w \<Rightarrow> bool) \<Rightarrow> 'w response_writer \<Rightarrow> bool" where
  "rw_healthy healthy w \<longleftrightarrow> bufw_healthy healthy (rw_bw w)"

context healthy_writer
begin

lemma write_header_lines_healthy:
  assumes "bufw_healthy healthy bw"
  shows "bufw_healthy healthy (write_header_lines wr kvs bw)
    \<and> bufw_acc acc (write_header_lines wr kvs bw) = bufw_acc acc bw @ fields_bytes kvs"
  using assms
proof (induction kvs arbitrary: bw)
  case Nil
  then show ?case by (simp add: fields_bytes_def)
next
  case (Cons kv kvs)
  obtain k v where kv: "kv = (k, v)" by (cases kv)
  obtain bw1 where 1: "write_fmt (bufw_write_all wr) [as_bytes k, as_bytes '': '', as_bytes v, crlf] bw = (Ok (), bw1)"
    "bufw_healthy healthy bw1" using write_fmt_healthy [OF Cons.prems] by blast
  from Cons.IH [OF 1(2)] bufw_write_fmt_ok [OF 1(1)] 1(1) kv show ?case
    by (simp add: fields_bytes_def header_line_def crlf_def)
qed

lemma rw_write_header_healthy:
  assumes "rw_healthy healthy w" "\<not> rw_wrote_header w" "\<not> rw_chunked w"
  shows "rw_healthy healthy (rw_write_header wr code w)"
    "rw_acc acc (rw_write_header wr code w) = rw_acc acc w @ head_bytes code (final_headers (rw_headers w))"
    "rw_wrote_header (rw_write_header wr code w)" "rw_status (rw_write_header wr code w) = code"
    "rw_headers (rw_write_header wr code w) = final_headers (rw_headers w)"
    "rw_chunked (rw_write_header wr code w) \<longleftrightarrow> header_get ''Content-Length'' (rw_headers w) = None"
proof -
  let ?kvs = "header_fields (header_sorted (final_headers (rw_headers w)))"
  obtain bw1 where 1: "write_fmt (bufw_write_all wr) (status_pieces code) (rw_bw w) = (Ok (), bw1)"
    "bufw_healthy healthy bw1" using write_fmt_healthy assms(1) by (auto simp: rw_healthy_def)
  note 2 = write_header_lines_healthy [OF 1(2), of ?kvs]
  obtain bw3 where 3: "bufw_write_all wr crlf (write_header_lines wr ?kvs bw1) = (Ok (), bw3)"
    "bufw_healthy healthy bw3" using bufw_write_all_healthy 2 by blast
  have cl: "header_get ''Content-Length'' (header_set ''Connection'' ''close'' h) = header_get ''Content-Length'' h" for h
    by (rule header_get_set_other) code_simp
  have w: "rw_write_header wr code w = w\<lparr>rw_wrote_header := True, rw_status := code,
      rw_headers := final_headers (rw_headers w),
      rw_chunked := header_get ''Content-Length'' (rw_headers w) = None, rw_bw := bw3\<rparr>"
    using assms(2,3) 1(1) 3(1) by (simp add: rw_write_header_def final_headers_def Let_def cl)
  show "rw_healthy healthy (rw_write_header wr code w)" using 3(2) by (simp add: w rw_healthy_def)
  show "rw_acc acc (rw_write_header wr code w) = rw_acc acc w @ head_bytes code (final_headers (rw_headers w))"
    using bufw_write_fmt_ok [OF 1(1)] 2 bufw_write_all_ok [OF 3(1)]
    by (simp add: w rw_acc_def head_bytes_def header_lines_fields)
  show "rw_wrote_header (rw_write_header wr code w)" "rw_status (rw_write_header wr code w) = code"
    "rw_headers (rw_write_header wr code w) = final_headers (rw_headers w)"
    "rw_chunked (rw_write_header wr code w) \<longleftrightarrow> header_get ''Content-Length'' (rw_headers w) = None"
    by (simp_all add: w)
qed

lemma write_chunk_healthy:
  assumes "bufw_healthy healthy bw"
  shows "\<exists>bw'. write_chunk wr data bw = (Ok (length data), bw') \<and> bufw_healthy healthy bw'"
proof -
  obtain bw1 where 1: "write_fmt (bufw_write_all wr) [as_bytes (show_hex (length data)), crlf] bw = (Ok (), bw1)"
    "bufw_healthy healthy bw1" using write_fmt_healthy [OF assms] by blast
  obtain bw2 where 2: "bufw_write_all wr data bw1 = (Ok (), bw2)" "bufw_healthy healthy bw2"
    using bufw_write_all_healthy [OF 1(2)] by blast
  obtain bw3 where "bufw_write_all wr crlf bw2 = (Ok (), bw3)" "bufw_healthy healthy bw3"
    using bufw_write_all_healthy [OF 2(2)] by blast
  with 1 2 show ?thesis by (simp add: write_chunk_def)
qed

text \<open>Any sequence of writes by the handler.\<close>

lemma rw_writes_healthy:
  assumes "chunked_body acc head w bs" "rw_healthy healthy w"
  shows "chunked_body acc head (fold (\<lambda>d w. snd (rw_write wr d w)) ds w) (bs @ concat ds)
    \<and> rw_healthy healthy (fold (\<lambda>d w. snd (rw_write wr d w)) ds w)"
  using assms
proof (induction ds arbitrary: w bs)
  case (Cons d ds)
  have w: "rw_wrote_header w" "rw_chunked w" using Cons.prems(1) by (auto simp: chunked_body_def)
  show ?case
  proof (cases "d = []")
    case True
    with Cons w show ?thesis by (simp add: rw_write_def)
  next
    case False
    obtain bw where c: "write_chunk wr d (rw_bw w) = (Ok (length d), bw)" "bufw_healthy healthy bw"
      using write_chunk_healthy Cons.prems(2) by (auto simp: rw_healthy_def)
    then have r: "rw_write wr d w = (Ok (length d), w\<lparr>rw_bw := bw\<rparr>)" using w False by (simp add: rw_write_def)
    with rw_write_chunked [OF Cons.prems(1) False r] c(2) show ?thesis
      using Cons.IH [of "w\<lparr>rw_bw := bw\<rparr>" "bs @ d"] by (simp add: rw_healthy_def)
  qed
qed simp

lemma rw_finish_chunked:
  assumes "chunked_body acc head w bs" "rw_healthy healthy w"
  shows "\<exists>w' ds. rw_finish wr fl w = (Ok (), w') \<and> [] \<notin> set ds \<and> concat ds = bs
    \<and> bw_buf (rw_bw w') = [] \<and> healthy (bw_inner (rw_bw w'))
    \<and> acc (bw_inner (rw_bw w')) = head @ concat (map chunk_bytes ds) @ last_chunk
    \<and> (\<exists>x. fl x = (Ok (), bw_inner (rw_bw w')))"
proof -
  obtain ds where ds: "[] \<notin> set ds" "concat ds = bs" "bufw_acc acc (rw_bw w) = head @ concat (map chunk_bytes ds)"
    and w: "rw_wrote_header w" "rw_chunked w" using assms(1) by (auto simp: chunked_body_def rw_acc_def)
  obtain bw1 where 1: "bufw_write_all wr last_chunk (rw_bw w) = (Ok (), bw1)" "bufw_healthy healthy bw1"
    using bufw_write_all_healthy assms(2) by (auto simp: rw_healthy_def)
  obtain bw2 where 2: "flush_buf wr bw1 = (Ok (), bw2)" "bufw_healthy healthy bw2"
    using flush_buf_healthy [OF 1(2)] by blast
  obtain c where 3: "fl (bw_inner bw2) = (Ok (), c)" "healthy c"
    using fl_healthy 2(2) by (auto simp: bufw_healthy_def)
  have fin: "rw_finish wr fl w = (Ok (), w\<lparr>rw_bw := bw2\<lparr>bw_inner := c\<rparr>\<rparr>)"
    using w 1 2 3 by (simp add: rw_finish_def bufw_flush_def)
  have "bufw_acc acc bw2 = head @ concat (map chunk_bytes ds) @ last_chunk"
    using flush_buf_acc [OF 2(1)] bufw_write_all_ok [OF 1(1)] ds(3) by simp
  then have "bw_buf bw2 = []" "acc c = head @ concat (map chunk_bytes ds) @ last_chunk"
    using flush_buf_acc [OF 2(1)] fl_acc [OF 3(1)] by (simp_all add: bufw_acc_def)
  with fin ds 3 show ?thesis by auto
qed

end

text \<open>Parsing what the writer prints.\<close>

lemma status_text_text: "list_all text_char (status_text code)"
  by (simp add: status_text_def text_char_def)

lemma digit_text: "digit_char c \<Longrightarrow> text_char c \<and> c \<noteq> CHR '' ''"
  by (auto simp: digit_char_def is_ascii_digit_def text_char_def word_le_nat_alt)

lemma show_nat_text: "list_all text_char (show_nat n)" "CHR '' '' \<notin> set (show_nat n)"
  using show_nat_digits [of n] digit_text by (auto simp: list_all_iff)

lemma show_nat_graphic: "list_all graphic (show_nat n)"
proof -
  have "digit_char c \<Longrightarrow> graphic c" for c
    by (auto simp: digit_char_def is_ascii_digit_def graphic_def word_le_nat_alt)
  then show ?thesis using show_nat_digits [of n] by (auto simp: list_all_iff)
qed

lemma good_value_graphic: "v \<noteq> [] \<Longrightarrow> list_all graphic v \<Longrightarrow> good_value v"
  using graphic_text_char by (auto simp: good_value_def list_all_iff)

lemma show_nat_good: "good_value (show_nat n)"
  using good_value_graphic [OF _ show_nat_graphic] show_nat_digits [of n] by blast

definition status_line :: "nat \<Rightarrow> string" where
  "status_line code = ''HTTP/1.1 '' @ show_nat code @ '' ''
     @ (if status_text code = [] then ''Status'' else status_text code)"

lemma concat_status_pieces: "concat (status_pieces code) = as_bytes (status_line code) @ crlf"
  by (simp add: status_pieces_def status_line_def Let_def)

lemma status_line_text: "list_all text_char (status_line code)"
  using show_nat_text(1) [of code] status_text_text [of code] by (simp add: status_line_def text_char_def)

lemma parse_status_line_status_line:
  assumes "100 \<le> code" "code \<le> 999"
  shows "parse_status_line (status_line code) = Ok code"
proof -
  define rs where "rs = (if status_text code = [] then ''Status'' else status_text code)"
  have line: "status_line code = ''HTTP/1.1'' @ CHR '' '' # (show_nat code @ CHR '' '' # rs)"
    by (simp add: status_line_def rs_def)
  have p1: "position (\<lambda>x. x = CHR '' '') (status_line code) = Some (length ''HTTP/1.1'')"
    unfolding line by (rule position_append_hit) auto
  have d1: "drop (length ''HTTP/1.1'' + 1) (status_line code) = show_nat code @ CHR '' '' # rs"
    unfolding line by simp
  have p2: "position (\<lambda>x. x = CHR '' '') (show_nat code @ CHR '' '' # rs) = Some (length (show_nat code))"
    by (rule position_append_hit) (use show_nat_text(2) [of code] in auto)
  have sp: "splitn3 (CHR '' '') (status_line code) = [''HTTP/1.1'', show_nat code, rs]"
    unfolding splitn3_def p1 option.case d1 p2 by (simp add: line)
  obtain c cs where s: "show_nat code = c # cs" using show_nat_digits [of code] by (cases "show_nat code") auto
  then have "c \<noteq> CHR ''+''" using show_nat_digits [of code] digit_char_not_special by auto
  then have "parse_u16 (show_nat code) = Some code"
    using show_nat_digits [of code] s dec_val_show_nat [of code] assms by (simp add: parse_u16_def)
  then show ?thesis using assms by (simp add: parse_status_line_def sp)
qed

lemma length_show_nat: "n < 1000 \<Longrightarrow> length (show_nat n) \<le> 3"
  by (simp add: show_nat.simps [of n] show_nat.simps [of "n div 10"] show_nat.simps [of "n div 10 div 10"])

lemma length_status_text: "length (status_text code) \<le> 31"
  by (simp add: status_text_def)

lemma header_sorted_facts:
  assumes "header_inv h"
  shows "header_inv (header_sorted h)" "header_get k (header_sorted h) = header_get k h"
proof -
  have d: "distinct (map fst (header_sorted h))"
    using assms by (simp add: header_inv_def header_sorted_def distinct_map)
  then show "header_inv (header_sorted h)" using assms by (simp add: header_inv_def header_sorted_def)
  have "map_of (header_sorted h) = map_of h"
    using d assms by (subst map_of_inject_set) (simp_all add: header_inv_def header_sorted_def)
  then show "header_get k (header_sorted h) = header_get k h" by (simp add: header_get_def)
qed

text \<open>Headers a response may carry: readable fields within the parser's limits.\<close>

definition printable_headers :: "header \<Rightarrow> bool" where
  "printable_headers h \<longleftrightarrow> header_inv h \<and> good_fields (header_fields (header_sorted h))
     \<and> fields_size (header_fields (header_sorted h)) \<le> MAX_HEADER_BYTES
     \<and> length (header_fields (header_sorted h)) \<le> MAX_HEADER_COUNT"

lemma good_fields_keys:
  assumes "header_inv h" "good_fields (header_fields h)"
  shows "\<forall>k \<in> fst ` set h. canonical_mime_header_key k = k"
proof
  fix k
  assume "k \<in> fst ` set h"
  then obtain ws where ws: "(k, ws) \<in> set h" by auto
  then have "ws \<noteq> []" using assms(1) by (auto simp: header_inv_def)
  then obtain v where "v \<in> set ws" by (cases ws) auto
  with ws have "(k, v) \<in> set (header_fields h)" by (auto simp: header_fields_def)
  with assms(2) have "good_key k" unfolding good_fields_def list_all_iff by blast
  then show "canonical_mime_header_key k = k" by (simp add: good_key_def)
qed

lemma read_head:
  assumes "100 \<le> code" "code \<le> 999" "printable_headers h"
  shows "read_line MAX_REQUEST_LINE_BYTES \<lparr>rd_input = head_bytes code h @ rest, rd_end = e\<rparr>
      = Some (Ok (status_line code), \<lparr>rd_input = header_lines h @ crlf @ rest, rd_end = e\<rparr>)"
    and "\<exists>host. read_headers \<lparr>rd_input = header_lines h @ crlf @ rest, rd_end = e\<rparr>
      = Some (Ok (header_sorted h, host), \<lparr>rd_input = rest, rd_end = e\<rparr>)"
proof -
  have "length (status_line code) + 2 \<le> MAX_REQUEST_LINE_BYTES"
    using length_show_nat [of code] length_status_text [of code] assms
    by (simp add: status_line_def MAX_REQUEST_LINE_BYTES_def)
  then show "read_line MAX_REQUEST_LINE_BYTES \<lparr>rd_input = head_bytes code h @ rest, rd_end = e\<rparr>
      = Some (Ok (status_line code), \<lparr>rd_input = header_lines h @ crlf @ rest, rd_end = e\<rparr>)"
    using read_line_text [OF status_line_text] by (simp add: head_bytes_def concat_status_pieces)
  have inv: "header_inv (header_sorted h)" and good: "good_fields (header_fields (header_sorted h))"
    using assms(3) header_sorted_facts(1) by (simp_all add: printable_headers_def)
  have "fold (\<lambda>(k, v). header_add k v) (header_fields (header_sorted h)) [] = header_sorted h"
    using fold_header_add_fields [of "[]" "header_sorted h"] good_fields_keys [OF inv good] inv by simp
  then show "\<exists>host. read_headers \<lparr>rd_input = header_lines h @ crlf @ rest, rd_end = e\<rparr>
      = Some (Ok (header_sorted h, host), \<lparr>rd_input = rest, rd_end = e\<rparr>)"
    using read_headers_fields [OF good] assms(3) by (simp add: header_lines_fields printable_headers_def)
qed

lemma read_response_chunked:
  assumes "100 \<le> code" "code \<le> 999" "printable_headers h" "header_get ''Transfer-Encoding'' h = Some ''chunked''"
    and "[] \<notin> set ds" "int (length (concat ds)) \<le> MAX_BODY_BYTES"
  shows "read_response \<lparr>rd_input = head_bytes code h @ concat (map chunk_bytes ds) @ last_chunk @ rest, rd_end = e\<rparr>
    = Some (Ok \<lparr>resp_status_code = code, resp_header = header_sorted h, resp_body = concat ds\<rparr>,
        \<lparr>rd_input = rest, rd_end = e\<rparr>)"
proof -
  note rh = read_head [OF assms(1-3)]
  obtain host where "read_headers \<lparr>rd_input = header_lines h @ crlf @ concat (map chunk_bytes ds) @ last_chunk @ rest, rd_end = e\<rparr>
      = Some (Ok (header_sorted h, host), \<lparr>rd_input = concat (map chunk_bytes ds) @ last_chunk @ rest, rd_end = e\<rparr>)"
    using rh(2) by blast
  moreover have "header_get ''Transfer-Encoding'' (header_sorted h) = Some ''chunked''"
    using assms(3,4) header_sorted_facts(2) by (simp add: printable_headers_def)
  ultimately show ?thesis
    using rh(1) read_chunks_all [of ds "[]" rest e] assms(5,6) parse_status_line_status_line [OF assms(1,2)]
    by (simp add: read_response_def read_chunked_body_def)
qed

section \<open>The server's connections\<close>

text \<open>The writer stack of \<open>serve_conn_inner\<close>: a \<open>BufWriter\<close> over the deadline writer of the socket.\<close>

abbreviation conn_write :: "tcp_stream bufw write_fn" where
  "conn_write \<equiv> bufw_write deadline_write"

abbreviation conn_flush :: "tcp_stream bufw flush_fn" where
  "conn_flush \<equiv> bufw_flush deadline_write deadline_flush"

abbreviation conn_acc :: "tcp_stream bufw \<Rightarrow> byte list" where
  "conn_acc \<equiv> bufw_acc tcp_out"

context healthy_writer
begin

lemma body_live_sink:
  "live_sink (body_write_all wr) (body_flush wr fl) (chunked_body acc head)
     (\<lambda>w. rw_wrote_header w \<and> rw_chunked w \<and> rw_healthy healthy w)"
proof (intro live_sink.intro body_sink live_sink_axioms.intro)
  fix w b
  assume w: "rw_wrote_header w \<and> rw_chunked w \<and> rw_healthy healthy w"
  show "\<exists>w'. body_write_all wr b w = (True, w') \<and> rw_wrote_header w' \<and> rw_chunked w' \<and> rw_healthy healthy w'"
  proof (cases "b = []")
    case True
    then show ?thesis using w by (simp add: body_write_all_def write_all.simps)
  next
    case False
    obtain bw where c: "write_chunk wr b (rw_bw w) = (Ok (length b), bw)" "bufw_healthy healthy bw"
      using write_chunk_healthy w by (auto simp: rw_healthy_def)
    then have "rw_write wr b w = (Ok (length b), w\<lparr>rw_bw := bw\<rparr>)" using w False by (simp add: rw_write_def)
    then show ?thesis
      using w False c(2) by (simp add: body_write_all_def write_all.simps [of _ b] write_all.simps [of _ "[]"] rw_healthy_def)
  qed
next
  fix w
  assume w: "rw_wrote_header w \<and> rw_chunked w \<and> rw_healthy healthy w"
  then obtain bw where "flush_buf wr (rw_bw w) = (Ok (), bw)" "bufw_healthy healthy bw"
    using flush_buf_healthy by (auto simp: rw_healthy_def)
  then show "\<exists>w'. body_flush wr fl w = (True, w') \<and> rw_wrote_header w' \<and> rw_chunked w' \<and> rw_healthy healthy w'"
    using w fl_healthy [of "bw_inner bw"]
    by (auto simp: body_flush_def rw_flush_def bufw_flush_def rw_healthy_def bufw_healthy_def)
qed

end

interpretation video: live_sink "body_write_all conn_write" "body_flush conn_write conn_flush"
  "chunked_body conn_acc head" "\<lambda>w. rw_wrote_header w \<and> rw_chunked w \<and> rw_healthy (bufw_healthy tcp_healthy) w"
  for head
  by (rule conn.body_live_sink)


text \<open>
  C33. What a handler writes is what the client reads: over a connection that accepts data, the header
  written with status \<open>code\<close> and headers \<open>h\<close> (without \<open>Content-Length\<close>), then any writes \<open>ds\<close>, then
  \<open>finish\<close>, put bytes on the socket that \<open>read_response\<close> parses completely to the same status, the same
  headers with \<open>Connection: close\<close> and \<open>Transfer-Encoding: chunked\<close> added, and the concatenated body.
\<close>

theorem response_roundtrip:
  assumes "tcp_healthy s" "header_get ''Content-Length'' h = None" "printable_headers (final_headers h)"
    and "100 \<le> code" "code \<le> 999" "int (length (concat ds)) \<le> MAX_BODY_BYTES" "tcp_out s = []"
    and "w1 = rw_write_header conn_write code ((rw_new (bufw_new s))\<lparr>rw_headers := h\<rparr>)"
    and "rw_finish conn_write conn_flush (fold (\<lambda>d w. snd (rw_write conn_write d w)) ds w1) = (r, w2)"
  shows "r = Ok () \<and> read_response \<lparr>rd_input = tcp_out (bw_inner (bw_inner (rw_bw w2))), rd_end = e\<rparr>
    = Some (Ok \<lparr>resp_status_code = code, resp_header = header_sorted (final_headers h), resp_body = concat ds\<rparr>,
        \<lparr>rd_input = [], rd_end = e\<rparr>)"
proof -
  let ?w0 = "(rw_new (bufw_new s))\<lparr>rw_headers := h\<rparr>" and ?H = "bufw_healthy tcp_healthy"
  let ?head = "head_bytes code (final_headers h)"
  have h0: "rw_healthy ?H ?w0" "\<not> rw_wrote_header ?w0" "\<not> rw_chunked ?w0" "rw_acc conn_acc ?w0 = []"
    using assms(1,7) by (simp_all add: rw_new_def rw_healthy_def bufw_healthy_def bufw_new_def rw_acc_def bufw_acc_def)
  note wh = conn.rw_write_header_healthy [OF h0(1-3), of code, folded assms(8)]
  have "chunked_body conn_acc ?head w1 []"
    unfolding chunked_body_def by (intro conjI exI [of _ "[]"]) (use wh h0(4) assms(2) in simp_all)
  from conn.rw_writes_healthy [OF this wh(1), of ds]
  have b: "chunked_body conn_acc ?head (fold (\<lambda>d w. snd (rw_write conn_write d w)) ds w1) (concat ds)"
    "rw_healthy ?H (fold (\<lambda>d w. snd (rw_write conn_write d w)) ds w1)" by simp_all
  from conn.rw_finish_chunked [OF this] assms(9) obtain cs x where
    f: "r = Ok ()" "[] \<notin> set cs" "concat cs = concat ds"
      "conn_acc (bw_inner (rw_bw w2)) = ?head @ concat (map chunk_bytes cs) @ last_chunk"
      "conn_flush x = (Ok (), bw_inner (rw_bw w2))" by auto
  have "bw_buf (bw_inner (rw_bw w2)) = []"
    by (rule tcp.bufw_flush_buf [OF f(5)])
  then have out: "tcp_out (bw_inner (bw_inner (rw_bw w2))) = ?head @ concat (map chunk_bytes cs) @ last_chunk @ []"
    using f(4) by (simp add: bufw_acc_def)
  have te: "header_get ''Transfer-Encoding'' (final_headers h) = Some ''chunked''"
  proof -
    have "header_get ''Content-Length'' (header_set ''Connection'' ''close'' h) = header_get ''Content-Length'' h"
      by (rule header_get_set_other) code_simp
    then show ?thesis using assms(2) by (simp add: final_headers_def Let_def header_get_set)
  qed
  show ?thesis
    unfolding out using read_response_chunked [OF assms(4,5,3) te f(2), of "[]" e] f(1,3) assms(6) by simp
qed

text \<open>A connection whose kernel takes 100 bytes at a time.\<close>

definition wit_tcp :: tcp_stream where
  "wit_tcp = \<lparr>tcp_out = [], tcp_timeout = None, tcp_calls = 0, tcp_clock = (\<lambda>_. 0),
     tcp_kernel = (\<lambda>_. Ok 100), tcp_deadline = None\<rparr>"

lemma wit_tcp_healthy: "tcp_healthy wit_tcp"
  by (auto simp: wit_tcp_def tcp_healthy_def before_deadline_def)

lemma wit_headers: "printable_headers (final_headers [])"
proof -
  have "final_headers [] = [(''Connection'', [''close'']), (''Transfer-Encoding'', [''chunked''])]" by code_simp
  moreover have "header_sorted [(''Connection'', [''close'']), (''Transfer-Encoding'', [''chunked''])]
      = [(''Connection'', [''close'']), (''Transfer-Encoding'', [''chunked''])]" by code_simp
  moreover have "good_key ''Connection'' \<and> good_key ''Transfer-Encoding'' \<and> good_value ''close'' \<and> good_value ''chunked''"
    by code_simp
  ultimately show ?thesis
    by (simp add: printable_headers_def header_inv_def header_fields_def good_fields_def fields_size_def
        MAX_HEADER_BYTES_def MAX_HEADER_COUNT_def MAX_REQUEST_LINE_BYTES_def)
qed

theorem response_roundtrip_witness:
  "case rw_finish conn_write conn_flush (fold (\<lambda>d w. snd (rw_write conn_write d w)) [[1, 2], [], [3]]
      (rw_write_header conn_write 404 ((rw_new (bufw_new wit_tcp))\<lparr>rw_headers := []\<rparr>))) of (r, w2) \<Rightarrow>
     read_response \<lparr>rd_input = tcp_out (bw_inner (bw_inner (rw_bw w2))), rd_end = EndEof None\<rparr>
     = Some (Ok \<lparr>resp_status_code = 404, resp_header = header_sorted (final_headers []), resp_body = [1, 2, 3]\<rparr>,
         \<lparr>rd_input = [], rd_end = EndEof None\<rparr>)"
  using response_roundtrip [OF wit_tcp_healthy _ wit_headers, of 404 "[[1, 2], [], [3]]" _ _ _ "EndEof None", OF _ _ _ _ _ refl]
  by (simp add: header_get_def MAX_BODY_BYTES_def wit_tcp_def split: prod.split)

text \<open>A stream joined at its key frame, with one more slice and then the end of the session.\<close>

definition wit_buffer :: frame_buffer where
  "wit_buffer = fb_push (wit_nal 5 1000 0) (fb_push (wit_nal 8 1000 0) (fb_push (wit_nal 7 1000 0) new_frame_buffer))"

definition wit_response :: "tcp_stream bufw response_writer" where
  "wit_response = rw_write_header conn_write 200 (rw_new (bufw_new wit_tcp))"

lemma wit_buffer_seed: "latest_idr wit_buffer = Some (wit_nal 7 1000 0, wit_nal 8 1000 0, wit_nal 5 1000 0)"
  by (simp add: wit_buffer_def new_frame_buffer_def fb_push_def push_locked_def store_seed_def fan_out_def latest_idr_def
      wit_nal_def NAL_TYPE_SPS_def NAL_TYPE_PPS_def NAL_TYPE_IDR_def Let_def)

lemma wit_response_facts:
  "chunked_body conn_acc (head_bytes 200 (final_headers [])) wit_response []"
  "rw_wrote_header wit_response \<and> rw_chunked wit_response \<and> rw_healthy (bufw_healthy tcp_healthy) wit_response"
proof -
  let ?w = "rw_new (bufw_new wit_tcp)"
  have h: "rw_healthy (bufw_healthy tcp_healthy) ?w" "\<not> rw_wrote_header ?w" "\<not> rw_chunked ?w"
    and a: "rw_acc conn_acc ?w = []" "rw_headers ?w = []"
    using wit_tcp_healthy
    by (simp_all add: rw_new_def rw_healthy_def bufw_healthy_def bufw_new_def rw_acc_def bufw_acc_def wit_tcp_def header_new_def)
  note wh = conn.rw_write_header_healthy [OF h, of 200, folded wit_response_def]
  show "rw_wrote_header wit_response \<and> rw_chunked wit_response \<and> rw_healthy (bufw_healthy tcp_healthy) wit_response"
    using wh a by (simp add: header_get_def)
  then show "chunked_body conn_acc (head_bytes 200 (final_headers [])) wit_response []"
    unfolding chunked_body_def using wh a by (intro conjI exI [of _ "[]"]) simp_all
qed


end
