(* ===== verification/HttpClient.thy ===== *)
theory HttpClient
  imports HttpResponse
begin

text \<open>
  \<open>src/httpx/client.rs\<close>: URL splitting, request construction and printing, dialling and one
  request/response exchange.  The main property is that the server's parser reads back every request the
  client prints.
\<close>

section \<open>Requests and URLs\<close>

record client_request =
  cr_method :: string
  cr_url :: string
  cr_header :: header
  cr_body :: "byte list"

definition starts_with :: "string \<Rightarrow> string \<Rightarrow> bool" where
  "starts_with p s \<longleftrightarrow> take (length p) s = p"

text \<open>
  The \<open>{:?}\<close> text of a string inside an error message is a parameter: only the texts around it matter here.
\<close>

definition new_request :: "(string \<Rightarrow> string) \<Rightarrow> string \<Rightarrow> string \<Rightarrow> byte list option \<Rightarrow> string + client_request" where
  "new_request dbg meth url body =
     (if meth \<noteq> METHOD_GET \<and> meth \<noteq> METHOD_POST then Err (''httpx: unsupported method '' @ dbg meth)
      else if \<not> starts_with ''http://'' url then Err (''httpx: only http:// URLs supported, got '' @ dbg url)
      else Ok \<lparr>cr_method = meth, cr_url = url, cr_header = header_new,
             cr_body = (case body of Some b \<Rightarrow> b | None \<Rightarrow> [])\<rparr>)"

definition cr_set_header :: "string \<Rightarrow> string \<Rightarrow> client_request \<Rightarrow> client_request" where
  "cr_set_header k v r = r\<lparr>cr_header := header_set k v (cr_header r)\<rparr>"

definition split_url :: "(string \<Rightarrow> string) \<Rightarrow> string \<Rightarrow> string + (string \<times> string)" where
  "split_url dbg raw_url =
     (if \<not> starts_with ''http://'' raw_url then Err (''httpx: only http:// URLs supported, got '' @ dbg raw_url)
      else
        let rest = drop (length ''http://'') raw_url in
        if rest = [] then Err ''httpx: empty host in URL''
        else
          let (hostport, target) =
                (case position (\<lambda>c. c = CHR ''/'') rest of
                   Some slash \<Rightarrow> (take slash rest, drop slash rest)
                 | None \<Rightarrow> (rest, ''/''))
          in if hostport = [] then Err ''httpx: empty host in URL''
             else Ok (if CHR '':'' \<in> set hostport then hostport else hostport @ '':80'', target))"

text \<open>The headers \<open>do_request\<close> adds.\<close>

definition client_headers :: "string \<Rightarrow> client_request \<Rightarrow> header" where
  "client_headers hostport req =
     (let h1 = header_set ''Host'' hostport (cr_header req);
          h2 = header_set ''Connection'' ''close'' h1
      in if cr_body req = [] then header_set ''Content-Length'' ''0'' h2
         else header_set ''Content-Length'' (show_nat (length (cr_body req))) h2)"

text \<open>\<open>write_request\<close> over the deadline stream; each failing step returns its own message.\<close>

fun write_req_lines :: "'w write_fn \<Rightarrow> (string \<times> string) list \<Rightarrow> 'w \<Rightarrow> (io_kind + unit) \<times> 'w" where
  "write_req_lines wr [] w = (Ok (), w)"
| "write_req_lines wr ((k, v) # kvs) w =
     (case write_fmt (write_all wr) [as_bytes k, as_bytes '': '', as_bytes v, crlf] w of
        (Err e, w') \<Rightarrow> (Err e, w')
      | (Ok _, w') \<Rightarrow> write_req_lines wr kvs w')"

datatype request_error = WriteRequestLine io_kind | WriteHeader io_kind | WriteCrlf io_kind | WriteBody io_kind | FlushErr io_kind

definition write_request ::
  "'w write_fn \<Rightarrow> 'w flush_fn \<Rightarrow> string \<Rightarrow> string \<Rightarrow> header \<Rightarrow> byte list \<Rightarrow> 'w \<Rightarrow> (request_error + unit) \<times> 'w" where
  "write_request wr fl meth target h body w0 =
     (case write_fmt (write_all wr) [as_bytes meth, as_bytes '' '', as_bytes target, as_bytes '' HTTP/1.1'', crlf] w0 of
        (Err e, w1) \<Rightarrow> (Err (WriteRequestLine e), w1)
      | (Ok _, w1) \<Rightarrow>
          (case write_req_lines wr (header_fields (header_sorted h)) w1 of
             (Err e, w2) \<Rightarrow> (Err (WriteHeader e), w2)
           | (Ok _, w2) \<Rightarrow>
               (case write_all wr crlf w2 of
                  (Err e, w3) \<Rightarrow> (Err (WriteCrlf e), w3)
                | (Ok _, w3) \<Rightarrow>
                    (case (if body = [] then (Ok (), w3) else write_all wr body w3) of
                       (Err e, w4) \<Rightarrow> (Err (WriteBody e), w4)
                     | (Ok _, w4) \<Rightarrow>
                         (case fl w4 of (Err e, w5) \<Rightarrow> (Err (FlushErr e), w5) | (Ok _, w5) \<Rightarrow> (Ok (), w5))))))"

section \<open>Dialling and the exchange\<close>

text \<open>
  \<open>tcp_connect\<close>: the rounds of connection attempts.  The environment gives, per round, whether the
  request is cancelled by then, the stream of each address (or the failure) and the time elapsed.
\<close>

datatype client_error = Cancelled | ResolveFailed | NoAddresses | DialFailed | SendFailed request_error
  | UrlError string | ClosedEarly | ReadFailed io_kind

record 'a dial_env =
  de_cancelled :: "nat \<Rightarrow> bool"
  de_connect :: "nat \<Rightarrow> 'a \<Rightarrow> tcp_stream option"
  de_elapsed :: "nat \<Rightarrow> nat"

fun first_connected :: "('a \<Rightarrow> tcp_stream option) \<Rightarrow> 'a list \<Rightarrow> tcp_stream option" where
  "first_connected conn [] = None"
| "first_connected conn (a # as) = (case conn a of Some s \<Rightarrow> Some s | None \<Rightarrow> first_connected conn as)"

partial_function (option) connect_rounds ::
  "'a dial_env \<Rightarrow> 'a list \<Rightarrow> nat option \<Rightarrow> nat \<Rightarrow> (client_error + tcp_stream) option" where
  "connect_rounds env addrs timeout i =
     (if de_cancelled env i then Some (Err Cancelled)
      else (case first_connected (de_connect env i) addrs of
              Some s \<Rightarrow> Some (Ok s)
            | None \<Rightarrow>
                (case timeout of
                   None \<Rightarrow> Some (Err DialFailed)
                 | Some t \<Rightarrow> if de_elapsed env i \<ge> t then Some (Err DialFailed)
                             else connect_rounds env addrs timeout (i + 1))))"

definition tcp_connect ::
  "bool \<Rightarrow> (string \<Rightarrow> 'a list option) \<Rightarrow> 'a dial_env \<Rightarrow> string \<Rightarrow> nat option \<Rightarrow> (client_error + tcp_stream) option" where
  "tcp_connect cancelled resolve env hostport timeout =
     (if cancelled then Some (Err Cancelled)
      else (case resolve hostport of
              None \<Rightarrow> Some (Err ResolveFailed)
            | Some addrs \<Rightarrow>
                if addrs = [] then Some (Err NoAddresses) else connect_rounds env addrs timeout 0))"

text \<open>
  \<open>do_request\<close>: \<open>cs i\<close> is the value of the cancel token at its \<open>i\<close>-th check, \<open>now\<close> the clock when the
  I/O deadline is fixed, and \<open>answer\<close> the bytes the peer sends on the connection.
\<close>

definition do_request ::
  "(string \<Rightarrow> string) \<Rightarrow> (nat \<Rightarrow> bool) \<Rightarrow> (string \<Rightarrow> 'a list option) \<Rightarrow> 'a dial_env \<Rightarrow> nat
     \<Rightarrow> (tcp_stream \<Rightarrow> reader) \<Rightarrow> nat option \<Rightarrow> client_request \<Rightarrow> (client_error + client_response) option" where
  "do_request dbg cs resolve env now answer timeout req =
     (if cs 0 then Some (Err Cancelled)
      else (case split_url dbg (cr_url req) of
              Err msg \<Rightarrow> Some (Err (UrlError msg))
            | Ok (hostport, target) \<Rightarrow>
                let dial_timeout = (case timeout of Some t \<Rightarrow> if t > 0 then Some t else None | None \<Rightarrow> None) in
                do {
                  sr \<leftarrow> tcp_connect (cs 1) resolve env hostport dial_timeout;
                  (case sr of
                     Err e \<Rightarrow> Some (Err e)
                   | Ok s0 \<Rightarrow>
                       let s1 = s0\<lparr>tcp_deadline := map_option (\<lambda>t. now + t) dial_timeout\<rparr> in
                       (case write_request deadline_write deadline_flush (cr_method req) target
                               (client_headers hostport req) (cr_body req) s1 of
                          (Err e, _) \<Rightarrow> Some (Err (SendFailed e))
                        | (Ok _, s2) \<Rightarrow>
                            if cs 2 then Some (Err Cancelled)
                            else do {
                              (rr, _) \<leftarrow> read_response (answer s2);
                              Some (case rr of
                                      Ok resp \<Rightarrow> Ok resp
                                    | Err k \<Rightarrow> if k = UnexpectedEof then Err ClosedEarly else Err (ReadFailed k))
                            }))
                }))"

section \<open>The server reads what the client prints\<close>

definition request_line :: "string \<Rightarrow> string \<Rightarrow> string" where
  "request_line meth target = meth @ '' '' @ target @ '' HTTP/1.1''"

definition request_bytes :: "string \<Rightarrow> string \<Rightarrow> header \<Rightarrow> byte list \<Rightarrow> byte list" where
  "request_bytes meth target h body = as_bytes (request_line meth target) @ crlf @ header_lines h @ crlf @ body"

context healthy_writer
begin

lemma write_fmt_all_healthy:
  "healthy w \<Longrightarrow> \<exists>w'. write_fmt (write_all wr) ps w = (Ok (), w') \<and> healthy w' \<and> acc w' = acc w @ concat ps"
proof (induction ps arbitrary: w)
  case (Cons p ps)
  obtain w1 where w1: "write_all wr p w = (Ok (), w1)" "healthy w1" using write_all_healthy [OF Cons.prems] by blast
  with Cons.IH [OF w1(2)] write_all_ok [OF w1(1)] show ?case by auto
qed simp

lemma write_req_lines_healthy:
  "healthy w \<Longrightarrow> \<exists>w'. write_req_lines wr kvs w = (Ok (), w') \<and> healthy w' \<and> acc w' = acc w @ fields_bytes kvs"
proof (induction kvs arbitrary: w)
  case (Cons kv kvs)
  obtain k v where kv: "kv = (k, v)" by (cases kv)
  obtain w1 where w1: "write_fmt (write_all wr) [as_bytes k, as_bytes '': '', as_bytes v, crlf] w = (Ok (), w1)"
    "healthy w1" "acc w1 = acc w @ concat [as_bytes k, as_bytes '': '', as_bytes v, crlf]"
    using write_fmt_all_healthy [OF Cons.prems] by blast
  with Cons.IH [OF w1(2)] kv show ?case by (auto simp: fields_bytes_def header_line_def crlf_def)
qed (simp add: fields_bytes_def)

lemma write_request_healthy:
  assumes "healthy w"
  shows "\<exists>w'. write_request wr fl meth target h body w = (Ok (), w') \<and> acc w' = acc w @ request_bytes meth target h body"
proof -
  obtain w1 where 1: "write_fmt (write_all wr) [as_bytes meth, as_bytes '' '', as_bytes target, as_bytes '' HTTP/1.1'', crlf] w = (Ok (), w1)"
    "healthy w1" "acc w1 = acc w @ concat [as_bytes meth, as_bytes '' '', as_bytes target, as_bytes '' HTTP/1.1'', crlf]"
    using write_fmt_all_healthy [OF assms] by blast
  obtain w2 where 2: "write_req_lines wr (header_fields (header_sorted h)) w1 = (Ok (), w2)" "healthy w2"
    "acc w2 = acc w1 @ header_lines h"
    using write_req_lines_healthy [OF 1(2)] by (auto simp: header_lines_fields)
  obtain w3 where 3: "write_all wr crlf w2 = (Ok (), w3)" "healthy w3" using write_all_healthy [OF 2(2)] by blast
  obtain w4 where 4: "(if body = [] then (Ok (), w3) else write_all wr body w3) = (Ok (), w4)" "healthy w4"
    using write_all_healthy [OF 3(2), of body] 3(2) by (cases "body = []") auto
  then have a4: "acc w4 = acc w3 @ body" by (auto split: if_splits dest: write_all_ok)
  obtain w5 where 5: "fl w4 = (Ok (), w5)" using fl_healthy [OF 4(2)] by blast
  have "acc w5 = acc w @ request_bytes meth target h body"
    using 1(3) 2(3) write_all_ok [OF 3(1)] a4 fl_acc [OF 5] by (simp add: request_bytes_def request_line_def)
  moreover have "write_request wr fl meth target h body w = (Ok (), w5)"
    unfolding write_request_def by (simp only: 1(1) 2(1) 3(1) 4(1) 5 prod.case sum.case)
  ultimately show ?thesis by blast
qed

end

text \<open>Request targets the client sends: printable, without spaces.\<close>

definition good_target :: "string \<Rightarrow> bool" where
  "good_target t \<longleftrightarrow> t \<noteq> [] \<and> list_all graphic t \<and> length t \<le> 8000"

lemma graphic_not_space: "graphic c \<Longrightarrow> c \<noteq> CHR '' ''"
  by (auto simp: graphic_def)

lemma parse_request_line_client:
  assumes "meth = METHOD_GET \<or> meth = METHOD_POST" "good_target target"
  shows "parse_request_line (request_line meth target) = Ok (meth, target, ''HTTP/1.1'')"
proof -
  have line: "request_line meth target = meth @ CHR '' '' # (target @ CHR '' '' # ''HTTP/1.1'')"
    by (simp add: request_line_def)
  have p1: "position (\<lambda>c. c = CHR '' '') (request_line meth target) = Some (length meth)"
    unfolding line by (rule position_append_hit) (use assms(1) in \<open>auto simp: METHOD_GET_def METHOD_POST_def\<close>)
  have d1: "drop (length meth + 1) (request_line meth target) = target @ CHR '' '' # ''HTTP/1.1''"
    unfolding line by simp
  have p2: "position (\<lambda>c. c = CHR '' '') (target @ CHR '' '' # ''HTTP/1.1'') = Some (length target)"
    by (rule position_append_hit) (use assms(2) graphic_not_space in \<open>auto simp: good_target_def list_all_iff\<close>)
  have m: "take (length meth) (request_line meth target) = meth" "meth \<noteq> []"
    using assms(1) by (auto simp: line METHOD_GET_def METHOD_POST_def)
  show ?thesis
    unfolding parse_request_line_def p1 option.case d1 Let_def p2
    using m assms(2) by (simp add: good_target_def)
qed

lemma read_request_line_client:
  assumes "meth = METHOD_GET \<or> meth = METHOD_POST" "good_target target"
  shows "read_line MAX_REQUEST_LINE_BYTES \<lparr>rd_input = request_bytes meth target h body, rd_end = e\<rparr>
    = Some (Ok (request_line meth target), \<lparr>rd_input = header_lines h @ crlf @ body, rd_end = e\<rparr>)"
proof -
  have t: "list_all text_char (request_line meth target)"
    using assms graphic_text_char
    by (auto simp: request_line_def METHOD_GET_def METHOD_POST_def good_target_def list_all_iff text_char_def)
  have l: "length (request_line meth target) + 2 \<le> MAX_REQUEST_LINE_BYTES"
    using assms by (auto simp: request_line_def METHOD_GET_def METHOD_POST_def good_target_def MAX_REQUEST_LINE_BYTES_def)
  show ?thesis using read_line_text [OF t l] by (simp add: request_bytes_def)
qed

lemma foldl_host_after_fixed: "host \<noteq> [] \<Longrightarrow> foldl host_after host kvs = host"
  by (induction kvs) (simp_all add: host_after_def)

lemma foldl_host_after_other: "''Host'' \<notin> fst ` set kvs \<Longrightarrow> foldl host_after host kvs = host"
  by (induction kvs) (auto simp: host_after_def)

lemma foldl_host_after_fields:
  assumes "map_of h ''Host'' = Some [v]" "v \<noteq> []" "distinct (map fst h)"
  shows "foldl host_after [] (header_fields h) = v"
  using assms
proof (induction h)
  case (Cons kv h)
  obtain k vs where kv: "kv = (k, vs)" by (cases kv)
  show ?case
  proof (cases "k = ''Host''")
    case True
    then have "vs = [v]" using Cons.prems kv by simp
    moreover have "host_after [] (''Host'', v) = v" by (simp add: host_after_def)
    ultimately show ?thesis
      using kv True Cons.prems(2) by (simp add: header_fields_def foldl_host_after_fixed)
  next
    case False
    then have "foldl host_after [] (map (Pair k) vs) = []" by (intro foldl_host_after_other) auto
    then show ?thesis using Cons kv False by (simp add: header_fields_def)
  qed
qed simp

text \<open>The headers a client request carries, as the server sees them.\<close>

lemma canonical_names [simp]:
  "canonical_mime_header_key ''Host'' = ''Host''"
  "canonical_mime_header_key ''Connection'' = ''Connection''"
  "canonical_mime_header_key ''Content-Length'' = ''Content-Length''"
  "canonical_mime_header_key ''Transfer-Encoding'' = ''Transfer-Encoding''"
  "canonical_mime_header_key ''Upgrade'' = ''Upgrade''"
  by code_simp+

lemma client_headers_facts:
  "map_of (client_headers hostport req) ''Host'' = Some [hostport]"
  "header_get ''Content-Length'' (client_headers hostport req) = Some (show_nat (length (cr_body req)))"
  "header_get ''Transfer-Encoding'' (client_headers hostport req) = header_get ''Transfer-Encoding'' (cr_header req)"
  "header_get ''Upgrade'' (client_headers hostport req) = header_get ''Upgrade'' (cr_header req)"
  "header_inv (cr_header req) \<Longrightarrow> header_inv (client_headers hostport req)"
proof -
  have z: "show_nat 0 = ''0''" by code_simp
  show "map_of (client_headers hostport req) ''Host'' = Some [hostport]"
    by (simp add: client_headers_def Let_def header_set_def update_conv')
  show "header_get ''Content-Length'' (client_headers hostport req) = Some (show_nat (length (cr_body req)))"
    by (simp add: client_headers_def Let_def header_get_set z)
  show "header_get ''Transfer-Encoding'' (client_headers hostport req) = header_get ''Transfer-Encoding'' (cr_header req)"
    "header_get ''Upgrade'' (client_headers hostport req) = header_get ''Upgrade'' (cr_header req)"
    by (simp_all add: client_headers_def Let_def header_get_set_other)
  show "header_inv (cr_header req) \<Longrightarrow> header_inv (client_headers hostport req)"
    by (simp add: client_headers_def Let_def header_inv_set)
qed

lemma split_url_host: "split_url dbg url = Ok (hostport, target) \<Longrightarrow> hostport \<noteq> []"
  by (auto simp: split_url_def Let_def split: if_splits option.splits)

lemma read_body_client:
  assumes "header_get ''Content-Length'' h = Some (show_nat (length body))" "int (length body) \<le> MAX_BODY_BYTES"
    and "rd_input r = body"
  shows "read_body h r = (Ok (int (length body), body), r\<lparr>rd_input := []\<rparr>)"
proof -
  have "parse_i64 (show_nat (length body)) = Some (int (length body))"
    using assms(2) by (intro parse_i64_show_nat) (simp add: MAX_BODY_BYTES_def)
  then have "parse_content_length (show_nat (length body)) = Ok (int (length body))"
    by (simp add: parse_content_length_def)
  then show ?thesis
    using assms by (cases "body = []") (auto simp: read_body_def read_exact_def)
qed

text \<open>The request the server sees.\<close>

abbreviation received_request :: "string \<Rightarrow> string \<Rightarrow> client_request \<Rightarrow> request" where
  "received_request hostport target req \<equiv>
     \<lparr>req_method = cr_method req,
      req_url = \<lparr>url_path = fst (split_path_query target), url_raw_query = snd (split_path_query target)\<rparr>,
      req_header = header_sorted (client_headers hostport req), req_body = cr_body req, req_host = hostport,
      req_remote_addr = [], req_content_length = int (length (cr_body req))\<rparr>"

lemma client_request_read:
  assumes "split_url dbg (cr_url req) = Ok (hostport, target)" "cr_method req = METHOD_GET \<or> cr_method req = METHOD_POST"
    and "good_target target" "header_inv (cr_header req)" "printable_headers (client_headers hostport req)"
    and "header_get ''Transfer-Encoding'' (cr_header req) = None" "header_get ''Upgrade'' (cr_header req) = None"
    and "int (length (cr_body req)) \<le> MAX_BODY_BYTES"
    and "rd_input (headers_done \<lparr>rd_input = cr_body req, rd_end = e\<rparr>) = cr_body req"
  shows "\<exists>r. rd_input r = [] \<and>
    read_request headers_done \<lparr>rd_input =
        request_bytes (cr_method req) target (client_headers hostport req) (cr_body req), rd_end = e\<rparr> =
      Some (Ok (received_request hostport target req), r)"
proof -
  let ?h = "client_headers hostport req" and ?body = "cr_body req"
  have inv: "header_inv ?h" using client_headers_facts(5) [OF assms(4)] .
  note hs = header_sorted_facts [OF inv]
  have fields: "read_headers \<lparr>rd_input = header_lines ?h @ crlf @ ?body, rd_end = e\<rparr>
      = Some (Ok (header_sorted ?h, hostport), \<lparr>rd_input = ?body, rd_end = e\<rparr>)"
  proof -
    have good: "good_fields (header_fields (header_sorted ?h))" using assms(5) by (simp add: printable_headers_def)
    have "fold (\<lambda>(k, v). header_add k v) (header_fields (header_sorted ?h)) [] = header_sorted ?h"
      using fold_header_add_fields [of "[]" "header_sorted ?h"] good_fields_keys [OF hs(1) good] hs(1) by simp
    moreover have "map_of (header_sorted ?h) = map_of ?h"
      using hs(1) inv by (subst map_of_inject_set) (simp_all add: header_inv_def header_sorted_def)
    then have "foldl host_after [] (header_fields (header_sorted ?h)) = hostport"
      using hs(1) client_headers_facts(1) split_url_host [OF assms(1)]
      by (intro foldl_host_after_fields) (simp_all add: header_inv_def)
    ultimately show ?thesis
      using read_headers_fields [OF good, of ?body e] assms(5)
      by (simp add: header_lines_fields printable_headers_def)
  qed
  let ?r = "headers_done \<lparr>rd_input = ?body, rd_end = e\<rparr>"
  have body: "read_body (header_sorted ?h) ?r = (Ok (int (length ?body), ?body), ?r\<lparr>rd_input := []\<rparr>)"
    using client_headers_facts(2) assms(8,9) by (intro read_body_client) (simp_all add: hs(2))
  have line: "read_line MAX_REQUEST_LINE_BYTES \<lparr>rd_input = request_bytes (cr_method req) target ?h ?body, rd_end = e\<rparr>
      = Some (Ok (request_line (cr_method req) target), \<lparr>rd_input = header_lines ?h @ crlf @ ?body, rd_end = e\<rparr>)"
    by (rule read_request_line_client [OF assms(2,3)])
  have none: "header_get ''Transfer-Encoding'' (header_sorted ?h) = None" "header_get ''Upgrade'' (header_sorted ?h) = None"
    using assms(6,7) client_headers_facts(3,4) by (simp_all add: hs(2))
  show ?thesis
    using line fields body none assms(2) parse_request_line_client [OF assms(2,3)] split_url_host [OF assms(1)]
    by (auto simp: read_request_def case_prod_beta intro!: exI [of _ "?r\<lparr>rd_input := []\<rparr>"])
qed

text \<open>
  Client and server agree on the wire format of requests: over a connection that accepts data,
  \<open>write_request\<close> puts bytes on the socket that the server's \<open>read_request\<close> parses completely to the
  same method, path, query and body, the same headers with \<open>Host\<close>, \<open>Connection\<close> and \<open>Content-Length\<close>
  set, and the dialled address as the host.
\<close>

theorem request_roundtrip:
  assumes "split_url dbg (cr_url req) = Ok (hostport, target)" "cr_method req = METHOD_GET \<or> cr_method req = METHOD_POST"
    and "good_target target" "header_inv (cr_header req)" "printable_headers (client_headers hostport req)"
    and "header_get ''Transfer-Encoding'' (cr_header req) = None" "header_get ''Upgrade'' (cr_header req) = None"
    and "int (length (cr_body req)) \<le> MAX_BODY_BYTES" "tcp_healthy s" "tcp_out s = []"
    and "\<And>r. rd_input (headers_done r) = rd_input r"
    and "write_request deadline_write deadline_flush (cr_method req) target (client_headers hostport req) (cr_body req) s = (res, s')"
  shows "res = Ok () \<and> (\<exists>r. rd_input r = [] \<and>
    read_request headers_done \<lparr>rd_input = tcp_out s', rd_end = e\<rparr> =
      Some (Ok \<lparr>req_method = cr_method req,
        req_url = \<lparr>url_path = fst (split_path_query target), url_raw_query = snd (split_path_query target)\<rparr>,
        req_header = header_sorted (client_headers hostport req), req_body = cr_body req, req_host = hostport,
        req_remote_addr = [], req_content_length = int (length (cr_body req))\<rparr>, r))"
proof -
  have sent: "res = Ok ()" "tcp_out s' = request_bytes (cr_method req) target (client_headers hostport req) (cr_body req)"
    using tcp.write_request_healthy [OF assms(9), of "cr_method req" target "client_headers hostport req" "cr_body req"]
      assms(10,12) by auto
  show ?thesis
    unfolding sent(2) using sent(1) client_request_read [OF assms(1-8), of headers_done e] assms(11) by simp
qed

text \<open>A witness: a POST with a three-byte body and a query.\<close>

definition wit_req :: client_request where
  "wit_req = \<lparr>cr_method = ''POST'', cr_url = ''http://ha:8123/api?x=1'',
     cr_header = header_set ''Content-Type'' ''application/json'' [], cr_body = [0x7b, 0x7d, 0x0a]\<rparr>"

theorem request_roundtrip_witness:
  "\<exists>r. read_request id \<lparr>rd_input = tcp_out (snd (write_request deadline_write deadline_flush ''POST'' ''/api?x=1''
        (client_headers ''ha:8123'' wit_req) (cr_body wit_req) wit_tcp)), rd_end = EndEof None\<rparr> =
      Some (Ok \<lparr>req_method = ''POST'', req_url = \<lparr>url_path = ''/api'', url_raw_query = ''x=1''\<rparr>,
        req_header = header_sorted (client_headers ''ha:8123'' wit_req), req_body = [0x7b, 0x7d, 0x0a], req_host = ''ha:8123'',
        req_remote_addr = [], req_content_length = 3\<rparr>, r)"
proof -
  let ?h = "client_headers ''ha:8123'' wit_req"
  have hf: "header_fields (header_sorted ?h) = [(''Connection'', ''close''), (''Content-Length'', ''3''),
      (''Content-Type'', ''application/json''), (''Host'', ''ha:8123'')]" by code_simp
  have inv: "header_inv (cr_header wit_req)"
    by (simp add: wit_req_def header_inv_set header_inv_new [unfolded header_new_def])
  have "good_key ''Connection'' \<and> good_key ''Content-Length'' \<and> good_key ''Content-Type'' \<and> good_key ''Host''"
    "good_value ''close'' \<and> good_value ''3'' \<and> good_value ''application/json'' \<and> good_value ''ha:8123''"
    by code_simp+
  then have p: "printable_headers ?h"
    using client_headers_facts(5) [OF inv]
    by (simp add: printable_headers_def hf good_fields_def fields_size_def MAX_HEADER_BYTES_def MAX_HEADER_COUNT_def
        MAX_REQUEST_LINE_BYTES_def)
  have u: "split_url id (cr_url wit_req) = Ok (''ha:8123'', ''/api?x=1'')" by code_simp
  have g: "good_target ''/api?x=1''" "cr_method wit_req = METHOD_GET \<or> cr_method wit_req = METHOD_POST"
    "header_get ''Transfer-Encoding'' (cr_header wit_req) = None" "header_get ''Upgrade'' (cr_header wit_req) = None"
    "split_path_query ''/api?x=1'' = (''/api'', ''x=1'')"
    by code_simp+
  have b: "int (length (cr_body wit_req)) \<le> MAX_BODY_BYTES" "tcp_out wit_tcp = []" "cr_method wit_req = ''POST''"
    "length (cr_body wit_req) = 3" "cr_body wit_req = [0x7b, 0x7d, 0x0a]"
    by (simp_all add: wit_req_def MAX_BODY_BYTES_def wit_tcp_def)
  let ?w = "write_request deadline_write deadline_flush (cr_method wit_req) ''/api?x=1'' ?h (cr_body wit_req) wit_tcp"
  have "?w = (fst ?w, snd ?w)" by simp
  from request_roundtrip [OF u g(2,1) inv p g(3,4) b(1) wit_tcp_healthy b(2) _ this, of id "EndEof None"]
  show ?thesis using g(5) b by auto
qed

end
