(* ===== verification/HttpServer.thy ===== *)
theory HttpServer
  imports HttpClient
begin

text \<open>
  \<open>src/httpx/server.rs\<close>: one connection (reading the request under its deadlines, the handler, the
  response, the answer to a malformed request or a panic) and the accept loop with its shutdown.  The
  handler is any function on the response writer and a state of its own.
\<close>

section \<open>The deadline reader\<close>

record conn_ctx =
  cx_read_timeout :: "nat option"
  cx_write_timeout :: "nat option"
  cx_read_header_timeout :: "nat option"

text \<open>
  The input of a socket: the system calls that return data or fail, each with the clock at the call, and
  then the end of the stream.  A socket at its end is read again and again without blocking; \<open>si_spins\<close>
  is how often before the deadline, when there is one.
\<close>

record sock_in =
  si_reads :: "(nat \<times> (io_kind + byte list)) list"
  si_spins :: nat

definition read_deadline :: "conn_ctx \<Rightarrow> nat \<Rightarrow> bool \<Rightarrow> nat option" where
  "read_deadline cx conn_start headers_done =
     (let deadline = map_option (\<lambda>rt. conn_start + rt) (cx_read_timeout cx) in
      if \<not> headers_done then
        (case cx_read_header_timeout cx of
           None \<Rightarrow> deadline
         | Some rht \<Rightarrow>
             let hdr = conn_start + rht in
             Some (case deadline of Some d \<Rightarrow> min d hdr | None \<Rightarrow> hdr))
      else deadline)"

text \<open>The timeout set on the socket before a read, or the error when the deadline has passed.\<close>

definition refresh_read_timeout :: "nat option \<Rightarrow> nat \<Rightarrow> io_kind + nat option" where
  "refresh_read_timeout deadline now =
     (case deadline of
        None \<Rightarrow> Ok None
      | Some d \<Rightarrow> if now \<ge> d then Err TimedOut else Ok (Some (max (d - now) 1)))"

text \<open>What the reads of \<open>DeadlineReader\<close> give under a deadline.\<close>

fun deadline_reads :: "nat option \<Rightarrow> nat \<Rightarrow> (nat \<times> (io_kind + byte list)) list \<Rightarrow> byte list \<times> reader_end" where
  "deadline_reads deadline spins [] = ([], EndEof (map_option (\<lambda>_. spins) deadline))"
| "deadline_reads deadline spins ((now, res) # rest) =
     (case refresh_read_timeout deadline now of
        Err e \<Rightarrow> ([], EndErr e)
      | Ok _ \<Rightarrow>
          (case res of
             Err e \<Rightarrow> ([], EndErr e)
           | Ok bs \<Rightarrow> (case deadline_reads deadline spins rest of (bs', e) \<Rightarrow> (bs @ bs', e))))"

definition deadline_reader :: "nat option \<Rightarrow> sock_in \<Rightarrow> reader" where
  "deadline_reader deadline si =
     (case deadline_reads deadline (si_spins si) (si_reads si) of (bs, e) \<Rightarrow> \<lparr>rd_input = bs, rd_end = e\<rparr>)"

text \<open>
  \<open>on_headers_done\<close>: from here on the reads run under the deadline of the whole request.  What has been
  consumed so far stays consumed.
\<close>

definition headers_done_switch :: "conn_ctx \<Rightarrow> nat \<Rightarrow> sock_in \<Rightarrow> reader \<Rightarrow> reader" where
  "headers_done_switch cx conn_start si r =
     (let before = deadline_reader (read_deadline cx conn_start False) si;
          after = deadline_reader (read_deadline cx conn_start True) si;
          consumed = length (rd_input before) - length (rd_input r)
      in after\<lparr>rd_input := drop consumed (rd_input after)\<rparr>)"

section \<open>One connection\<close>

text \<open>A handler returns or panics; \<open>None\<close> is a handler that never returns.\<close>

datatype 'a run = Returned 'a | Panicked 'a

type_synonym conn_writer = "tcp_stream bufw response_writer"
type_synonym 's serve_fn = "request \<Rightarrow> conn_writer \<times> 's \<Rightarrow> (conn_writer \<times> 's) run option"

definition protocol_error_pieces :: "nat \<Rightarrow> byte list list" where
  "protocol_error_pieces err_status =
     (let status = (if err_status = 0 then STATUS_BAD_REQUEST else err_status);
          msg = (if status_text status = [] then ''Error'' else status_text status)
      in [as_bytes ''HTTP/1.1 '', as_bytes (show_nat status), as_bytes '' '', as_bytes msg,
          crlf @ as_bytes ''Connection: close'' @ crlf @ as_bytes ''Content-Length: 0'' @ crlf @ crlf])"

definition write_protocol_error :: "http_protocol_error \<Rightarrow> tcp_stream \<Rightarrow> tcp_stream" where
  "write_protocol_error err s = snd (write_fmt (write_all kernel_write) (protocol_error_pieces (pe_status err)) s)"

definition panic_response :: "byte list" where
  "panic_response = as_bytes ''HTTP/1.1 500 Internal Server Error'' @ crlf @ as_bytes ''Connection: close'' @ crlf
     @ as_bytes ''Content-Length: 0'' @ crlf @ crlf"

text \<open>Dropping a \<open>BufWriter\<close> flushes its buffer and ignores the error.\<close>

definition drop_bufw :: "'w write_fn \<Rightarrow> 'w bufw \<Rightarrow> 'w" where
  "drop_bufw wr bw = bw_inner (snd (flush_buf wr bw))"

definition drop_writer :: "conn_writer \<Rightarrow> tcp_stream bufw" where
  "drop_writer w = drop_bufw conn_write (rw_bw w)"

definition write_deadline :: "conn_ctx \<Rightarrow> nat \<Rightarrow> nat option" where
  "write_deadline cx conn_start =
     (case cx_write_timeout cx of Some wt \<Rightarrow> if wt > 0 then Some (conn_start + wt) else None | None \<Rightarrow> None)"

definition serve_conn_inner ::
  "conn_ctx \<Rightarrow> 's serve_fn \<Rightarrow> nat \<Rightarrow> string option \<Rightarrow> sock_in \<Rightarrow> tcp_stream \<times> 's \<Rightarrow> (tcp_stream \<times> 's) run option" where
  "serve_conn_inner cx serve conn_start peer si ts =
     (case ts of (stream, st) \<Rightarrow>
        do {
          (req_result, _) \<leftarrow> read_request (headers_done_switch cx conn_start si)
                                (deadline_reader (read_deadline cx conn_start False) si);
          (case req_result of
             Err (Protocol e) \<Rightarrow> Some (Returned (write_protocol_error e stream, st))
           | Err _ \<Rightarrow> Some (Returned (stream, st))
           | Ok req0 \<Rightarrow>
               let req = (case peer of Some addr \<Rightarrow> req0\<lparr>req_remote_addr := addr\<rparr> | None \<Rightarrow> req0);
                   w0 = rw_new (bufw_new (stream\<lparr>tcp_deadline := write_deadline cx conn_start\<rparr>))
               in do {
                 out \<leftarrow> serve req (w0, st);
                 (case out of
                    Returned (w1, st') \<Rightarrow>
                      let bw = drop_writer (snd (rw_finish conn_write conn_flush w1))
                      in Some (Returned (drop_bufw deadline_write (snd (conn_flush bw)), st'))
                  | Panicked (w1, st') \<Rightarrow> Some (Panicked (drop_bufw deadline_write (drop_writer w1), st')))
               })
        })"

text \<open>Under unwinding, a panic is answered with status 500; the connection is then shut down.\<close>

definition serve_conn ::
  "conn_ctx \<Rightarrow> 's serve_fn \<Rightarrow> nat \<Rightarrow> string option \<Rightarrow> sock_in \<Rightarrow> tcp_stream \<times> 's \<Rightarrow> (tcp_stream \<times> 's) option" where
  "serve_conn cx serve conn_start peer si ts =
     do {
       r \<leftarrow> serve_conn_inner cx serve conn_start peer si ts;
       Some (case r of
         Returned x \<Rightarrow> x
       | Panicked (stream, st) \<Rightarrow> (snd (write_all kernel_write panic_response stream), st))
     }"

text \<open>The server of \<open>main.rs\<close> is built by \<open>Server::new()\<close> and sets no timeouts.\<close>

definition ctx_new :: conn_ctx where
  "ctx_new = \<lparr>cx_read_timeout = None, cx_write_timeout = None, cx_read_header_timeout = None\<rparr>"


section \<open>Responses of a fixed length\<close>

text \<open>The header has been written as \<open>head\<close> for a body of known length, and \<open>bs\<close> has been accepted of it.\<close>

definition fixed_body :: "('w \<Rightarrow> byte list) \<Rightarrow> byte list \<Rightarrow> 'w response_writer \<Rightarrow> byte list \<Rightarrow> bool" where
  "fixed_body acc head w bs \<longleftrightarrow> rw_wrote_header w \<and> \<not> rw_chunked w \<and> rw_acc acc w = head @ bs"

context healthy_writer
begin

text \<open>A write below the size of the buffer is taken whole; a larger one may be cut short by the kernel.\<close>

lemma rw_write_fixed:
  assumes "fixed_body acc head w bs" "rw_healthy healthy w" "length data < DEFAULT_BUF_SIZE"
  shows "fixed_body acc head (snd (rw_write wr data w)) (bs @ data) \<and> rw_healthy healthy (snd (rw_write wr data w))"
proof (cases "data = []")
  case True
  then show ?thesis using assms by (simp add: rw_write_def fixed_body_def)
next
  case False
  have w: "rw_wrote_header w" "\<not> rw_chunked w" "rw_acc acc w = head @ bs" using assms(1) by (auto simp: fixed_body_def)
  obtain bw1 where m: "make_room wr data (rw_bw w) = (Ok (), bw1)" "bufw_healthy healthy bw1"
    using make_room_healthy assms(2) by (auto simp: rw_healthy_def)
  then have "rw_write wr data w = (Ok (length data), w\<lparr>rw_bw := bw1\<lparr>bw_buf := bw_buf bw1 @ data\<rparr>\<rparr>)"
    using w False assms(3) by (simp add: rw_write_def bufw_write_def)
  then show ?thesis
    using w m(2) make_room_acc(1) [OF m(1)] by (simp add: fixed_body_def rw_acc_def bufw_acc_def rw_healthy_def bufw_healthy_def)
qed

lemma rw_finish_fixed:
  assumes "fixed_body acc head w bs" "rw_healthy healthy w"
  shows "\<exists>w'. rw_finish wr fl w = (Ok (), w') \<and> bw_buf (rw_bw w') = [] \<and> healthy (bw_inner (rw_bw w'))
    \<and> acc (bw_inner (rw_bw w')) = head @ bs \<and> (\<exists>x. fl x = (Ok (), bw_inner (rw_bw w')))"
proof -
  have w: "rw_wrote_header w" "\<not> rw_chunked w" "bufw_acc acc (rw_bw w) = head @ bs"
    using assms(1) by (auto simp: fixed_body_def rw_acc_def)
  obtain bw where 2: "flush_buf wr (rw_bw w) = (Ok (), bw)" "bufw_healthy healthy bw"
    using flush_buf_healthy assms(2) by (auto simp: rw_healthy_def)
  obtain c where 3: "fl (bw_inner bw) = (Ok (), c)" "healthy c"
    using fl_healthy 2(2) by (auto simp: bufw_healthy_def)
  have fin: "rw_finish wr fl w = (Ok (), w\<lparr>rw_bw := bw\<lparr>bw_inner := c\<rparr>\<rparr>)"
    using w 2 3 by (simp add: rw_finish_def bufw_flush_def)
  have e: "bw_buf bw = []" "bufw_acc acc bw = head @ bs" using flush_buf_acc [OF 2(1)] w(3) by simp_all
  then have "acc c = head @ bs" using fl_acc [OF 3(1)] by (simp add: bufw_acc_def)
  with fin e(1) 3 show ?thesis by auto
qed

end

lemma flush_buf_empty: "bw_buf bw = [] \<Longrightarrow> flush_buf wr bw = (Ok (), bw)"
  by (cases bw) (simp add: flush_buf_def flush_buf_loop.simps [of wr "[]"])

text \<open>The end of a connection whose response has been finished: everything is on the socket.\<close>

definition conn_close :: "conn_writer \<Rightarrow> tcp_stream" where
  "conn_close w = drop_bufw deadline_write (snd (conn_flush (drop_writer (snd (rw_finish conn_write conn_flush w)))))"

lemma conn_close_finished:
  assumes "rw_finish conn_write conn_flush w = (Ok (), w')" "bw_buf (rw_bw w') = []"
    and "bufw_healthy tcp_healthy (bw_inner (rw_bw w'))" "conn_flush x = (Ok (), bw_inner (rw_bw w'))"
  shows "tcp_out (conn_close w) = conn_acc (bw_inner (rw_bw w'))"
proof -
  let ?bw = "bw_inner (rw_bw w')"
  have e: "bw_buf ?bw = []" by (rule tcp.bufw_flush_buf [OF assms(4)])
  have d: "drop_writer w' = ?bw" using assms(2) by (simp add: drop_writer_def drop_bufw_def flush_buf_empty)
  obtain r bw' where f: "conn_flush ?bw = (r, bw')" by (cases "conn_flush ?bw")
  have h: "tcp_healthy (bw_inner ?bw)" using assms(3) by (simp add: bufw_healthy_def)
  obtain s where s: "deadline_flush (bw_inner ?bw) = (Ok (), s)" using tcp.fl_healthy [OF h] by blast
  then have bw': "bw' = ?bw\<lparr>bw_inner := s\<rparr>" using f e by (simp add: bufw_flush_def flush_buf_empty)
  have "conn_close w = s"
    using assms(1) d f bw' e by (simp add: conn_close_def drop_bufw_def flush_buf_empty)
  then show ?thesis using tcp.fl_acc [OF s] e by (simp add: bufw_acc_def)
qed

lemma read_response_fixed:
  assumes "100 \<le> code" "code \<le> 999" "printable_headers h" "header_get ''Transfer-Encoding'' h = None"
    and "header_get ''Content-Length'' h = Some (show_nat (length body))" "int (length body) \<le> MAX_BODY_BYTES"
  shows "read_response \<lparr>rd_input = head_bytes code h @ body, rd_end = e\<rparr>
    = Some (Ok \<lparr>resp_status_code = code, resp_header = header_sorted h, resp_body = body\<rparr>, \<lparr>rd_input = [], rd_end = e\<rparr>)"
proof -
  note rh = read_head [OF assms(1-3)]
  obtain host where h: "read_headers \<lparr>rd_input = header_lines h @ crlf @ body, rd_end = e\<rparr>
      = Some (Ok (header_sorted h, host), \<lparr>rd_input = body, rd_end = e\<rparr>)"
    using rh(2) by blast
  have inv: "header_inv h" using assms(3) by (simp add: printable_headers_def)
  have g: "header_get ''Transfer-Encoding'' (header_sorted h) = None"
    "header_get ''Content-Length'' (header_sorted h) = Some (show_nat (length body))"
    using assms(4,5) by (simp_all add: header_sorted_facts(2) [OF inv])
  have "length body < 2 ^ 63" using assms(6) by (simp add: MAX_BODY_BYTES_def)
  then have p: "parse_i64 (show_nat (length body)) = Some (int (length body))" by (rule parse_i64_show_nat)
  show ?thesis
    using rh(1) h g p assms(6) parse_status_line_status_line [OF assms(1,2)]
    by (auto simp: read_response_def read_exact_def)
qed


lemma final_headers_fixed:
  assumes "header_get ''Content-Length'' h = Some v"
  shows "final_headers h = header_set ''Connection'' ''close'' h"
    "header_get ''Content-Length'' (final_headers h) = Some v"
proof -
  have g: "header_get ''Content-Length'' (header_set ''Connection'' ''close'' h) = Some v"
    unfolding assms [symmetric] by (rule header_get_set_other) code_simp
  then show "final_headers h = header_set ''Connection'' ''close'' h" by (simp add: final_headers_def)
  with g show "header_get ''Content-Length'' (final_headers h) = Some v" by simp
qed

lemma fixed_reply_read:
  assumes "tcp_healthy s" "tcp_out s = []" "header_get ''Content-Length'' h = Some (show_nat (length body))"
    and "header_get ''Transfer-Encoding'' h = None" "printable_headers (final_headers h)"
    and "100 \<le> code" "code \<le> 999" "length body < DEFAULT_BUF_SIZE"
  shows "read_response \<lparr>rd_input = tcp_out (conn_close (snd (rw_write conn_write body
      (rw_write_header conn_write code ((rw_new (bufw_new s))\<lparr>rw_headers := h\<rparr>))))), rd_end = e\<rparr>
    = Some (Ok \<lparr>resp_status_code = code, resp_header = header_sorted (final_headers h), resp_body = body\<rparr>,
        \<lparr>rd_input = [], rd_end = e\<rparr>)"
proof -
  let ?w0 = "(rw_new (bufw_new s))\<lparr>rw_headers := h\<rparr>" and ?H = "bufw_healthy tcp_healthy"
  let ?head = "head_bytes code (final_headers h)"
  define w1 where "w1 = rw_write_header conn_write code ?w0"
  define w2 where "w2 = snd (rw_write conn_write body w1)"
  have h0: "rw_healthy ?H ?w0" "\<not> rw_wrote_header ?w0" "\<not> rw_chunked ?w0" "rw_acc conn_acc ?w0 = []"
    using assms(1,2) by (simp_all add: rw_new_def rw_healthy_def bufw_healthy_def bufw_new_def rw_acc_def bufw_acc_def)
  note wh = conn.rw_write_header_healthy [OF h0(1-3), of code, folded w1_def]
  have "fixed_body conn_acc ?head w1 []"
    unfolding fixed_body_def by (intro conjI) (use wh h0(4) assms(3) in simp_all)
  from conn.rw_write_fixed [OF this wh(1) assms(8), folded w2_def]
  have b: "fixed_body conn_acc ?head w2 body" "rw_healthy ?H w2" by simp_all
  obtain w' x where f: "rw_finish conn_write conn_flush w2 = (Ok (), w')" "bw_buf (rw_bw w') = []"
    "?H (bw_inner (rw_bw w'))" "conn_acc (bw_inner (rw_bw w')) = ?head @ body"
    "conn_flush x = (Ok (), bw_inner (rw_bw w'))"
    using conn.rw_finish_fixed [OF b] by blast
  have out: "tcp_out (conn_close w2) = ?head @ body"
    using conn_close_finished [OF f(1-3,5)] f(4) by simp
  have te: "header_get ''Transfer-Encoding'' (final_headers h) = None"
    unfolding final_headers_fixed(1) [OF assms(3)] by (subst header_get_set_other, code_simp) (rule assms(4))
  have "int (length body) \<le> MAX_BODY_BYTES" using assms(8) by (simp add: DEFAULT_BUF_SIZE_def MAX_BODY_BYTES_def)
  from read_response_fixed [OF assms(6,7,5) te final_headers_fixed(2) [OF assms(3)] this, of e]
  show ?thesis unfolding out [unfolded w2_def w1_def] .
qed

section \<open>Requests in time\<close>

text \<open>The bytes \<open>bs\<close> come in before the deadline for the headers, cut into reads in any way.\<close>

definition in_time :: "conn_ctx \<Rightarrow> nat \<Rightarrow> sock_in \<Rightarrow> byte list \<Rightarrow> bool" where
  "in_time cx conn_start si bs \<longleftrightarrow>
     list_all (\<lambda>(now, res). \<exists>b. res = Ok b) (si_reads si)
     \<and> concat (map (\<lambda>(now, res). case res of Ok b \<Rightarrow> b | Err _ \<Rightarrow> []) (si_reads si)) = bs
     \<and> (case read_deadline cx conn_start False of
          None \<Rightarrow> True | Some d \<Rightarrow> list_all (\<lambda>(now, res). now < d) (si_reads si))"

lemma read_deadline_later:
  "read_deadline cx t True = Some d \<Longrightarrow> \<exists>d'. read_deadline cx t False = Some d' \<and> d' \<le> d"
  by (auto simp: read_deadline_def Let_def split: option.splits)

lemma deadline_reads_in_time:
  assumes "list_all (\<lambda>(now, res). \<exists>b. res = Ok b) evs"
    and "case dl of None \<Rightarrow> True | Some d \<Rightarrow> list_all (\<lambda>(now, res). now < d) evs"
  shows "deadline_reads dl spins evs =
    (concat (map (\<lambda>(now, res). case res of Ok b \<Rightarrow> b | Err _ \<Rightarrow> []) evs), EndEof (map_option (\<lambda>_. spins) dl))"
  using assms
proof (induction evs)
  case (Cons ev evs)
  then obtain now b where "ev = (now, Ok b)" by (cases ev) auto
  with Cons show ?case by (cases dl) (auto simp: refresh_read_timeout_def)
qed simp

lemma deadline_reader_in_time:
  assumes "in_time cx t si bs"
  shows "deadline_reader (read_deadline cx t fin) si
    = \<lparr>rd_input = bs, rd_end = EndEof (map_option (\<lambda>_. si_spins si) (read_deadline cx t fin))\<rparr>"
proof -
  have "case read_deadline cx t fin of None \<Rightarrow> True | Some d \<Rightarrow> list_all (\<lambda>(now, res). now < d) (si_reads si)"
  proof (cases fin)
    case True
    show ?thesis
    proof (cases "read_deadline cx t fin")
      case (Some d)
      then obtain d' where "read_deadline cx t False = Some d'" "d' \<le> d" using read_deadline_later [of cx t d] True by auto
      then show ?thesis using Some assms by (auto simp: in_time_def list_all_iff)
    qed simp
  qed (use assms in \<open>simp add: in_time_def\<close>)
  from deadline_reads_in_time [OF _ this, of "si_spins si"] assms show ?thesis
    by (simp add: deadline_reader_def in_time_def)
qed

lemma headers_done_in_time:
  assumes "in_time cx t si bs" "\<exists>xs. bs = xs @ rd_input r"
  shows "rd_input (headers_done_switch cx t si r) = rd_input r"
  using assms by (auto simp: headers_done_switch_def Let_def deadline_reader_in_time [OF assms(1)])


section \<open>Malformed requests\<close>

text \<open>The socket without the deadline wrapper; flushing it does nothing.\<close>

definition kernel_flush :: "tcp_stream flush_fn" where
  "kernel_flush s = (Ok (), s)"

interpretation raw: healthy_writer kernel_write kernel_flush tcp_out tcp_healthy
proof
  fix b s n s'
  assume "kernel_write b s = (Ok n, s')"
  then show "n \<le> length b \<and> tcp_out s' = tcp_out s @ take n b"
    by (auto simp: kernel_write_def take_min split: sum.splits)
next
  fix s and b :: "byte list"
  assume h: "tcp_healthy s" and b: "b \<noteq> []"
  then obtain n where n: "n > 0" "tcp_kernel s (tcp_calls s) = Ok n" by (auto simp: tcp_healthy_def)
  with h b show "\<exists>n s'. kernel_write b s = (Ok n, s') \<and> 0 < n \<and> tcp_healthy s'"
    by (auto simp: kernel_write_def tcp_healthy_def before_deadline_def split: option.splits)
qed (auto simp: kernel_write_def kernel_flush_def split: sum.splits)

text \<open>The status codes a request can be refused with.\<close>

definition refusals :: "nat set" where
  "refusals = {STATUS_BAD_REQUEST, STATUS_METHOD_NOT_ALLOWED, STATUS_PAYLOAD_TOO_LARGE, STATUS_URI_TOO_LONG,
     STATUS_UPGRADE_REQUIRED, STATUS_REQUEST_HEADER_TOO_BIG}"

definition refused_well :: "(read_request_error + 'a) \<Rightarrow> bool" where
  "refused_well x \<longleftrightarrow> (case x of Err (Protocol e) \<Rightarrow> pe_status e \<in> refusals | _ \<Rightarrow> True)"

lemma refused_well_simps [simp]:
  "refused_well (Ok v)" "refused_well (Err Eof)" "refused_well (Err (Io k))"
  "refused_well (Err (Protocol e)) \<longleftrightarrow> pe_status e \<in> refusals"
  by (simp_all add: refused_well_def)

lemma refused_well_Err: "refused_well (Err e :: read_request_error + 'a) \<Longrightarrow> refused_well (Err e :: read_request_error + 'b)"
  by (simp add: refused_well_def)

lemma protocol_error_status [simp]: "pe_status (protocol_error st m) = st"
  by (simp add: protocol_error_def)

lemma refusals_simps [simp]:
  "STATUS_BAD_REQUEST \<in> refusals" "STATUS_METHOD_NOT_ALLOWED \<in> refusals" "STATUS_PAYLOAD_TOO_LARGE \<in> refusals"
  "STATUS_URI_TOO_LONG \<in> refusals" "STATUS_UPGRADE_REQUIRED \<in> refusals" "STATUS_REQUEST_HEADER_TOO_BIG \<in> refusals"
  by (simp_all add: refusals_def)

lemma read_line_refused: "read_line limit r = Some (x, r') \<Longrightarrow> refused_well x"
proof -
  have "case y of (x, r') \<Rightarrow> refused_well x" if "read_line_loop limit buf r = Some y" for limit buf r y
  proof (rule read_line_loop.raw_induct [OF _ that, of "\<lambda>limit buf r y. case y of (x, r') \<Rightarrow> refused_well x"])
    fix f limit buf r y
    assume IH: "\<And>limit buf r y. f limit buf r = Some y \<Longrightarrow> case y of (x, r') \<Rightarrow> refused_well x"
      and eq: "(case read_until_lf r of (app, res, r) \<Rightarrow>
          let buf = buf @ app in
          (case res of
            Err e \<Rightarrow> Some (Err (if e = UnexpectedEof \<and> buf = [] then Eof else Io e), r)
          | Ok b \<Rightarrow>
              if b = 0 \<and> buf = [] then Some (Err Eof, r)
              else if length buf > limit then
                Some (Err (Protocol (protocol_error STATUS_URI_TOO_LONG
                  (''line '' @ show_nat (length buf) @ '' bytes exceeds '' @ show_nat limit @ '' max''))), r)
              else if buf \<noteq> [] \<and> last buf = 0x0a then Some (Ok (strip_crlf buf), r)
              else if length buf \<ge> limit then
                Some (Err (Protocol (protocol_error STATUS_URI_TOO_LONG ''line exceeds bufio buffer'')), r)
              else f limit buf r)) = Some y"
    show "case y of (x, r') \<Rightarrow> refused_well x"
      using eq by (auto simp: Let_def split: prod.splits sum.splits if_splits dest!: IH)
  qed
  then show "read_line limit r = Some (x, r') \<Longrightarrow> refused_well x" unfolding read_line_def by blast
qed

lemma read_headers_loop_refused:
  "read_headers_loop n h tb host r = Some (x, r') \<Longrightarrow> refused_well x"
proof (induction n arbitrary: h tb host r)
  case (Suc n)
  from Suc.prems obtain lr r1 where lr: "read_line MAX_REQUEST_LINE_BYTES r = Some (lr, r1)"
    by (cases "read_line MAX_REQUEST_LINE_BYTES r") auto
  note ok = read_line_refused [OF lr]
  show ?case
  proof (cases lr)
    case (Inl e)
    then show ?thesis using Suc.prems lr ok by (auto intro: refused_well_Err)
  next
    case (Inr line)
    then show ?thesis
      using Suc.prems lr by (auto simp: Let_def split: if_splits option.splits nat.splits dest: Suc.IH)
  qed
qed auto

lemma read_body_refused: "read_body h r = (x, r') \<Longrightarrow> refused_well x"
  by (auto simp: read_body_def parse_content_length_def from_io_def split: option.splits sum.splits if_splits prod.splits)

lemma parse_request_line_refused: "refused_well (parse_request_line line)"
  by (auto simp: parse_request_line_def Let_def split: option.splits)

lemma read_headers_refused: "read_headers r = Some (x, r') \<Longrightarrow> refused_well x"
  unfolding read_headers_def by (rule read_headers_loop_refused)

lemma read_request_refused:
  assumes "read_request hdone r = Some (x, r')"
  shows "refused_well x"
proof -
  obtain lr r1 where lr: "read_line MAX_REQUEST_LINE_BYTES r = Some (lr, r1)"
    using assms by (cases "read_line MAX_REQUEST_LINE_BYTES r") (auto simp: read_request_def)
  show ?thesis
  proof (cases lr)
    case (Inl e)
    then show ?thesis using assms lr read_line_refused [OF lr] by (auto simp: read_request_def intro: refused_well_Err)
  next
    case (Inr line)
    note pl = parse_request_line_refused [of line]
    show ?thesis
    proof (cases "parse_request_line line")
      case (Inl e)
      then show ?thesis using assms lr Inr pl by (auto simp: read_request_def intro: refused_well_Err)
    next
      case ok: (Inr mtv)
      obtain meth target version where mtv: "mtv = (meth, target, version)" by (cases mtv)
      consider "refused_well x" | hr r2 where "read_headers r1 = Some (hr, r2)" "version = ''HTTP/1.1'' \<or> version = ''HTTP/1.0''"
          "meth = METHOD_GET \<or> meth = METHOD_POST"
        using assms lr Inr ok mtv
        by (cases "read_headers r1") (auto simp: read_request_def split: if_splits)
      then show ?thesis
      proof cases
        case 2
        note rh = read_headers_refused [OF 2(1)]
        show ?thesis
        proof (cases hr)
          case (Inl e)
          then show ?thesis using assms lr Inr ok mtv 2 rh by (auto simp: read_request_def intro: refused_well_Err)
        next
          case hh: (Inr hh)
          obtain headers host where hd: "hh = (headers, host)" by (cases hh)
          obtain b r3 where b: "read_body headers (hdone r2) = (b, r3)" by (cases "read_body headers (hdone r2)")
          show ?thesis
            using assms lr Inr ok mtv 2 hh hd b read_body_refused [OF b]
            by (cases b) (auto simp: read_request_def split_path_query_def Let_def intro: refused_well_Err split: if_splits option.splits)
        qed
      qed
    qed
  qed
qed

definition refusal_headers :: header where
  "refusal_headers = [(''Connection'', [''close'']), (''Content-Length'', [''0''])]"

lemma refusal_headers_facts:
  "header_sorted refusal_headers = refusal_headers" "printable_headers refusal_headers"
proof -
  show s: "header_sorted refusal_headers = refusal_headers" by code_simp
  have "good_key ''Connection'' \<and> good_key ''Content-Length'' \<and> good_value ''close'' \<and> good_value ''0''" by code_simp
  then show "printable_headers refusal_headers"
    unfolding printable_headers_def s
    by (simp add: refusal_headers_def header_inv_def header_fields_def good_fields_def fields_size_def
        MAX_HEADER_BYTES_def MAX_HEADER_COUNT_def MAX_REQUEST_LINE_BYTES_def)
qed

lemma refusal_bytes:
  assumes "st \<in> refusals"
  shows "concat (protocol_error_pieces st) = head_bytes st refusal_headers @ []" "100 \<le> st" "st \<le> 999"
proof -
  have t: "status_text st \<noteq> []" "st \<noteq> 0" "100 \<le> st" "st \<le> 999"
    using assms
    by (auto simp: refusals_def status_text_def STATUS_BAD_REQUEST_def STATUS_METHOD_NOT_ALLOWED_def
        STATUS_PAYLOAD_TOO_LARGE_def STATUS_URI_TOO_LONG_def STATUS_UPGRADE_REQUIRED_def STATUS_REQUEST_HEADER_TOO_BIG_def
        STATUS_OK_def STATUS_NOT_FOUND_def STATUS_INTERNAL_SERVER_ERROR_def STATUS_BAD_GATEWAY_def)
  then show "100 \<le> st" "st \<le> 999" by simp_all
  have h: "header_lines refusal_headers = as_bytes ''Connection: close'' @ crlf @ as_bytes ''Content-Length: 0'' @ crlf"
    by code_simp
  show "concat (protocol_error_pieces st) = head_bytes st refusal_headers @ []"
    using t by (simp add: protocol_error_pieces_def head_bytes_def status_pieces_def Let_def h)
qed

text \<open>
  C34. A request that is refused is answered.  Whatever bytes arrive and whenever, if they are not a request the
  parser accepts and the peer still takes data, then the connection ends with a complete response on the
  socket, with no body and one of six status codes of the client's fault (400, 405, 413, 414, 426, 431), and the
  handler has not been called: its state is unchanged.
\<close>

theorem refused_request_answered:
  assumes "read_request (headers_done_switch cx t si) (deadline_reader (read_deadline cx t False) si)
      = Some (Err (Protocol pe), r)" "tcp_healthy s" "tcp_out s = []"
  shows "pe_status pe \<in> refusals \<and> (\<exists>s'. serve_conn cx serve t peer si (s, st) = Some (s', st)
    \<and> read_response \<lparr>rd_input = tcp_out s', rd_end = e\<rparr>
      = Some (Ok \<lparr>resp_status_code = pe_status pe, resp_header = refusal_headers, resp_body = []\<rparr>,
          \<lparr>rd_input = [], rd_end = e\<rparr>))"
proof -
  have st: "pe_status pe \<in> refusals" using read_request_refused [OF assms(1)] by simp
  note rb = refusal_bytes [OF st]
  obtain s' where s': "write_fmt (write_all kernel_write) (protocol_error_pieces (pe_status pe)) s = (Ok (), s')"
    "tcp_out s' = head_bytes (pe_status pe) refusal_headers @ []"
    using raw.write_fmt_all_healthy [OF assms(2)] assms(3) rb(1) by (metis append_Nil)
  have "serve_conn cx serve t peer si (s, st) = Some (s', st)" for st
    using assms(1) s'(1) by (simp add: serve_conn_def serve_conn_inner_def write_protocol_error_def Let_def)
  moreover have "show_nat 0 = ''0''" by code_simp
  then have "header_get ''Transfer-Encoding'' refusal_headers = None"
    "header_get ''Content-Length'' refusal_headers = Some (show_nat (length ([] :: byte list)))"
    by (simp_all add: refusal_headers_def header_get_def)
  from read_response_fixed [OF rb(2,3) refusal_headers_facts(2) this, of e] s'(2) refusal_headers_facts(1)
  have "read_response \<lparr>rd_input = tcp_out s', rd_end = e\<rparr>
      = Some (Ok \<lparr>resp_status_code = pe_status pe, resp_header = refusal_headers, resp_body = []\<rparr>,
          \<lparr>rd_input = [], rd_end = e\<rparr>)"
    by (simp add: MAX_BODY_BYTES_def)
  ultimately show ?thesis using st by blast
qed

text \<open>A request with a method the server does not know, on a socket that is then closed.\<close>

definition brew :: sock_in where
  "brew = \<lparr>si_reads = [(0, Ok (as_bytes ''BREW /pot'')), (3, Ok (as_bytes '' HTTP/1.1'' @ crlf))], si_spins = 0\<rparr>"

theorem refused_request_answered_witness:
  "\<exists>s'. serve_conn ctx_new (\<lambda>_ _. None) 0 None brew (wit_tcp, ()) = Some (s', ())
    \<and> read_response \<lparr>rd_input = tcp_out s', rd_end = EndEof None\<rparr>
      = Some (Ok \<lparr>resp_status_code = 405, resp_header = refusal_headers, resp_body = []\<rparr>,
          \<lparr>rd_input = [], rd_end = EndEof None\<rparr>)"
proof -
  let ?line = "''BREW /pot HTTP/1.1''"
  have r: "deadline_reader (read_deadline ctx_new 0 False) brew = \<lparr>rd_input = as_bytes ?line @ crlf @ [], rd_end = EndEof None\<rparr>"
    by (simp add: deadline_reader_def brew_def read_deadline_def ctx_new_def refresh_read_timeout_def)
  have "list_all text_char ?line" "length ?line + 2 \<le> MAX_REQUEST_LINE_BYTES"
    by (simp_all add: text_char_def MAX_REQUEST_LINE_BYTES_def)
  note l = read_line_text [OF this, of "[]" "EndEof None"]
  have p: "parse_request_line ?line = Ok (''BREW'', ''/pot'', ''HTTP/1.1'')" by code_simp
  obtain pe r' where q: "read_request (headers_done_switch ctx_new 0 brew) (deadline_reader (read_deadline ctx_new 0 False) brew)
      = Some (Err (Protocol pe), r')" "pe_status pe = 405"
    unfolding r using l p by (simp add: read_request_def METHOD_GET_def METHOD_POST_def STATUS_METHOD_NOT_ALLOWED_def)
  from refused_request_answered [OF q(1) wit_tcp_healthy, of "\<lambda>_ _. None" None "()" "EndEof None"] q(2) show ?thesis
    by (simp add: wit_tcp_def)
qed

section \<open>The accept loop and its shutdown\<close>

text \<open>
  \<open>Server::serve\<close> in its accept thread, the connection threads and one thread in \<open>Server::shutdown\<close>, each
  step being one access to the shared listener, flag or counter.  The state starts when \<open>serve\<close> has
  stored its listener.  \<open>sr_running\<close> counts the connection threads; \<open>sr_active\<close> is the code's counter.
\<close>

datatype serve_end = ServeClosed | ServeOk | ServeIo io_kind
datatype accept_pc = AcLoop | AcAccepted | AcCounted | AcDone serve_end
datatype shutdown_pc = ShIdle | ShStored | ShWaiting | ShDone bool

record srv =
  sr_listener :: bool
  sr_closing :: bool
  sr_active :: nat
  sr_running :: nat
  sr_accept :: accept_pc
  sr_shutdown :: shutdown_pc

definition srv_init :: srv where
  "srv_init = \<lparr>sr_listener = True, sr_closing = False, sr_active = 0, sr_running = 0,
     sr_accept = AcLoop, sr_shutdown = ShIdle\<rparr>"

text \<open>One turn of the accept loop up to the end of the lock's scope; the argument is the result of \<open>accept\<close>.\<close>

definition accept_turn :: "io_kind + unit \<Rightarrow> srv \<Rightarrow> srv" where
  "accept_turn res s =
     (if \<not> sr_listener s then s\<lparr>sr_accept := AcDone (if sr_closing s then ServeClosed else ServeOk)\<rparr>
      else
        (case res of
           Ok _ \<Rightarrow> s\<lparr>sr_accept := AcAccepted\<rparr>
         | Err e \<Rightarrow>
             if sr_closing s then s\<lparr>sr_accept := AcDone ServeClosed\<rparr>
             else if e = WouldBlock \<or> e = TimedOut then s
             else s\<lparr>sr_accept := AcDone (ServeIo e)\<rparr>))"

definition count_conn :: "srv \<Rightarrow> srv" where
  "count_conn s = s\<lparr>sr_active := sr_active s + 1, sr_accept := AcCounted\<rparr>"

definition spawn_conn :: "srv \<Rightarrow> srv" where
  "spawn_conn s = s\<lparr>sr_running := sr_running s + 1, sr_accept := AcLoop\<rparr>"

definition end_conn :: "srv \<Rightarrow> srv" where
  "end_conn s = s\<lparr>sr_running := sr_running s - 1, sr_active := sr_active s - 1\<rparr>"

definition shutdown_turn :: "bool \<Rightarrow> srv \<Rightarrow> srv" where
  "shutdown_turn expired s =
     (case sr_shutdown s of
        ShIdle \<Rightarrow> s\<lparr>sr_closing := True, sr_shutdown := ShStored\<rparr>
      | ShStored \<Rightarrow> s\<lparr>sr_listener := False, sr_shutdown := ShWaiting\<rparr>
      | ShWaiting \<Rightarrow>
          if sr_active s = 0 then s\<lparr>sr_shutdown := ShDone True\<rparr>
          else if expired then s\<lparr>sr_shutdown := ShDone False\<rparr> else s
      | ShDone _ \<Rightarrow> s)"

inductive srv_step :: "srv \<Rightarrow> srv \<Rightarrow> bool" where
  accept: "sr_accept s = AcLoop \<Longrightarrow> srv_step s (accept_turn res s)"
| count: "sr_accept s = AcAccepted \<Longrightarrow> srv_step s (count_conn s)"
| spawn: "sr_accept s = AcCounted \<Longrightarrow> srv_step s (spawn_conn s)"
| finish: "0 < sr_running s \<Longrightarrow> srv_step s (end_conn s)"
| shutdown: "srv_step s (shutdown_turn expired s)"

inductive srv_reach :: "srv \<Rightarrow> bool" where
  init: "srv_reach srv_init"
| step: "srv_reach s \<Longrightarrow> srv_step s s' \<Longrightarrow> srv_reach s'"

text \<open>Connections that are counted, and those that are still to be counted.\<close>

definition counted :: "srv \<Rightarrow> nat" where
  "counted s = sr_running s + (if sr_accept s = AcCounted then 1 else 0)"

definition uncounted :: "srv \<Rightarrow> nat" where
  "uncounted s = (if sr_accept s = AcAccepted then 1 else 0)"

definition srv_inv :: "srv \<Rightarrow> bool" where
  "srv_inv s \<longleftrightarrow> sr_active s = counted s
     \<and> (sr_shutdown s \<notin> {ShIdle, ShStored} \<longrightarrow> \<not> sr_listener s)
     \<and> (sr_shutdown s \<noteq> ShIdle \<longrightarrow> sr_closing s)
     \<and> (sr_shutdown s = ShDone True \<longrightarrow> counted s + uncounted s \<le> 1)"

lemmas srv_turn_defs = accept_turn_def count_conn_def spawn_conn_def end_conn_def shutdown_turn_def
  srv_inv_def counted_def uncounted_def

lemma srv_step_inv: "srv_step s s' \<Longrightarrow> srv_inv s \<Longrightarrow> srv_inv s'"
  by (induction rule: srv_step.induct)
    (auto simp: srv_turn_defs split: if_splits sum.splits shutdown_pc.splits)

lemma srv_reach_inv: "srv_reach s \<Longrightarrow> srv_inv s"
proof (induction rule: srv_reach.induct)
  case init
  show ?case by (simp add: srv_init_def srv_inv_def counted_def)
qed (rule srv_step_inv)


text \<open>
  Shutting the server down.  In every interleaving the counter of active connections is the number of
  connections counted and not ended.  Once \<open>shutdown\<close> has returned success, the listener is closed, so
  nothing more is accepted, and at most one connection is left: the one that \<open>accept\<close> had returned and
  that was not counted yet when the counter was read as zero.  That one does occur.
\<close>

theorem shutdown_leaves_at_most_one:
  assumes "srv_reach s"
  shows "sr_active s = counted s
    \<and> (sr_shutdown s = ShDone True \<longrightarrow> \<not> sr_listener s \<and> sr_closing s \<and> counted s + uncounted s \<le> 1)"
  using srv_reach_inv [OF assms] by (auto simp: srv_inv_def)

text \<open>A connection accepted just before the listener is taken, counted after the counter is read.\<close>

definition late_conn :: srv where
  "late_conn = spawn_conn (count_conn (shutdown_turn False (shutdown_turn False (shutdown_turn False
     (accept_turn (Ok ()) srv_init)))))"

lemma late_conn_reach: "srv_reach late_conn"
proof -
  let ?s1 = "accept_turn (Ok ()) srv_init"
  let ?s2 = "shutdown_turn False (shutdown_turn False (shutdown_turn False ?s1))"
  have "srv_reach ?s2"
    by (intro srv_reach.step [OF _ srv_step.shutdown] srv_reach.step [OF srv_reach.init srv_step.accept])
      (simp add: srv_init_def)
  moreover have "sr_accept ?s2 = AcAccepted" by (simp add: srv_init_def accept_turn_def shutdown_turn_def)
  ultimately have "srv_reach (count_conn ?s2)" by (rule srv_reach.step [OF _ srv_step.count])
  then show ?thesis
    unfolding late_conn_def by (rule srv_reach.step [OF _ srv_step.spawn]) (simp add: count_conn_def)
qed

theorem shutdown_leaves_at_most_one_witness:
  "srv_reach late_conn \<and> sr_shutdown late_conn = ShDone True \<and> sr_running late_conn = 1
    \<and> \<not> sr_listener late_conn \<and> counted late_conn + uncounted late_conn \<le> 1"
proof -
  have "sr_shutdown late_conn = ShDone True \<and> sr_running late_conn = 1"
    by (simp add: late_conn_def srv_init_def accept_turn_def shutdown_turn_def count_conn_def spawn_conn_def)
  then show ?thesis using late_conn_reach shutdown_leaves_at_most_one [OF late_conn_reach] by simp
qed

end
