(* ===== verification/JsonEnc.thy ===== *)
theory JsonEnc
  imports RustStr "HOL-Library.List_Lexorder" "HOL-Library.Char_ord"
begin

text \<open>
  \<open>src/httpx/json.rs\<close>: the JSON encoder.  Strings are UTF-8 byte sequences, so the two line separators
  U+2028 and U+2029, which the encoder escapes, are recognised by their three bytes.  A \<open>BTreeMap\<close> is an
  association list, printed in key order.
\<close>

datatype json_value =
    Null
  | Bool bool
  | Number int
  | String string
  | Array "json_value list"
  | Struct "(string \<times> json_value) list"
  | Map "(string \<times> json_value) list"

record json_options =
  escape_html :: bool
  trailing_newline :: bool

definition MARSHAL :: json_options where
  "MARSHAL = \<lparr>escape_html = True, trailing_newline = False\<rparr>"

definition ENCODE :: json_options where
  "ENCODE = \<lparr>escape_html = False, trailing_newline = True\<rparr>"

definition show_int :: "int \<Rightarrow> string" where
  "show_int i = (if i < 0 then CHR ''-'' # show_nat (nat (- i)) else show_nat (nat i))"

text \<open>The four-digit lower-case hexadecimal escape \<open>\u{:04x}\<close>.\<close>

definition write_unicode_escape :: "nat \<Rightarrow> byte list" where
  "write_unicode_escape code =
     (let h = show_hex code in [0x5c, 0x75] @ as_bytes (replicate (4 - length h) (CHR ''0'') @ h))"

text \<open>The escape of one byte of the text, after the line separators.\<close>

definition escape_byte :: "bool \<Rightarrow> byte \<Rightarrow> byte list" where
  "escape_byte html b =
     (if b = 0x22 then [0x5c, 0x22]
      else if b = 0x5c then [0x5c, 0x5c]
      else if b = 0x0a then [0x5c, 0x6e]
      else if b = 0x0d then [0x5c, 0x72]
      else if b = 0x09 then [0x5c, 0x74]
      else if b = 0x08 then [0x5c, 0x62]
      else if b = 0x0c then [0x5c, 0x66]
      else if b < 0x20 then write_unicode_escape (unat b)
      else if html \<and> (b = 0x3c \<or> b = 0x3e \<or> b = 0x26) then write_unicode_escape (unat b)
      else [b])"

fun escape_bytes :: "bool \<Rightarrow> byte list \<Rightarrow> byte list" where
  "escape_bytes html [] = []"
| "escape_bytes html (a # r) =
     (case r of
        b # c # r' \<Rightarrow>
          if a = 0xe2 \<and> b = 0x80 \<and> c = 0xa8 then write_unicode_escape 0x2028 @ escape_bytes html r'
          else if a = 0xe2 \<and> b = 0x80 \<and> c = 0xa9 then write_unicode_escape 0x2029 @ escape_bytes html r'
          else escape_byte html a @ escape_bytes html r
      | _ \<Rightarrow> escape_byte html a @ escape_bytes html r)"

definition write_string :: "bool \<Rightarrow> string \<Rightarrow> byte list" where
  "write_string html s = [0x22] @ escape_bytes html (as_bytes s) @ [0x22]"

text \<open>The comma between the elements of a collection.\<close>

fun commas :: "byte list list \<Rightarrow> byte list" where
  "commas [] = []"
| "commas [x] = x"
| "commas (x # y # xs) = x @ [0x2c] @ commas (y # xs)"

fun write_value :: "bool \<Rightarrow> json_value \<Rightarrow> byte list" where
  "write_value html Null = as_bytes ''null''"
| "write_value html (Bool b) = as_bytes (if b then ''true'' else ''false'')"
| "write_value html (Number n) = as_bytes (show_int n)"
| "write_value html (String s) = write_string html s"
| "write_value html (Array items) = [0x5b] @ commas (map (write_value html) items) @ [0x5d]"
| "write_value html (Struct fs) =
     [0x7b] @ commas (map (\<lambda>(k, v). write_string html k @ [0x3a] @ write_value html v) fs) @ [0x7d]"
| "write_value html (Map fs) =
     [0x7b] @ commas (map snd (sort_key fst
       (map (\<lambda>(k, v). (k, write_string html k @ [0x3a] @ write_value html v)) fs))) @ [0x7d]"

definition newline :: "json_options \<Rightarrow> byte list" where
  "newline opts = (if trailing_newline opts then [0x0a] else [])"

definition encode_struct :: "(string \<times> json_value) list \<Rightarrow> json_options \<Rightarrow> byte list" where
  "encode_struct fs opts = write_value (escape_html opts) (Struct fs) @ newline opts"

definition encode_map :: "(string \<times> json_value) list \<Rightarrow> json_options \<Rightarrow> byte list" where
  "encode_map fs opts = write_value (escape_html opts) (Map fs) @ newline opts"

definition encode_value :: "json_value \<Rightarrow> json_options \<Rightarrow> byte list" where
  "encode_value v opts = write_value (escape_html opts) v @ newline opts"

end
