(* ===== verification/Codec.thy ===== *)
theory Codec
  imports Prelude
begin

text \<open>
  The field codecs of \<open>src/codec.rs\<close>: the pseudo-BCD number codec (an 8-character number is four
  hexadecimal pairs) and the splitting of a SIP URI \<open>name@ip:port\<close>.  The lemmas show that the BCD
  codec is a bijection up to letter case and that \<open>parse_uri\<close> accepts exactly the well-formed URIs,
  returning the substrings of its input.
\<close>

section \<open>Pseudo BCD\<close>

datatype bcd_error =
    BcdLength nat
  | BcdFormat char nat

definition hex_nibble :: "byte \<Rightarrow> byte option" where
  "hex_nibble c =
     (if 0x30 \<le> c \<and> c \<le> 0x39 then Some (c - 0x30)
      else if 0x61 \<le> c \<and> c \<le> 0x66 then Some (c - 0x61 + 10)
      else if 0x41 \<le> c \<and> c \<le> 0x46 then Some (c - 0x41 + 10)
      else None)"

text \<open>The loop over the four pairs; \<open>i\<close> is the byte index of the pair's high nibble.\<close>

fun encode_pairs :: "nat \<Rightarrow> byte list \<Rightarrow> bcd_error + byte list" where
  "encode_pairs i (h # l # rest) =
     (case hex_nibble h of
        None \<Rightarrow> Err (BcdFormat (byte_char h) i)
      | Some hi \<Rightarrow>
          (case hex_nibble l of
             None \<Rightarrow> Err (BcdFormat (byte_char l) (i + 1))
           | Some lo \<Rightarrow>
               (case encode_pairs (i + 2) rest of
                  Err e \<Rightarrow> Err e
                | Ok out \<Rightarrow> Ok ((push_bit 4 hi OR lo) # out))))"
| "encode_pairs i _ = Ok []"

definition encode_bcd :: "string \<Rightarrow> bcd_error + byte list" where
  "encode_bcd num_str =
     (let bytes = as_bytes num_str
      in if length bytes \<noteq> 8 then Err (BcdLength (length bytes)) else encode_pairs 0 bytes)"

definition hex_digit :: "byte \<Rightarrow> char" where
  "hex_digit v = ''0123456789abcdef'' ! unat v"

definition decode_bcd :: "byte list \<Rightarrow> string" where
  "decode_bcd b = concat (map (\<lambda>v. [hex_digit (drop_bit 4 v), hex_digit (v AND 0x0f)]) b)"

section \<open>SIP URI\<close>

datatype uri_error =
    UriFormat
  | NameLen nat
  | IPv4Only
  | Port

text \<open>
  \<open>Ipv4Addr::from_str\<close> of the standard library: four decimal octets of one to three digits, none
  with a leading zero, separated by dots.
\<close>

definition ipv4_octet :: "string \<Rightarrow> byte option" where
  "ipv4_octet s =
     (if 1 \<le> length s \<and> length s \<le> 3 \<and> list_all digit_char s
         \<and> (length s > 1 \<longrightarrow> hd s \<noteq> CHR ''0'') \<and> dec_val s \<le> 255
      then Some (of_nat (dec_val s)) else None)"

definition ipv4_from_str :: "string \<Rightarrow> byte list option" where
  "ipv4_from_str s =
     (case split_on (CHR ''.'') s of
        [a, b, c, d] \<Rightarrow>
          (case (ipv4_octet a, ipv4_octet b, ipv4_octet c, ipv4_octet d) of
             (Some w, Some x, Some y, Some z) \<Rightarrow> Some [w, x, y, z]
           | _ \<Rightarrow> None)
      | _ \<Rightarrow> None)"

definition parse_uri :: "string \<Rightarrow> uri_error + (string \<times> string \<times> u16)" where
  "parse_uri uri =
     (case position (\<lambda>c. c = CHR ''@'') uri of
        None \<Rightarrow> Err UriFormat
      | Some at \<Rightarrow>
          if \<not> (at > 0 \<and> at \<noteq> length uri - 1) then Err UriFormat
          else
            let name = take at uri; ip_port = drop (at + 1) uri in
            (case rposition (\<lambda>c. c = CHR '':'') ip_port of
               None \<Rightarrow> Err UriFormat
             | Some colon \<Rightarrow>
                 if \<not> (colon > 0 \<and> colon \<noteq> length ip_port - 1) then Err UriFormat
                 else
                   let ip = take colon ip_port; port_str = drop (colon + 1) ip_port in
                   if length name \<noteq> 8 then Err (NameLen (length name))
                   else if CHR '':'' \<in> set ip \<or> ipv4_from_str ip = None then Err IPv4Only
                   else
                     (case parse_i64 port_str of
                        Some p \<Rightarrow>
                          if 1 \<le> p \<and> p \<le> 65535 then Ok (name, ip, of_int p) else Err Port
                      | None \<Rightarrow> Err Port)))"

section \<open>Lemmas on the BCD codec\<close>

lemma nibble_cases:
  fixes v :: byte
  assumes "v < 16"
  shows "v \<in> {0, 1, 2, 3, 4, 5, 6, 7, 8, 9, 10, 11, 12, 13, 14, 15}"
proof -
  have "v \<le> 15" using assms by (simp add: word_less_nat_alt word_le_nat_alt)
  moreover have "[0..<16] = [0, 1, 2, 3, 4, 5, 6, 7, 8, 9, 10, 11, 12, 13, 14, 15 :: nat]" by code_simp
  ultimately show ?thesis using byte_range [of 0 v 15] by simp
qed

lemma nibble_join: "push_bit 4 (drop_bit 4 v) OR (v AND 0x0f) = (v :: byte)"
proof (rule bit_word_eqI)
  fix n
  have m: "(0x0f :: byte) = mask 4" by (simp add: mask_eq_exp_minus_1)
  show "bit (push_bit 4 (drop_bit 4 v) OR (v AND 0x0f)) n = bit v n"
    unfolding m by (cases "n < 4") (auto simp: bit_simps dest: bit_imp_le_length)
qed

lemma nibble_split:
  fixes hi lo :: byte
  assumes "hi < 16" "lo < 16"
  shows "drop_bit 4 (push_bit 4 hi OR lo) = hi" "(push_bit 4 hi OR lo) AND 0x0f = lo"
proof -
  have m: "(0x0f :: byte) = mask 4" by (simp add: mask_eq_exp_minus_1)
  have hi: "hi = take_bit 4 hi" and lo: "lo = take_bit 4 lo"
    using nibble_cases [OF assms(1)] nibble_cases [OF assms(2)] by auto
  have "drop_bit 4 (push_bit 4 (take_bit 4 hi) OR take_bit 4 lo) = take_bit 4 hi"
    by (rule bit_word_eqI) (auto simp: bit_simps)
  then show "drop_bit 4 (push_bit 4 hi OR lo) = hi" by (simp only: hi [symmetric] lo [symmetric])
  have "(push_bit 4 hi OR take_bit 4 lo) AND 0x0f = take_bit 4 lo"
    unfolding m by (rule bit_word_eqI) (auto simp: bit_simps)
  then show "(push_bit 4 hi OR lo) AND 0x0f = lo" by (simp only: lo [symmetric])
qed

lemma nibble_bounds: "drop_bit 4 (v :: byte) < 16" "(v AND 0x0f) < (16 :: byte)"
proof -
  have "unat (drop_bit 4 v) = unat v div 16"
    by (simp add: drop_bit_eq_div unat_div)
  then show "drop_bit 4 v < 16"
    using unat_byte_lt [of v] by (simp add: word_less_nat_alt)
  have "(v AND 0x0f) \<le> 0x0f" by (rule word_and_le1)
  then show "(v AND 0x0f) < 16" by (rule le_less_trans) simp
qed

lemma hex_nibble_hex_digit: "v < 16 \<Longrightarrow> hex_nibble (of_char (hex_digit v)) = Some v"
  by (drule nibble_cases) (auto simp: hex_nibble_def hex_digit_def)

text \<open>The letter-case normalisation that \<open>decode_bcd \<circ> encode_bcd\<close> performs.\<close>

definition ascii_lower :: "byte \<Rightarrow> byte" where
  "ascii_lower c = (if 0x41 \<le> c \<and> c \<le> 0x5a then c + 0x20 else c)"

lemma hex_nibble_lower: "hex_nibble (ascii_lower c) = hex_nibble c"
proof (cases "0x41 \<le> c \<and> c \<le> 0x5a")
  case True
  then have l: "ascii_lower c = c + 0x20" by (simp add: ascii_lower_def)
  have u: "unat (c + 0x20) = unat c + 32" and b: "65 \<le> unat c" "unat c \<le> 90"
    using True by (simp_all add: word_le_nat_alt unat_word_ariths)
  have "c + 0x20 - 0x61 = c - 0x41" by simp
  with u b show ?thesis
    unfolding l hex_nibble_def word_le_nat_alt by simp
next
  case False
  then show ?thesis by (auto simp: ascii_lower_def)
qed

lemma hex_nibble_SomeD:
  assumes "hex_nibble c = Some v"
  shows "v < 16 \<and> of_char (hex_digit v) = ascii_lower c"
proof -
  consider "0x30 \<le> c" "c \<le> 0x39" | "0x61 \<le> c" "c \<le> 0x66" | "0x41 \<le> c" "c \<le> 0x46"
    using assms by (auto simp: hex_nibble_def split: if_splits)
  then have "list_ex (\<lambda>n. c = of_nat n) [0x30..<0x3a] \<or> list_ex (\<lambda>n. c = of_nat n) [0x61..<0x67]
      \<or> list_ex (\<lambda>n. c = of_nat n) [0x41..<0x47]"
    using byte_range [of "0x30" c "0x39"] byte_range [of "0x61" c "0x66"] byte_range [of "0x41" c "0x46"]
    by cases simp_all
  then show ?thesis
    using assms by (auto simp: upt_rec_numeral hex_nibble_def hex_digit_def ascii_lower_def)
qed

lemma decode_bcd_simps [simp]:
  "decode_bcd [] = []"
  "decode_bcd (v # b) = hex_digit (drop_bit 4 v) # hex_digit (v AND 0x0f) # decode_bcd b"
  by (simp_all add: decode_bcd_def)

lemma length_decode_bcd [simp]: "length (decode_bcd b) = 2 * length b"
  by (induction b) simp_all

lemma encode_pairs_decode: "encode_pairs i (as_bytes (decode_bcd b)) = Ok b"
  by (induction b arbitrary: i) (simp_all add: hex_nibble_hex_digit nibble_bounds nibble_join)

lemma encode_pairs_Ok_iff:
  "encode_pairs i (h # l # rest) = Ok b \<longleftrightarrow>
     (\<exists>hi lo out. hex_nibble h = Some hi \<and> hex_nibble l = Some lo
        \<and> encode_pairs (i + 2) rest = Ok out \<and> b = (push_bit 4 hi OR lo) # out)"
  by (auto split: option.splits sum.splits)

lemma encode_pairs_lower:
  "encode_pairs i (map ascii_lower bs) = Ok b \<longleftrightarrow> encode_pairs i bs = Ok b"
proof (induction bs arbitrary: i b rule: induct_list012)
  case (3 h l rest)
  then show ?case by (simp only: list.map encode_pairs_Ok_iff hex_nibble_lower)
qed simp_all

lemma encode_pairs_OkD:
  "encode_pairs i bs = Ok b \<Longrightarrow> even (length bs) \<Longrightarrow>
     2 * length b = length bs \<and> as_bytes (decode_bcd b) = map ascii_lower bs"
proof (induction i bs arbitrary: b rule: encode_pairs.induct)
  case (1 i h l rest)
  from "1.prems" obtain hi lo out where
    hi: "hex_nibble h = Some hi" and lo: "hex_nibble l = Some lo"
    and rest: "encode_pairs (i + 2) rest = Ok out" and b: "b = (push_bit 4 hi OR lo) # out"
    unfolding encode_pairs_Ok_iff by blast
  have "even (length rest)" using "1.prems" by simp
  with "1.IH" [OF hi lo rest] have
    "2 * length out = length rest" "as_bytes (decode_bcd out) = map ascii_lower rest" by auto
  moreover have "hi < 16 \<and> of_char (hex_digit hi) = ascii_lower h"
    "lo < 16 \<and> of_char (hex_digit lo) = ascii_lower l"
    using hex_nibble_SomeD [OF hi] hex_nibble_SomeD [OF lo] by simp_all
  ultimately show ?case
    using b by (simp add: nibble_split del: drop_bit_or)
qed auto

text \<open>
  Decoding a four-byte number and encoding the text again gives the same four bytes, so no number
  read from the wire changes when it is printed and sent back.
\<close>

theorem bcd_roundtrip: "length b = 4 \<Longrightarrow> encode_bcd (decode_bcd b) = Ok b"
  by (simp add: encode_bcd_def encode_pairs_decode)

theorem bcd_roundtrip_witness: "encode_bcd (decode_bcd [0x06, 0x02, 0xab, 0x03]) = Ok [0x06, 0x02, 0xab, 0x03]"
  by (rule bcd_roundtrip) simp

text \<open>
  \<open>encode_bcd\<close> returns \<open>b\<close> exactly when its argument has 8 bytes and \<open>b\<close> is the four-byte number
  whose printed form is the argument in lower case; in particular it succeeds exactly on the strings of
  eight hexadecimal digits.
\<close>

theorem encode_bcd_iff:
  "encode_bcd s = Ok b \<longleftrightarrow>
     length s = 8 \<and> length b = 4 \<and> as_bytes (decode_bcd b) = map ascii_lower (as_bytes s)"
proof (intro iffI conjI)
  assume ok: "encode_bcd s = Ok b"
  then have s: "length s = 8" and p: "encode_pairs 0 (as_bytes s) = Ok b"
    by (auto simp: encode_bcd_def Let_def split: if_splits)
  then show "length s = 8" "length b = 4" "as_bytes (decode_bcd b) = map ascii_lower (as_bytes s)"
    using encode_pairs_OkD [OF p] by auto
next
  assume r: "length s = 8 \<and> length b = 4 \<and> as_bytes (decode_bcd b) = map ascii_lower (as_bytes s)"
  then have "encode_pairs 0 (map ascii_lower (as_bytes s)) = Ok b"
    by (metis encode_pairs_decode)
  with r show "encode_bcd s = Ok b"
    by (simp add: encode_bcd_def encode_pairs_lower)
qed

section \<open>Lemmas on SIP URIs\<close>

lemma ipv4_from_str_SomeD:
  assumes "ipv4_from_str s = Some q"
  shows "length q = 4" "s \<noteq> []" "CHR '':'' \<notin> set s"
proof -
  obtain a b c d w x y z where sp: "split_on (CHR ''.'') s = [a, b, c, d]"
    and o: "ipv4_octet a = Some w" "ipv4_octet b = Some x" "ipv4_octet c = Some y" "ipv4_octet d = Some z"
    and q: "q = [w, x, y, z]"
    using assms by (auto simp: ipv4_from_str_def split: list.splits option.splits)
  show "length q = 4" using q by simp
  show "s \<noteq> []" using sp by auto
  have dig: "digit_char u" if "p \<in> set [a, b, c, d]" "u \<in> set p" for p u
    using o that by (auto simp: ipv4_octet_def list_all_iff split: if_splits)
  have "u = CHR ''.'' \<or> (\<exists>p \<in> set (split_on (CHR ''.'') s). u \<in> set p)" if "u \<in> set s" for u
    using that by (rule split_on_cover)
  then show "CHR '':'' \<notin> set s"
    using dig sp digit_char_not_special by fastforce
qed

lemma parse_i64_SomeD:
  assumes "parse_i64 s = Some p"
  shows "s \<noteq> []" "CHR '':'' \<notin> set s"
proof -
  have "s \<noteq> [] \<and> CHR '':'' \<notin> set s"
    using assms by (cases s) (auto simp: parse_i64_def Let_def list_all_iff split: if_splits
        dest: digit_char_not_special)
  then show "s \<noteq> []" "CHR '':'' \<notin> set s" by auto
qed

lemma parse_uri_sound:
  assumes "parse_uri uri = Ok (name, ip, port)"
  shows "\<exists>ps p. uri = name @ ''@'' @ ip @ '':'' @ ps \<and> length name = 8 \<and> CHR ''@'' \<notin> set name
           \<and> ipv4_from_str ip \<noteq> None \<and> parse_i64 ps = Some p \<and> 1 \<le> p \<and> p \<le> 65535 \<and> port = of_int p"
proof -
  obtain at where at: "position (\<lambda>c. c = CHR ''@'') uri = Some at"
    using assms by (cases "position (\<lambda>c. c = CHR ''@'') uri") (simp_all add: parse_uri_def)
  define tl where "tl = drop (at + 1) uri"
  have body: "(case rposition (\<lambda>c. c = CHR '':'') tl of
               None \<Rightarrow> Err UriFormat
             | Some colon \<Rightarrow>
                 if \<not> (colon > 0 \<and> colon \<noteq> length tl - 1) then Err UriFormat
                 else if length (take at uri) \<noteq> 8 then Err (NameLen (length (take at uri)))
                 else if CHR '':'' \<in> set (take colon tl) \<or> ipv4_from_str (take colon tl) = None then Err IPv4Only
                 else (case parse_i64 (drop (colon + 1) tl) of
                        Some p \<Rightarrow> if 1 \<le> p \<and> p \<le> 65535 then Ok (take at uri, take colon tl, of_int p) else Err Port
                      | None \<Rightarrow> Err Port)) = Ok (name, ip, port)"
    using assms unfolding parse_uri_def at tl_def Let_def by (simp only: option.case sum.distinct simp_thms split: if_splits)
  then obtain colon where colon: "rposition (\<lambda>c. c = CHR '':'') tl = Some colon"
    by (cases "rposition (\<lambda>c. c = CHR '':'') tl") (simp_all only: option.case sum.distinct)
  obtain p where p: "parse_i64 (drop (colon + 1) tl) = Some p"
  proof (cases "parse_i64 (drop (colon + 1) tl)")
    case None
    with body have False unfolding colon option.case None
      by (simp only: sum.distinct simp_thms if_cancel split: if_splits)
    then show ?thesis by (rule FalseE)
  qed
  have r: "length (take at uri) = 8" "ipv4_from_str (take colon tl) \<noteq> None"
    "1 \<le> p \<and> p \<le> 65535" "Ok (take at uri, take colon tl, of_int p) = (Ok (name, ip, port) :: uri_error + _)"
    using body unfolding colon p option.case by (simp_all only: sum.distinct simp_thms de_Morgan_disj split: if_splits)
  have r': "name = take at uri" "ip = take colon tl" "port = of_int p"
    using r(4) by simp_all
  note h = position_SomeD [OF at] and t = rposition_SomeD [OF colon]
  have "uri ! at = CHR ''@''" "tl ! colon = CHR '':''" using h t by blast+
  with h t have "name @ ''@'' @ tl = uri" "ip @ '':'' @ drop (colon + 1) tl = tl" "CHR ''@'' \<notin> set name"
    unfolding r' tl_def by (metis Suc_eq_plus1 append_Cons append_Nil)+
  then have "uri = name @ ''@'' @ ip @ '':'' @ drop (colon + 1) tl" by simp
  moreover have "length name = 8" "ipv4_from_str ip \<noteq> None" using r(1,2) unfolding r'(1,2) .
  ultimately show ?thesis
    using \<open>CHR ''@'' \<notin> set name\<close> r(3) r'(3) p
    by (intro exI [of _ "drop (colon + 1) tl"] exI [of _ p] conjI) simp_all
qed

lemma parse_uri_complete:
  assumes "length name = 8" "CHR ''@'' \<notin> set name" "ipv4_from_str ip \<noteq> None"
    "parse_i64 ps = Some p" "1 \<le> p" "p \<le> 65535"
  shows "parse_uri (name @ ''@'' @ ip @ '':'' @ ps) = Ok (name, ip, of_int p)"
proof -
  obtain q where "ipv4_from_str ip = Some q" using assms(3) by auto
  note ip = ipv4_from_str_SomeD(2,3) [OF this]
  note ps = parse_i64_SomeD [OF assms(4)]
  have "position (\<lambda>c. c = CHR ''@'') (name @ CHR ''@'' # ip @ CHR '':'' # ps) = Some 8"
    using assms(1,2) by (subst position_append_hit) auto
  moreover have "rposition (\<lambda>c. c = CHR '':'') (ip @ CHR '':'' # ps) = Some (length ip)"
    using ps(2) by (subst rposition_append_hit) auto
  ultimately show ?thesis
    using assms ip ps by (simp add: parse_uri_def)
qed

text \<open>
  \<open>parse_uri\<close> accepts exactly the texts \<open>name@ip:port\<close> with an 8-byte name without \<open>@\<close>, a dotted
  decimal IPv4 address and a port that parses to an integer between 1 and 65535, and it returns the three
  parts unchanged.
\<close>

theorem parse_uri_iff:
  "parse_uri uri = Ok (name, ip, port) \<longleftrightarrow>
     (\<exists>ps p. uri = name @ ''@'' @ ip @ '':'' @ ps \<and> length name = 8 \<and> CHR ''@'' \<notin> set name
        \<and> ipv4_from_str ip \<noteq> None \<and> parse_i64 ps = Some p \<and> 1 \<le> p \<and> p \<le> 65535 \<and> port = of_int p)"
  using parse_uri_sound [of uri name ip port] parse_uri_complete [of name ip] by metis

end
