(* ===== verification/RustFmt.thy ===== *)
theory RustFmt
  imports RustStr
begin

text \<open>
  The \<open>{:?}\<close> format of \<open>str\<close> and \<open>char\<close>, which the error texts of the configuration and control code
  use.  Which characters beyond ASCII are printed as themselves is Unicode data; that table is the
  argument \<open>pr\<close> of the functions here.
\<close>

definition code_point :: "byte list \<Rightarrow> nat" where
  "code_point bs =
     (case map unat bs of
        [a] \<Rightarrow> a
      | [a, b] \<Rightarrow> (a - 0xc0) * 64 + (b - 0x80)
      | [a, b, c] \<Rightarrow> ((a - 0xe0) * 64 + (b - 0x80)) * 64 + (c - 0x80)
      | [a, b, c, d] \<Rightarrow> (((a - 0xf0) * 64 + (b - 0x80)) * 64 + (c - 0x80)) * 64 + (d - 0x80)
      | _ \<Rightarrow> 0)"

definition printable :: "(nat \<Rightarrow> bool) \<Rightarrow> nat \<Rightarrow> bool" where
  "printable pr cp = (if cp < 0x80 then 0x20 \<le> cp \<and> cp < 0x7f else pr cp)"

text \<open>\<open>char::escape_debug\<close> for the quote \<open>q\<close>; \<open>cs\<close> is the UTF-8 encoding of the character.\<close>

definition escape_debug :: "(nat \<Rightarrow> bool) \<Rightarrow> byte \<Rightarrow> byte list \<Rightarrow> byte list" where
  "escape_debug pr q cs =
     (if cs = [0x00] then [0x5c, 0x30]
      else if cs = [0x09] then [0x5c, 0x74]
      else if cs = [0x0d] then [0x5c, 0x72]
      else if cs = [0x0a] then [0x5c, 0x6e]
      else if cs = [0x5c] \<or> cs = [q] then 0x5c # cs
      else if printable pr (code_point cs) then cs
      else [0x5c, 0x75, 0x7b] @ as_bytes (show_hex (code_point cs)) @ [0x7d])"

function debug_bytes :: "(nat \<Rightarrow> bool) \<Rightarrow> byte list \<Rightarrow> byte list" where
  "debug_bytes pr bs =
     (if bs = [] then []
      else escape_debug pr 0x22 (take (fst (utf8_step bs)) bs) @ debug_bytes pr (drop (fst (utf8_step bs)) bs))"
  by pat_completeness auto
termination
  by (relation "measure (\<lambda>(pr, bs). length bs)") (auto simp: utf8_step_pos)

declare debug_bytes.simps [simp del]

definition debug_str :: "(nat \<Rightarrow> bool) \<Rightarrow> string \<Rightarrow> string" where
  "debug_str pr s = of_bytes ([0x22] @ debug_bytes pr (as_bytes s) @ [0x22])"

definition debug_char :: "(nat \<Rightarrow> bool) \<Rightarrow> byte list \<Rightarrow> string" where
  "debug_char pr cs = of_bytes ([0x27] @ escape_debug pr 0x27 cs @ [0x27])"

text \<open>The UTF-8 encoding of \<open>b as char\<close>.\<close>

definition latin1_utf8 :: "byte \<Rightarrow> byte list" where
  "latin1_utf8 b = (if b < 0x80 then [b] else [0xc0 OR drop_bit 6 b, 0x80 OR (b AND 0x3f)])"

text \<open>
  The text of a \<open>Utf8Error\<close>: where the valid prefix ends, and the length of the ill-formed sequence
  there unless the input ends inside it.
\<close>

function utf8_error_at :: "nat \<Rightarrow> byte list \<Rightarrow> (nat \<times> nat option) option" where
  "utf8_error_at i bs =
     (if bs = [] then None
      else if snd (utf8_step bs) then utf8_error_at (i + fst (utf8_step bs)) (drop (fst (utf8_step bs)) bs)
      else if 0xc2 \<le> hd bs \<and> hd bs \<le> 0xf4 \<and> fst (utf8_step bs) = length bs then Some (i, None)
      else Some (i, Some (fst (utf8_step bs))))"
  by pat_completeness auto
termination
  by (relation "measure (\<lambda>(i, bs). length bs)") (auto simp: utf8_step_pos)

declare utf8_error_at.simps [simp del]

definition utf8_error_display :: "byte list \<Rightarrow> string" where
  "utf8_error_display bs =
     (case utf8_error_at 0 bs of
        None \<Rightarrow> []
      | Some (i, None) \<Rightarrow> ''incomplete utf-8 byte sequence from index '' @ show_nat i
      | Some (i, Some n) \<Rightarrow> ''invalid utf-8 sequence of '' @ show_nat n @ '' bytes from index '' @ show_nat i)"

end
