(* ===== verification/Config.thy ===== *)
theory Config
  imports Codec RustFmt "HOL-Library.List_Lexorder" "HOL-Library.Char_ord" "HOL-Library.AList"
begin

text \<open>
  \<open>src/config.rs\<close>: the INI engine, the configuration schema as its sink, defaults, deprecated names,
  validation, the interface list and \<open>load_config\<close>.  The file system is an argument: what reading the
  file and the sysfs directories returns.  \<open>pr\<close> is the table of printable characters of \<open>RustFmt\<close>.
\<close>

section \<open>Schema\<close>

definition SUPPORTED_BRAND :: string where "SUPPORTED_BRAND = ''anjubao''"
definition DEFAULT_IFACE :: string where "DEFAULT_IFACE = ''eth0.1''"
definition DEFAULT_HASS_PORT :: int where "DEFAULT_HASS_PORT = 8123"
definition DEFAULT_LISTEN_ADDR :: string where "DEFAULT_LISTEN_ADDR = ''0.0.0.0''"
definition DEFAULT_LISTEN_PORT :: int where "DEFAULT_LISTEN_PORT = 8080"

record listen =
  l_addr :: string
  l_port :: int

record station =
  st_sip :: string
  st_rtsp_url :: string

record hass =
  h_ipaddr :: string
  h_port :: int
  h_api :: string
  h_token :: string

record video_cfg =
  v_forward :: bool
  v_format :: string
  v_cache_path :: string

record automation_cfg =
  a_auto_unlock :: bool
  a_auto_hangup :: bool

record config =
  c_sip :: string
  c_iface :: string
  c_iface_list :: "string list"
  c_listen :: listen
  c_stations :: "station list"
  c_hass :: hass
  c_video :: video_cfg
  c_automation :: automation_cfg
  c_missing_fields :: "string list"
  c_deprecated_fields :: "string list"
  c_parser_warnings :: "string list"

definition station_default :: station where
  "station_default = \<lparr>st_sip = [], st_rtsp_url = []\<rparr>"

definition config_default :: config where
  "config_default = \<lparr>c_sip = [], c_iface = [], c_iface_list = [], c_listen = \<lparr>l_addr = [], l_port = 0\<rparr>,
     c_stations = [], c_hass = \<lparr>h_ipaddr = [], h_port = 0, h_api = [], h_token = []\<rparr>,
     c_video = \<lparr>v_forward = False, v_format = [], v_cache_path = []\<rparr>,
     c_automation = \<lparr>a_auto_unlock = False, a_auto_hangup = False\<rparr>,
     c_missing_fields = [], c_deprecated_fields = [], c_parser_warnings = []\<rparr>"

record validation_error =
  ve_field :: string
  ve_value :: string
  ve_want :: string

datatype config_error =
    NotFound string
  | ReadErr string string
  | ParseErr nat string
  | Validation validation_error

fun config_error_display :: "config_error \<Rightarrow> string" where
  "config_error_display (NotFound path) = ''config file not found: '' @ path"
| "config_error_display (ReadErr path msg) = ''read config '' @ path @ '': '' @ msg"
| "config_error_display (ParseErr line msg) = ''config: line '' @ show_nat line @ '': '' @ msg"
| "config_error_display (Validation e) =
     ''config field '' @ ve_field e @ '' = '' @ ve_value e @ '', want '' @ ve_want e"

section \<open>Lines\<close>

definition trim_end_blank :: "string \<Rightarrow> string" where
  "trim_end_blank s = rev (dropWhile (\<lambda>c. c = CHR '' '' \<or> c = byte_char 0x09) (rev s))"

text \<open>The text before an unquoted comment character.\<close>

fun cut_comment :: "bool \<Rightarrow> string \<Rightarrow> string" where
  "cut_comment in_quote [] = []"
| "cut_comment in_quote (c # cs) =
     (if c = CHR 0x22 then c # cut_comment (\<not> in_quote) cs
      else if \<not> in_quote \<and> (c = CHR '';'' \<or> c = CHR ''#'') then []
      else c # cut_comment in_quote cs)"

definition strip_comment_trim :: "string \<Rightarrow> string option" where
  "strip_comment_trim s0 =
     (let s = trim s0 in
      if s = [] then None
      else if hd s = CHR '';'' \<or> hd s = CHR ''#'' then None
      else let out = trim_end_blank (cut_comment False s) in if out = [] then None else Some out)"

definition parse_section_header :: "(nat \<Rightarrow> bool) \<Rightarrow> string \<Rightarrow> string + (string \<times> string)" where
  "parse_section_header pr s =
     (if length s < 3 \<or> last s \<noteq> CHR '']'' then Err (''invalid section header '' @ debug_str pr s)
      else
        let inner = trim (slice 1 (length s - 1) s) in
        if inner = [] then Err ''empty section header''
        else
          (case position (\<lambda>c. c = CHR '' '') inner of
             Some sp \<Rightarrow>
               if sp > 0 then
                 let name = trim (take sp inner); rest = trim (drop (sp + 1) inner) in
                 if length rest < 2 \<or> hd rest \<noteq> CHR 0x22 \<or> last rest \<noteq> CHR 0x22
                 then Err (''subsection name must be quoted: '' @ debug_str pr s)
                 else Ok (name, slice 1 (length rest - 1) rest)
               else Ok (inner, [])
           | None \<Rightarrow> Ok (inner, [])))"

definition parse_key_value :: "(nat \<Rightarrow> bool) \<Rightarrow> string \<Rightarrow> string + (string \<times> string)" where
  "parse_key_value pr s =
     (case position (\<lambda>c. c = CHR ''='') s of
        None \<Rightarrow> Err (''missing '' @ [CHR 0x27] @ ''='' @ [CHR 0x27] @ '' in '' @ debug_str pr s)
      | Some eq \<Rightarrow>
          let key = trim (take eq s) in
          if key = [] then Err (''empty key in '' @ debug_str pr s)
          else
            let value = trim (drop (eq + 1) s);
                v = (if length value \<ge> 2 \<and> hd value = CHR 0x22 \<and> last value = CHR 0x22
                     then slice 1 (length value - 1) value else value)
            in Ok (key, v))"

section \<open>The engine\<close>

datatype field_outcome = FSet | FUnknown | FTypeErr string

text \<open>The trait \<open>IniSink\<close>.\<close>

record 'c ini_sink =
  sk_set_top :: "string \<Rightarrow> string \<Rightarrow> 'c \<Rightarrow> field_outcome \<times> 'c"
  sk_section_known :: "string \<Rightarrow> bool"
  sk_section_is_struct :: "string \<Rightarrow> bool"
  sk_section_is_slice :: "string \<Rightarrow> bool"
  sk_set_section :: "string \<Rightarrow> string \<Rightarrow> string \<Rightarrow> 'c \<Rightarrow> field_outcome \<times> 'c"
  sk_subsection_len :: "string \<Rightarrow> 'c \<Rightarrow> nat"
  sk_append_subsection :: "string \<Rightarrow> 'c \<Rightarrow> 'c"
  sk_set_subsection :: "string \<Rightarrow> string \<Rightarrow> string \<Rightarrow> 'c \<Rightarrow> field_outcome \<times> 'c"

record 'c ini_state =
  is_warnings :: "string list"
  is_section :: string
  is_subname :: string
  is_last_subname :: "(string \<times> string) list"
  is_sink :: 'c

text \<open>What the engine does with the outcome of a setter.\<close>

definition after_set ::
  "nat \<Rightarrow> string \<Rightarrow> field_outcome \<times> 'c \<Rightarrow> 'c ini_state \<Rightarrow> config_error + 'c ini_state" where
  "after_set line_no warning res s =
     (case res of
        (FSet, c) \<Rightarrow> Ok (s\<lparr>is_sink := c\<rparr>)
      | (FUnknown, c) \<Rightarrow> Ok (s\<lparr>is_sink := c, is_warnings := is_warnings s @ [warning]\<rparr>)
      | (FTypeErr msg, c) \<Rightarrow> Err (ParseErr line_no msg))"

definition header_line_step ::
  "(nat \<Rightarrow> bool) \<Rightarrow> 'c ini_sink \<Rightarrow> nat \<Rightarrow> string \<Rightarrow> 'c ini_state \<Rightarrow> config_error + 'c ini_state" where
  "header_line_step pr sk line_no line st =
     (case parse_section_header pr line of
        Err msg \<Rightarrow> Err (ParseErr line_no msg)
      | Ok (s, sub) \<Rightarrow>
          let w = (if s \<noteq> [] \<and> sub = [] then
                     (if \<not> sk_section_known sk s then [''config: unknown section ['' @ s @ '']''] else [])
                   else if s \<noteq> [] \<and> sub \<noteq> [] \<and> \<not> sk_section_known sk s
                     then [''config: unknown subsection ['' @ s @ '' '' @ debug_str pr sub @ '']''] else [])
          in Ok (st\<lparr>is_warnings := is_warnings st @ w, is_section := s, is_subname := sub\<rparr>))"

definition subsection_step ::
  "(nat \<Rightarrow> bool) \<Rightarrow> 'c ini_sink \<Rightarrow> nat \<Rightarrow> string \<Rightarrow> string \<Rightarrow> 'c ini_state \<Rightarrow> config_error + 'c ini_state" where
  "subsection_step pr sk line_no key value st =
     (let section = is_section st; subname = is_subname st in
      if \<not> sk_section_is_slice sk section
      then Err (ParseErr line_no (''subsection ['' @ section @ '' '' @ debug_str pr subname @ ''] expected slice field''))
      else
        let prev = map_of (is_last_subname st) section;
            need_new = (prev \<noteq> Some subname \<or> sk_subsection_len sk section (is_sink st) = 0);
            st1 = (if need_new
                   then st\<lparr>is_sink := sk_append_subsection sk section (is_sink st),
                           is_last_subname := AList.update section subname (is_last_subname st)\<rparr>
                   else st)
        in after_set line_no
             (''config: unknown key '' @ debug_str pr key @ '' in ['' @ section @ '' '' @ debug_str pr subname @ '']'')
             (sk_set_subsection sk section key value (is_sink st1)) st1)"

definition ini_line_step ::
  "(nat \<Rightarrow> bool) \<Rightarrow> 'c ini_sink \<Rightarrow> nat \<Rightarrow> string \<Rightarrow> 'c ini_state \<Rightarrow> config_error + 'c ini_state" where
  "ini_line_step pr sk line_no raw st =
     (if length raw \<ge> 2 ^ 20 then Err (ParseErr line_no ''line too long (> 1 MiB)'')
      else
        (case strip_comment_trim raw of
           None \<Rightarrow> Ok st
         | Some line \<Rightarrow>
             if hd line = CHR ''['' then header_line_step pr sk line_no line st
             else
               (case parse_key_value pr line of
                  Err msg \<Rightarrow> Err (ParseErr line_no msg)
                | Ok (key, value) \<Rightarrow>
                    let section = is_section st in
                    if section = [] then
                      after_set line_no (''config: unknown key '' @ debug_str pr key) (sk_set_top sk key value (is_sink st)) st
                    else if \<not> sk_section_known sk section then Ok st
                    else if is_subname st = [] then
                      (if \<not> sk_section_is_struct sk section
                       then Err (ParseErr line_no (''section ['' @ section @ ''] expected struct field''))
                       else after_set line_no (''config: unknown key '' @ debug_str pr key @ '' in ['' @ section @ '']'')
                              (sk_set_section sk section key value (is_sink st)) st)
                    else subsection_step pr sk line_no key value st)))"

fun ini_lines ::
  "(nat \<Rightarrow> bool) \<Rightarrow> 'c ini_sink \<Rightarrow> nat \<Rightarrow> string list \<Rightarrow> 'c ini_state \<Rightarrow> config_error + 'c ini_state" where
  "ini_lines pr sk line_no [] st = Ok st"
| "ini_lines pr sk line_no (raw # raws) st =
     (case ini_line_step pr sk line_no raw st of
        Err e \<Rightarrow> Err e
      | Ok st' \<Rightarrow> ini_lines pr sk (line_no + 1) raws st')"

definition ini_init :: "'c \<Rightarrow> 'c ini_state" where
  "ini_init c = \<lparr>is_warnings = [], is_section = [], is_subname = [], is_last_subname = [], is_sink = c\<rparr>"

definition parse_ini :: "(nat \<Rightarrow> bool) \<Rightarrow> 'c ini_sink \<Rightarrow> string \<Rightarrow> 'c \<Rightarrow> config_error + (string list \<times> 'c)" where
  "parse_ini pr sk input c =
     (case ini_lines pr sk 1 (split_on (CHR 0x0a) input) (ini_init c) of
        Err e \<Rightarrow> Err e
      | Ok st \<Rightarrow> Ok (is_warnings st, is_sink st))"

section \<open>Scalars\<close>

definition conv_int :: "(nat \<Rightarrow> bool) \<Rightarrow> string \<Rightarrow> string \<Rightarrow> string + int" where
  "conv_int pr value key =
     (let bad = Err (debug_str pr key @ '' expects int, got '' @ debug_str pr value) in
      if value = [] then Ok 0
      else (case parse_i64 value of
              None \<Rightarrow> bad
            | Some n \<Rightarrow> if n < - (2 ^ 31) \<or> n > 2 ^ 31 - 1 then bad else Ok n))"

definition conv_bool :: "(nat \<Rightarrow> bool) \<Rightarrow> string \<Rightarrow> string \<Rightarrow> string + bool" where
  "conv_bool pr value key =
     (let v = map to_ascii_lower value in
      if v = ''true'' \<or> v = ''1'' then Ok True
      else if v = ''false'' \<or> v = ''0'' \<or> v = [] then Ok False
      else Err (debug_str pr key @ '' expects bool (true/false/1/0), got '' @ debug_str pr value))"

definition conv_string_array :: "string \<Rightarrow> string list" where
  "conv_string_array value =
     (if value = [] then [] else filter (\<lambda>p. p \<noteq> []) (map trim (split_on (CHR '','') value)))"

section \<open>The configuration as a sink\<close>

definition set_top :: "(nat \<Rightarrow> bool) \<Rightarrow> string \<Rightarrow> string \<Rightarrow> config \<Rightarrow> field_outcome \<times> config" where
  "set_top pr key value c =
     (if key = ''sip'' then (FSet, c\<lparr>c_sip := value\<rparr>)
      else if key = ''iface'' then (FSet, c\<lparr>c_iface := value\<rparr>)
      else if key = ''iface_list'' then (FSet, c\<lparr>c_iface_list := conv_string_array value\<rparr>)
      else if key \<in> set [''listen'', ''hass'', ''video'', ''automation'']
        then (FTypeErr (''key '' @ debug_str pr key @ '' is a struct field, use ['' @ key @ ''] section''), c)
      else if key = ''station''
        then (FTypeErr (''key '' @ debug_str pr key @ '' is a slice-of-struct, use ['' @ key @ '' ''
                        @ [CHR 0x22] @ ''name'' @ [CHR 0x22] @ ''] subsections''), c)
      else (FUnknown, c))"

definition section_known :: "string \<Rightarrow> bool" where
  "section_known section \<longleftrightarrow>
     section \<in> set [''sip'', ''iface'', ''iface_list'', ''listen'', ''station'', ''hass'', ''video'', ''automation'']"

definition section_is_struct :: "string \<Rightarrow> bool" where
  "section_is_struct section \<longleftrightarrow> section \<in> set [''listen'', ''hass'', ''video'', ''automation'']"

definition section_is_slice :: "string \<Rightarrow> bool" where
  "section_is_slice section \<longleftrightarrow> section = ''station''"

text \<open>A converted value is stored, a conversion error reported.\<close>

definition store :: "string + 'v \<Rightarrow> ('v \<Rightarrow> config) \<Rightarrow> config \<Rightarrow> field_outcome \<times> config" where
  "store r upd c = (case r of Err m \<Rightarrow> (FTypeErr m, c) | Ok v \<Rightarrow> (FSet, upd v))"

definition set_section :: "(nat \<Rightarrow> bool) \<Rightarrow> string \<Rightarrow> string \<Rightarrow> string \<Rightarrow> config \<Rightarrow> field_outcome \<times> config" where
  "set_section pr section key value c =
     (if section = ''listen'' then
        (if key = ''addr'' then (FSet, c\<lparr>c_listen := (c_listen c)\<lparr>l_addr := value\<rparr>\<rparr>)
         else if key = ''port'' then store (conv_int pr value key) (\<lambda>n. c\<lparr>c_listen := (c_listen c)\<lparr>l_port := n\<rparr>\<rparr>) c
         else (FUnknown, c))
      else if section = ''hass'' then
        (if key = ''ipaddr'' then (FSet, c\<lparr>c_hass := (c_hass c)\<lparr>h_ipaddr := value\<rparr>\<rparr>)
         else if key = ''port'' then store (conv_int pr value key) (\<lambda>n. c\<lparr>c_hass := (c_hass c)\<lparr>h_port := n\<rparr>\<rparr>) c
         else if key = ''api'' then (FSet, c\<lparr>c_hass := (c_hass c)\<lparr>h_api := value\<rparr>\<rparr>)
         else if key = ''token'' then (FSet, c\<lparr>c_hass := (c_hass c)\<lparr>h_token := value\<rparr>\<rparr>)
         else (FUnknown, c))
      else if section = ''video'' then
        (if key = ''forward'' then store (conv_bool pr value key) (\<lambda>b. c\<lparr>c_video := (c_video c)\<lparr>v_forward := b\<rparr>\<rparr>) c
         else if key = ''format'' then (FSet, c\<lparr>c_video := (c_video c)\<lparr>v_format := value\<rparr>\<rparr>)
         else if key = ''cache_path'' then (FSet, c\<lparr>c_video := (c_video c)\<lparr>v_cache_path := value\<rparr>\<rparr>)
         else (FUnknown, c))
      else if section = ''automation'' then
        (if key = ''auto_unlock''
           then store (conv_bool pr value key) (\<lambda>b. c\<lparr>c_automation := (c_automation c)\<lparr>a_auto_unlock := b\<rparr>\<rparr>) c
         else if key = ''auto_hangup''
           then store (conv_bool pr value key) (\<lambda>b. c\<lparr>c_automation := (c_automation c)\<lparr>a_auto_hangup := b\<rparr>\<rparr>) c
         else (FUnknown, c))
      else (FUnknown, c))"

definition subsection_len :: "string \<Rightarrow> config \<Rightarrow> nat" where
  "subsection_len section c = (if section = ''station'' then length (c_stations c) else 0)"

definition append_subsection :: "string \<Rightarrow> config \<Rightarrow> config" where
  "append_subsection section c =
     (if section = ''station'' then c\<lparr>c_stations := c_stations c @ [station_default]\<rparr> else c)"

definition set_subsection :: "string \<Rightarrow> string \<Rightarrow> string \<Rightarrow> config \<Rightarrow> field_outcome \<times> config" where
  "set_subsection section key value c =
     (if section \<noteq> ''station'' then (FUnknown, c)
      else if c_stations c = [] then (FUnknown, c)
      else
        let i = length (c_stations c) - 1; s = c_stations c ! i in
        if key = ''sip'' then (FSet, c\<lparr>c_stations := (c_stations c)[i := s\<lparr>st_sip := value\<rparr>]\<rparr>)
        else if key = ''rtsp_url'' then (FSet, c\<lparr>c_stations := (c_stations c)[i := s\<lparr>st_rtsp_url := value\<rparr>]\<rparr>)
        else (FUnknown, c))"

definition config_sink :: "(nat \<Rightarrow> bool) \<Rightarrow> config ini_sink" where
  "config_sink pr = \<lparr>sk_set_top = set_top pr, sk_section_known = section_known,
     sk_section_is_struct = section_is_struct, sk_section_is_slice = section_is_slice,
     sk_set_section = set_section pr, sk_subsection_len = subsection_len,
     sk_append_subsection = append_subsection, sk_set_subsection = set_subsection\<rparr>"

section \<open>Defaults and deprecated names\<close>

definition default_iface :: "config \<Rightarrow> config" where
  "default_iface c =
     (if c_iface c = [] then c\<lparr>c_iface := DEFAULT_IFACE, c_missing_fields := c_missing_fields c @ [''iface'']\<rparr> else c)"

definition default_listen :: "config \<Rightarrow> config" where
  "default_listen c =
     (let l = c_listen c;
          l1 = (if l_addr l = [] then l\<lparr>l_addr := DEFAULT_LISTEN_ADDR\<rparr> else l);
          l2 = (if l_port l1 = 0 then l1\<lparr>l_port := DEFAULT_LISTEN_PORT\<rparr> else l1)
      in c\<lparr>c_listen := l2\<rparr>)"

definition default_hass :: "config \<Rightarrow> config" where
  "default_hass c =
     (if h_port (c_hass c) = 0
      then c\<lparr>c_hass := (c_hass c)\<lparr>h_port := DEFAULT_HASS_PORT\<rparr>, c_missing_fields := c_missing_fields c @ [''hass.port'']\<rparr>
      else c)"

definition default_format :: "config \<Rightarrow> config" where
  "default_format c =
     (if v_format (c_video c) = []
      then c\<lparr>c_video := (c_video c)\<lparr>v_format := ''flv''\<rparr>, c_missing_fields := c_missing_fields c @ [''video.format'']\<rparr>
      else c)"

definition apply_defaults :: "config \<Rightarrow> config" where
  "apply_defaults c = default_format (default_hass (default_listen (default_iface (c\<lparr>c_missing_fields := []\<rparr>))))"

definition DEPRECATED :: "string list" where
  "DEPRECATED = [''brand'', ''family'', ''elev'', ''notification'']"

definition note_deprecated :: "string \<Rightarrow> string list \<Rightarrow> string list" where
  "note_deprecated name seen = (if name \<in> set DEPRECATED \<and> name \<notin> set seen then seen @ [name] else seen)"

text \<open>One line: the current section and the names seen.\<close>

definition deprecated_line :: "string \<Rightarrow> string \<times> string list \<Rightarrow> string \<times> string list" where
  "deprecated_line raw_line st =
     (case st of (current, seen) \<Rightarrow>
        let s = trim (takeWhile (\<lambda>c. c \<noteq> CHR '';'' \<and> c \<noteq> CHR ''#'') raw_line) in
        if s = [] then st
        else if length s \<ge> 3 \<and> hd s = CHR ''['' \<and> last s = CHR '']'' then
          let inner0 = trim (slice 1 (length s - 1) s);
              inner = (case position (\<lambda>c. c = CHR '' '') inner0 of
                         Some sp \<Rightarrow> if sp > 0 then trim (take sp inner0) else inner0
                       | None \<Rightarrow> inner0)
          in (inner, note_deprecated inner seen)
        else if current = [] then
          (case position (\<lambda>c. c = CHR ''='') s of
             Some eq \<Rightarrow> if eq > 0 then (current, note_deprecated (trim (take eq s)) seen) else st
           | None \<Rightarrow> st)
        else st)"

definition detect_deprecated :: "string \<Rightarrow> config \<Rightarrow> config" where
  "detect_deprecated raw c =
     c\<lparr>c_deprecated_fields := c_deprecated_fields c @ snd (fold deprecated_line (split_on (CHR 0x0a) raw) ([], []))\<rparr>"

section \<open>validate_uri\<close>

definition is_hexdigit_byte :: "byte \<Rightarrow> bool" where
  "is_hexdigit_byte b \<longleftrightarrow> is_ascii_digit b \<or> (0x61 \<le> b \<and> b \<le> 0x66) \<or> (0x41 \<le> b \<and> b \<le> 0x46)"

text \<open>The first character of the name that is not a hexadecimal digit.\<close>

fun first_non_hex :: "byte list \<Rightarrow> byte list option" where
  "first_non_hex [] = None"
| "first_non_hex (b # bs) =
     (if is_hexdigit_byte b then first_non_hex bs else Some (take (fst (utf8_step (b # bs))) (b # bs)))"

record octet_state =
  os_parts :: nat
  os_cur :: nat
  os_len :: nat
  os_leading_zero :: bool

text \<open>The loop over the bytes of the address; \<open>None\<close> where it returns the error.\<close>

fun ipv4_scan :: "byte list \<Rightarrow> octet_state \<Rightarrow> octet_state option" where
  "ipv4_scan [] s = Some s"
| "ipv4_scan (c # cs) s =
     (if c = 0x2e then
        (if os_len s = 0 \<or> os_cur s > 255 \<or> os_leading_zero s then None
         else ipv4_scan cs \<lparr>os_parts = os_parts s + 1, os_cur = 0, os_len = 0, os_leading_zero = False\<rparr>)
      else if \<not> is_ascii_digit c then None
      else
        let lz = (if os_len s = 1 \<and> os_cur s = 0 then True else os_leading_zero s);
            cur = os_cur s * 10 + unat (c - 0x30)
        in if cur > 255 then None
           else ipv4_scan cs \<lparr>os_parts = os_parts s, os_cur = cur, os_len = os_len s + 1, os_leading_zero = lz\<rparr>)"

definition octet_init :: octet_state where
  "octet_init = \<lparr>os_parts = 0, os_cur = 0, os_len = 0, os_leading_zero = False\<rparr>"

datatype port_scan = PortOk nat | PortNotNumeric | PortOutOfRange

fun scan_port :: "byte list \<Rightarrow> nat \<Rightarrow> port_scan" where
  "scan_port [] port = PortOk port"
| "scan_port (c # cs) port =
     (if \<not> is_ascii_digit c then PortNotNumeric
      else let port' = port * 10 + unat (c - 0x30) in if port' > 65535 then PortOutOfRange else scan_port cs port')"

definition check_port :: "(nat \<Rightarrow> bool) \<Rightarrow> string \<Rightarrow> string + unit" where
  "check_port pr ps =
     (case scan_port (as_bytes ps) 0 of
        PortNotNumeric \<Rightarrow> Err (''port '' @ debug_str pr ps @ '' not numeric'')
      | PortOutOfRange \<Rightarrow> Err (''port '' @ debug_str pr ps @ '' out of range'')
      | PortOk port \<Rightarrow> if port < 1 then Err (''port '' @ debug_str pr ps @ '' out of range'') else Ok ())"

definition check_ipv4 :: "(nat \<Rightarrow> bool) \<Rightarrow> string \<Rightarrow> string + unit" where
  "check_ipv4 pr ip =
     (let bad = Err (''ip '' @ debug_str pr ip @ '' is not IPv4'') in
      case ipv4_scan (as_bytes ip) octet_init of
        None \<Rightarrow> bad
      | Some s \<Rightarrow>
          if os_len s = 0 \<or> os_cur s > 255 \<or> os_leading_zero s then bad
          else if os_parts s \<noteq> 3 then Err (''ip '' @ debug_str pr ip @ '' is not IPv4 (need 4 octets)'')
          else Ok ())"

definition missing_at :: string where
  "missing_at = ''missing '' @ [CHR 0x27] @ ''@'' @ [CHR 0x27]"

definition missing_port :: string where
  "missing_port = ''missing '' @ [CHR 0x27] @ '':port'' @ [CHR 0x27]"

definition validate_uri :: "(nat \<Rightarrow> bool) \<Rightarrow> string \<Rightarrow> string + unit" where
  "validate_uri pr uri =
     (case position (\<lambda>c. c = CHR ''@'') uri of
        None \<Rightarrow> Err missing_at
      | Some at \<Rightarrow>
          if at = 0 \<or> at = length uri - 1 then Err missing_at
          else
            let name = take at uri; ip_port = drop (at + 1) uri in
            if length name \<noteq> 8 then Err (''name '' @ debug_str pr name @ '' must be 8 chars'')
            else
              (case first_non_hex (as_bytes name) of
                 Some c \<Rightarrow> Err (''name '' @ debug_str pr name @ '' contains non-hex char '' @ debug_char pr c)
               | None \<Rightarrow>
                   (case rposition (\<lambda>c. c = CHR '':'') ip_port of
                      None \<Rightarrow> Err missing_port
                    | Some colon \<Rightarrow>
                        if colon = 0 \<or> colon = length ip_port - 1 then Err missing_port
                        else
                          (case check_ipv4 pr (take colon ip_port) of
                             Err e \<Rightarrow> Err e
                           | Ok _ \<Rightarrow> check_port pr (drop (colon + 1) ip_port)))))"

section \<open>Validation\<close>

definition invalid :: "string \<Rightarrow> string \<Rightarrow> string \<Rightarrow> config_error + unit" where
  "invalid field value want = Err (Validation \<lparr>ve_field = field, ve_value = value, ve_want = want\<rparr>)"

fun validate_stations :: "(nat \<Rightarrow> bool) \<Rightarrow> nat \<Rightarrow> station list \<Rightarrow> config_error + unit" where
  "validate_stations pr i [] = Ok ()"
| "validate_stations pr i (s # ss) =
     (let field = ''stations['' @ show_nat i @ ''].sip'' in
      if st_sip s = [] then invalid field [] ''non-empty SIP URI''
      else (case validate_uri pr (st_sip s) of
              Err e \<Rightarrow> invalid field (st_sip s) (''valid SIP URI: '' @ e)
            | Ok _ \<Rightarrow> validate_stations pr (i + 1) ss))"

definition validate :: "(nat \<Rightarrow> bool) \<Rightarrow> config \<Rightarrow> config_error + unit" where
  "validate pr c =
     (if c_sip c = [] then invalid ''sip'' [] ''non-empty SIP URI like 12345678@10.0.0.20:18022''
      else
        (case validate_uri pr (c_sip c) of
           Err e \<Rightarrow> invalid ''sip'' (c_sip c) (''valid SIP URI: '' @ e)
         | Ok _ \<Rightarrow>
             if c_stations c = [] then invalid ''stations'' ''0'' ''at least one station entry''
             else
               (case validate_stations pr 0 (c_stations c) of
                  Err e \<Rightarrow> Err e
                | Ok _ \<Rightarrow>
                    if v_format (c_video c) = ''flv'' \<or> v_format (c_video c) = ''mjpeg'' then Ok ()
                    else invalid ''video.format'' (v_format (c_video c))
                           ([CHR 0x22] @ ''flv'' @ [CHR 0x22] @ '' or '' @ [CHR 0x22] @ ''mjpeg'' @ [CHR 0x22]))))"

section \<open>Files\<close>

text \<open>What \<open>std::fs\<close> reports: the text of an error other than \<open>NotFound\<close>.\<close>

datatype fs_error = FsNotFound | FsOther string

datatype iface_error = IfaceMissing | BridgeNoSlaves string | IfaceRead string string

text \<open>The loop over the directory entries; the first error ends it.\<close>

fun collect_names :: "(string + byte list) list \<Rightarrow> string + string list" where
  "collect_names [] = Ok []"
| "collect_names (e # es) =
     (case e of
        Err m \<Rightarrow> Err m
      | Ok n \<Rightarrow> (case collect_names es of Err m \<Rightarrow> Err m | Ok ns \<Rightarrow> Ok (of_bytes (from_utf8_lossy n) # ns)))"

definition resolve_iface_list_in ::
  "(string \<Rightarrow> fs_error option) \<Rightarrow> (string \<Rightarrow> string + (string + byte list) list) \<Rightarrow> string \<Rightarrow> config
   \<Rightarrow> iface_error + string list" where
  "resolve_iface_list_in metadata read_dir sys_class_net c =
     (if c_iface_list c \<noteq> [] then Ok (c_iface_list c)
      else if c_iface c = [] then Err IfaceMissing
      else
        let bridge_path = sys_class_net @ ''/'' @ c_iface c @ ''/bridge'';
            brif_path = sys_class_net @ ''/'' @ c_iface c @ ''/brif'' in
        (case metadata bridge_path of
           Some FsNotFound \<Rightarrow> Ok [c_iface c]
         | Some (FsOther msg) \<Rightarrow> Err (IfaceRead bridge_path msg)
         | None \<Rightarrow>
             (case read_dir brif_path of
                Err msg \<Rightarrow> Err (IfaceRead brif_path msg)
              | Ok entries \<Rightarrow>
                  (case collect_names entries of
                     Err msg \<Rightarrow> Err (IfaceRead brif_path msg)
                   | Ok slaves \<Rightarrow>
                       if slaves = [] then Err (BridgeNoSlaves (c_iface c)) else Ok (sort slaves)))))"

definition SYS_CLASS_NET :: string where "SYS_CLASS_NET = ''/sys/class/net''"

definition resolve_iface_list ::
  "(string \<Rightarrow> fs_error option) \<Rightarrow> (string \<Rightarrow> string + (string + byte list) list) \<Rightarrow> config \<Rightarrow> iface_error + string list" where
  "resolve_iface_list metadata read_dir c = resolve_iface_list_in metadata read_dir SYS_CLASS_NET c"

definition load_config ::
  "(nat \<Rightarrow> bool) \<Rightarrow> (string \<Rightarrow> fs_error + byte list) \<Rightarrow> string \<Rightarrow> config_error + config" where
  "load_config pr read path =
     (case read path of
        Err FsNotFound \<Rightarrow> Err (NotFound path)
      | Err (FsOther msg) \<Rightarrow> Err (ReadErr path msg)
      | Ok raw \<Rightarrow>
          if \<not> utf8_valid raw then Err (ReadErr path (''config not valid UTF-8: '' @ utf8_error_display raw))
          else
            let text = of_bytes raw in
            (case parse_ini pr (config_sink pr) text config_default of
               Err e \<Rightarrow> Err e
             | Ok (warnings, cfg) \<Rightarrow>
                 let c = detect_deprecated text (apply_defaults (cfg\<lparr>c_parser_warnings := warnings\<rparr>)) in
                 (case validate pr c of Err e \<Rightarrow> Err e | Ok _ \<Rightarrow> Ok c)))"

section \<open>Lemmas on URIs\<close>

abbreviation fresh_octet :: "nat \<Rightarrow> octet_state" where
  "fresh_octet k \<equiv> \<lparr>os_parts = k, os_cur = 0, os_len = 0, os_leading_zero = False\<rparr>"

definition octet_after :: "nat \<Rightarrow> string \<Rightarrow> octet_state" where
  "octet_after k p = \<lparr>os_parts = k, os_cur = dec_val p, os_len = length p,
     os_leading_zero = (length p > 1 \<and> hd p = CHR ''0'')\<rparr>"

lemma digit_val_0: "digit_char c \<Longrightarrow> digit_val c = 0 \<longleftrightarrow> c = CHR ''0''"
proof -
  have "(of_char c :: byte) = of_char (CHR ''0'') \<longleftrightarrow> c = CHR ''0''" by (metis byte_char_of_char)
  then show "digit_char c \<Longrightarrow> digit_val c = 0 \<longleftrightarrow> c = CHR ''0''"
    by (simp add: digit_val_def digit_char_def is_ascii_digit_def unat_eq_0)
qed

lemma leading_zero_snoc:
  assumes "list_all digit_char p"
  shows "(if length p = 1 \<and> dec_val p = 0 then True else length p > 1 \<and> hd p = CHR ''0'')
    = (length (p @ [c]) > 1 \<and> hd (p @ [c]) = CHR ''0'')"
proof (cases p)
  case (Cons a q)
  have "dec_val [a] = digit_val a" using dec_val_snoc [of "[]" a] by (simp add: dec_val_def)
  then show ?thesis using Cons assms digit_val_0 [of a] by (cases q) auto
qed simp

lemma octet_scan:
  assumes "CHR ''.'' \<notin> set p"
  shows "ipv4_scan (as_bytes p @ r) (fresh_octet k) =
    (if list_all digit_char p \<and> dec_val p \<le> 255 then ipv4_scan r (octet_after k p) else None)"
  using assms
proof (induction p arbitrary: r rule: rev_induct)
  case Nil
  then show ?case by (simp add: octet_after_def dec_val_def)
next
  case (snoc c p)
  let ?b = "of_char c :: byte"
  have nd: "?b \<noteq> 0x2e"
  proof
    assume "?b = 0x2e"
    also have "\<dots> = of_char (CHR ''.'')" by simp
    finally have "c = CHR ''.''" by (metis byte_char_of_char)
    then show False using snoc.prems by simp
  qed
  have v: "unat (?b - 0x30) = digit_val c" by (simp add: digit_val_def)
  have ih: "ipv4_scan (as_bytes (p @ [c]) @ r) (fresh_octet k) =
      (if list_all digit_char p \<and> dec_val p \<le> 255 then ipv4_scan (?b # r) (octet_after k p) else None)"
    using snoc.IH [of "?b # r"] snoc.prems by simp
  show ?case
  proof (cases "list_all digit_char p \<and> dec_val p \<le> 255")
    case True
    let ?s = "octet_after k p"
    have "octet_after k (p @ [c]) = \<lparr>os_parts = os_parts ?s, os_cur = os_cur ?s * 10 + digit_val c, os_len = os_len ?s + 1,
        os_leading_zero = (if os_len ?s = 1 \<and> os_cur ?s = 0 then True else os_leading_zero ?s)\<rparr>"
      unfolding octet_after_def leading_zero_snoc [OF conjunct1 [OF True], of c, symmetric] by simp
    moreover have "os_cur ?s * 10 + digit_val c = dec_val (p @ [c])" by (simp add: octet_after_def)
    ultimately have "ipv4_scan (?b # r) ?s =
        (if digit_char c \<and> dec_val (p @ [c]) \<le> 255 then ipv4_scan r (octet_after k (p @ [c])) else None)"
      using nd v by (simp only: ipv4_scan.simps Let_def digit_char_def not_le if_False) (simp add: not_less)
    then show ?thesis using ih True by simp
  next
    case False
    then show ?thesis using ih by auto
  qed
qed

definition octet_good :: "octet_state \<Rightarrow> bool" where
  "octet_good s \<longleftrightarrow> os_len s \<noteq> 0 \<and> os_cur s \<le> 255 \<and> \<not> os_leading_zero s"

lemma octet_good_iff:
  "(list_all digit_char p \<and> dec_val p \<le> 255 \<and> octet_good (octet_after k p)) \<longleftrightarrow> ipv4_octet p \<noteq> None"
proof -
  have "length p \<le> 3" if "list_all digit_char p" "dec_val p \<le> 255" "\<not> (length p > 1 \<and> hd p = CHR ''0'')"
  proof (rule ccontr)
    assume long: "\<not> length p \<le> 3"
    then obtain a q where p: "p = a # q" "3 \<le> length q" by (cases p) auto
    have "1 \<le> digit_val a" using that p digit_val_0 [of a] by auto
    moreover have "(10 :: nat) ^ 3 \<le> 10 ^ length q" using p(2) by (intro power_increasing) auto
    ultimately have "1000 \<le> digit_val a * 10 ^ length q"
      using mult_le_mono [of 1 "digit_val a" 1000 "10 ^ length q"] by simp
    then show False using that(2) p(1) dec_val_Cons [of a q] by simp
  qed
  then show ?thesis by (auto simp: octet_good_def octet_after_def ipv4_octet_def Suc_le_eq)
qed

lemma ipv4_scan_split:
  "(\<exists>s. ipv4_scan (as_bytes ip) (fresh_octet k) = Some s \<and> octet_good s \<and> os_parts s = k + m) \<longleftrightarrow>
   list_all (\<lambda>p. ipv4_octet p \<noteq> None) (split_on (CHR ''.'') ip) \<and> length (split_on (CHR ''.'') ip) = m + 1"
proof (induction "length ip" arbitrary: ip k m rule: less_induct)
  case less
  have parts: "os_parts (octet_after k p) = k" for p by (simp add: octet_after_def)
  show ?case
  proof (cases "CHR ''.'' \<in> set ip")
    case False
    then show ?thesis
      using octet_scan [OF False, of "[]" k] octet_good_iff [of ip k] parts [of ip]
      by (auto simp: split_on_no_sep)
  next
    case True
    then obtain p q where ip: "ip = p @ CHR ''.'' # q" "CHR ''.'' \<notin> set p" by (meson split_list_first)
    have step: "ipv4_scan (as_bytes ip) (fresh_octet k) =
        (if ipv4_octet p \<noteq> None then ipv4_scan (as_bytes q) (fresh_octet (k + 1)) else None)"
      using octet_scan [OF ip(2), of "0x2e # as_bytes q" k] octet_good_iff [of p k] parts [of p]
      by (auto simp: ip(1) octet_good_def)
    have sp: "split_on (CHR ''.'') ip = p # split_on (CHR ''.'') q" by (simp add: ip split_on_append)
    show ?thesis
    proof (cases m)
      case 0
      have "os_parts s \<ge> k + 1" if "ipv4_scan (as_bytes q) (fresh_octet (k + 1)) = Some s" for s
      proof -
        have "ipv4_scan bs u = Some s \<Longrightarrow> os_parts u \<le> os_parts s" for bs u
          by (induction bs u rule: ipv4_scan.induct) (auto simp: Let_def split: if_splits)
        from this [OF that] show ?thesis by simp
      qed
      then have "\<not> (\<exists>s. ipv4_scan (as_bytes ip) (fresh_octet k) = Some s \<and> os_parts s = k + m)"
        using 0 step by auto
      then show ?thesis using 0 sp by auto
    next
      case (Suc j)
      then show ?thesis using less [of q "k + 1" j] step sp by (auto simp: ip(1))
    qed
  qed
qed

lemma check_ipv4_iff: "check_ipv4 pr ip = Ok () \<longleftrightarrow> ipv4_from_str ip \<noteq> None"
proof -
  have "check_ipv4 pr ip = Ok () \<longleftrightarrow> (\<exists>s. ipv4_scan (as_bytes ip) (fresh_octet 0) = Some s \<and> octet_good s \<and> os_parts s = 0 + 3)"
    by (auto simp: check_ipv4_def octet_init_def octet_good_def Let_def split: option.splits)
  also have "\<dots> \<longleftrightarrow> ipv4_from_str ip \<noteq> None"
    unfolding ipv4_scan_split
    by (auto simp: ipv4_from_str_def length_Suc_conv split: list.splits option.splits)
  finally show ?thesis .
qed

lemma scan_port_iff:
  "acc \<le> 65535 \<Longrightarrow> scan_port (as_bytes ps) acc = PortOk n \<longleftrightarrow>
     list_all digit_char ps \<and> n = acc * 10 ^ length ps + dec_val ps \<and> n \<le> 65535"
proof (induction ps arbitrary: acc)
  case Nil
  then show ?case by (auto simp: dec_val_def)
next
  case (Cons c ps)
  let ?a = "acc * 10 + digit_val c"
  have big: "65535 < ?a \<Longrightarrow> 65535 < acc * 10 ^ length (c # ps) + dec_val (c # ps)"
  proof -
    assume "65535 < ?a"
    also have "?a \<le> ?a * 10 ^ length ps" by simp
    also have "\<dots> \<le> acc * 10 ^ length (c # ps) + dec_val (c # ps)" by (simp add: dec_val_Cons algebra_simps)
    finally show ?thesis .
  qed
  have "scan_port (as_bytes (c # ps)) acc =
      (if \<not> digit_char c then PortNotNumeric else if ?a > 65535 then PortOutOfRange else scan_port (as_bytes ps) ?a)"
    by (simp add: digit_char_def digit_val_def Let_def)
  then show ?case
    using Cons.IH [of ?a] big by (auto simp: dec_val_Cons algebra_simps)
qed

lemma check_port_iff: "check_port pr ps = Ok () \<longleftrightarrow> list_all digit_char ps \<and> 1 \<le> dec_val ps \<and> dec_val ps \<le> 65535"
proof -
  have "check_port pr ps = Ok () \<longleftrightarrow> (\<exists>n. scan_port (as_bytes ps) 0 = PortOk n \<and> 1 \<le> n)"
    by (auto simp: check_port_def split: port_scan.splits)
  then show ?thesis using scan_port_iff [of 0 ps] by auto
qed

lemma first_non_hex_iff: "first_non_hex bs = None \<longleftrightarrow> (\<forall>b \<in> set bs. hex_nibble b \<noteq> None)"
  by (induction bs) (auto simp: is_hexdigit_byte_def hex_nibble_def is_ascii_digit_def)

lemma encode_pairs_total:
  "(\<exists>b. encode_pairs i bs = Ok b) \<longleftrightarrow> (\<forall>b \<in> set (take (2 * (length bs div 2)) bs). hex_nibble b \<noteq> None)"
proof (induction i bs rule: encode_pairs.induct)
  case (1 i h l rest)
  then show ?case by (auto split: option.splits sum.splits)
qed auto

lemma encode_bcd_total:
  "(\<exists>b. encode_bcd s = Ok b) \<longleftrightarrow> length s = 8 \<and> (\<forall>b \<in> set (as_bytes s). hex_nibble b \<noteq> None)"
  using encode_pairs_total [of 0 "as_bytes s"] by (auto simp: encode_bcd_def Let_def)

text \<open>What the validator accepts, part by part.\<close>

lemma position_split:
  assumes "position (\<lambda>c. c = x) xs = Some i"
  shows "take i xs @ [x] @ drop (i + 1) xs = xs" "x \<notin> set (take i xs)"
proof -
  note h = position_SomeD [OF assms]
  show "take i xs @ [x] @ drop (i + 1) xs = xs"
    using conjunct1 [OF conjunct2 [OF conjunct2 [OF h]]] conjunct1 [OF conjunct2 [OF h]] by simp
  show "x \<notin> set (take i xs)" using h by blast
qed

lemma rposition_split:
  assumes "rposition (\<lambda>c. c = x) xs = Some i"
  shows "take i xs @ [x] @ drop (i + 1) xs = xs"
proof -
  note h = rposition_SomeD [OF assms]
  show ?thesis using conjunct1 [OF conjunct2 [OF conjunct2 [OF h]]] conjunct1 [OF conjunct2 [OF h]] by simp
qed

text \<open>The checks of \<open>validate_uri\<close> as a conjunction.\<close>

lemma check_chain:
  "(case p of
      None \<Rightarrow> Err e1
    | Some at \<Rightarrow>
        if A at \<or> A' at then Err e1
        else if B at then Err (e2 at)
        else (case F at of
                Some c \<Rightarrow> Err (e3 at c)
              | None \<Rightarrow>
                  (case R at of
                     None \<Rightarrow> Err e4
                   | Some colon \<Rightarrow>
                       if C at colon \<or> C' at colon then Err e4
                       else (case I at colon of Err e \<Rightarrow> Err e | Ok _ \<Rightarrow> Q at colon)))) = Ok r \<longleftrightarrow>
   (\<exists>at colon. p = Some at \<and> \<not> A at \<and> \<not> A' at \<and> \<not> B at \<and> F at = None \<and> R at = Some colon
      \<and> \<not> C at colon \<and> \<not> C' at colon \<and> I at colon = Ok () \<and> Q at colon = Ok r)"
  by (auto split: option.splits sum.splits if_splits)

lemma validate_uri_parts:
  "validate_uri pr uri = Ok () \<longleftrightarrow>
     (\<exists>name ip ps. uri = name @ ''@'' @ ip @ '':'' @ ps \<and> CHR ''@'' \<notin> set name \<and> (\<exists>b. encode_bcd name = Ok b)
        \<and> ipv4_from_str ip \<noteq> None \<and> list_all digit_char ps \<and> 1 \<le> dec_val ps \<and> dec_val ps \<le> 65535)"
    (is "_ \<longleftrightarrow> (\<exists>name ip ps. ?uri name ip ps \<and> ?ok name ip ps)")
proof
  assume v: "validate_uri pr uri = Ok ()"
  obtain at colon where at: "position (\<lambda>c. c = CHR ''@'') uri = Some at"
    and n: "length (take at uri) = 8" "first_non_hex (as_bytes (take at uri)) = None"
    and colon: "rposition (\<lambda>c. c = CHR '':'') (drop (at + 1) uri) = Some colon"
    and ip: "check_ipv4 pr (take colon (drop (at + 1) uri)) = Ok ()"
    and ps: "check_port pr (drop (colon + 1) (drop (at + 1) uri)) = Ok ()"
    using v unfolding validate_uri_def Let_def check_chain not_not by (elim exE conjE) (rule, assumption+)
  let ?ip = "take colon (drop (at + 1) uri)" and ?ps = "drop (colon + 1) (drop (at + 1) uri)"
  have eq: "take at uri @ ''@'' @ ?ip @ '':'' @ ?ps = uri"
    unfolding rposition_split [OF colon] by (rule position_split(1) [OF at])
  note na = position_split(2) [OF at]
  have bcd: "\<exists>b. encode_bcd (take at uri) = Ok b"
    using n by (simp only: encode_bcd_total first_non_hex_iff simp_thms)
  show "\<exists>name ip ps. ?uri name ip ps \<and> ?ok name ip ps"
    by (rule exI [of _ "take at uri"], rule exI [of _ ?ip], rule exI [of _ ?ps])
      (intro conjI sym [OF eq] na bcd ip [unfolded check_ipv4_iff]
        conjunct1 [OF ps [unfolded check_port_iff]] conjunct1 [OF conjunct2 [OF ps [unfolded check_port_iff]]]
        conjunct2 [OF conjunct2 [OF ps [unfolded check_port_iff]]])
next
  assume "\<exists>name ip ps. ?uri name ip ps \<and> ?ok name ip ps"
  then obtain name ip ps where u: "?uri name ip ps" and na: "CHR ''@'' \<notin> set name" and b: "\<exists>b. encode_bcd name = Ok b"
    and i: "ipv4_from_str ip \<noteq> None" and pd: "list_all digit_char ps" and pv: "1 \<le> dec_val ps" "dec_val ps \<le> 65535"
    by blast
  have n: "length name = 8" "first_non_hex (as_bytes name) = None"
    using b unfolding encode_bcd_total first_non_hex_iff by simp_all
  obtain q where "ipv4_from_str ip = Some q" using i by auto
  note ip = ipv4_from_str_SomeD(2,3) [OF this]
  have ps1: "ps \<noteq> []" using pv(1) by (auto simp: dec_val_def)
  have ps2: "\<forall>c \<in> set ps. c \<noteq> CHR '':''" using pd digit_char_not_special unfolding list_all_iff by blast
  have p: "position (\<lambda>c. c = CHR ''@'') uri = Some 8"
    unfolding u append_Cons append_Nil n(1) [symmetric] using na by (intro position_append_hit) auto
  have d: "drop (8 + 1) uri = ip @ CHR '':'' # ps" "take 8 uri = name" unfolding u using n(1) by simp_all
  have r: "rposition (\<lambda>c. c = CHR '':'') (ip @ CHR '':'' # ps) = Some (length ip)"
    using ps2 by (intro rposition_append_hit) auto
  have c: "check_ipv4 pr ip = Ok ()" "check_port pr ps = Ok ()"
    unfolding check_ipv4_iff check_port_iff using i pd pv by simp_all
  have l: "length uri = 9 + (length ip + 1 + length ps)" unfolding u using n(1) by simp
  show "validate_uri pr uri = Ok ()"
    unfolding validate_uri_def Let_def check_chain
    by (rule exI [of _ 8], rule exI [of _ "length ip"]) (use n ip ps1 l in \<open>simp add: p d [simplified] r c\<close>)
qed

lemma parse_i64_digits:
  assumes "list_all digit_char ps" "ps \<noteq> []" "dec_val ps < 2 ^ 63"
  shows "parse_i64 ps = Some (int (dec_val ps))"
proof -
  obtain c q where ps: "ps = c # q" using assms(2) by (cases ps) auto
  then have "c \<noteq> CHR ''-''" "c \<noteq> CHR ''+''" using assms(1) digit_char_not_special by auto
  then show ?thesis using assms ps by (simp add: parse_i64_def Let_def)
qed

lemma parse_i64_unsigned:
  assumes "parse_i64 ps = Some p" "1 \<le> p" "CHR ''+'' \<notin> set ps"
  shows "list_all digit_char ps \<and> p = int (dec_val ps)"
  using assms by (cases ps) (auto simp: parse_i64_def Let_def split: if_splits)

lemma ipv4_chars: "ipv4_from_str ip \<noteq> None \<Longrightarrow> c \<in> set ip \<Longrightarrow> c = CHR ''.'' \<or> digit_char c"
proof -
  assume ip: "ipv4_from_str ip \<noteq> None" and c: "c \<in> set ip"
  then have "list_all (\<lambda>p. ipv4_octet p \<noteq> None) (split_on (CHR ''.'') ip)"
    by (auto simp: ipv4_from_str_def split: list.splits option.splits)
  moreover have "c = CHR ''.'' \<or> (\<exists>p \<in> set (split_on (CHR ''.'') ip). c \<in> set p)" using split_on_cover [OF c] .
  ultimately show ?thesis by (fastforce simp: list_all_iff ipv4_octet_def split: if_splits)
qed

lemma no_plus:
  assumes "encode_bcd name = Ok b" "ipv4_from_str ip \<noteq> None" "list_all digit_char ps"
  shows "CHR ''+'' \<notin> set (name @ ''@'' @ ip @ '':'' @ ps)"
proof -
  have "\<not> digit_char (CHR ''+'')" using digit_char_not_special by blast
  moreover have "hex_nibble (of_char (CHR ''+'')) = None" by (simp add: hex_nibble_def)
  moreover have "\<forall>x \<in> set (as_bytes name). hex_nibble x \<noteq> None" using encode_bcd_total [of name] assms(1) by blast
  ultimately show ?thesis using assms(3) ipv4_chars [OF assms(2), of "CHR ''+''"] by (auto simp: as_bytes_def list_all_iff)
qed

lemma validated_parse:
  assumes "validate_uri pr uri = Ok ()"
  shows "\<exists>name ip port b. parse_uri uri = Ok (name, ip, port) \<and> encode_bcd name = Ok b" "CHR ''+'' \<notin> set uri"
proof -
  obtain name ip ps b where u: "uri = name @ ''@'' @ ip @ '':'' @ ps" "CHR ''@'' \<notin> set name" "encode_bcd name = Ok b"
    "ipv4_from_str ip \<noteq> None" "list_all digit_char ps" "1 \<le> dec_val ps" "dec_val ps \<le> 65535"
    using assms unfolding validate_uri_parts by blast
  have "length name = 8" using u(3) encode_bcd_total by blast
  moreover have "parse_i64 ps = Some (int (dec_val ps))"
    using u(5-7) by (intro parse_i64_digits) (auto simp: dec_val_def)
  ultimately have "parse_uri uri = Ok (name, ip, of_int (int (dec_val ps)))"
    unfolding u(1) using u by (intro parse_uri_complete) auto
  then show "\<exists>name ip port b. parse_uri uri = Ok (name, ip, port) \<and> encode_bcd name = Ok b" using u(3) by blast
  show "CHR ''+'' \<notin> set uri" unfolding u(1) by (rule no_plus [OF u(3-5)])
qed

text \<open>
  C38. The configuration validator and the run-time codec, two independent parsers of the same URIs, agree:
  a URI passes \<open>validate_uri\<close> exactly when \<open>parse_uri\<close> splits it and \<open>encode_bcd\<close> encodes its name, except
  that the validator also refuses a plus sign before the port.
\<close>

theorem validate_uri_agrees:
  "validate_uri pr uri = Ok () \<longleftrightarrow>
     (\<exists>name ip port b. parse_uri uri = Ok (name, ip, port) \<and> encode_bcd name = Ok b) \<and> CHR ''+'' \<notin> set uri"
proof
  assume "validate_uri pr uri = Ok ()"
  then show "(\<exists>name ip port b. parse_uri uri = Ok (name, ip, port) \<and> encode_bcd name = Ok b) \<and> CHR ''+'' \<notin> set uri"
    using validated_parse by blast
next
  assume r: "(\<exists>name ip port b. parse_uri uri = Ok (name, ip, port) \<and> encode_bcd name = Ok b) \<and> CHR ''+'' \<notin> set uri"
  then obtain name ip port b where p: "parse_uri uri = Ok (name, ip, port)" "encode_bcd name = Ok b" by blast
  obtain ps q where u: "uri = name @ ''@'' @ ip @ '':'' @ ps" "CHR ''@'' \<notin> set name" "ipv4_from_str ip \<noteq> None"
    "parse_i64 ps = Some q" "1 \<le> q" "q \<le> 65535"
    using parse_uri_sound [OF p(1)] by blast
  have "list_all digit_char ps \<and> q = int (dec_val ps)"
    using parse_i64_unsigned [OF u(4,5)] r u(1) by simp
  then show "validate_uri pr uri = Ok ()" unfolding validate_uri_parts using u p(2) by auto
qed

section \<open>What the engine preserves\<close>

text \<open>The contract of a sink: an invariant that every write keeps.\<close>

locale ini_target =
  fixes sk :: "'c ini_sink" and inv :: "'c \<Rightarrow> bool"
  assumes top_inv: "inv c \<Longrightarrow> inv (snd (sk_set_top sk k v c))"
    and section_inv: "inv c \<Longrightarrow> inv (snd (sk_set_section sk s k v c))"
    and append_inv: "inv c \<Longrightarrow> inv (sk_append_subsection sk s c)"
    and subsection_inv: "inv c \<Longrightarrow> inv (snd (sk_set_subsection sk s k v c))"
begin

lemma after_set_inv: "after_set n w res st = Ok st' \<Longrightarrow> inv (snd res) \<Longrightarrow> inv (is_sink st')"
  by (auto simp: after_set_def split: prod.splits field_outcome.splits)

lemma ini_line_step_inv:
  assumes "ini_line_step pr sk n raw st = Ok st'" "inv (is_sink st)"
  shows "inv (is_sink st')"
proof -
  have hd: "header_line_step pr sk n line st = Ok st' \<Longrightarrow> inv (is_sink st')" for line
    using assms(2) by (auto simp: header_line_step_def Let_def split: sum.splits)
  have sub: "subsection_step pr sk n k v st = Ok st' \<Longrightarrow> inv (is_sink st')" for k v
    using assms(2) by (auto simp: subsection_step_def Let_def intro: append_inv subsection_inv
        dest!: after_set_inv split: if_splits)
  show ?thesis
    using assms hd sub
    by (auto simp: ini_line_step_def Let_def intro: top_inv section_inv dest!: after_set_inv
        split: if_splits option.splits sum.splits)
qed

lemma ini_lines_inv: "ini_lines pr sk n raws st = Ok st' \<Longrightarrow> inv (is_sink st) \<Longrightarrow> inv (is_sink st')"
  by (induction raws arbitrary: n st) (auto split: sum.splits dest: ini_line_step_inv)

lemma parse_ini_inv: "parse_ini pr sk input c = Ok (ws, c') \<Longrightarrow> inv c \<Longrightarrow> inv c'"
  using ini_lines_inv [of pr 1 "split_on (CHR 0x0a) input" "ini_init c"]
  by (auto simp: parse_ini_def ini_init_def split: sum.splits)

end

definition i32 :: "int \<Rightarrow> bool" where
  "i32 n \<longleftrightarrow> - (2 ^ 31) \<le> n \<and> n \<le> 2 ^ 31 - 1"

definition config_inv :: "config \<Rightarrow> bool" where
  "config_inv c \<longleftrightarrow> i32 (l_port (c_listen c)) \<and> i32 (h_port (c_hass c)) \<and> [] \<notin> set (c_iface_list c)"

lemma conv_int_i32: "conv_int pr v k = Ok n \<Longrightarrow> i32 n"
  by (auto simp: conv_int_def i32_def Let_def split: if_splits option.splits)

lemma set_section_inv: "config_inv c \<Longrightarrow> config_inv (snd (set_section pr s k v c))"
  by (simp add: set_section_def store_def config_inv_def conv_int_i32 split: sum.split)

interpretation cfg: ini_target "config_sink pr" config_inv for pr
  by unfold_locales
    (auto simp: config_sink_def set_section_inv, auto simp: config_inv_def set_top_def append_subsection_def
      set_subsection_def conv_string_array_def Let_def)

text \<open>A URI the daemon can use: it splits and its number encodes.\<close>

definition usable_uri :: "string \<Rightarrow> bool" where
  "usable_uri uri \<longleftrightarrow> (\<exists>name ip port b. parse_uri uri = Ok (name, ip, port) \<and> encode_bcd name = Ok b)"

definition usable_config :: "config \<Rightarrow> bool" where
  "usable_config c \<longleftrightarrow> usable_uri (c_sip c) \<and> c_stations c \<noteq> [] \<and> list_all (\<lambda>s. usable_uri (st_sip s)) (c_stations c)
     \<and> v_format (c_video c) \<in> {''flv'', ''mjpeg''} \<and> c_iface c \<noteq> [] \<and> [] \<notin> set (c_iface_list c)
     \<and> l_addr (c_listen c) \<noteq> [] \<and> l_port (c_listen c) \<noteq> 0 \<and> i32 (l_port (c_listen c))
     \<and> h_port (c_hass c) \<noteq> 0 \<and> i32 (h_port (c_hass c))"

lemma validate_stations_Ok:
  "validate_stations pr i ss = Ok () \<Longrightarrow> list_all (\<lambda>s. validate_uri pr (st_sip s) = Ok ()) ss"
  by (induction ss arbitrary: i) (auto simp: Let_def invalid_def split: if_splits sum.splits)

lemma validate_Ok:
  assumes "validate pr c = Ok ()"
  shows "validate_uri pr (c_sip c) = Ok ()" "c_stations c \<noteq> []"
    "list_all (\<lambda>s. validate_uri pr (st_sip s) = Ok ()) (c_stations c)" "v_format (c_video c) \<in> {''flv'', ''mjpeg''}"
  using assms by (auto simp: validate_def invalid_def split: if_splits sum.splits dest: validate_stations_Ok)

lemma apply_defaults_fields:
  "c_sip (apply_defaults c) = c_sip c" "c_stations (apply_defaults c) = c_stations c" "c_iface_list (apply_defaults c) = c_iface_list c"
  "c_iface (apply_defaults c) \<noteq> []" "l_addr (c_listen (apply_defaults c)) \<noteq> []" "l_port (c_listen (apply_defaults c)) \<noteq> 0"
  "h_port (c_hass (apply_defaults c)) \<noteq> 0" "config_inv c \<Longrightarrow> config_inv (apply_defaults c)"
  by (simp_all add: apply_defaults_def default_format_def default_hass_def default_listen_def default_iface_def Let_def
      DEFAULT_IFACE_def DEFAULT_LISTEN_ADDR_def DEFAULT_LISTEN_PORT_def DEFAULT_HASS_PORT_def config_inv_def i32_def)

lemma detect_deprecated_fields:
  "c_sip (detect_deprecated raw c) = c_sip c" "c_stations (detect_deprecated raw c) = c_stations c"
  "c_iface_list (detect_deprecated raw c) = c_iface_list c" "c_iface (detect_deprecated raw c) = c_iface c"
  "c_listen (detect_deprecated raw c) = c_listen c" "c_hass (detect_deprecated raw c) = c_hass c"
  "config_inv (detect_deprecated raw c) = config_inv c"
  by (simp_all add: detect_deprecated_def config_inv_def)

lemma loaded_usable:
  assumes "load_config pr read path = Ok c"
  shows "usable_config c"
proof -
  obtain raw where raw: "read path = Ok raw" "utf8_valid raw"
    using assms by (auto simp: load_config_def split: sum.splits fs_error.splits if_splits)
  obtain ws cfg where ini: "parse_ini pr (config_sink pr) (of_bytes raw) config_default = Ok (ws, cfg)"
    using assms raw by (auto simp: load_config_def Let_def split: sum.splits)
  let ?c = "detect_deprecated (of_bytes raw) (apply_defaults (cfg\<lparr>c_parser_warnings := ws\<rparr>))"
  have c: "c = ?c" "validate pr ?c = Ok ()" using assms raw ini by (auto simp: load_config_def Let_def split: sum.splits)
  have "config_inv config_default" by (simp add: config_inv_def config_default_def i32_def)
  then have "config_inv cfg" using cfg.parse_ini_inv [OF ini] by simp
  then have inv: "config_inv ?c"
    using apply_defaults_fields(8) [of "cfg\<lparr>c_parser_warnings := ws\<rparr>"]
    unfolding detect_deprecated_fields(7) by (simp add: config_inv_def)
  have use: "validate_uri pr uri = Ok () \<Longrightarrow> usable_uri uri" for uri
    unfolding usable_uri_def by (rule validated_parse(1))
  note v = validate_Ok [OF c(2)]
  have "usable_uri (c_sip ?c)" using use v(1) by blast
  moreover have "list_all (\<lambda>s. usable_uri (st_sip s)) (c_stations ?c)" using use v(3) by (simp add: list_all_iff)
  ultimately have "usable_config ?c"
    using inv v(2,4) apply_defaults_fields [of "cfg\<lparr>c_parser_warnings := ws\<rparr>"]
    unfolding usable_config_def config_inv_def detect_deprecated_fields by simp
  then show ?thesis using c(1) by simp
qed


end
