(* ===== verification/Info.thy ===== *)
theory Info
  imports JsonEnc Config
begin

text \<open>
  \<open>src/info.rs\<close>: the description of the daemon that \<open>GET /info\<close> returns.  The process id and the probe of
  Home Assistant are inputs; neither is part of the JSON text.
\<close>

record station_desc =
  sd_sip :: string

record video_desc =
  vd_forward :: bool
  vd_forward_supported :: bool
  vd_protocol :: string
  vd_format :: string
  vd_cache_path :: string

record self_desc =
  id_version :: string
  id_pid :: nat
  id_brand :: string
  id_daemon :: string
  id_monitor :: string
  id_stations :: "station_desc list"
  id_video :: video_desc
  id_hass_reachable :: "bool option"

definition safe_or_default :: "string \<Rightarrow> string \<Rightarrow> string" where
  "safe_or_default v def = (if v = [] then def else v)"

text \<open>\<open>probe_dial\<close>: the resolved addresses with the outcome of each connect, in order.\<close>

definition probe_dial :: "(string + bool list) \<Rightarrow> bool" where
  "probe_dial addrs = (case addrs of Err _ \<Rightarrow> False | Ok cs \<Rightarrow> list_ex (\<lambda>c. c) cs)"

definition info_build :: "config option \<Rightarrow> string \<Rightarrow> bool \<Rightarrow> nat \<Rightarrow> (string + bool list) \<Rightarrow> self_desc" where
  "info_build cfg version probe_ha pid dial =
     (let sd = \<lparr>id_version = safe_or_default version ''dev'', id_pid = pid, id_brand = SUPPORTED_BRAND,
                id_daemon = ''dooraccess-go'', id_monitor = [], id_stations = [],
                id_video = \<lparr>vd_forward = False, vd_forward_supported = False, vd_protocol = [], vd_format = [],
                            vd_cache_path = []\<rparr>,
                id_hass_reachable = None\<rparr>
      in case cfg of
           None \<Rightarrow> sd
         | Some c \<Rightarrow>
             sd\<lparr>id_monitor := c_sip c,
                id_stations := map (\<lambda>s. \<lparr>sd_sip = st_sip s\<rparr>) (c_stations c),
                id_video := \<lparr>vd_forward = v_forward (c_video c), vd_forward_supported = v_forward (c_video c),
                             vd_protocol = ''anjubao-h264'', vd_format = v_format (c_video c),
                             vd_cache_path = v_cache_path (c_video c)\<rparr>,
                id_hass_reachable := (if probe_ha \<and> h_ipaddr (c_hass c) \<noteq> [] then Some (probe_dial dial) else None)\<rparr>)"

definition render_json :: "self_desc \<Rightarrow> byte list" where
  "render_json sd =
     (let stations = map (\<lambda>s. Struct [(''sip'', String (sd_sip s))]) (id_stations sd);
          v = id_video sd;
          video = Struct [(''forward'', Bool (vd_forward v)), (''forward_supported'', Bool (vd_forward_supported v)),
                          (''protocol'', String (vd_protocol v)), (''format'', String (vd_format v)),
                          (''cache_path'', String (vd_cache_path v))]
      in encode_struct [(''daemon'', String (id_daemon sd)), (''version'', String (id_version sd)),
           (''brand'', String (id_brand sd)), (''monitor'', String (id_monitor sd)),
           (''outdoor_stations'', Array stations), (''video'', video)] ENCODE)"

end
