(* ===== verification/Mux.thy ===== *)
theory Mux
  imports HttpResponse "HOL-Library.Multiset"
begin

text \<open>
  \<open>src/httpx/mux.rs\<close>: the path router.  \<open>HashMap\<close> is a map, a panic is an \<open>Err\<close>.  The lemmas show that
  routing depends on the set of registered patterns only: the exact pattern first, then the longest
  prefix, whatever the order of registration.
\<close>

section \<open>ServeMux\<close>

record 'h serve_mux =
  mux_exact :: "string \<rightharpoonup> 'h"
  mux_prefix :: "(string \<times> 'h) list"

definition mux_new :: "'h serve_mux" where
  "mux_new = \<lparr>mux_exact = Map.empty, mux_prefix = []\<rparr>"

text \<open>The loop that moves the entry at position \<open>i\<close> forward past shorter patterns.\<close>

fun move_forward :: "nat \<Rightarrow> (string \<times> 'h) list \<Rightarrow> (string \<times> 'h) list" where
  "move_forward 0 xs = xs"
| "move_forward (Suc i) xs =
     (if length (fst (xs ! Suc i)) > length (fst (xs ! i))
      then move_forward i (xs[Suc i := xs ! i, i := xs ! Suc i])
      else xs)"

definition ends_with_slash :: "string \<Rightarrow> bool" where
  "ends_with_slash p \<longleftrightarrow> p \<noteq> [] \<and> last p = CHR ''/''"

definition handle :: "string \<Rightarrow> 'h option \<Rightarrow> 'h serve_mux \<Rightarrow> string + 'h serve_mux" where
  "handle pattern h m =
     (if pattern = [] then Err ''httpx: empty pattern''
      else
        (case h of
           None \<Rightarrow> Err ''httpx: nil handler''
         | Some f \<Rightarrow>
             if ends_with_slash pattern then
               if pattern \<in> fst ` set (mux_prefix m) then Err (''httpx: duplicate pattern: '' @ pattern)
               else Ok (m\<lparr>mux_prefix := move_forward (length (mux_prefix m)) (mux_prefix m @ [(pattern, f)])\<rparr>)
             else if mux_exact m pattern \<noteq> None then Err (''httpx: duplicate pattern: '' @ pattern)
             else Ok (m\<lparr>mux_exact := (mux_exact m)(pattern \<mapsto> f)\<rparr>)))"

definition starts_with :: "string \<Rightarrow> string \<Rightarrow> bool" where
  "starts_with s p \<longleftrightarrow> take (length p) s = p"

definition match_handler :: "string \<Rightarrow> 'h serve_mux \<Rightarrow> 'h option" where
  "match_handler path m =
     (case mux_exact m path of
        Some h \<Rightarrow> Some h
      | None \<Rightarrow> map_option snd (List.find (\<lambda>e. starts_with path (fst e)) (mux_prefix m)))"

definition http404 :: "'w write_fn \<Rightarrow> 'w response_writer \<Rightarrow> 'w response_writer" where
  "http404 wr w =
     snd (rw_write wr (as_bytes ''Not Found'')
       (rw_write_header wr STATUS_NOT_FOUND
         (rw_header_set ''Content-Length'' ''9''
           (rw_header_set ''Content-Type'' ''text/plain; charset=utf-8'' w))))"

text \<open>The registrations of a program, in order.\<close>

fun handle_all :: "(string \<times> 'h option) list \<Rightarrow> 'h serve_mux \<Rightarrow> string + 'h serve_mux" where
  "handle_all [] m = Ok m"
| "handle_all ((p, h) # rs) m = (case handle p h m of Err e \<Rightarrow> Err e | Ok m' \<Rightarrow> handle_all rs m')"

section \<open>Routing specification\<close>

text \<open>
  \<open>route regs path h\<close>: the handler of the exact pattern; failing that, of the longest pattern ending in a
  slash that is a prefix of the path.
\<close>

definition prefix_route :: "(string \<times> 'h) set \<Rightarrow> string \<Rightarrow> string \<Rightarrow> 'h \<Rightarrow> bool" where
  "prefix_route R path p h \<longleftrightarrow>
     (p, h) \<in> R \<and> ends_with_slash p \<and> starts_with path p
   \<and> (\<forall>(q, k) \<in> R. ends_with_slash q \<and> starts_with path q \<longrightarrow> length q \<le> length p)"

definition route :: "(string \<times> 'h) set \<Rightarrow> string \<Rightarrow> 'h \<Rightarrow> bool" where
  "route R path h \<longleftrightarrow>
     (if \<not> ends_with_slash path \<and> path \<in> fst ` R then (path, h) \<in> R else \<exists>p. prefix_route R path p h)"

lemma move_forward_mset: "i < length xs \<Longrightarrow> mset (move_forward i xs) = mset xs"
  by (induction i arbitrary: xs) (simp_all add: mset_swap)

abbreviation longer :: "string \<times> 'h \<Rightarrow> string \<times> 'h \<Rightarrow> bool" where
  "longer e e' \<equiv> length (fst e') \<le> length (fst e)"

lemma move_forward_sorted:
  "sorted_wrt longer (ps @ qs) \<Longrightarrow> (\<forall>q \<in> set qs. length (fst q) < length (fst e)) \<Longrightarrow>
   sorted_wrt longer (move_forward (length ps) (ps @ e # qs))"
proof (induction ps arbitrary: qs rule: rev_induct)
  case Nil
  then show ?case by auto
next
  case (snoc p ps)
  show ?case
  proof (cases "length (fst p) < length (fst e)")
    case True
    have "((ps @ [p]) @ e # qs)[Suc (length ps) := p, length ps := e] = ps @ e # p # qs"
      by (simp add: list_update_append nth_append)
    moreover have "sorted_wrt longer (move_forward (length ps) (ps @ e # p # qs))"
      using snoc.prems True by (intro snoc.IH) auto
    ultimately show ?thesis using True by (simp add: nth_append)
  next
    case False
    then show ?thesis using snoc.prems by (auto simp: nth_append sorted_wrt_append)
  qed
qed

text \<open>What holds of a router that registered \<open>R\<close>.\<close>

definition mux_inv :: "(string \<times> 'h) set \<Rightarrow> 'h serve_mux \<Rightarrow> bool" where
  "mux_inv R m \<longleftrightarrow>
     sorted_wrt longer (mux_prefix m) \<and> distinct (map fst (mux_prefix m))
   \<and> set (mux_prefix m) = {e \<in> R. ends_with_slash (fst e)}
   \<and> (\<forall>p h. mux_exact m p = Some h \<longleftrightarrow> (p, h) \<in> R \<and> \<not> ends_with_slash p)"

lemma mux_inv_new: "mux_inv {} mux_new"
  by (simp add: mux_inv_def mux_new_def)

lemma mux_inv_handle:
  assumes "mux_inv R m" "handle p h m = Ok m'"
  obtains k where "h = Some k" "mux_inv (insert (p, k) R) m'"
proof -
  obtain k where k: "h = Some k" using assms(2) by (cases h) (auto simp: handle_def split: if_splits)
  have "mux_inv (insert (p, k) R) m'"
  proof (cases "ends_with_slash p")
    case True
    let ?xs = "move_forward (length (mux_prefix m)) (mux_prefix m @ [(p, k)])"
    have m': "p \<notin> fst ` set (mux_prefix m)" "m' = m\<lparr>mux_prefix := ?xs\<rparr>"
      using assms(2) True k by (auto simp: handle_def split: if_splits)
    have "mset ?xs = mset (mux_prefix m @ [(p, k)])" by (rule move_forward_mset) simp
    then have "set ?xs = insert (p, k) (set (mux_prefix m))" "mset (map fst ?xs) = mset (map fst (mux_prefix m @ [(p, k)]))"
      by (metis (no_types) mset_eq_setD set_append list.simps(15) empty_set Un_commute insert_is_Un,
          metis mset_map)
    moreover have "distinct (map fst (mux_prefix m @ [(p, k)]))" using m'(1) assms(1) by (auto simp: mux_inv_def)
    ultimately have "set ?xs = insert (p, k) (set (mux_prefix m))" "distinct (map fst ?xs)"
      using mset_eq_imp_distinct_iff by blast+
    then show ?thesis
      using m' True assms(1) move_forward_sorted [of "mux_prefix m" "[]" "(p, k)"]
      by (auto simp: mux_inv_def)
  next
    case False
    then have m': "mux_exact m p = None" "m' = m\<lparr>mux_exact := (mux_exact m)(p \<mapsto> k)\<rparr>"
      using assms(2) k by (auto simp: handle_def split: if_splits)
    have "mux_exact m p = Some x" if "(p, x) \<in> R" for x using that assms(1) False by (simp add: mux_inv_def)
    with m'(1) have "(p, x) \<notin> R" for x by auto
    then show ?thesis using m' False assms(1) by (auto simp: mux_inv_def)
  qed
  with k that show ?thesis by blast
qed

lemma find_first:
  assumes "List.find P xs = Some x"
  obtains ys zs where "xs = ys @ x # zs" "P x" "\<forall>y \<in> set ys. \<not> P y"
  using assms
proof (induction xs arbitrary: thesis)
  case (Cons a xs)
  show ?case
  proof (cases "P a")
    case True
    then show ?thesis using Cons.prems by (metis append_Nil empty_iff find.simps(2) list.set(1) option.inject)
  next
    case False
    then obtain ys zs where "xs = ys @ x # zs" "P x" "\<forall>y \<in> set ys. \<not> P y" using Cons by auto
    then show ?thesis using False Cons.prems(1) [of "a # ys" zs] by simp
  qed
qed simp

lemma match_handler_route:
  assumes "mux_inv R m"
  shows "(\<forall>h. match_handler path m = Some h \<longrightarrow> route R path h) \<and>
    (match_handler path m = None \<longrightarrow> (\<nexists>h. route R path h))"
proof (cases "mux_exact m path")
  case (Some h)
  then have "(path, h) \<in> R" "\<not> ends_with_slash path" using assms by (auto simp: mux_inv_def)
  then show ?thesis using Some by (force simp: match_handler_def route_def)
next
  case None
  have "mux_exact m path = Some h" if "(path, h) \<in> R" "\<not> ends_with_slash path" for h
    using that assms by (simp add: mux_inv_def)
  with None have n: "\<not> (\<not> ends_with_slash path \<and> path \<in> fst ` R)" by fastforce
  show ?thesis
  proof (cases "List.find (\<lambda>e. starts_with path (fst e)) (mux_prefix m)")
    case N: None
    then have "\<nexists>h p. prefix_route R path p h"
      using assms by (fastforce simp: find_None_iff mux_inv_def prefix_route_def)
    then show ?thesis using n N None by (auto simp: match_handler_def route_def)
  next
    case (Some e)
    obtain ys zs where f: "mux_prefix m = ys @ e # zs" "starts_with path (fst e)"
      "\<forall>y \<in> set ys. \<not> starts_with path (fst y)"
      using find_first [OF Some] by blast
    have "prefix_route R path (fst e) (snd e)"
      unfolding prefix_route_def
    proof (intro conjI ballI)
      show "(fst e, snd e) \<in> R" "ends_with_slash (fst e)" "starts_with path (fst e)"
        using f assms by (auto simp: mux_inv_def)
    next
      fix x assume x: "x \<in> R"
      show "case x of (q, k) \<Rightarrow> ends_with_slash q \<and> starts_with path q \<longrightarrow> length q \<le> length (fst e)"
      proof (clarify)
        fix q k assume "x = (q, k)" "ends_with_slash q" "starts_with path q"
        then have "(q, k) \<in> set (e # zs)" using x f assms by (fastforce simp: mux_inv_def)
        then show "length q \<le> length (fst e)"
          using f(1) assms by (auto simp: mux_inv_def sorted_wrt_append)
      qed
    qed
    then show ?thesis using n None Some by (auto simp: match_handler_def route_def)
  qed
qed

lemma prefix_route_unique:
  assumes "mux_inv R m" "prefix_route R path p h" "prefix_route R path p' h'"
  shows "h = h'"
proof -
  have "length p = length p'" using assms(2,3) by (fastforce simp: prefix_route_def)
  then have "p = p'" using assms(2,3) by (simp add: prefix_route_def starts_with_def)
  then have "(p, h) \<in> set (mux_prefix m)" "(p, h') \<in> set (mux_prefix m)"
    using assms by (auto simp: mux_inv_def prefix_route_def)
  then show ?thesis using assms(1) eq_key_imp_eq_value [of "mux_prefix m" p h h'] by (simp add: mux_inv_def)
qed

lemma match_handler_iff:
  assumes "mux_inv R m"
  shows "match_handler path m = Some h \<longleftrightarrow> route R path h"
proof
  assume r: "route R path h"
  then obtain h' where h': "match_handler path m = Some h'" using match_handler_route [OF assms] by fastforce
  then have "route R path h'" using match_handler_route [OF assms] by blast
  with r have "h = h'"
    using prefix_route_unique [OF assms] assms
    by (auto simp: route_def mux_inv_def split: if_splits) (metis option.inject)
  with h' show "match_handler path m = Some h" by simp
qed (use match_handler_route [OF assms] in blast)

lemma handle_Err:
  assumes "mux_inv R m" "handle p h m = Err e"
  shows "p = [] \<or> h = None \<or> p \<in> fst ` R"
proof (rule ccontr)
  assume n: "\<not> ?thesis"
  then have "p \<notin> fst ` set (mux_prefix m)" using assms(1) by (auto simp: mux_inv_def)
  moreover have "\<not> ends_with_slash p \<Longrightarrow> mux_exact m p = None"
    using n assms(1) by (cases "mux_exact m p") (auto simp: mux_inv_def image_iff)
  ultimately show False using n assms(2) by (auto simp: handle_def split: option.splits if_splits)
qed

lemma handle_Ok:
  assumes "mux_inv R m" "handle p h m = Ok m'"
  shows "p \<notin> fst ` R"
proof
  assume "p \<in> fst ` R"
  then obtain k where k: "(p, k) \<in> R" by auto
  have "ends_with_slash p \<Longrightarrow> p \<in> fst ` set (mux_prefix m)" using k assms(1) by (force simp: mux_inv_def)
  moreover have "\<not> ends_with_slash p \<Longrightarrow> mux_exact m p = Some k" using k assms(1) by (simp add: mux_inv_def)
  ultimately show False using assms(2) by (auto simp: handle_def split: option.splits if_splits)
qed

definition registered :: "(string \<times> 'h option) list \<Rightarrow> (string \<times> 'h) set" where
  "registered rs = {(p, h). (p, Some h) \<in> set rs}"

lemma handle_all_cases:
  "mux_inv R m \<Longrightarrow>
   (case handle_all rs m of
      Err _ \<Rightarrow> [] \<in> fst ` set rs \<or> None \<in> snd ` set rs \<or> \<not> distinct (map fst rs) \<or> fst ` set rs \<inter> fst ` R \<noteq> {}
    | Ok m' \<Rightarrow> distinct (map fst rs) \<and> fst ` set rs \<inter> fst ` R = {} \<and> mux_inv (R \<union> registered rs) m')"
proof (induction rs arbitrary: R m)
  case Nil
  then show ?case by (simp add: registered_def)
next
  case (Cons r rs)
  obtain p h where r: "r = (p, h)" by (cases r)
  show ?case
  proof (cases "handle p h m")
    case (Inl e)
    then show ?thesis using handle_Err [OF Cons.prems, of p h e] r by (auto simp: image_iff)
  next
    case (Inr m1)
    then obtain k where k: "h = Some k" "mux_inv (insert (p, k) R) m1" using mux_inv_handle [OF Cons.prems] by blast
    have "insert (p, k) R \<union> registered rs = R \<union> registered (r # rs)"
      using k(1) r by (auto simp: registered_def)
    then show ?thesis
      using Cons.IH [OF k(2)] Inr handle_Ok [OF Cons.prems Inr] k(1) r
      by (cases "handle_all rs m1") auto
  qed
qed

text \<open>
  The router: once the registrations of a program have gone through, the handler of a path is the one
  registered for exactly this path; failing that, the one of the longest registered pattern that ends in
  a slash and begins the path; and there is none (the request is answered 404) when no such pattern
  exists.  The order of the registrations does not matter.
\<close>

theorem mux_routes:
  "case handle_all rs mux_new of
     Err _ \<Rightarrow> [] \<in> fst ` set rs \<or> None \<in> snd ` set rs \<or> card (fst ` set rs) < length rs
   | Ok m \<Rightarrow> distinct (map fst rs) \<and> (\<forall>path h. match_handler path m = Some h \<longleftrightarrow> route (registered rs) path h)"
proof -
  have "card (fst ` set rs) < length rs" if "\<not> distinct (map fst rs)"
    using that card_distinct [of "map fst rs"] card_length [of "map fst rs"] by (simp add: nat_less_le) blast
  then show ?thesis
    using handle_all_cases [OF mux_inv_new, of rs] match_handler_iff [of "registered rs"]
    by (auto split: sum.splits)
qed

end
