(* ===== verification/JsonScan.thy ===== *)
theory JsonScan
  imports JsonEnc "HOL-Library.Monad_Syntax"
begin

text \<open>
  The JSON readers of \<open>src/control.rs\<close>: the minimal validator \<open>JsonParser\<close>, the scanner \<open>GoJsonScan\<close>
  with the error texts of Go's \<open>encoding/json\<close>, and the \<open>skip_json_*\<close> and \<open>extract_json_*_field\<close>
  functions.  A parser position is the rest of the input.  The three recursive-descent readers have the
  same shape and differ in white space, strings, numbers, literals and error texts; they are the same
  function \<open>scan\<close> at three \<open>dialect\<close>s.  \<open>scan\<close> takes fuel; \<open>None\<close> is out of fuel, which the fuel
  its callers pass excludes.
\<close>

section \<open>Leaves\<close>

definition peek :: "byte list \<Rightarrow> byte option" where
  "peek s = (case s of [] \<Rightarrow> None | b # _ \<Rightarrow> Some b)"

definition is_ascii_whitespace :: "byte \<Rightarrow> bool" where
  "is_ascii_whitespace b \<longleftrightarrow> b = 0x20 \<or> b = 0x09 \<or> b = 0x0a \<or> b = 0x0c \<or> b = 0x0d"

definition go_whitespace :: "byte \<Rightarrow> bool" where
  "go_whitespace b \<longleftrightarrow> b = 0x20 \<or> b = 0x09 \<or> b = 0x0a \<or> b = 0x0d"

definition is_ascii_hexdigit :: "byte \<Rightarrow> bool" where
  "is_ascii_hexdigit b \<longleftrightarrow> is_ascii_digit b \<or> (0x61 \<le> b \<and> b \<le> 0x66) \<or> (0x41 \<le> b \<and> b \<le> 0x46)"

definition simple_escape :: "byte \<Rightarrow> bool" where
  "simple_escape e \<longleftrightarrow> e \<in> {0x22, 0x5c, 0x2f, 0x62, 0x66, 0x6e, 0x72, 0x74}"

text \<open>Four hexadecimal digits; the error texts for the end of input and for another byte.\<close>

fun hex_digits :: "string \<Rightarrow> (byte \<Rightarrow> string) \<Rightarrow> nat \<Rightarrow> byte list \<Rightarrow> string + byte list" where
  "hex_digits eof bad 0 s = Ok s"
| "hex_digits eof bad (Suc n) s =
     (case s of [] \<Rightarrow> Err eof | h # r \<Rightarrow> if is_ascii_hexdigit h then hex_digits eof bad n r else Err (bad h))"

lemma hex_digits_length: "hex_digits eof bad n s = Ok r \<Longrightarrow> length s = length r + n"
  by (induction n arbitrary: s) (auto split: list.splits if_splits)

text \<open>The error texts of a string scanner.\<close>

record string_errors =
  se_eof :: string
  se_esc_eof :: string
  se_hex_eof :: string
  se_hex :: "byte \<Rightarrow> string"
  se_esc :: "byte \<Rightarrow> string"
  se_ctl :: "byte \<Rightarrow> string"

text \<open>A string after its opening quote; returns what follows the closing quote.\<close>

function scan_string :: "string_errors \<Rightarrow> byte list \<Rightarrow> string + byte list" where
  "scan_string er s =
     (case s of
        [] \<Rightarrow> Err (se_eof er)
      | b # r \<Rightarrow>
          if b = 0x22 then Ok r
          else if b = 0x5c then
            (case r of
               [] \<Rightarrow> Err (se_esc_eof er)
             | e # r' \<Rightarrow>
                 if simple_escape e then scan_string er r'
                 else if e = 0x75 then
                   (case hex_digits (se_hex_eof er) (se_hex er) 4 r' of Err m \<Rightarrow> Err m | Ok r'' \<Rightarrow> scan_string er r'')
                 else Err (se_esc er e))
          else if b < 0x20 then Err (se_ctl er b)
          else scan_string er r)"
  by pat_completeness auto
termination
  by (relation "measure (\<lambda>(er, s). length s)") (auto dest: hex_digits_length)

declare scan_string.simps [simp del]

lemmas scan_string_Nil [simp] = scan_string.simps [of _ "[]", simplified]
lemmas scan_string_Cons = scan_string.simps [of _ "b # r" for b r, simplified]

lemma scan_string_length: "scan_string er s = Ok r \<Longrightarrow> length r < length s"
proof (induction "length s" arbitrary: s rule: less_induct)
  case less
  obtain b t where s: "s = b # t"
    using less.prems by (cases s) auto
  consider "b = 0x22" | "b = 0x5c" | "b \<noteq> 0x22" "b \<noteq> 0x5c" by blast
  then show ?case
  proof cases
    case 1
    then show ?thesis using less.prems by (simp add: s scan_string_Cons)
  next
    case 2
    then obtain e u where t: "t = e # u"
      using less.prems by (cases t) (auto simp: s scan_string_Cons)
    show ?thesis
    proof (cases "simple_escape e")
      case True
      then show ?thesis
        using less.prems less.hyps [of u] 2 by (simp add: s t scan_string_Cons)
    next
      case False
      then obtain v where v: "hex_digits (se_hex_eof er) (se_hex er) 4 u = Ok v" "scan_string er v = Ok r"
        using less.prems 2 by (simp add: s t scan_string_Cons split: if_splits sum.splits)
      then show ?thesis
        using less.hyps [of v] hex_digits_length [OF v(1)] by (simp add: s t)
    qed
  next
    case 3
    then show ?thesis
      using less.prems less.hyps [of t] by (simp add: s scan_string_Cons split: if_splits)
  qed
qed

section \<open>The reader\<close>

record dialect =
  d_ws :: "byte \<Rightarrow> bool"
  d_str :: "byte list \<Rightarrow> string + byte list"
  d_num :: "byte list \<Rightarrow> string + byte list"
  d_lit :: "string \<Rightarrow> byte list \<Rightarrow> string + byte list"
  d_err_value :: "byte option \<Rightarrow> string"
  d_err_key :: "byte option \<Rightarrow> string"
  d_err_colon :: "byte option \<Rightarrow> string"
  d_err_member :: "byte option \<Rightarrow> string"
  d_err_element :: "byte option \<Rightarrow> string"

definition skip_ws :: "dialect \<Rightarrow> byte list \<Rightarrow> byte list" where
  "skip_ws d s = dropWhile (d_ws d) s"

text \<open>
  The functions \<open>value\<close>, \<open>object\<close> and \<open>array\<close> and the loops inside the last two.  \<open>scan_step\<close> is their
  bodies, \<open>rec\<close> the calls they make; \<open>scan\<close> ties the knot with the fuel.
\<close>

datatype mode = Value | Object | Members | Arr | Elements

fun scan_step ::
  "dialect \<Rightarrow> (mode \<Rightarrow> byte list \<Rightarrow> (string + byte list) option) \<Rightarrow> mode \<Rightarrow> byte list
   \<Rightarrow> (string + byte list) option" where
  "scan_step d rec Value s0 =
     (let s = skip_ws d s0 in
      case peek s of
        None \<Rightarrow> Some (Err (d_err_value d None))
      | Some b \<Rightarrow>
          if b = 0x7b then rec Object s
          else if b = 0x5b then rec Arr s
          else if b = 0x22 then Some (d_str d (tl s))
          else if b = 0x74 then Some (d_lit d ''true'' s)
          else if b = 0x66 then Some (d_lit d ''false'' s)
          else if b = 0x6e then Some (d_lit d ''null'' s)
          else if is_ascii_digit b \<or> b = 0x2d then Some (d_num d s)
          else Some (Err (d_err_value d (Some b))))"
| "scan_step d rec Object s =
     (let s1 = skip_ws d (tl s) in
      if peek s1 = Some 0x7d then Some (Ok (tl s1)) else rec Members s1)"
| "scan_step d rec Members s =
     (let s1 = skip_ws d s in
      if peek s1 \<noteq> Some 0x22 then Some (Err (d_err_key d (peek s1)))
      else (case d_str d (tl s1) of
              Err e \<Rightarrow> Some (Err e)
            | Ok s2 \<Rightarrow>
                let s3 = skip_ws d s2 in
                if peek s3 \<noteq> Some 0x3a then Some (Err (d_err_colon d (peek s3)))
                else do {
                  v \<leftarrow> rec Value (tl s3);
                  (case v of
                     Err e \<Rightarrow> Some (Err e)
                   | Ok s4 \<Rightarrow>
                       let s5 = skip_ws d s4 in
                       if peek s5 = Some 0x7d then Some (Ok (tl s5))
                       else if peek s5 = Some 0x2c then rec Members (tl s5)
                       else Some (Err (d_err_member d (peek s5))))
                }))"
| "scan_step d rec Arr s =
     (let s1 = skip_ws d (tl s) in
      if peek s1 = Some 0x5d then Some (Ok (tl s1)) else rec Elements s1)"
| "scan_step d rec Elements s =
     do {
       v \<leftarrow> rec Value s;
       (case v of
          Err e \<Rightarrow> Some (Err e)
        | Ok s4 \<Rightarrow>
            let s5 = skip_ws d s4 in
            if peek s5 = Some 0x5d then Some (Ok (tl s5))
            else if peek s5 = Some 0x2c then rec Elements (tl s5)
            else Some (Err (d_err_element d (peek s5))))
     }"

fun scan :: "dialect \<Rightarrow> nat \<Rightarrow> mode \<Rightarrow> byte list \<Rightarrow> (string + byte list) option" where
  "scan d 0 m s = None"
| "scan d (Suc n) m s = scan_step d (scan d n) m s"

text \<open>Fuel that is enough: three calls per byte at most.\<close>

definition enough :: "mode \<Rightarrow> byte list \<Rightarrow> nat" where
  "enough m s = 3 * length s + (case m of Value \<Rightarrow> 3 | Object \<Rightarrow> 2 | Members \<Rightarrow> 4 | Arr \<Rightarrow> 2 | Elements \<Rightarrow> 4)"

section \<open>The minimal validator\<close>

definition min_string_errors :: string_errors where
  "min_string_errors = \<lparr>se_eof = ''unterminated string'', se_esc_eof = ''truncated escape'',
     se_hex_eof = ''truncated unicode escape'', se_hex = (\<lambda>_. ''invalid unicode escape''),
     se_esc = (\<lambda>_. ''invalid escape''), se_ctl = (\<lambda>_. ''control char in string'')\<rparr>"

text \<open>A number, leniently: the digits may be missing anywhere.\<close>

definition skip_digits :: "byte list \<Rightarrow> byte list" where
  "skip_digits s = dropWhile is_ascii_digit s"

definition skip_sign :: "byte list \<Rightarrow> byte list" where
  "skip_sign s = (if peek s = Some 0x2d then tl s else s)"

definition skip_integer :: "byte list \<Rightarrow> byte list" where
  "skip_integer s = (if peek s = Some 0x30 then tl s else skip_digits s)"

definition skip_fraction :: "byte list \<Rightarrow> byte list" where
  "skip_fraction s = (if peek s = Some 0x2e then skip_digits (tl s) else s)"

definition skip_exponent :: "byte list \<Rightarrow> byte list" where
  "skip_exponent s =
     (if peek s = Some 0x65 \<or> peek s = Some 0x45 then
        let s1 = tl s; s2 = (if peek s1 = Some 0x2b \<or> peek s1 = Some 0x2d then tl s1 else s1) in skip_digits s2
      else s)"

definition parse_number :: "byte list \<Rightarrow> byte list" where
  "parse_number s = skip_exponent (skip_fraction (skip_integer (skip_sign s)))"

fun expect_bytes :: "byte list \<Rightarrow> byte list \<Rightarrow> string + byte list" where
  "expect_bytes [] s = Ok s"
| "expect_bytes (e # es) s = (if peek s = Some e then expect_bytes es (tl s) else Err ''invalid literal'')"

definition expect_literal :: "string \<Rightarrow> byte list \<Rightarrow> string + byte list" where
  "expect_literal lit s = expect_bytes (as_bytes lit) s"

definition min_dialect :: dialect where
  "min_dialect = \<lparr>d_ws = is_ascii_whitespace, d_str = scan_string min_string_errors,
     d_num = (\<lambda>s. Ok (parse_number s)), d_lit = expect_literal,
     d_err_value = (\<lambda>_. ''invalid JSON value''), d_err_key = (\<lambda>_. ''expected object key''),
     d_err_colon = (\<lambda>_. ''expected colon''), d_err_member = (\<lambda>_. ''expected comma or closing brace''),
     d_err_element = (\<lambda>_. ''expected comma or closing bracket'')\<rparr>"

definition parse_json_value :: "byte list \<Rightarrow> (string + unit) option" where
  "parse_json_value input =
     do {
       v \<leftarrow> scan min_dialect (enough Value input) Value input;
       Some (case v of
               Err e \<Rightarrow> Err e
             | Ok r \<Rightarrow> if skip_ws min_dialect r \<noteq> [] then Err ''trailing data'' else Ok ())
     }"

definition trim_ascii_whitespace :: "byte list \<Rightarrow> byte list" where
  "trim_ascii_whitespace bytes =
     (let start = (case position (\<lambda>b. \<not> is_ascii_whitespace b) bytes of Some i \<Rightarrow> i | None \<Rightarrow> length bytes);
          stop = (case rposition (\<lambda>b. \<not> is_ascii_whitespace b) bytes of Some i \<Rightarrow> i + 1 | None \<Rightarrow> start)
      in slice start stop bytes)"

definition validate_json_syntax :: "byte list \<Rightarrow> (string + unit) option" where
  "validate_json_syntax raw =
     (let trimmed = trim_ascii_whitespace raw in
      if trimmed = [] then Some (Ok ())
      else do {
        v \<leftarrow> parse_json_value trimmed;
        Some (case v of Ok _ \<Rightarrow> Ok () | Err e \<Rightarrow> Err (''parse JSON body: '' @ e))
      })"

definition MAX_JSON_BODY_BYTES :: nat where "MAX_JSON_BODY_BYTES = 1048576"

text \<open>\<open>read_json_body\<close> from the buffered body, and \<open>parse_json_body\<close>.\<close>

definition read_json_body :: "byte list \<Rightarrow> byte list" where
  "read_json_body body = take MAX_JSON_BODY_BYTES body"

definition parse_json_body :: "byte list \<Rightarrow> (string + byte list) option" where
  "parse_json_body body =
     (let raw = read_json_body body in
      if raw = [] then Some (Ok raw)
      else do {
        v \<leftarrow> validate_json_syntax raw;
        Some (case v of Err e \<Rightarrow> Err e | Ok _ \<Rightarrow> Ok raw)
      })"

section \<open>The scanner with Go's error texts\<close>

definition GO_JSON_EOF :: string where
  "GO_JSON_EOF = ''unexpected end of JSON input''"

definition hex2 :: "nat \<Rightarrow> string" where
  "hex2 n = (let h = show_hex n in replicate (2 - length h) (CHR ''0'') @ h)"

definition go_quote_char :: "byte \<Rightarrow> string" where
  "go_quote_char c =
     (let q = [byte_char 0x27]; bs = [byte_char 0x5c] in
      if c = 0x27 then q @ bs @ q @ q
      else if c = 0x22 then q @ [byte_char 0x22] @ q
      else if c = 0x5c then q @ bs @ bs @ q
      else if c = 0x07 then q @ bs @ ''a'' @ q
      else if c = 0x08 then q @ bs @ ''b'' @ q
      else if c = 0x0c then q @ bs @ ''f'' @ q
      else if c = 0x0a then q @ bs @ ''n'' @ q
      else if c = 0x0d then q @ bs @ ''r'' @ q
      else if c = 0x09 then q @ bs @ ''t'' @ q
      else if c = 0x0b then q @ bs @ ''v'' @ q
      else if 0x20 \<le> c \<and> c \<le> 0x7e then q @ [byte_char c] @ q
      else q @ bs @ ''x'' @ hex2 (unat c) @ q)"

definition go_invalid :: "string \<Rightarrow> byte \<Rightarrow> string" where
  "go_invalid what c = ''invalid character '' @ go_quote_char c @ what"

definition go_err :: "string \<Rightarrow> byte option \<Rightarrow> string" where
  "go_err what c = (case c of None \<Rightarrow> GO_JSON_EOF | Some b \<Rightarrow> go_invalid what b)"

definition go_string_errors :: string_errors where
  "go_string_errors = \<lparr>se_eof = GO_JSON_EOF, se_esc_eof = GO_JSON_EOF, se_hex_eof = GO_JSON_EOF,
     se_hex = go_invalid ('' in '' @ [byte_char 0x5c] @ ''u hexadecimal character escape''),
     se_esc = go_invalid '' in string escape code'', se_ctl = go_invalid '' in string literal''\<rparr>"

fun go_literal_rest :: "string \<Rightarrow> byte list \<Rightarrow> byte list \<Rightarrow> string + byte list" where
  "go_literal_rest lit [] s = Ok s"
| "go_literal_rest lit (want # ws) s =
     (case s of
        [] \<Rightarrow> Err GO_JSON_EOF
      | c # r \<Rightarrow>
          if c = want then go_literal_rest lit ws r
          else Err (go_invalid ('' in literal '' @ lit @ '' (expecting '' @ go_quote_char want @ '')'') c))"

definition go_literal :: "string \<Rightarrow> byte list \<Rightarrow> string + byte list" where
  "go_literal lit s = go_literal_rest lit (tl (as_bytes lit)) (tl s)"

text \<open>At least one digit, then the others.\<close>

definition go_digits :: "string \<Rightarrow> byte list \<Rightarrow> string + byte list" where
  "go_digits what s =
     (case peek s of
        None \<Rightarrow> Err GO_JSON_EOF
      | Some c \<Rightarrow> if is_ascii_digit c then Ok (skip_digits s) else Err (go_invalid what c))"

definition go_integer :: "byte list \<Rightarrow> string + byte list" where
  "go_integer s =
     (if peek s = Some 0x30 then Ok (tl s) else go_digits '' in numeric literal'' s)"

definition go_fraction :: "byte list \<Rightarrow> string + byte list" where
  "go_fraction s =
     (if peek s = Some 0x2e then go_digits '' after decimal point in numeric literal'' (tl s) else Ok s)"

definition go_exponent :: "byte list \<Rightarrow> string + byte list" where
  "go_exponent s =
     (if peek s = Some 0x65 \<or> peek s = Some 0x45 then
        let s1 = tl s; s2 = (if peek s1 = Some 0x2b \<or> peek s1 = Some 0x2d then tl s1 else s1)
        in go_digits '' in exponent of numeric literal'' s2
      else Ok s)"

definition go_number :: "byte list \<Rightarrow> string + byte list" where
  "go_number s =
     (case go_integer (skip_sign s) of
        Err e \<Rightarrow> Err e
      | Ok s1 \<Rightarrow> (case go_fraction s1 of Err e \<Rightarrow> Err e | Ok s2 \<Rightarrow> go_exponent s2))"

definition go_dialect :: dialect where
  "go_dialect = \<lparr>d_ws = go_whitespace, d_str = scan_string go_string_errors, d_num = go_number, d_lit = go_literal,
     d_err_value = go_err '' looking for beginning of value'',
     d_err_key = go_err '' looking for beginning of object key string'',
     d_err_colon = go_err '' after object key'', d_err_member = go_err '' after object key:value pair'',
     d_err_element = go_err '' after array element''\<rparr>"

definition go_json_syntax_check :: "byte list \<Rightarrow> (string + unit) option" where
  "go_json_syntax_check raw =
     do {
       v \<leftarrow> scan go_dialect (enough Value raw) Value raw;
       Some (case v of
               Err e \<Rightarrow> Err e
             | Ok r \<Rightarrow> (case skip_ws go_dialect r of [] \<Rightarrow> Ok () | c # _ \<Rightarrow> Err (go_invalid '' after top-level value'' c)))
     }"

section \<open>Field extraction\<close>

text \<open>\<open>read_json_string\<close> after its opening quote: no escapes; the text must be UTF-8.\<close>

fun read_plain :: "byte list \<Rightarrow> byte list \<Rightarrow> string + (string \<times> byte list)" where
  "read_plain acc [] = Err ''unterminated string''"
| "read_plain acc (b # r) =
     (if b = 0x22 then (if utf8_valid acc then Ok (of_bytes acc, r) else Err ''invalid UTF-8'')
      else if b = 0x5c then Err ''escaped key not supported''
      else if b < 0x20 then Err ''control char in string''
      else read_plain (acc @ [b]) r)"

definition read_json_string :: "byte list \<Rightarrow> string + (string \<times> byte list)" where
  "read_json_string s = (if peek s \<noteq> Some 0x22 then Err ''expected string key'' else read_plain [] (tl s))"

definition read_json_bool :: "byte list \<Rightarrow> string + (bool \<times> byte list)" where
  "read_json_bool s =
     (if take 4 s = as_bytes ''true'' then Ok (True, drop 4 s)
      else if take 5 s = as_bytes ''false'' then Ok (False, drop 5 s)
      else if take 4 s = as_bytes ''null'' then Ok (False, drop 4 s)
      else Err ''expected bool'')"

text \<open>The \<open>skip_json_*\<close> functions.\<close>

definition skip_dialect :: dialect where
  "skip_dialect = \<lparr>d_ws = is_ascii_whitespace, d_str = (\<lambda>s. map_sum id snd (read_plain [] s)),
     d_num = (\<lambda>s. Ok (parse_number s)), d_lit = expect_literal,
     d_err_value = (\<lambda>_. ''invalid JSON value''), d_err_key = (\<lambda>_. ''expected string key''),
     d_err_colon = (\<lambda>_. ''expected colon''), d_err_member = (\<lambda>_. ''expected comma or closing brace''),
     d_err_element = (\<lambda>_. ''expected comma or closing bracket'')\<rparr>"

definition skip_json_ws :: "byte list \<Rightarrow> byte list" where
  "skip_json_ws s = dropWhile is_ascii_whitespace s"

definition skip_json_value :: "byte list \<Rightarrow> (string + byte list) option" where
  "skip_json_value s = scan skip_dialect (enough Value s) Value s"

text \<open>
  The member loop of \<open>extract_json_string_field\<close> and \<open>extract_json_bool_field\<close>, which differ only in the
  reader of the wanted value; the last match wins.  Fuel: one member per unit.
\<close>

fun extract_loop ::
  "(byte list \<Rightarrow> string + ('v \<times> byte list)) \<Rightarrow> string \<Rightarrow> nat \<Rightarrow> 'v option \<Rightarrow> byte list \<Rightarrow> (string + 'v) option" where
  "extract_loop rd key 0 lst s = None"
| "extract_loop rd key (Suc n) lst s0 =
     (case read_json_string (skip_json_ws s0) of
        Err e \<Rightarrow> Some (Err e)
      | Ok (k, s1) \<Rightarrow>
          let s2 = skip_json_ws s1 in
          if peek s2 \<noteq> Some 0x3a then Some (Err ''expected colon'')
          else
            let s3 = skip_json_ws (tl s2) in
            do {
              v \<leftarrow> (if eq_ignore_ascii_case k key
                     then Some (case rd s3 of Err e \<Rightarrow> Err e | Ok (x, s4) \<Rightarrow> Ok (Some x, s4))
                     else do {
                       r \<leftarrow> skip_json_value s3;
                       Some (case r of Err e \<Rightarrow> Err e | Ok s4 \<Rightarrow> Ok (lst, s4))
                     });
              (case v of
                 Err e \<Rightarrow> Some (Err e)
               | Ok (lst', s4) \<Rightarrow>
                   let s5 = skip_json_ws s4 in
                   if peek s5 = Some 0x2c then extract_loop rd key n lst' (tl s5)
                   else if peek s5 = Some 0x7d
                     then Some (case lst' of Some x \<Rightarrow> Ok x | None \<Rightarrow> Err ''missing field'')
                   else Some (Err ''expected comma or closing brace''))
            })"

definition extract_field ::
  "(byte list \<Rightarrow> string + ('v \<times> byte list)) \<Rightarrow> byte list \<Rightarrow> string \<Rightarrow> (string + 'v) option" where
  "extract_field rd input want_key =
     (let bytes = trim_ascii_whitespace input in
      if peek bytes \<noteq> Some 0x7b then Some (Err ''expected object'')
      else
        let s = skip_json_ws (tl bytes) in
        if peek s = Some 0x7d then Some (Err ''missing field'')
        else extract_loop rd want_key (length bytes) None s)"

definition extract_json_string_field :: "byte list \<Rightarrow> string \<Rightarrow> (string + string) option" where
  "extract_json_string_field = extract_field read_json_string"

definition extract_json_bool_field :: "byte list \<Rightarrow> string \<Rightarrow> (string + bool) option" where
  "extract_json_bool_field = extract_field read_json_bool"

end
