(* ===== verification/JsonGrammar.thy ===== *)
theory JsonGrammar
  imports JsonScan
begin

text \<open>
  What the JSON readers of \<open>JsonScan\<close> accept.  The reference is the grammar of RFC 8259 as inductive
  predicates over byte sequences.  \<open>GoJsonScan\<close> accepts exactly it, \<open>JsonParser\<close> accepts it and more, and
  everything the encoder of \<open>JsonEnc\<close> prints is in it.  The fuel the callers of \<open>scan\<close> pass is always
  enough, so no reader can fail to answer.
\<close>

section \<open>The grammar\<close>

definition jws :: "byte list \<Rightarrow> bool" where
  "jws p \<longleftrightarrow> list_all go_whitespace p"

inductive jchars :: "byte list \<Rightarrow> bool" where
  jchars_nil: "jchars []"
| jchars_plain: "b \<noteq> 0x22 \<Longrightarrow> b \<noteq> 0x5c \<Longrightarrow> \<not> b < 0x20 \<Longrightarrow> jchars p \<Longrightarrow> jchars (b # p)"
| jchars_escape: "simple_escape e \<Longrightarrow> jchars p \<Longrightarrow> jchars (0x5c # e # p)"
| jchars_unicode: "list_all is_ascii_hexdigit h \<Longrightarrow> length h = 4 \<Longrightarrow> jchars p \<Longrightarrow> jchars (0x5c # 0x75 # h @ p)"

definition jdigits :: "byte list \<Rightarrow> bool" where
  "jdigits p \<longleftrightarrow> p \<noteq> [] \<and> list_all is_ascii_digit p"

definition jsign :: "byte list \<Rightarrow> bool" where
  "jsign p \<longleftrightarrow> p = [] \<or> p = [0x2d]"

definition jint :: "byte list \<Rightarrow> bool" where
  "jint p \<longleftrightarrow> p = [0x30] \<or> (jdigits p \<and> hd p \<noteq> 0x30)"

definition jfrac :: "byte list \<Rightarrow> bool" where
  "jfrac p \<longleftrightarrow> p = [] \<or> (\<exists>ds. p = 0x2e # ds \<and> jdigits ds)"

definition jexp :: "byte list \<Rightarrow> bool" where
  "jexp p \<longleftrightarrow> p = [] \<or> (\<exists>m sg ds. p = m # sg @ ds \<and> (m = 0x65 \<or> m = 0x45)
      \<and> (sg = [] \<or> sg = [0x2b] \<or> sg = [0x2d]) \<and> jdigits ds)"

definition jnumber :: "byte list \<Rightarrow> bool" where
  "jnumber p \<longleftrightarrow> (\<exists>sg i f e. p = sg @ i @ f @ e \<and> jsign sg \<and> jint i \<and> jfrac f \<and> jexp e)"

inductive jvalue :: "byte list \<Rightarrow> bool"
  and jmembers :: "byte list \<Rightarrow> bool"
  and jelements :: "byte list \<Rightarrow> bool" where
  jvalue_lit: "l \<in> {''true'', ''false'', ''null''} \<Longrightarrow> jvalue (as_bytes l)"
| jvalue_number: "jnumber p \<Longrightarrow> jvalue p"
| jvalue_string: "jchars p \<Longrightarrow> jvalue (0x22 # p @ [0x22])"
| jvalue_empty_object: "jws w \<Longrightarrow> jvalue (0x7b # w @ [0x7d])"
| jvalue_object: "jmembers p \<Longrightarrow> jvalue (0x7b # p @ [0x7d])"
| jvalue_empty_array: "jws w \<Longrightarrow> jvalue (0x5b # w @ [0x5d])"
| jvalue_array: "jelements p \<Longrightarrow> jvalue (0x5b # p @ [0x5d])"
| jmembers_last: "jws w1 \<Longrightarrow> jchars k \<Longrightarrow> jws w2 \<Longrightarrow> jws w3 \<Longrightarrow> jvalue v \<Longrightarrow> jws w4 \<Longrightarrow>
    jmembers (w1 @ 0x22 # k @ 0x22 # w2 @ 0x3a # w3 @ v @ w4)"
| jmembers_more: "jws w1 \<Longrightarrow> jchars k \<Longrightarrow> jws w2 \<Longrightarrow> jws w3 \<Longrightarrow> jvalue v \<Longrightarrow> jws w4 \<Longrightarrow> jmembers p \<Longrightarrow>
    jmembers (w1 @ 0x22 # k @ 0x22 # w2 @ 0x3a # w3 @ v @ w4 @ 0x2c # p)"
| jelements_last: "jws w1 \<Longrightarrow> jvalue v \<Longrightarrow> jws w2 \<Longrightarrow> jelements (w1 @ v @ w2)"
| jelements_more: "jws w1 \<Longrightarrow> jvalue v \<Longrightarrow> jws w2 \<Longrightarrow> jelements p \<Longrightarrow> jelements (w1 @ v @ w2 @ 0x2c # p)"

definition json_text :: "byte list \<Rightarrow> bool" where
  "json_text s \<longleftrightarrow> (\<exists>w1 p w2. s = w1 @ p @ w2 \<and> jws w1 \<and> jvalue p \<and> jws w2)"

text \<open>What may follow a value inside a text: white space or one of the three structural characters.\<close>

definition follow :: "byte list \<Rightarrow> bool" where
  "follow r \<longleftrightarrow> (case r of [] \<Rightarrow> True | b # _ \<Rightarrow> go_whitespace b \<or> b = 0x2c \<or> b = 0x5d \<or> b = 0x7d)"

section \<open>Fuel\<close>

lemma bind_mono:
  assumes "\<And>x. a = Some x \<Longrightarrow> b = Some x" "\<And>x w. k x = Some w \<Longrightarrow> k' x = Some w" "Option.bind a k = Some v"
  shows "Option.bind b k' = Some v"
  using assms by (cases a) auto

lemma scan_step_mono:
  assumes fg: "\<And>m s v. f m s = Some v \<Longrightarrow> g m s = Some v" and step: "scan_step d f m s = Some v"
  shows "scan_step d g m s = Some v"
proof (cases m)
  case Members
  show ?thesis
    using step unfolding Members
    by (auto simp: Let_def split: if_splits sum.splits intro: fg elim!: bind_mono [rotated 2])
next
  case Elements
  show ?thesis
    using step unfolding Elements
    by (auto simp: Let_def split: if_splits sum.splits intro: fg elim!: bind_mono [rotated 2])
qed (use step in \<open>auto simp: Let_def fg split: option.splits if_splits\<close>)

lemma scan_more_fuel: "scan d n m s = Some v \<Longrightarrow> n \<le> k \<Longrightarrow> scan d k m s = Some v"
proof (induction n arbitrary: k m s v)
  case (Suc n)
  then obtain j where k: "k = Suc j" "n \<le> j" by (cases k) auto
  have "scan d n m s = Some v \<Longrightarrow> scan d j m s = Some v" for m s v using Suc.IH k(2) by blast
  from scan_step_mono [OF this] show ?case using Suc.prems(1) by (simp add: k del: scan_step.simps)
qed simp

lemma peek_Some: "peek s = Some b \<Longrightarrow> s = b # tl s"
  by (cases s) (simp_all add: peek_def)

lemma peek_Cons [simp]: "peek (b # s) = Some b"
  by (simp add: peek_def)

lemma peek_Nil [simp]: "peek [] = None"
  by (simp add: peek_def)

lemma length_skip_ws: "length (skip_ws d s) \<le> length s"
  by (simp add: skip_ws_def length_dropWhile_le)

text \<open>After one structural byte less is left than before.\<close>

lemma tl_skip_ws_shorter: "peek (skip_ws d s) = Some b \<Longrightarrow> length (tl (skip_ws d s)) < length s"
  using length_skip_ws [of d s] peek_Some [of "skip_ws d s" b] by (cases "skip_ws d s") auto

text \<open>The law of a reader whose leaves only move forward; it answers on every input.\<close>

locale scanner =
  fixes d :: dialect
  assumes str_forward: "d_str d s = Ok r \<Longrightarrow> length r \<le> length s"
    and num_forward: "d_num d s = Ok r \<Longrightarrow> length r \<le> length s"
    and lit_forward: "d_lit d l s = Ok r \<Longrightarrow> length r \<le> length s"
begin

definition answers :: "nat \<Rightarrow> mode \<Rightarrow> byte list \<Rightarrow> bool" where
  "answers n m s \<longleftrightarrow> (\<exists>v. scan d n m s = Some v \<and> (\<forall>r. v = Ok r \<longrightarrow> length r \<le> length s))"

lemma answersE:
  assumes "answers n m s"
  obtains e where "scan d n m s = Some (Err e)" | r where "scan d n m s = Some (Ok r)" "length r \<le> length s"
  using assms by (cases "scan d n m s") (auto simp: answers_def split: sum.splits, metis sum.exhaust)

lemma answers_value:
  assumes "\<And>m s. enough m s \<le> n \<Longrightarrow> m \<in> {Object, Arr} \<longrightarrow> s \<noteq> [] \<Longrightarrow> answers n m s"
    and "enough Value s \<le> Suc n"
  shows "answers (Suc n) Value s"
proof -
  let ?s = "skip_ws d s"
  have len: "length ?s \<le> length s" by (rule length_skip_ws)
  have sub: "\<exists>v. scan d n m ?s = Some v \<and> (\<forall>r. v = Ok r \<longrightarrow> length r \<le> length s)"
    if "m \<in> {Object, Arr}" "?s \<noteq> []" for m
  proof -
    have "enough m ?s \<le> n" using that assms(2) len by (auto simp: enough_def)
    then have "answers n m ?s" using assms(1) that by blast
    then show ?thesis using len by (auto elim!: answersE)
  qed
  show ?thesis
  proof (cases ?s)
    case Nil
    then show ?thesis by (simp add: answers_def Let_def)
  next
    case (Cons b t)
    have "length t \<le> length s" "length (b # t) \<le> length s" using len Cons by simp_all
    then show ?thesis
      using sub [unfolded Cons] by (auto simp: answers_def Let_def Cons dest: str_forward num_forward lit_forward)
  qed
qed

lemma answers_members:
  assumes IH: "\<And>m s. enough m s \<le> n \<Longrightarrow> m \<in> {Object, Arr} \<longrightarrow> s \<noteq> [] \<Longrightarrow> answers n m s"
    and fuel: "enough Members s \<le> Suc n"
  shows "answers (Suc n) Members s"
proof (cases "peek (skip_ws d s) = Some 0x22")
  case True
  let ?s1 = "skip_ws d s"
  have l1: "length (tl ?s1) < length s" using tl_skip_ws_shorter [OF True] .
  show ?thesis
  proof (cases "d_str d (tl ?s1)")
    case (Inr s2)
    let ?s3 = "skip_ws d s2"
    have l2: "length s2 < length s" using str_forward [OF Inr] l1 by simp
    show ?thesis
    proof (cases "peek ?s3 = Some 0x3a")
      case colon: True
      have l3: "length (tl ?s3) < length s" using tl_skip_ws_shorter [OF colon] l2 by simp
      then have "answers n Value (tl ?s3)" using fuel by (intro IH) (simp_all add: enough_def)
      then show ?thesis
      proof (cases rule: answersE)
        case (1 e)
        then show ?thesis using True Inr colon by (simp add: answers_def Let_def)
      next
        case (2 s4)
        let ?s5 = "skip_ws d s4"
        have l4: "length (tl ?s5) < length s" if "peek ?s5 = Some b" for b
          using tl_skip_ws_shorter [OF that] 2(2) l3 by simp
        have "answers n Members (tl ?s5)" if "peek ?s5 = Some 0x2c"
          using l4 [OF that] fuel by (intro IH) (simp_all add: enough_def)
        then show ?thesis
          using True Inr colon 2(1) l4 by (fastforce simp: answers_def Let_def)
      qed
    qed (simp add: answers_def Let_def True Inr)
  qed (simp add: answers_def Let_def True)
qed (simp add: answers_def Let_def)

lemma answers_elements:
  assumes IH: "\<And>m s. enough m s \<le> n \<Longrightarrow> m \<in> {Object, Arr} \<longrightarrow> s \<noteq> [] \<Longrightarrow> answers n m s"
    and fuel: "enough Elements s \<le> Suc n"
  shows "answers (Suc n) Elements s"
proof -
  have "answers n Value s" using fuel by (intro IH) (simp_all add: enough_def)
  then show ?thesis
  proof (cases rule: answersE)
    case (1 e)
    then show ?thesis by (simp add: answers_def Let_def)
  next
    case (2 s4)
    let ?s5 = "skip_ws d s4"
    have l4: "length (tl ?s5) < length s" if "peek ?s5 = Some b" for b
      using tl_skip_ws_shorter [OF that] 2(2) by simp
    have "answers n Elements (tl ?s5)" if "peek ?s5 = Some 0x2c"
      using l4 [OF that] fuel by (intro IH) (simp_all add: enough_def)
    then show ?thesis using 2(1) l4 by (fastforce simp: answers_def Let_def)
  qed
qed

lemma scan_answers: "enough m s \<le> n \<Longrightarrow> m \<in> {Object, Arr} \<longrightarrow> s \<noteq> [] \<Longrightarrow> answers n m s"
proof (induction n arbitrary: m s)
  case 0
  then show ?case by (simp add: enough_def split: mode.splits)
next
  case (Suc n)
  have obj: "answers (Suc n) m s" if m: "m \<in> {Object, Arr}"
  proof -
    have tls: "length (tl s) < length s" using Suc.prems(2) m by (cases s) auto
    then have len: "length (skip_ws d (tl s)) < length s" using length_skip_ws [of d "tl s"] by simp
    then have "answers n Members (skip_ws d (tl s))" if "m = Object"
      using Suc.prems(1) that by (intro Suc.IH) (simp_all add: enough_def)
    moreover have "answers n Elements (skip_ws d (tl s))" if "m = Arr"
      using len Suc.prems(1) that by (intro Suc.IH) (simp_all add: enough_def)
    ultimately show ?thesis using m len by (fastforce simp: answers_def Let_def)
  qed
  show ?case
    using answers_value [of n s] answers_members [of n s] answers_elements [of n s] Suc obj by (cases m) blast+
qed

lemma scan_total: "\<exists>v. scan d (enough Value s) Value s = Some v \<and> (\<forall>r. v = Ok r \<longrightarrow> length r \<le> length s)"
  using scan_answers [of Value s "enough Value s"] by (simp add: answers_def)

text \<open>The fuel of the callers gives what any fuel gives.\<close>

lemma scan_fuel_irrelevant:
  assumes "scan d n Value s = Some v"
  shows "scan d (enough Value s) Value s = Some v"
proof -
  obtain u where u: "scan d (enough Value s) Value s = Some u" using scan_total by blast
  let ?k = "max n (enough Value s)"
  have "scan d ?k Value s = Some v" "scan d ?k Value s = Some u"
    using scan_more_fuel [OF assms, of ?k] scan_more_fuel [OF u, of ?k] by simp_all
  then show ?thesis using u by simp
qed

end

section \<open>The leaves\<close>

lemma length_skip_digits: "length (skip_digits s) \<le> length s"
  by (simp add: skip_digits_def length_dropWhile_le)

lemma length_parse_number: "length (parse_number s) \<le> length s"
proof -
  have t: "length (tl s) \<le> length s" for s :: "byte list" by simp
  have "length (skip_sign s) \<le> length s" "length (skip_integer s) \<le> length s"
    "length (skip_fraction s) \<le> length s" "length (skip_exponent s) \<le> length s" for s
    using length_skip_digits [of s] length_skip_digits [of "tl s"] length_skip_digits [of "tl (tl s)"] t [of s]
    by (auto simp: skip_sign_def skip_integer_def skip_fraction_def skip_exponent_def Let_def)
  then show ?thesis unfolding parse_number_def by (meson le_trans)
qed

lemma length_expect_bytes: "expect_bytes es s = Ok r \<Longrightarrow> length r \<le> length s"
  by (induction es arbitrary: s) (fastforce split: if_splits)+

lemma length_go_literal: "go_literal l s = Ok r \<Longrightarrow> length r \<le> length s"
proof -
  have "go_literal_rest l ws t = Ok r \<Longrightarrow> length r \<le> length t" for ws t
    by (induction ws arbitrary: t) (fastforce split: if_splits list.splits)+
  then show "go_literal l s = Ok r \<Longrightarrow> length r \<le> length s" by (fastforce simp: go_literal_def)
qed

lemma length_read_plain: "read_plain acc s = Ok (x, r) \<Longrightarrow> length r < length s"
  by (induction acc s rule: read_plain.induct) (auto split: if_splits)

lemma length_go_digits: "go_digits w s = Ok r \<Longrightarrow> length r \<le> length s"
  using length_skip_digits [of s] by (auto simp: go_digits_def split: option.splits if_splits)

lemma length_go_number: "go_number s = Ok r \<Longrightarrow> length r \<le> length s"
proof -
  have le_tl: "length x \<le> length (tl y) \<Longrightarrow> length x \<le> length y" for x y :: "byte list" by simp
  have i: "go_integer s = Ok r \<Longrightarrow> length r \<le> length s" for s r
    by (auto simp: go_integer_def dest: length_go_digits split: if_splits)
  have f: "go_fraction s = Ok r \<Longrightarrow> length r \<le> length s" for s r
    by (auto simp: go_fraction_def dest!: length_go_digits split: if_splits)
  have e: "go_exponent s = Ok r \<Longrightarrow> length r \<le> length s" for s r
    by (auto simp: go_exponent_def Let_def dest!: length_go_digits split: if_splits)
  have "length (skip_sign s) \<le> length s" by (simp add: skip_sign_def)
  then show "go_number s = Ok r \<Longrightarrow> length r \<le> length s"
    using i f e unfolding go_number_def by (fastforce split: sum.splits)
qed

interpretation min_reader: scanner min_dialect
  by unfold_locales
    (auto simp: min_dialect_def expect_literal_def length_parse_number
      dest: scan_string_length length_expect_bytes)

interpretation go_reader: scanner go_dialect
  by unfold_locales
    (auto simp: go_dialect_def dest: scan_string_length length_go_number length_go_literal)

interpretation skip_reader: scanner skip_dialect
  by unfold_locales
    (auto simp: skip_dialect_def expect_literal_def length_parse_number map_sum_def
      dest: length_read_plain length_expect_bytes split: sum.splits)

section \<open>Numbers\<close>

lemma dropWhile_block: "list_all P p \<Longrightarrow> dropWhile P (p @ r) = dropWhile P r"
  by (induction p) auto

lemma skip_digits_block:
  "jdigits p \<Longrightarrow> (case r of [] \<Rightarrow> True | b # _ \<Rightarrow> \<not> is_ascii_digit b) \<Longrightarrow> skip_digits (p @ r) = r"
  by (auto simp: skip_digits_def jdigits_def dropWhile_block split: list.splits)

text \<open>A block of at least one digit is read whole, by the lenient and by the strict reader.\<close>

lemma go_digits_block:
  "jdigits p \<Longrightarrow> (case r of [] \<Rightarrow> True | b # _ \<Rightarrow> \<not> is_ascii_digit b) \<Longrightarrow> go_digits w (p @ r) = Ok r"
  using skip_digits_block [of p r] by (cases p) (auto simp: go_digits_def jdigits_def)

lemma skip_digits_split: "\<exists>p. s = p @ skip_digits s \<and> list_all is_ascii_digit p"
  using takeWhile_dropWhile_id [of is_ascii_digit s]
  by (metis list_all_iff set_takeWhileD skip_digits_def)

lemma go_digits_sound: "go_digits w s = Ok r \<Longrightarrow> \<exists>p. s = p @ r \<and> jdigits p"
proof -
  assume a: "go_digits w s = Ok r"
  then obtain b t where s: "s = b # t" "is_ascii_digit b" and r: "r = skip_digits s"
    by (cases s) (auto simp: go_digits_def split: if_splits)
  obtain p where "s = p @ r" "list_all is_ascii_digit p" using skip_digits_split r by blast
  moreover have "length r < length s"
    using s r length_dropWhile_le [of is_ascii_digit t] by (simp add: skip_digits_def)
  ultimately show ?thesis by (auto simp: jdigits_def)
qed

definition not_digit :: "byte list \<Rightarrow> bool" where
  "not_digit r \<longleftrightarrow> (case r of [] \<Rightarrow> True | b # _ \<Rightarrow> \<not> is_ascii_digit b)"

definition number_ends :: "byte list \<Rightarrow> bool" where
  "number_ends r \<longleftrightarrow> (case r of [] \<Rightarrow> True | b # _ \<Rightarrow> \<not> is_ascii_digit b \<and> b \<noteq> 0x2e \<and> b \<noteq> 0x65 \<and> b \<noteq> 0x45)"

lemma not_digit_bytes [simp]:
  "\<not> is_ascii_digit 0x2d" "\<not> is_ascii_digit 0x2b" "\<not> is_ascii_digit 0x2e" "\<not> is_ascii_digit 0x65" "\<not> is_ascii_digit 0x45"
  "is_ascii_digit 0x30"
  by (simp_all add: is_ascii_digit_def)

lemma number_ends_not_digit: "number_ends r \<Longrightarrow> not_digit r"
  by (simp add: number_ends_def not_digit_def split: list.splits)

lemma jexp_ends: "jexp e \<Longrightarrow> number_ends r \<Longrightarrow> not_digit (e @ r)"
  using number_ends_not_digit [of r] by (auto simp: jexp_def not_digit_def)

lemma jfrac_ends: "jfrac f \<Longrightarrow> jexp e \<Longrightarrow> number_ends r \<Longrightarrow> not_digit (f @ e @ r)"
  using jexp_ends [of e r] by (auto simp: jfrac_def not_digit_def)

lemma jdigits_peek: "jdigits ds \<Longrightarrow> \<exists>b t. ds = b # t \<and> is_ascii_digit b"
  by (cases ds) (simp_all add: jdigits_def)

lemma jint_peek: "jint i \<Longrightarrow> \<exists>b t. i = b # t \<and> is_ascii_digit b"
  by (auto simp: jint_def dest: jdigits_peek)

lemma exponent_block:
  assumes "jexp e" "number_ends r"
  shows "skip_exponent (e @ r) = r" "go_exponent (e @ r) = Ok r"
proof -
  have nd: "case r of [] \<Rightarrow> True | b # _ \<Rightarrow> \<not> is_ascii_digit b"
    using number_ends_not_digit [OF assms(2)] by (simp add: not_digit_def)
  have "skip_exponent (e @ r) = r \<and> go_exponent (e @ r) = Ok r"
  proof (cases "e = []")
    case True
    then show ?thesis using assms(2)
      by (cases r) (auto simp: skip_exponent_def go_exponent_def number_ends_def)
  next
    case False
    then obtain m sg ds where e: "e = m # sg @ ds" "m = 0x65 \<or> m = 0x45" "sg = [] \<or> sg = [0x2b] \<or> sg = [0x2d]" "jdigits ds"
      using assms(1) by (auto simp: jexp_def)
    obtain b t where ds: "ds = b # t" "is_ascii_digit b" using jdigits_peek [OF e(4)] by blast
    then have "b \<noteq> 0x2b" "b \<noteq> 0x2d" by auto
    then show ?thesis
      using e(1-3) ds(1) skip_digits_block [OF e(4) nd] go_digits_block [OF e(4) nd]
      by (auto simp: skip_exponent_def go_exponent_def Let_def)
  qed
  then show "skip_exponent (e @ r) = r" "go_exponent (e @ r) = Ok r" by simp_all
qed

lemma fraction_block:
  assumes "jfrac f" "jexp e" "number_ends r"
  shows "skip_fraction (f @ e @ r) = e @ r" "go_fraction (f @ e @ r) = Ok (e @ r)"
proof -
  have nd: "case e @ r of [] \<Rightarrow> True | b # _ \<Rightarrow> \<not> is_ascii_digit b"
    using jexp_ends [OF assms(2,3)] by (simp add: not_digit_def)
  have pk: "peek (e @ r) \<noteq> Some 0x2e"
    using assms(2,3) by (cases r) (auto simp: jexp_def number_ends_def)
  show "skip_fraction (f @ e @ r) = e @ r" "go_fraction (f @ e @ r) = Ok (e @ r)"
    using assms(1) pk skip_digits_block [OF _ nd] go_digits_block [OF _ nd]
    by (auto simp: jfrac_def skip_fraction_def go_fraction_def)
qed

lemma integer_block:
  assumes "jint i" "not_digit r"
  shows "skip_integer (i @ r) = r" "go_integer (i @ r) = Ok r"
proof -
  have nd: "case r of [] \<Rightarrow> True | b # _ \<Rightarrow> \<not> is_ascii_digit b" using assms(2) by (simp add: not_digit_def)
  obtain b t where i: "i = b # t" using jint_peek [OF assms(1)] by blast
  show "skip_integer (i @ r) = r" "go_integer (i @ r) = Ok r"
    using assms(1) i skip_digits_block [OF _ nd, of i] go_digits_block [OF _ nd, of i]
    by (auto simp: jint_def skip_integer_def go_integer_def)
qed

lemma number_block:
  assumes "jnumber p" "number_ends r"
  shows "parse_number (p @ r) = r" "go_number (p @ r) = Ok r"
proof -
  obtain sg i f e where p: "p = sg @ i @ f @ e" "jsign sg" "jint i" "jfrac f" "jexp e"
    using assms(1) by (auto simp: jnumber_def)
  obtain b t where i: "i = b # t" "is_ascii_digit b" using jint_peek [OF p(3)] by blast
  then have "b \<noteq> 0x2d" by auto
  then have sg: "skip_sign (p @ r) = i @ f @ e @ r" using p(1,2) i(1) by (auto simp: jsign_def skip_sign_def)
  note blocks = integer_block [OF p(3) jfrac_ends [OF p(4,5) assms(2)]] fraction_block [OF p(4,5) assms(2)]
    exponent_block [OF p(5) assms(2)]
  show "parse_number (p @ r) = r" "go_number (p @ r) = Ok r"
    by (simp_all add: parse_number_def go_number_def sg blocks)
qed

text \<open>The strict reader accepts nothing else.\<close>

lemma go_integer_sound: "go_integer s = Ok r \<Longrightarrow> \<exists>p. s = p @ r \<and> jint p"
proof (cases "peek s = Some 0x30")
  case True
  then show "go_integer s = Ok r \<Longrightarrow> ?thesis" by (cases s) (auto simp: go_integer_def jint_def)
next
  case False
  assume "go_integer s = Ok r"
  then obtain p where p: "s = p @ r" "jdigits p" using False by (auto simp: go_integer_def dest: go_digits_sound)
  then have "hd p \<noteq> 0x30" using False by (cases p) (auto simp: jdigits_def)
  with p show ?thesis by (auto simp: jint_def)
qed

lemma go_fraction_sound: "go_fraction s = Ok r \<Longrightarrow> \<exists>p. s = p @ r \<and> jfrac p"
  by (cases s) (auto simp: go_fraction_def jfrac_def dest!: go_digits_sound split: if_splits)

lemma go_exponent_sound:
  assumes "go_exponent s = Ok r"
  shows "\<exists>p. s = p @ r \<and> jexp p"
proof (cases "peek s = Some 0x65 \<or> peek s = Some 0x45")
  case True
  then obtain m t where s: "s = m # t" "m = 0x65 \<or> m = 0x45" by (cases s) auto
  have "\<exists>sg u. t = sg @ u \<and> (sg = [] \<or> sg = [0x2b] \<or> sg = [0x2d]) \<and> go_digits '' in exponent of numeric literal'' u = Ok r"
  proof (cases "peek t = Some 0x2b \<or> peek t = Some 0x2d")
    case True
    then have "t = [hd t] @ tl t" "hd t = 0x2b \<or> hd t = 0x2d" by (cases t; auto)+
    moreover have "go_digits '' in exponent of numeric literal'' (tl t) = Ok r"
      using assms s True by (auto simp: go_exponent_def Let_def)
    ultimately show ?thesis by (metis (no_types))
  next
    case False
    then have "go_digits '' in exponent of numeric literal'' t = Ok r"
      using assms s by (auto simp: go_exponent_def Let_def)
    then show ?thesis by force
  qed
  then obtain sg u where u: "t = sg @ u" "sg = [] \<or> sg = [0x2b] \<or> sg = [0x2d]"
    "go_digits '' in exponent of numeric literal'' u = Ok r" by blast
  obtain ds where ds: "u = ds @ r" "jdigits ds" using go_digits_sound [OF u(3)] by blast
  have "jexp (m # sg @ ds)" using s(2) u(2) ds(2) unfolding jexp_def by blast
  moreover have "s = (m # sg @ ds) @ r" by (simp add: s(1) u(1) ds(1))
  ultimately show ?thesis by blast
next
  case False
  then show ?thesis using assms by (auto simp: go_exponent_def jexp_def)
qed

lemma go_number_sound:
  assumes "go_number s = Ok r"
  shows "\<exists>p. s = p @ r \<and> jnumber p"
proof -
  have "[] @ skip_sign s = s \<or> [0x2d] @ skip_sign s = s"
    by (cases s) (auto simp: skip_sign_def)
  moreover have "jsign []" "jsign [0x2d]" by (simp_all add: jsign_def)
  ultimately obtain sg where sg: "sg @ skip_sign s = s" "jsign sg" by blast
  obtain s1 s2 where st: "go_integer (skip_sign s) = Ok s1" "go_fraction s1 = Ok s2" "go_exponent s2 = Ok r"
    using assms by (auto simp: go_number_def split: sum.splits)
  obtain i f e where p: "skip_sign s = i @ s1" "s1 = f @ s2" "s2 = e @ r" "jint i" "jfrac f" "jexp e"
    using go_integer_sound [OF st(1)] go_fraction_sound [OF st(2)] go_exponent_sound [OF st(3)] by blast
  then have "(sg @ i @ f @ e) @ r = s" using sg(1) by simp
  moreover have "jnumber (sg @ i @ f @ e)" unfolding jnumber_def using p(4-6) sg(2) by blast
  ultimately show ?thesis by metis
qed

section \<open>Strings and literals\<close>

lemma hex_digits_block: "list_all is_ascii_hexdigit h \<Longrightarrow> length h = n \<Longrightarrow> hex_digits eof bad n (h @ r) = Ok r"
  by (induction h arbitrary: n) auto

lemma hex_digits_sound:
  "hex_digits eof bad n s = Ok r \<Longrightarrow> \<exists>h. s = h @ r \<and> list_all is_ascii_hexdigit h \<and> length h = n"
proof (induction n arbitrary: s)
  case (Suc n)
  then obtain b t where "s = b # t" "is_ascii_hexdigit b" "hex_digits eof bad n t = Ok r"
    by (auto split: list.splits if_splits)
  then show ?case using Suc.IH [of t] by (metis append_Cons length_Cons list.pred_inject(2))
qed simp

lemma not_simple_u [simp]: "\<not> simple_escape 0x75"
  by (simp add: simple_escape_def)

lemma scan_string_block: "jchars p \<Longrightarrow> scan_string er (p @ 0x22 # r) = Ok r"
proof (induction rule: jchars.induct)
  case (jchars_unicode h p)
  then show ?case by (simp add: scan_string_Cons hex_digits_block)
qed (simp_all add: scan_string_Cons)

lemma scan_string_sound: "scan_string er s = Ok r \<Longrightarrow> \<exists>p. s = p @ 0x22 # r \<and> jchars p"
proof (induction "length s" arbitrary: s rule: less_induct)
  case less
  obtain b t where s: "s = b # t" using less.prems by (cases s) auto
  consider "b = 0x22" | "b = 0x5c" | "b \<noteq> 0x22" "b \<noteq> 0x5c" by blast
  then show ?case
  proof cases
    case 1
    then have "s = [] @ 0x22 # r" using less.prems by (simp add: s scan_string_Cons)
    then show ?thesis using jchars_nil by blast
  next
    case 2
    then obtain e u where t: "t = e # u" using less.prems by (cases t) (auto simp: s scan_string_Cons)
    show ?thesis
    proof (cases "simple_escape e")
      case True
      then obtain p where "u = p @ 0x22 # r" "jchars p"
        using less.prems less.hyps [of u] 2 by (auto simp: s t scan_string_Cons)
      then show ?thesis using jchars_escape [OF True] by (auto simp: s t 2 intro!: exI [of _ "0x5c # e # p"])
    next
      case False
      then obtain v where v: "e = 0x75" "hex_digits (se_hex_eof er) (se_hex er) 4 u = Ok v" "scan_string er v = Ok r"
        using less.prems 2 by (simp add: s t scan_string_Cons split: if_splits sum.splits)
      obtain h where h: "u = h @ v" "list_all is_ascii_hexdigit h" "length h = 4" using hex_digits_sound [OF v(2)] by blast
      obtain p where "v = p @ 0x22 # r" "jchars p" using less.hyps [of v] v(3) h by (auto simp: s t)
      then show ?thesis
        using jchars_unicode [OF h(2,3)] by (auto simp: s t 2 v(1) h(1) intro!: exI [of _ "0x5c # 0x75 # h @ p"])
    qed
  next
    case 3
    then obtain p where "t = p @ 0x22 # r" "jchars p" "\<not> b < 0x20"
      using less.prems less.hyps [of t] by (auto simp: s scan_string_Cons split: if_splits)
    then show ?thesis using jchars_plain [OF 3] by (auto simp: s intro!: exI [of _ "b # p"])
  qed
qed

lemma expect_bytes_block: "expect_bytes p (p @ r) = Ok r"
  by (induction p) auto

lemma go_literal_block: "l \<noteq> [] \<Longrightarrow> go_literal l (as_bytes l @ r) = Ok r"
proof -
  have "go_literal_rest l p (p @ r) = Ok r" for p by (induction p) auto
  then show "l \<noteq> [] \<Longrightarrow> ?thesis" by (cases l) (simp_all add: go_literal_def)
qed

lemma go_literal_sound:
  assumes "go_literal l s = Ok r" "l \<noteq> []" "peek s = Some (of_char (hd l))"
  shows "s = as_bytes l @ r"
proof -
  have "go_literal_rest l p t = Ok r \<Longrightarrow> t = p @ r" for p t
    by (induction p arbitrary: t) (auto split: list.splits if_splits)
  then have "tl s = tl (as_bytes l) @ r" using assms(1) by (simp add: go_literal_def)
  moreover have "hd s = hd (as_bytes l)" "s \<noteq> []" using assms(2,3) by (cases s; cases l; simp)+
  ultimately show ?thesis using assms(2) by (cases s; cases l) auto
qed

section \<open>Completeness\<close>

text \<open>
  The contract of a reader of JSON: white space, the strings, numbers and literals of the grammar are read
  whole.  Every value of the grammar is then accepted where it ends.
\<close>

locale json_reader = scanner d for d :: dialect +
  assumes ws_incl: "go_whitespace b \<Longrightarrow> d_ws d b"
    and ws_only: "d_ws d b \<Longrightarrow> b \<in> {0x20, 0x09, 0x0a, 0x0c, 0x0d}"
    and str_block: "jchars p \<Longrightarrow> d_str d (p @ 0x22 # r) = Ok r"
    and num_block: "jnumber p \<Longrightarrow> number_ends r \<Longrightarrow> d_num d (p @ r) = Ok r"
    and lit_block: "l \<noteq> [] \<Longrightarrow> d_lit d l (as_bytes l @ r) = Ok r"
begin

lemma skip_ws_block: "jws w \<Longrightarrow> skip_ws d (w @ r) = skip_ws d r"
  unfolding skip_ws_def jws_def by (rule dropWhile_block) (auto simp: list_all_iff intro: ws_incl)

lemma skip_ws_stop: "b \<notin> {0x20, 0x09, 0x0a, 0x0c, 0x0d} \<Longrightarrow> skip_ws d (b # r) = b # r"
  using ws_only by (auto simp: skip_ws_def)

definition reads :: "mode \<Rightarrow> byte list \<Rightarrow> byte list \<Rightarrow> bool" where
  "reads m s r \<longleftrightarrow> (\<exists>n. scan d n m s = Some (Ok r))"

lemma readsI: "scan_step d (scan d n) m s = Some (Ok r) \<Longrightarrow> reads m s r"
  unfolding reads_def by (metis scan.simps(2))

lemma reads2:
  assumes "reads m s r" "reads m' s' r'"
  obtains n where "scan d n m s = Some (Ok r)" "scan d n m' s' = Some (Ok r')"
proof -
  obtain j k where jk: "scan d j m s = Some (Ok r)" "scan d k m' s' = Some (Ok r')" using assms by (auto simp: reads_def)
  show ?thesis
    by (rule that [of "max j k"]) (rule scan_more_fuel [OF jk(1)], simp, rule scan_more_fuel [OF jk(2)], simp)
qed

text \<open>White space before a value is skipped.\<close>

lemma reads_value_ws: "jws w \<Longrightarrow> reads Value s r \<Longrightarrow> reads Value (w @ s) r"
proof -
  assume w: "jws w" and "reads Value s r"
  then obtain n where n: "scan d n Value s = Some (Ok r)" by (auto simp: reads_def)
  have "scan d n Value (w @ s) = scan d n Value s"
    by (cases n) (simp_all only: scan.simps scan_step.simps skip_ws_block [OF w])
  then show ?thesis using n by (auto simp: reads_def)
qed

text \<open>The value at the head of the input decides the branch.\<close>

lemma reads_literal: "l \<in> {''true'', ''false'', ''null''} \<Longrightarrow> reads Value (as_bytes l @ r) r"
  using lit_block [of l r] by (intro readsI [of 0]) (auto simp: skip_ws_stop)

lemma digit_bytes: "is_ascii_digit b \<Longrightarrow> b \<notin> {0x20, 0x09, 0x0a, 0x0c, 0x0d, 0x7b, 0x5b, 0x22, 0x74, 0x66, 0x6e}"
  by (auto simp: is_ascii_digit_def)

lemma reads_number:
  assumes "jnumber p" "number_ends r"
  shows "reads Value (p @ r) r"
proof -
  obtain b t where p: "p = b # t" "is_ascii_digit b \<or> b = 0x2d"
    using assms(1) by (force simp: jnumber_def jsign_def dest: jint_peek)
  then have "b \<notin> {0x20, 0x09, 0x0a, 0x0c, 0x0d, 0x7b, 0x5b, 0x22, 0x74, 0x66, 0x6e}" using digit_bytes [of b] by auto
  then show ?thesis
    using num_block [OF assms] p by (intro readsI [of 0]) (auto simp: skip_ws_stop)
qed

lemma reads_string: "jchars p \<Longrightarrow> reads Value (0x22 # p @ 0x22 # r) r"
  by (intro readsI [of 0]) (simp add: skip_ws_stop str_block)

lemma reads_open:
  assumes "reads m s r" "(m, b) = (Object, 0x7b) \<or> (m, b) = (Arr, 0x5b)" "s = b # t"
  shows "reads Value s r"
proof -
  obtain n where "scan d n m s = Some (Ok r)" using assms(1) by (auto simp: reads_def)
  then show ?thesis using assms(2,3) by (intro readsI [of n]) (auto simp: skip_ws_stop)
qed

lemma reads_empty:
  assumes "jws w"
  shows "reads Value (0x7b # w @ 0x7d # r) r" "reads Value (0x5b # w @ 0x5d # r) r"
proof -
  have "reads Object (0x7b # w @ 0x7d # r) r" "reads Arr (0x5b # w @ 0x5d # r) r"
    using assms by (intro readsI [of 0]; simp add: skip_ws_block skip_ws_stop)+
  then show "reads Value (0x7b # w @ 0x7d # r) r" "reads Value (0x5b # w @ 0x5d # r) r"
    by (auto intro: reads_open)
qed

lemma skip_ws_idem: "skip_ws d (skip_ws d s) = skip_ws d s"
  by (simp add: skip_ws_def dropWhile_idem)

text \<open>The member and element loops do not notice white space skipped before them.\<close>

lemma reads_members_ws: "reads Members s r \<Longrightarrow> reads Members (skip_ws d s) r"
proof -
  assume "reads Members s r"
  then obtain n where n: "scan d n Members s = Some (Ok r)" by (auto simp: reads_def)
  have "scan d n Members (skip_ws d s) = scan d n Members s"
    by (cases n) (simp_all only: scan.simps scan_step.simps skip_ws_idem)
  then show ?thesis using n by (auto simp: reads_def)
qed

lemma reads_elements_ws: "reads Elements s r \<Longrightarrow> reads Elements (skip_ws d s) r"
proof -
  assume "reads Elements s r"
  then obtain n where n: "scan d n Elements s = Some (Ok r)" by (auto simp: reads_def)
  have "scan d k Value (skip_ws d s) = scan d k Value s" for k
    by (cases k) (simp_all only: scan.simps scan_step.simps skip_ws_idem)
  then have "scan d n Elements (skip_ws d s) = scan d n Elements s"
    by (cases n) (simp_all only: scan.simps scan_step.simps)
  then show ?thesis using n by (auto simp: reads_def)
qed

lemma reads_object: "reads Members s r \<Longrightarrow> reads Value (0x7b # s) r"
proof -
  assume m: "reads Members s r"
  then have "peek (skip_ws d s) \<noteq> Some 0x7d"
    by (cases "peek (skip_ws d s)") (auto simp: reads_def Let_def elim!: scan.elims)
  moreover obtain n where "scan d n Members (skip_ws d s) = Some (Ok r)"
    using reads_members_ws [OF m] by (auto simp: reads_def)
  ultimately have "reads Object (0x7b # s) r" by (intro readsI [of n]) simp
  then show ?thesis by (auto intro: reads_open)
qed

lemma reads_array: "reads Elements s r \<Longrightarrow> reads Value (0x5b # s) r"
proof -
  assume m: "reads Elements s r"
  have no: "scan d k Value s \<noteq> Some (Ok v)" if "peek (skip_ws d s) = Some 0x5d" for k v
    using that by (cases k) (simp_all add: is_ascii_digit_def)
  obtain j where "scan d j Elements s = Some (Ok r)" using m by (auto simp: reads_def)
  then obtain k where "scan_step d (scan d k) Elements s = Some (Ok r)" by (cases j) auto
  then obtain v where "scan d k Value s = Some (Ok v)"
    by (auto simp: bind_eq_Some_conv split: sum.splits) (metis sum.exhaust)
  then have "peek (skip_ws d s) \<noteq> Some 0x5d" using no by blast
  moreover obtain n where "scan d n Elements (skip_ws d s) = Some (Ok r)"
    using reads_elements_ws [OF m] by (auto simp: reads_def)
  ultimately have "reads Arr (0x5b # s) r" by (intro readsI [of n]) simp
  then show ?thesis by (auto intro: reads_open)
qed

lemma reads_last_element:
  assumes "reads Value s (w @ 0x5d # r)" "jws w"
  shows "reads Elements s r"
proof -
  obtain n where "scan d n Value s = Some (Ok (w @ 0x5d # r))" using assms(1) by (auto simp: reads_def)
  then show ?thesis using assms(2) by (intro readsI [of n]) (simp add: skip_ws_block skip_ws_stop)
qed

lemma reads_more_elements:
  assumes "reads Value s (w @ 0x2c # u)" "jws w" "reads Elements u r"
  shows "reads Elements s r"
proof -
  obtain n where "scan d n Value s = Some (Ok (w @ 0x2c # u))" "scan d n Elements u = Some (Ok r)"
    using reads2 [OF assms(1,3)] .
  then show ?thesis using assms(2) by (intro readsI [of n]) (simp add: skip_ws_block skip_ws_stop)
qed

lemma reads_member:
  assumes "jws w1" "jchars k" "jws w2" "reads Value s (w @ b # u)" "jws w"
    and "b = 0x7d \<and> u = r \<or> b = 0x2c \<and> reads Members u r"
  shows "reads Members (w1 @ 0x22 # k @ 0x22 # w2 @ 0x3a # s) r"
proof (cases "b = 0x7d")
  case True
  obtain n where "scan d n Value s = Some (Ok (w @ b # u))" using assms(4) by (auto simp: reads_def)
  then show ?thesis
    using assms True by (intro readsI [of n]) (simp add: skip_ws_block skip_ws_stop str_block)
next
  case False
  then obtain n where "scan d n Value s = Some (Ok (w @ 0x2c # u))" "scan d n Members u = Some (Ok r)"
    using reads2 [of Value s "w @ 0x2c # u" Members u r] assms(4,6) by blast
  then show ?thesis
    using assms False by (intro readsI [of n]) (simp add: skip_ws_block skip_ws_stop str_block)
qed

lemma follow_ws: "jws w \<Longrightarrow> b \<in> {0x2c, 0x5d, 0x7d} \<Longrightarrow> follow (w @ b # r)"
  by (cases w) (auto simp: follow_def jws_def)

lemma follow_number_ends: "follow r \<Longrightarrow> number_ends r"
  by (auto simp: follow_def number_ends_def go_whitespace_def is_ascii_digit_def split: list.splits)

lemma grammar_complete:
  "jvalue p \<Longrightarrow> \<forall>r. follow r \<longrightarrow> reads Value (p @ r) r"
  "jmembers p \<Longrightarrow> \<forall>r. reads Members (p @ 0x7d # r) r"
  "jelements p \<Longrightarrow> \<forall>r. reads Elements (p @ 0x5d # r) r"
proof (induction rule: jvalue_jmembers_jelements.inducts)
  case (jmembers_last w1 k w2 w3 v w4)
  have "reads Value (w3 @ v @ w4 @ 0x7d # r) (w4 @ 0x7d # r)" for r
    using jmembers_last follow_ws [of w4 "0x7d" r] by (auto intro: reads_value_ws)
  then show ?case using jmembers_last reads_member [of w1 k w2 _ w4] by fastforce
next
  case (jmembers_more w1 k w2 w3 v w4 p)
  have "reads Value (w3 @ v @ w4 @ 0x2c # r) (w4 @ 0x2c # r)" for r
    using jmembers_more follow_ws [of w4 "0x2c" r] by (auto intro: reads_value_ws)
  then show ?case using jmembers_more reads_member [of w1 k w2 _ w4] by fastforce
next
  case (jelements_last w1 v w2)
  have "reads Value (w1 @ v @ w2 @ 0x5d # r) (w2 @ 0x5d # r)" for r
    using jelements_last follow_ws [of w2 "0x5d" r] by (auto intro: reads_value_ws)
  then show ?case using jelements_last by (auto intro: reads_last_element)
next
  case (jelements_more w1 v w2 p)
  have "reads Value (w1 @ v @ w2 @ 0x2c # r) (w2 @ 0x2c # r)" for r
    using jelements_more follow_ws [of w2 "0x2c" r] by (auto intro: reads_value_ws)
  then show ?case using jelements_more by (auto intro: reads_more_elements)
qed (auto intro: reads_literal reads_number follow_number_ends reads_string reads_empty reads_object reads_array)

text \<open>A whole text is read up to its trailing white space.\<close>

lemma json_text_read:
  assumes "json_text s"
  shows "\<exists>r. scan d (enough Value s) Value s = Some (Ok r) \<and> skip_ws d r = []"
proof -
  obtain w1 p w2 where s: "s = w1 @ p @ w2" "jws w1" "jvalue p" "jws w2" using assms by (auto simp: json_text_def)
  have "follow w2" using s(4) by (cases w2) (auto simp: follow_def jws_def)
  then have "reads Value s w2" unfolding s(1) using grammar_complete(1) [OF s(3)] s(2) by (auto intro: reads_value_ws)
  then obtain n where "scan d n Value s = Some (Ok w2)" by (auto simp: reads_def)
  moreover have "skip_ws d w2 = []" using skip_ws_block [OF s(4), of "[]"] by (simp add: skip_ws_def)
  ultimately show ?thesis using scan_fuel_irrelevant by blast
qed

end

interpretation min_json: json_reader min_dialect
proof unfold_locales
  show "d_lit min_dialect l (as_bytes l @ r) = Ok r" for l r
    by (simp add: min_dialect_def expect_literal_def expect_bytes_block)
qed (auto simp: min_dialect_def is_ascii_whitespace_def go_whitespace_def scan_string_block number_block)

interpretation go_json: json_reader go_dialect
  by unfold_locales
    (auto simp: go_dialect_def go_whitespace_def scan_string_block number_block go_literal_block)

section \<open>Soundness of the strict scanner\<close>

lemma go_skip_ws: "\<exists>w. s = w @ skip_ws go_dialect s \<and> jws w"
  by (rule exI [of _ "takeWhile go_whitespace s"])
    (auto simp: skip_ws_def go_dialect_def jws_def list_all_iff dest: set_takeWhileD)

text \<open>What a call consumed.\<close>

fun consumed :: "mode \<Rightarrow> byte list \<Rightarrow> byte list \<Rightarrow> bool" where
  "consumed Value s r \<longleftrightarrow> (\<exists>w p. s = w @ p @ r \<and> jws w \<and> jvalue p)"
| "consumed Object s r \<longleftrightarrow> (peek s = Some 0x7b \<longrightarrow> (\<exists>p. s = p @ r \<and> jvalue p))"
| "consumed Arr s r \<longleftrightarrow> (peek s = Some 0x5b \<longrightarrow> (\<exists>p. s = p @ r \<and> jvalue p))"
| "consumed Members s r \<longleftrightarrow> (\<exists>p. s = p @ 0x7d # r \<and> jmembers p)"
| "consumed Elements s r \<longleftrightarrow> (\<exists>p. s = p @ 0x5d # r \<and> jelements p)"

lemma jws_append: "jws v \<Longrightarrow> jws w \<Longrightarrow> jws (v @ w)"
  by (simp add: jws_def)

inductive_cases jmembersE: "jmembers p"
inductive_cases jelementsE: "jelements p"

lemma jmembers_ws:
  assumes "jmembers p" "jws w"
  shows "jmembers (w @ p)"
  using assms(1)
proof (rule jmembersE)
  fix w1 k w2 w3 v w4
  assume "p = w1 @ 0x22 # k @ 0x22 # w2 @ 0x3a # w3 @ v @ w4"
    "jws w1" "jchars k" "jws w2" "jws w3" "jvalue v" "jws w4"
  then show ?thesis using jmembers_last [of "w @ w1" k w2 w3 v w4] assms(2) by (simp add: jws_append)
next
  fix w1 k w2 w3 v w4 p'
  assume "p = w1 @ 0x22 # k @ 0x22 # w2 @ 0x3a # w3 @ v @ w4 @ 0x2c # p'"
    "jws w1" "jchars k" "jws w2" "jws w3" "jvalue v" "jws w4" "jmembers p'"
  then show ?thesis using jmembers_more [of "w @ w1" k w2 w3 v w4 p'] assms(2) by (simp add: jws_append)
qed

lemma jelements_ws:
  assumes "jelements p" "jws w"
  shows "jelements (w @ p)"
  using assms(1)
proof (rule jelementsE)
  fix w1 v w2
  assume "p = w1 @ v @ w2" "jws w1" "jvalue v" "jws w2"
  then show ?thesis using jelements_last [of "w @ w1" v w2] assms(2) by (simp add: jws_append)
next
  fix w1 v w2 p'
  assume "p = w1 @ v @ w2 @ 0x2c # p'" "jws w1" "jvalue v" "jws w2" "jelements p'"
  then show ?thesis using jelements_more [of "w @ w1" v w2 p'] assms(2) by (simp add: jws_append)
qed

abbreviation go_ws :: "byte list \<Rightarrow> byte list" where
  "go_ws \<equiv> skip_ws go_dialect"

lemma go_fields [simp]:
  "d_str go_dialect = scan_string go_string_errors" "d_num go_dialect = go_number" "d_lit go_dialect = go_literal"
  by (simp_all add: go_dialect_def)

lemma go_value_sound:
  assumes IH: "\<And>m s r. f m s = Some (Ok r) \<Longrightarrow> consumed m s r" and step: "scan_step go_dialect f Value s = Some (Ok r)"
  shows "consumed Value s r"
proof -
  obtain w where w: "s = w @ go_ws s" "jws w" using go_skip_ws by blast
  obtain b t where bt: "go_ws s = b # t" using step by (cases "go_ws s") auto
  have "\<exists>p. b # t = p @ r \<and> jvalue p"
  proof -
    have lit: "\<exists>p. b # t = p @ r \<and> jvalue p"
      if "l \<in> {''true'', ''false'', ''null''}" "b = of_char (hd l)" "go_literal l (b # t) = Ok r" for l
    proof -
      have "b # t = as_bytes l @ r" using that by (intro go_literal_sound) auto
      then show ?thesis using jvalue_lit [OF that(1)] by blast
    qed
    note st = step [simplified scan_step.simps Let_def bt peek_Cons option.case list.sel]
    consider "b = 0x7b" | "b = 0x5b" | "b = 0x22" | "b = 0x74" | "b = 0x66" | "b = 0x6e"
      | "b \<notin> {0x7b, 0x5b, 0x22, 0x74, 0x66, 0x6e}" by blast
    then show ?thesis
    proof cases
      case 1
      then show ?thesis using IH [of Object "b # t" r] st by simp
    next
      case 2
      then show ?thesis using IH [of Arr "b # t" r] st by simp
    next
      case 3
      then have "scan_string go_string_errors t = Ok r" using st by simp
      then obtain p where "t = p @ 0x22 # r" "jchars p" using scan_string_sound by blast
      then show ?thesis using 3 jvalue_string [of p] by (intro exI [of _ "0x22 # p @ [0x22]"]) simp
    next
      case 4
      then show ?thesis using st lit [of "''true''"] by simp
    next
      case 5
      then show ?thesis using st lit [of "''false''"] by simp
    next
      case 6
      then show ?thesis using st lit [of "''null''"] by simp
    next
      case 7
      then have "go_number (b # t) = Ok r" using st by (simp split: if_splits)
      then show ?thesis using go_number_sound jvalue_number by blast
    qed
  qed
  then show ?thesis using w bt by auto
qed

lemma go_open_sound:
  assumes IH: "\<And>m s r. f m s = Some (Ok r) \<Longrightarrow> consumed m s r"
  shows "scan_step go_dialect f Object s = Some (Ok r) \<Longrightarrow> consumed Object s r"
    and "scan_step go_dialect f Arr s = Some (Ok r) \<Longrightarrow> consumed Arr s r"
proof -
  obtain w where w: "tl s = w @ go_ws (tl s)" "jws w" using go_skip_ws by blast
  have s: "s = b # w @ go_ws (tl s)" if "peek s = Some b" for b
    using peek_Some [OF that] w(1) by simp
  show "scan_step go_dialect f Object s = Some (Ok r) \<Longrightarrow> consumed Object s r"
  proof (cases "peek (go_ws (tl s)) = Some 0x7d")
    case True
    then show "scan_step go_dialect f Object s = Some (Ok r) \<Longrightarrow> consumed Object s r"
      using s jvalue_empty_object [OF w(2)] peek_Some [OF True]
      by (auto intro!: exI [of _ "0x7b # w @ [0x7d]"])
  next
    case False
    assume "scan_step go_dialect f Object s = Some (Ok r)"
    then obtain p where p: "go_ws (tl s) = p @ 0x7d # r" "jmembers p"
      using False IH [of Members "go_ws (tl s)" r] by auto
    then show "consumed Object s r"
      using s jvalue_object [OF jmembers_ws [OF p(2) w(2)]] by (auto intro!: exI [of _ "0x7b # (w @ p) @ [0x7d]"])
  qed
  show "scan_step go_dialect f Arr s = Some (Ok r) \<Longrightarrow> consumed Arr s r"
  proof (cases "peek (go_ws (tl s)) = Some 0x5d")
    case True
    then show "scan_step go_dialect f Arr s = Some (Ok r) \<Longrightarrow> consumed Arr s r"
      using s jvalue_empty_array [OF w(2)] peek_Some [OF True]
      by (auto intro!: exI [of _ "0x5b # w @ [0x5d]"])
  next
    case False
    assume "scan_step go_dialect f Arr s = Some (Ok r)"
    then obtain p where p: "go_ws (tl s) = p @ 0x5d # r" "jelements p"
      using False IH [of Elements "go_ws (tl s)" r] by auto
    then show "consumed Arr s r"
      using s jvalue_array [OF jelements_ws [OF p(2) w(2)]] by (auto intro!: exI [of _ "0x5b # (w @ p) @ [0x5d]"])
  qed
qed

text \<open>The byte after the white space that follows a value.\<close>

lemma go_ws_split: "peek (go_ws s) = Some b \<Longrightarrow> \<exists>w. s = w @ b # tl (go_ws s) \<and> jws w"
  using go_skip_ws [of s] peek_Some [of "go_ws s" b] by metis

lemma go_elements_sound:
  assumes IH: "\<And>m s r. f m s = Some (Ok r) \<Longrightarrow> consumed m s r"
    and step: "scan_step go_dialect f Elements s = Some (Ok r)"
  shows "consumed Elements s r"
proof -
  obtain s4 where v: "f Value s = Some (Ok s4)"
    using step by (cases "f Value s") (auto split: sum.splits)
  then obtain w1 p where p: "s = w1 @ p @ s4" "jws w1" "jvalue p" using IH [OF v] by auto
  have "peek (go_ws s4) = Some 0x5d \<and> r = tl (go_ws s4)
    \<or> peek (go_ws s4) = Some 0x2c \<and> f Elements (tl (go_ws s4)) = Some (Ok r)"
    using step v by (simp add: Let_def split: if_splits)
  then show ?thesis
  proof
    assume "peek (go_ws s4) = Some 0x5d \<and> r = tl (go_ws s4)"
    then obtain w2 where "s4 = w2 @ 0x5d # r" "jws w2" using go_ws_split by blast
    then show ?thesis using p jelements_last [of w1 p w2] by (auto intro!: exI [of _ "w1 @ p @ w2"])
  next
    assume a: "peek (go_ws s4) = Some 0x2c \<and> f Elements (tl (go_ws s4)) = Some (Ok r)"
    then obtain w2 q where "s4 = w2 @ 0x2c # q @ 0x5d # r" "jws w2" "jelements q"
      using go_ws_split [of s4 "0x2c"] IH [of Elements "tl (go_ws s4)" r] by auto
    then show ?thesis using p jelements_more [of w1 p w2 q] by (auto intro!: exI [of _ "w1 @ p @ w2 @ 0x2c # q"])
  qed
qed

lemma go_members_sound:
  assumes IH: "\<And>m s r. f m s = Some (Ok r) \<Longrightarrow> consumed m s r"
    and step: "scan_step go_dialect f Members s = Some (Ok r)"
  shows "consumed Members s r"
proof -
  have q: "peek (go_ws s) = Some 0x22" using step by (simp add: Let_def split: if_splits)
  then obtain w1 where w1: "s = w1 @ 0x22 # tl (go_ws s)" "jws w1" using go_ws_split by blast
  obtain s2 where s2: "scan_string go_string_errors (tl (go_ws s)) = Ok s2"
    using step q by (auto simp: Let_def split: sum.splits)
  obtain k where k: "tl (go_ws s) = k @ 0x22 # s2" "jchars k" using scan_string_sound [OF s2] by blast
  have c: "peek (go_ws s2) = Some 0x3a" using step q s2 by (simp add: Let_def split: if_splits)
  then obtain w2 where w2: "s2 = w2 @ 0x3a # tl (go_ws s2)" "jws w2" using go_ws_split by blast
  obtain s4 where v: "f Value (tl (go_ws s2)) = Some (Ok s4)"
    using step q s2 c by (cases "f Value (tl (go_ws s2))") (auto simp: Let_def split: sum.splits)
  then obtain w3 p where p: "tl (go_ws s2) = w3 @ p @ s4" "jws w3" "jvalue p" using IH [OF v] by auto
  have s: "s = w1 @ 0x22 # k @ 0x22 # w2 @ 0x3a # w3 @ p @ s4"
    using w1(1) k(1) w2(1) p(1) by (metis append_assoc append_Cons)
  note parts = w1(2) k(2) w2(2) p(2,3)
  have "peek (go_ws s4) = Some 0x7d \<and> r = tl (go_ws s4)
    \<or> peek (go_ws s4) = Some 0x2c \<and> f Members (tl (go_ws s4)) = Some (Ok r)"
    using step q s2 c v by (simp add: Let_def split: if_splits)
  then show ?thesis
  proof
    assume "peek (go_ws s4) = Some 0x7d \<and> r = tl (go_ws s4)"
    then obtain w4 where "s4 = w4 @ 0x7d # r" "jws w4" using go_ws_split by blast
    then show ?thesis using s jmembers_last [OF parts] by (auto intro!: exI [of _ "w1 @ 0x22 # k @ 0x22 # w2 @ 0x3a # w3 @ p @ w4"])
  next
    assume a: "peek (go_ws s4) = Some 0x2c \<and> f Members (tl (go_ws s4)) = Some (Ok r)"
    then obtain w4 u where "s4 = w4 @ 0x2c # u @ 0x7d # r" "jws w4" "jmembers u"
      using go_ws_split [of s4 "0x2c"] IH [of Members "tl (go_ws s4)" r] by auto
    then show ?thesis
      using s jmembers_more [OF parts] by (auto intro!: exI [of _ "w1 @ 0x22 # k @ 0x22 # w2 @ 0x3a # w3 @ p @ w4 @ 0x2c # u"])
  qed
qed

lemma go_scan_sound: "scan go_dialect n m s = Some (Ok r) \<Longrightarrow> consumed m s r"
proof (induction n arbitrary: m s r)
  case (Suc n)
  have step: "scan_step go_dialect (scan go_dialect n) m s = Some (Ok r)" using Suc.prems by (simp del: scan_step.simps)
  show ?case
    using step go_value_sound [OF Suc.IH] go_open_sound [OF Suc.IH] go_members_sound [OF Suc.IH] go_elements_sound [OF Suc.IH]
    by (cases m) (simp_all del: scan_step.simps consumed.simps)
qed simp

section \<open>The readers and the grammar\<close>

text \<open>
  C35. The strict scanner that guards the video endpoints accepts exactly the JSON texts of RFC 8259 (the
  bytes of a string are not checked for UTF-8), and it answers on every input.
\<close>

theorem go_json_syntax_check_iff:
  "go_json_syntax_check raw \<noteq> None \<and> (go_json_syntax_check raw = Some (Ok ()) \<longleftrightarrow> json_text raw)"
proof
  obtain v where v: "scan go_dialect (enough Value raw) Value raw = Some v" using go_reader.scan_total by blast
  then show "go_json_syntax_check raw \<noteq> None" by (simp add: go_json_syntax_check_def)
  show "go_json_syntax_check raw = Some (Ok ()) \<longleftrightarrow> json_text raw"
  proof
    assume "go_json_syntax_check raw = Some (Ok ())"
    then obtain r where r: "v = Ok r" "go_ws r = []"
      using v by (cases v) (auto simp: go_json_syntax_check_def split: list.splits)
    obtain w1 p where p: "raw = w1 @ p @ r" "jws w1" "jvalue p" using go_scan_sound [OF v [unfolded r(1)]] by auto
    moreover have "jws r" using go_skip_ws [of r] r(2) by simp
    ultimately show "json_text raw" unfolding json_text_def by blast
  next
    assume "json_text raw"
    then show "go_json_syntax_check raw = Some (Ok ())"
      using go_json.json_text_read [of raw] by (auto simp: go_json_syntax_check_def)
  qed
qed

section \<open>The encoder\<close>

lemma show_hex_length: "n < 16 ^ Suc k \<Longrightarrow> length (show_hex n) \<le> Suc k"
proof (induction k arbitrary: n)
  case 0
  then show ?case by (simp add: show_hex.simps [of n])
next
  case (Suc k)
  then have "n div 16 < 16 ^ Suc k" by (simp add: less_mult_imp_div_less mult.commute)
  then show ?case using Suc.IH [of "n div 16"] by (simp add: show_hex.simps [of n])
qed

lemma hexdigit_digit_of: "d < 16 \<Longrightarrow> is_ascii_hexdigit (of_char (hex_digit_of d))"
proof -
  assume d: "d < 16"
  have "unat (0x30 + of_nat d :: byte) = 48 + d" "unat (0x57 + of_nat d :: byte) = 87 + d"
    using d by (simp_all add: unat_word_ariths unat_of_nat)
  then show ?thesis
    using d by (auto simp: hex_digit_of_def is_ascii_hexdigit_def is_ascii_digit_def word_le_nat_alt)
qed

lemma jchars_write_unicode_escape:
  assumes "code < 16 ^ 4" "jchars p"
  shows "jchars (write_unicode_escape code @ p)"
proof -
  let ?h = "show_hex code"
  have len: "length ?h \<le> 4" using show_hex_length [of code 3] assms(1) by simp
  have z: "is_ascii_hexdigit (of_char (CHR ''0''))" by (simp add: is_ascii_hexdigit_def is_ascii_digit_def)
  let ?b = "as_bytes (replicate (4 - length ?h) (CHR ''0'') @ ?h)"
  have "list_all is_ascii_hexdigit ?b"
    using show_hex_chars [of code] z hexdigit_digit_of by (fastforce simp: list_all_iff as_bytes_def)
  moreover have "length ?b = 4" using len by simp
  ultimately have "jchars (0x5c # 0x75 # ?b @ p)" using jchars_unicode assms(2) by blast
  then show ?thesis by (simp add: write_unicode_escape_def Let_def)
qed

lemma jchars_escape_byte: "jchars p \<Longrightarrow> jchars (escape_byte html b @ p)"
proof -
  assume p: "jchars p"
  have "unat b < 16 ^ 4" using unat_byte_lt [of b] by simp
  then have uni: "jchars (write_unicode_escape (unat b) @ p)" by (rule jchars_write_unicode_escape [OF _ p])
  have esc: "jchars (0x5c # e # p)" if "e \<in> {0x22, 0x5c, 0x6e, 0x72, 0x74, 0x62, 0x66}" for e
    using that by (intro jchars_escape [OF _ p]) (auto simp: simple_escape_def)
  show ?thesis
    using jchars_plain [OF _ _ _ p, of b] by (simp add: escape_byte_def uni esc)
qed

lemma jchars_escape_bytes: "jchars (escape_bytes html bs)"
proof (induction "length bs" arbitrary: bs rule: less_induct)
  case less
  show ?case
  proof (cases bs)
    case (Cons a r)
    have tail: "jchars (escape_bytes html r)" using less Cons by simp
    show ?thesis
    proof (cases "\<exists>b c r'. r = b # c # r' \<and> a = 0xe2 \<and> b = 0x80 \<and> (c = 0xa8 \<or> c = 0xa9)")
      case True
      then obtain b c r' where r: "r = b # c # r'" "a = 0xe2" "b = 0x80" "c = 0xa8 \<or> c = 0xa9" by blast
      have "jchars (escape_bytes html r')" using less Cons r(1) by simp
      then have "jchars (write_unicode_escape n @ escape_bytes html r')" if "n < 16 ^ 4" for n
        using jchars_write_unicode_escape that by blast
      then show ?thesis using Cons r by auto
    next
      case False
      then have "escape_bytes html bs = escape_byte html a @ escape_bytes html r"
        using Cons by (cases r; cases "tl r") auto
      then show ?thesis using jchars_escape_byte [OF tail] by simp
    qed
  qed (simp add: jchars_nil)
qed

lemma jvalue_write_string: "jvalue (write_string html s)"
  using jvalue_string [OF jchars_escape_bytes] by (simp add: write_string_def)

lemma jws_Nil: "jws []"
  by (simp add: jws_def)

lemma jmembers_commas:
  "ms \<noteq> [] \<Longrightarrow> (\<forall>m \<in> set ms. \<exists>k v. m = 0x22 # k @ 0x22 # 0x3a # v \<and> jchars k \<and> jvalue v) \<Longrightarrow> jmembers (commas ms)"
proof (induction ms rule: commas.induct)
  case (2 x)
  then obtain k v where "x = 0x22 # k @ 0x22 # 0x3a # v" "jchars k" "jvalue v" by auto
  then show ?case using jmembers_last [OF jws_Nil _ jws_Nil jws_Nil _ jws_Nil] by simp
next
  case (3 x y xs)
  then obtain k v where "x = 0x22 # k @ 0x22 # 0x3a # v" "jchars k" "jvalue v" by auto
  moreover have "jmembers (commas (y # xs))" using 3 by simp
  ultimately show ?case using jmembers_more [OF jws_Nil _ jws_Nil jws_Nil _ jws_Nil] by simp
qed simp

lemma jelements_commas: "vs \<noteq> [] \<Longrightarrow> (\<forall>v \<in> set vs. jvalue v) \<Longrightarrow> jelements (commas vs)"
proof (induction vs rule: commas.induct)
  case (2 x)
  then show ?case using jelements_last [OF jws_Nil _ jws_Nil, of x] by simp
next
  case (3 x y xs)
  then show ?case using jelements_more [OF jws_Nil _ jws_Nil, of x] by simp
qed simp

lemma jvalue_members:
  assumes "\<forall>m \<in> set ms. \<exists>k v. m = 0x22 # k @ 0x22 # 0x3a # v \<and> jchars k \<and> jvalue v"
  shows "jvalue (0x7b # commas ms @ [0x7d])"
  using jmembers_commas [OF _ assms] jvalue_object [of "commas ms"] jvalue_empty_object [OF jws_Nil]
  by (cases "ms = []") simp_all

lemma jint_show_nat: "jint (as_bytes (show_nat n))"
proof -
  have z: "of_char (digit_of d) = (0x30 :: byte) \<longleftrightarrow> d = 0" if "d < 10" for d
  proof -
    have "unat (0x30 + of_nat d :: byte) = 48 + d" using that by (simp add: unat_word_ariths unat_of_nat)
    then show ?thesis by (simp add: digit_of_def word_unat_eq_iff del: unat_add_lem)
  qed
  have "0 < n \<Longrightarrow> of_char (hd (show_nat n)) \<noteq> (0x30 :: byte)"
  proof (induction n rule: show_nat.induct)
    case (1 n)
    then show ?case
      using z [of n] show_nat_digits [of "n div 10"]
      by (cases "n < 10") (simp_all add: show_nat.simps [of n] hd_append)
  qed
  moreover have "jdigits (as_bytes (show_nat n))"
    using show_nat_digits [of n] by (auto simp: jdigits_def as_bytes_def list_all_iff digit_char_def)
  moreover have "as_bytes (show_nat 0) = [0x30]" by (simp add: show_nat.simps [of 0] digit_of_def)
  ultimately show ?thesis
    using show_nat_digits [of n] by (cases "n = 0") (auto simp: jint_def as_bytes_def hd_map)
qed

lemma jnumber_show_int: "jnumber (as_bytes (show_int i))"
proof -
  have "jnumber (sg @ as_bytes (show_nat n))" if "jsign sg" for sg n
    unfolding jnumber_def using that jint_show_nat [of n]
    by (intro exI [of _ sg] exI [of _ "as_bytes (show_nat n)"] exI [of _ "[]"]) (simp add: jfrac_def jexp_def)
  from this [of "[]"] this [of "[0x2d]"] show ?thesis by (simp add: show_int_def jsign_def)
qed

lemma member_text:
  "jvalue v \<Longrightarrow> \<exists>k' v'. write_string html k @ [0x3a] @ v = 0x22 # k' @ 0x22 # 0x3a # v' \<and> jchars k' \<and> jvalue v'"
  using jchars_escape_bytes by (auto simp: write_string_def)

lemma jvalue_write_value: "jvalue (write_value html v)"
proof (induction v)
  case (Array xs)
  then have "\<forall>t \<in> set (map (write_value html) xs). jvalue t" by simp
  then show ?case
    using jelements_commas [of "map (write_value html) xs"] jvalue_array jvalue_empty_array [OF jws_Nil]
    by (cases "xs = []") simp_all
next
  case (Struct fs)
  let ?m = "\<lambda>(k, v). write_string html k @ [0x3a] @ write_value html v"
  have "jvalue (write_value html v)" if "(k, v) \<in> set fs" for k v using Struct [OF that] by simp
  then have "\<forall>t \<in> set (map ?m fs). \<exists>k v. t = 0x22 # k @ 0x22 # 0x3a # v \<and> jchars k \<and> jvalue v"
    using member_text by fastforce
  then show ?case using jvalue_members [of "map ?m fs"] by simp
next
  case (Map fs)
  let ?ms = "map snd (sort_key fst (map (\<lambda>(k, v). (k, write_string html k @ [0x3a] @ write_value html v)) fs))"
  have "jvalue (write_value html v)" if "(k, v) \<in> set fs" for k v using Map [OF that] by simp
  then have "\<forall>t \<in> set ?ms. \<exists>k v. t = 0x22 # k @ 0x22 # 0x3a # v \<and> jchars k \<and> jvalue v"
    using member_text by fastforce
  then show ?case using jvalue_members [of ?ms] by simp
qed (simp_all add: jvalue_write_string jvalue_number [OF jnumber_show_int] jvalue_lit del: as_bytes_Cons as_bytes_append)

lemma jws_newline: "jws (newline opts)"
  by (simp add: newline_def jws_def go_whitespace_def)

lemma json_text_encode: "json_text (write_value html v @ newline opts)"
  unfolding json_text_def using jvalue_write_value [of html v] jws_newline [of opts] jws_Nil
  by (metis append_Nil)

text \<open>
  Everything the JSON encoder prints, for any nesting of values, any text in the strings and either
  option set, is a JSON text: the strict scanner and the minimal validator of the daemon both accept it.
\<close>

theorem encoder_output_accepted:
  "go_json_syntax_check (encode_value v opts) = Some (Ok ()) \<and> parse_json_value (encode_value v opts) = Some (Ok ())
   \<and> go_json_syntax_check (encode_struct fs opts) = Some (Ok ()) \<and> go_json_syntax_check (encode_map fs opts) = Some (Ok ())"
proof -
  have go: "go_json_syntax_check s = Some (Ok ())" and min: "parse_json_value s = Some (Ok ())" if "json_text s" for s
    using go_json.json_text_read [OF that] min_json.json_text_read [OF that]
    by (auto simp: go_json_syntax_check_def parse_json_value_def)
  show ?thesis
    unfolding encode_value_def encode_struct_def encode_map_def by (simp only: go min json_text_encode simp_thms)
qed

section \<open>Field extraction\<close>

lemma length_read_json_string: "read_json_string s = Ok (x, r) \<Longrightarrow> length r < length s"
  using length_read_plain [of "[]" "tl s" x r] by (auto simp: read_json_string_def split: if_splits)

lemma length_read_json_bool: "read_json_bool s = Ok (x, r) \<Longrightarrow> length r \<le> length s"
  by (auto simp: read_json_bool_def split: if_splits)

lemma length_skip_json_ws: "length (skip_json_ws s) \<le> length s"
  by (simp add: skip_json_ws_def length_dropWhile_le)

lemma skip_json_value_total: "\<exists>v. skip_json_value s = Some v \<and> (\<forall>r. v = Ok r \<longrightarrow> length r \<le> length s)"
  using skip_reader.scan_total by (simp add: skip_json_value_def)

lemma peek_tl_shorter: "peek s = Some b \<Longrightarrow> length (tl s) < length s"
  by (cases s) simp_all

lemma extract_loop_total:
  assumes rd: "\<And>s x r. rd s = Ok (x, r) \<Longrightarrow> length r \<le> length s"
  shows "length s < n \<Longrightarrow> extract_loop rd key n lst s \<noteq> None"
proof (induction n arbitrary: lst s)
  case (Suc n)
  show ?case
  proof (cases "read_json_string (skip_json_ws s)")
    case (Inr x)
    obtain k s1 where x: "x = (k, s1)" by (cases x)
    let ?s2 = "skip_json_ws s1" and ?s3 = "skip_json_ws (tl (skip_json_ws s1))"
    have l1: "length s1 < length s"
      using length_read_json_string [of "skip_json_ws s" k s1] Inr x length_skip_json_ws [of s] by simp
    have l3: "length ?s3 < length s"
      using l1 length_skip_json_ws [of s1] length_skip_json_ws [of "tl ?s2"] by simp
    have more: "extract_loop rd key n l' (tl (skip_json_ws s4)) \<noteq> None"
      if "length s4 \<le> length ?s3" "peek (skip_json_ws s4) = Some 0x2c" for l' s4
      using that l3 Suc.prems peek_tl_shorter [OF that(2)] length_skip_json_ws [of s4] by (intro Suc.IH) simp
    obtain v where v: "skip_json_value ?s3 = Some v" "\<forall>r. v = Ok r \<longrightarrow> length r \<le> length ?s3"
      using skip_json_value_total by blast
    show ?thesis
      using more v rd [of ?s3] by (auto simp: Inr x Let_def split: sum.splits)
  qed simp
qed simp

lemma length_slice_le: "length (slice i j xs) \<le> length xs"
  by (simp add: slice_def)

lemma extract_field_total:
  assumes "\<And>s x r. rd s = Ok (x, r) \<Longrightarrow> length r \<le> length s"
  shows "extract_field rd input key \<noteq> None"
proof -
  let ?b = "trim_ascii_whitespace input"
  have "length (skip_json_ws (tl ?b)) < length ?b" if "peek ?b = Some 0x7b"
    using peek_tl_shorter [OF that] length_skip_json_ws [of "tl ?b"] by simp
  then show ?thesis using extract_loop_total [of rd, OF assms] by (auto simp: extract_field_def Let_def)
qed

text \<open>
  Reading a request body always gives an answer: the validators and the field readers of the control
  plane return on every byte sequence, and the minimal validator accepts every JSON text.
\<close>

theorem body_readers_total:
  "parse_json_body s \<noteq> None \<and> go_json_syntax_check s \<noteq> None
   \<and> extract_json_string_field s key \<noteq> None \<and> extract_json_bool_field s key \<noteq> None
   \<and> Collect json_text \<subseteq> {t. parse_json_value t = Some (Ok ())}"
proof (intro conjI)
  have min: "\<exists>v. parse_json_value t = Some v" for t
    using min_reader.scan_total [of t] by (auto simp: parse_json_value_def)
  obtain v where "parse_json_value (trim_ascii_whitespace (read_json_body s)) = Some v" using min by blast
  then show "parse_json_body s \<noteq> None"
    by (simp add: parse_json_body_def validate_json_syntax_def Let_def)
  show "go_json_syntax_check s \<noteq> None"
    using go_reader.scan_total [of s] by (auto simp: go_json_syntax_check_def)
  show "extract_json_string_field s key \<noteq> None"
    unfolding extract_json_string_field_def
    by (rule extract_field_total) (simp add: length_read_json_string less_imp_le)
  show "extract_json_bool_field s key \<noteq> None"
    unfolding extract_json_bool_field_def by (rule extract_field_total) (rule length_read_json_bool)
  show "Collect json_text \<subseteq> {t. parse_json_value t = Some (Ok ())}"
    using min_json.json_text_read by (fastforce simp: parse_json_value_def)
qed

end
