(* ===== verification/Unlock.thy ===== *)
theory Unlock
  imports Codec
begin

text \<open>
  \<open>src/unlock.rs\<close>: the unlock core.  One handshake attempt, the clock, the cancel flag and the back-off
  sleep reach this code through the traits \<open>UnlockWire\<close>, \<open>Deadline\<close> and \<open>Sleeper\<close>; here they are the
  operations of the record \<open>unlock_env\<close> on a state \<open>'s\<close>, and \<open>WireSender\<close> gives the production ones.
  Durations are milliseconds.
\<close>

section \<open>Constants and classifications\<close>

definition UNLOCK_MAX_RETRIES :: nat where "UNLOCK_MAX_RETRIES = 8"
definition UNLOCK_RETRY_INTERVAL :: nat where "UNLOCK_RETRY_INTERVAL = 1000"
definition UNLOCK_TOTAL_CAP :: nat where "UNLOCK_TOTAL_CAP = 10000"
definition SELF_UNLOCK_PROBE_TIMEOUT :: nat where "SELF_UNLOCK_PROBE_TIMEOUT = 800"
definition SELF_UNLOCK_PROBE_INTERVAL :: nat where "SELF_UNLOCK_PROBE_INTERVAL = 200"

text \<open>The result codes of \<open>codec::result\<close> that this code uses.\<close>

definition RESULT_OK :: int where "RESULT_OK = 0"
definition RESULT_ERR :: int where "RESULT_ERR = -1"
definition RESULT_TIMEOUT :: int where "RESULT_TIMEOUT = -5"
definition RESULT_NO_CONFIG :: int where "RESULT_NO_CONFIG = -100"
definition RESULT_NO_RING :: int where "RESULT_NO_RING = -103"

lemmas result_defs = RESULT_OK_def RESULT_ERR_def RESULT_TIMEOUT_def RESULT_NO_RING_def RESULT_NO_CONFIG_def

datatype unlock_stage = UnlockA | UnlockB

datatype wire_kind = SilentFin | Timeout | Retryable | Other

datatype attempt_outcome = AttemptOk | BusinessErr unlock_stage | WireErr unlock_stage wire_kind

definition is_retryable :: "wire_kind \<Rightarrow> bool" where
  "is_retryable k \<longleftrightarrow> k = SilentFin \<or> k = Timeout \<or> k = Retryable"

definition classify_wire_err :: "wire_kind \<Rightarrow> int" where
  "classify_wire_err k =
     (case k of
        SilentFin \<Rightarrow> RESULT_NO_RING
      | Timeout \<Rightarrow> RESULT_TIMEOUT
      | Retryable \<Rightarrow> RESULT_ERR
      | Other \<Rightarrow> RESULT_ERR)"

datatype sleep_wake = Elapsed | SleepCanceled | Bye

record 's unlock_env =
  ue_try_once :: "nat option \<Rightarrow> 's \<Rightarrow> attempt_outcome \<times> 's"
  ue_expired :: "'s \<Rightarrow> bool \<times> 's"
  ue_cancelled :: "'s \<Rightarrow> bool \<times> 's"
  ue_sleep :: "nat \<Rightarrow> 's \<Rightarrow> sleep_wake \<times> 's"
  ue_subscribe :: "'s \<Rightarrow> 's"
  ue_unsubscribe :: "'s \<Rightarrow> 's"

section \<open>ThreadSleeper and InstantDeadline\<close>

text \<open>
  The loop of \<open>ThreadSleeper::sleep\<close>: each round reads the cancel flag, polls the bye channel (always
  empty when there is none) and reads the clock; \<open>None\<close> while the listed rounds have not ended it.
\<close>

fun thread_sleep :: "nat \<Rightarrow> (bool \<times> bool \<times> nat) list \<Rightarrow> sleep_wake option" where
  "thread_sleep deadline [] = None"
| "thread_sleep deadline ((cancel, bye, now) # rounds) =
     (if cancel then Some SleepCanceled
      else if bye then Some Bye
      else if now \<ge> deadline then Some Elapsed
      else thread_sleep deadline rounds)"

text \<open>
  \<open>InstantDeadline\<close>: the cap counts from the first query, so that waiting for the lock is free.  The
  argument \<open>now\<close> is the clock at the query.
\<close>

record instant_deadline =
  id_cap :: nat
  id_started :: "nat option"

definition instant_deadline_new :: "nat \<Rightarrow> instant_deadline" where
  "instant_deadline_new cap = \<lparr>id_cap = cap, id_started = None\<rparr>"

definition id_deadline :: "nat \<Rightarrow> instant_deadline \<Rightarrow> nat \<times> instant_deadline" where
  "id_deadline now d =
     (let st = (case id_started d of Some t \<Rightarrow> t | None \<Rightarrow> now) in (st + id_cap d, d\<lparr>id_started := Some st\<rparr>))"

definition id_expired :: "nat \<Rightarrow> nat \<Rightarrow> instant_deadline \<Rightarrow> bool \<times> instant_deadline" where
  "id_expired now now' d = (case id_deadline now' d of (dl, d') \<Rightarrow> (now \<ge> dl, d'))"

definition id_remaining :: "nat \<Rightarrow> nat \<Rightarrow> instant_deadline \<Rightarrow> nat option \<times> instant_deadline" where
  "id_remaining now now' d = (case id_deadline now d of (dl, d') \<Rightarrow> (Some (dl - now'), d'))"

section \<open>run_unlock_with_retry\<close>

text \<open>
  The loop \<open>for attempt in 0..=UNLOCK_MAX_RETRIES\<close>; the argument \<open>left\<close> counts the iterations left and
  \<open>attempt\<close> is computed from it.  The result is the code, the retries, the bye flag and the last wire
  failure.
\<close>

type_synonym retry_result = "int \<times> nat \<times> bool \<times> wire_kind option"

definition loop_bail :: "'s unlock_env \<Rightarrow> 's \<Rightarrow> bool \<times> 's" where
  "loop_bail env s = (case ue_expired env s of (x, s1) \<Rightarrow> if x then (True, s1) else ue_cancelled env s1)"

definition attempt_expired :: "'s unlock_env \<Rightarrow> nat option \<Rightarrow> wire_kind \<Rightarrow> 's \<Rightarrow> bool \<times> 's" where
  "attempt_expired env per_attempt err s =
     (if per_attempt \<noteq> None \<and> err = Timeout
      then (case ue_expired env s of (x, s1) \<Rightarrow> (\<not> x, s1)) else (False, s))"

text \<open>The body of one iteration after the guard: return, or sleep and go round again.\<close>

datatype loop_step = Return retry_result | Continue wire_kind

definition attempt_step :: "'s unlock_env \<Rightarrow> nat option \<Rightarrow> nat \<Rightarrow> nat \<Rightarrow> 's \<Rightarrow> loop_step \<times> 's" where
  "attempt_step env per_attempt interval attempt s1 =
     (case ue_try_once env per_attempt s1 of (outcome, s2) \<Rightarrow>
        (case outcome of
           AttemptOk \<Rightarrow> (Return (RESULT_OK, attempt, False, None), s2)
         | BusinessErr _ \<Rightarrow> (Return (RESULT_ERR, attempt, False, None), s2)
         | WireErr stage err \<Rightarrow>
             (case attempt_expired env per_attempt err s2 of (ae, s3) \<Rightarrow>
                if stage = UnlockB then (Return (RESULT_NO_RING, attempt, False, Some err), s3)
                else if \<not> is_retryable err \<and> \<not> ae then (Return (RESULT_NO_RING, attempt, False, Some err), s3)
                else if attempt < UNLOCK_MAX_RETRIES then
                  (case ue_sleep env interval s3 of (wake, s4) \<Rightarrow>
                     (case wake of
                        Bye \<Rightarrow> (Return (RESULT_NO_RING, attempt + 1, True, Some err), s4)
                      | SleepCanceled \<Rightarrow> (Return (RESULT_NO_RING, attempt + 1, False, Some err), s4)
                      | Elapsed \<Rightarrow> (Continue err, s4)))
                else (Return (RESULT_NO_RING, attempt, False, Some err), s3))))"

fun retry_loop ::
  "'s unlock_env \<Rightarrow> nat option \<Rightarrow> nat \<Rightarrow> nat \<Rightarrow> wire_kind option \<Rightarrow> 's \<Rightarrow> retry_result \<times> 's" where
  "retry_loop env per_attempt interval 0 lastk s = ((RESULT_NO_RING, UNLOCK_MAX_RETRIES, False, None), s)"
| "retry_loop env per_attempt interval (Suc left) lastk s =
     (let attempt = UNLOCK_MAX_RETRIES - left in
      case loop_bail env s of (bail, s1) \<Rightarrow>
      if bail then ((RESULT_NO_RING, attempt, False, lastk), s1)
      else (case attempt_step env per_attempt interval attempt s1 of
              (Return r, s2) \<Rightarrow> (r, s2)
            | (Continue err, s2) \<Rightarrow> retry_loop env per_attempt interval left (Some err) s2))"

definition run_unlock_with_retry :: "'s unlock_env \<Rightarrow> nat option \<Rightarrow> nat \<Rightarrow> 's \<Rightarrow> retry_result \<times> 's" where
  "run_unlock_with_retry env per_attempt interval s =
     retry_loop env per_attempt interval (UNLOCK_MAX_RETRIES + 1) None s"

section \<open>execute_unlock\<close>

record unlock_outcome =
  uo_result :: int
  uo_retries :: nat
  uo_terminated_by_bye :: bool
  uo_wire_kind :: "wire_kind option"

definition execute_unlock ::
  "'s unlock_env \<Rightarrow> nat option \<Rightarrow> nat \<Rightarrow> 's \<Rightarrow> unlock_outcome \<times> 's" where
  "execute_unlock env per_attempt interval s0 =
     (case run_unlock_with_retry env per_attempt interval (ue_subscribe env s0) of
        ((result, retries, bye, wk), s1) \<Rightarrow>
          (case (if result = RESULT_OK \<or> result = RESULT_ERR then ((result, wk), s1)
                 else if bye then ((RESULT_NO_RING, wk), s1)
                 else (case wk of
                         Some kind \<Rightarrow>
                           (case ue_expired env s1 of (x, s2) \<Rightarrow>
                              let k = (if x \<and> \<not> is_retryable kind then Timeout else kind)
                              in ((classify_wire_err k, Some k), s2))
                       | None \<Rightarrow> ((RESULT_NO_RING, wk), s1)))
           of ((result', wk'), s2) \<Rightarrow>
             (\<lparr>uo_result = result', uo_retries = retries, uo_terminated_by_bye = bye, uo_wire_kind = wk'\<rparr>,
              ue_unsubscribe env s2)))"

section \<open>What an unlock does\<close>

text \<open>The environment with the outcomes of the handshake attempts recorded beside the state.\<close>

definition traced :: "'s unlock_env \<Rightarrow> ('s \<times> attempt_outcome list) unlock_env" where
  "traced env = \<lparr>
     ue_try_once = (\<lambda>cap (s, h). case ue_try_once env cap s of (x, s') \<Rightarrow> (x, (s', h @ [x]))),
     ue_expired = (\<lambda>(s, h). case ue_expired env s of (x, s') \<Rightarrow> (x, (s', h))),
     ue_cancelled = (\<lambda>(s, h). case ue_cancelled env s of (x, s') \<Rightarrow> (x, (s', h))),
     ue_sleep = (\<lambda>i (s, h). case ue_sleep env i s of (x, s') \<Rightarrow> (x, (s', h))),
     ue_subscribe = (\<lambda>(s, h). (ue_subscribe env s, h)),
     ue_unsubscribe = (\<lambda>(s, h). (ue_unsubscribe env s, h))\<rparr>"

lemma traced_bail: "loop_bail (traced env) (s, h) = (case loop_bail env s of (b, s') \<Rightarrow> (b, (s', h)))"
  by (simp add: loop_bail_def traced_def split: prod.split)

lemma traced_attempt_expired:
  "attempt_expired (traced env) pa err (s, h) = (case attempt_expired env pa err s of (b, s') \<Rightarrow> (b, (s', h)))"
  by (simp add: attempt_expired_def traced_def split: prod.split)

lemma traced_ops:
  "ue_try_once (traced env) cap (s, h) = (case ue_try_once env cap s of (x, s') \<Rightarrow> (x, (s', h @ [x])))"
  "ue_expired (traced env) (s, h) = (case ue_expired env s of (x, s') \<Rightarrow> (x, (s', h)))"
  "ue_sleep (traced env) i (s, h) = (case ue_sleep env i s of (x, s') \<Rightarrow> (x, (s', h)))"
  "ue_subscribe (traced env) (s, h) = (ue_subscribe env s, h)"
  "ue_unsubscribe (traced env) (s, h) = (ue_unsubscribe env s, h)"
  by (simp_all add: traced_def)

lemma traced_attempt_step:
  "attempt_step (traced env) pa i n (s, h) =
     (case attempt_step env pa i n s of (x, s') \<Rightarrow> (x, (s', h @ [fst (ue_try_once env pa s)])))"
  by (simp add: attempt_step_def traced_ops traced_attempt_expired
      split: prod.split attempt_outcome.split sleep_wake.split)

text \<open>Recording does not change the run.\<close>

lemma traced_retry_loop:
  "\<exists>h'. retry_loop (traced env) pa i left lastk (s, h) =
     (case retry_loop env pa i left lastk s of (r, s') \<Rightarrow> (r, (s', h')))"
proof (induction left arbitrary: lastk s h)
  case (Suc left)
  obtain bail s1 where b: "loop_bail env s = (bail, s1)" by (cases "loop_bail env s")
  obtain x s2 where x: "attempt_step env pa i (UNLOCK_MAX_RETRIES - left) s1 = (x, s2)"
    by (cases "attempt_step env pa i (UNLOCK_MAX_RETRIES - left) s1")
  show ?case using Suc.IH by (cases bail; cases x) (simp_all add: traced_bail traced_attempt_step b x)
qed simp

text \<open>
  The shape of a run: only retryable failures of the first stage are followed by another attempt, and the
  last attempt decides.
\<close>

definition again :: "attempt_outcome \<Rightarrow> bool" where
  "again x \<longleftrightarrow> (\<exists>k. x = WireErr UnlockA k \<and> is_retryable k)"

definition retry_spec :: "retry_result \<Rightarrow> attempt_outcome list \<Rightarrow> bool" where
  "retry_spec r h \<longleftrightarrow> (case r of (result, retries, bye, wk) \<Rightarrow>
     list_all again (butlast h)
   \<and> (result = RESULT_OK \<and> h \<noteq> [] \<and> last h = AttemptOk \<and> wk = None \<and> \<not> bye
      \<or> result = RESULT_ERR \<and> h \<noteq> [] \<and> (\<exists>st. last h = BusinessErr st) \<and> wk = None \<and> \<not> bye
      \<or> result = RESULT_NO_RING \<and> (\<exists>st k. h \<noteq> [] \<and> last h = WireErr st k \<and> wk = Some k \<and> (bye \<longrightarrow> again (last h)))
      \<or> result = RESULT_NO_RING \<and> h = [] \<and> wk = None \<and> \<not> bye))"

lemma attempt_expired_retryable:
  "attempt_expired env pa err s = (True, s') \<Longrightarrow> is_retryable err"
  by (auto simp: attempt_expired_def is_retryable_def split: if_splits)

lemma attempt_step_spec:
  assumes "attempt_step env pa i n s = (x, s')" "list_all again h"
  shows "(\<forall>r. x = Return r \<longrightarrow> retry_spec r (h @ [fst (ue_try_once env pa s)]))
    \<and> (\<forall>err. x = Continue err \<longrightarrow> n < UNLOCK_MAX_RETRIES \<and> is_retryable err \<and> fst (ue_try_once env pa s) = WireErr UnlockA err)"
proof -
  obtain out s2 where out: "ue_try_once env pa s = (out, s2)" by (cases "ue_try_once env pa s")
  show ?thesis
  proof (cases out)
    case (WireErr st err)
    obtain ae s3 where ae: "attempt_expired env pa err s2 = (ae, s3)" by (cases "attempt_expired env pa err s2")
    obtain wake s4 where w: "ue_sleep env i s3 = (wake, s4)" by (cases "ue_sleep env i s3")
    have r: "ae \<longrightarrow> is_retryable err" using attempt_expired_retryable [of env pa err s2 s3] ae by simp
    have x: "x = fst (attempt_step env pa i n s)" using assms(1) by simp
    show ?thesis
      unfolding x using assms(2) r
      by (cases st; cases wake; cases "is_retryable err"; cases ae; cases "n < UNLOCK_MAX_RETRIES";
          simp add: attempt_step_def out WireErr ae w retry_spec_def again_def)
  qed (use assms in \<open>auto simp: attempt_step_def out retry_spec_def\<close>)
qed

lemma retry_loop_spec:
  assumes "retry_loop (traced env) pa i left lastk (s, h) = (r, (s', h'))"
    and "0 < left" "length h + left = UNLOCK_MAX_RETRIES + 1" "list_all again h"
    and "(h = [] \<and> lastk = None) \<or> (h \<noteq> [] \<and> (\<exists>k. last h = WireErr UnlockA k \<and> lastk = Some k))"
  shows "retry_spec r h' \<and> length h' \<le> UNLOCK_MAX_RETRIES + 1"
  using assms
proof (induction left arbitrary: lastk s h)
  case (Suc left)
  obtain bail s1 where b: "loop_bail env s = (bail, s1)" by (cases "loop_bail env s")
  obtain x s2 where x: "attempt_step env pa i (UNLOCK_MAX_RETRIES - left) s1 = (x, s2)"
    by (cases "attempt_step env pa i (UNLOCK_MAX_RETRIES - left) s1")
  note sp = attempt_step_spec [OF x Suc.prems(4)]
  show ?case
  proof (cases bail)
    case True
    then have "r = (RESULT_NO_RING, UNLOCK_MAX_RETRIES - left, False, lastk)" "h' = h"
      using Suc.prems(1) b by (simp_all add: traced_bail)
    then show ?thesis
      using Suc.prems by (auto simp: retry_spec_def list_all_iff dest: in_set_butlastD)
  next
    case nb: False
    show ?thesis
    proof (cases x)
      case (Return r')
      then show ?thesis
        using sp Suc.prems(1,3) b x nb by (auto simp: traced_bail traced_attempt_step)
    next
      case (Continue err)
      then have c: "UNLOCK_MAX_RETRIES - left < UNLOCK_MAX_RETRIES" "is_retryable err"
        "fst (ue_try_once env pa s1) = WireErr UnlockA err" using sp by auto
      have "retry_loop (traced env) pa i left (Some err) (s2, h @ [WireErr UnlockA err]) = (r, s', h')"
        using Suc.prems(1) b x nb Continue c(3) by (simp add: traced_bail traced_attempt_step)
      from Suc.IH [OF this] show ?thesis using c Suc.prems(3,4) by (auto simp: again_def)
    qed
  qed
qed simp

text \<open>What the caller gets, in terms of the attempts made.\<close>

definition outcome_spec :: "unlock_outcome \<Rightarrow> attempt_outcome list \<Rightarrow> bool" where
  "outcome_spec u h \<longleftrightarrow>
     length h \<le> 9 \<and> list_all again (butlast h)
   \<and> (uo_result u = 0 \<longleftrightarrow> h \<noteq> [] \<and> last h = AttemptOk)
   \<and> (uo_result u = -1 \<and> uo_wire_kind u = None \<longleftrightarrow> h \<noteq> [] \<and> (\<exists>st. last h = BusinessErr st))
   \<and> (uo_terminated_by_bye u \<longrightarrow> uo_result u = -103 \<and> h \<noteq> [] \<and> again (last h))
   \<and> (\<forall>k. uo_wire_kind u = Some k \<and> \<not> uo_terminated_by_bye u \<longrightarrow> uo_result u = classify_wire_err k)
   \<and> (h = [] \<longrightarrow> uo_result u = -103 \<and> uo_wire_kind u = None)"

lemma execute_unlock_traced:
  obtains u s' h where "execute_unlock (traced env) per_attempt interval (s, []) = (u, (s', h))"
    "outcome_spec u h" "execute_unlock env per_attempt interval s = (u, s')"
proof -
  let ?s = "ue_subscribe env s"
  obtain result retries bye wk s1 h where r: "run_unlock_with_retry (traced env) per_attempt interval (?s, [])
      = ((result, retries, bye, wk), (s1, h))"
    by (cases "run_unlock_with_retry (traced env) per_attempt interval (?s, [])") auto
  then have sp: "retry_spec (result, retries, bye, wk) h" "length h \<le> 9"
    using retry_loop_spec [of env per_attempt interval "UNLOCK_MAX_RETRIES + 1" None ?s "[]"]
    by (simp_all add: run_unlock_with_retry_def UNLOCK_MAX_RETRIES_def)
  have r0: "run_unlock_with_retry env per_attempt interval ?s = ((result, retries, bye, wk), s1)"
    using traced_retry_loop [of env per_attempt interval "UNLOCK_MAX_RETRIES + 1" None ?s "[]"] r
    by (auto simp: run_unlock_with_retry_def split: prod.splits)
  obtain e s2 where e: "ue_expired env s1 = (e, s2)" by (cases "ue_expired env s1")
  have cl: "classify_wire_err k \<noteq> 0" for k by (cases k) (simp_all add: classify_wire_err_def result_defs)
  obtain u s' h' where x: "execute_unlock (traced env) per_attempt interval (s, []) = (u, (s', h'))"
    by (cases "execute_unlock (traced env) per_attempt interval (s, [])") auto
  then have "outcome_spec u h' \<and> execute_unlock env per_attempt interval s = (u, s')"
    using sp cl by (auto simp: execute_unlock_def traced_ops r r0 e retry_spec_def outcome_spec_def result_defs Let_def
        split: if_splits)
  with x that show thesis by blast
qed


section \<open>The contract of the handshake\<close>

text \<open>
  What the retry loop relies on: an attempt adds events to the network log that fit its outcome, and
  nothing else touches the log.
\<close>

locale attempt_log =
  fixes env :: "'s unlock_env" and log :: "'s \<Rightarrow> 'ev list" and fits :: "attempt_outcome \<Rightarrow> 'ev list \<Rightarrow> bool"
  assumes try_log: "ue_try_once env cap s = (x, s') \<Longrightarrow> \<exists>ev. log s' = log s @ ev \<and> fits x ev"
    and expired_log: "log (snd (ue_expired env s)) = log s"
    and cancelled_log: "log (snd (ue_cancelled env s)) = log s"
    and sleep_log: "log (snd (ue_sleep env i s)) = log s"
    and subscribe_log: "log (ue_subscribe env s) = log s" "log (ue_unsubscribe env s) = log s"
begin

lemma loop_bail_log: "log (snd (loop_bail env s)) = log s"
  using expired_log [of s] cancelled_log [of "snd (ue_expired env s)"]
  by (auto simp: loop_bail_def split: prod.split)

lemma attempt_expired_log: "log (snd (attempt_expired env pa err s)) = log s"
  using expired_log [of s] by (auto simp: attempt_expired_def split: prod.split)

lemma attempt_step_log:
  "\<exists>ev. log (snd (attempt_step env pa i n s)) = log s @ ev \<and> fits (fst (ue_try_once env pa s)) ev"
proof -
  obtain x s2 where x: "ue_try_once env pa s = (x, s2)" by (cases "ue_try_once env pa s")
  then obtain ev where ev: "log s2 = log s @ ev" "fits x ev" using try_log by blast
  have ae: "log s3 = log s2" if "attempt_expired env pa err s2 = (a, s3)" for err a s3
    using attempt_expired_log [of pa err s2] that by simp
  have sl: "log s4 = log s3" if "ue_sleep env i s3 = (w, s4)" for w s3 s4
    using sleep_log [of i s3] that by simp
  have "log (snd (attempt_step env pa i n s)) = log s2"
    by (auto simp: attempt_step_def x ae sl split: attempt_outcome.split prod.split sleep_wake.split)
  with ev x show ?thesis by auto
qed

lemma retry_loop_log:
  assumes "retry_loop (traced env) pa i left lastk (s, h) = (r, (s', h'))"
  shows "\<exists>xs evs. h' = h @ xs \<and> log s' = log s @ concat evs \<and> list_all2 fits xs evs"
  using assms
proof (induction left arbitrary: lastk s h)
  case 0
  then show ?case by (auto intro!: exI [of _ "[]"])
next
  case (Suc left)
  obtain bail s1 where b: "loop_bail env s = (bail, s1)" by (cases "loop_bail env s")
  then have l1: "log s1 = log s" using loop_bail_log [of s] by simp
  obtain x s2 where x: "attempt_step env pa i (UNLOCK_MAX_RETRIES - left) s1 = (x, s2)"
    by (cases "attempt_step env pa i (UNLOCK_MAX_RETRIES - left) s1")
  obtain ev where ev: "log s2 = log s @ ev" "fits (fst (ue_try_once env pa s1)) ev"
    using attempt_step_log [of pa i "UNLOCK_MAX_RETRIES - left" s1] x l1 by auto
  let ?x = "fst (ue_try_once env pa s1)"
  show ?case
  proof (cases bail)
    case True
    then show ?thesis using Suc.prems b l1 by (auto simp: traced_bail intro!: exI [of _ "[]"])
  next
    case nb: False
    show ?thesis
    proof (cases x)
      case (Return r')
      then have "s' = s2" "h' = h @ [?x]" using Suc.prems b x nb by (auto simp: traced_bail traced_attempt_step)
      then show ?thesis using ev by (intro exI [of _ "[?x]"] exI [of _ "[ev]"]) simp
    next
      case (Continue err)
      then have "retry_loop (traced env) pa i left (Some err) (s2, h @ [?x]) = (r, s', h')"
        using Suc.prems b x nb by (simp add: traced_bail traced_attempt_step)
      from Suc.IH [OF this] obtain xs evs where
        "h' = h @ ?x # xs" "log s' = log s2 @ concat evs" "list_all2 fits xs evs" by auto
      with ev show ?thesis by (intro exI [of _ "?x # xs"] exI [of _ "ev # evs"]) simp
    qed
  qed
qed

lemma execute_unlock_log:
  assumes "execute_unlock (traced env) pa i (s, []) = (u, (s', h))"
  shows "\<exists>evs. log s' = log s @ concat evs \<and> list_all2 fits h evs"
proof -
  obtain result retries bye wk s1 h1 where r: "run_unlock_with_retry (traced env) pa i (ue_subscribe env s, [])
      = ((result, retries, bye, wk), (s1, h1))"
    by (cases "run_unlock_with_retry (traced env) pa i (ue_subscribe env s, [])") auto
  obtain e s2 where e: "ue_expired env s1 = (e, s2)" by (cases "ue_expired env s1")
  then have "log s2 = log s1" using expired_log [of s1] by simp
  then have "h = h1" "log s' = log s1"
    using assms subscribe_log(2) by (auto simp: execute_unlock_def traced_ops r e Let_def split: if_splits option.splits)
  moreover from retry_loop_log [OF r [unfolded run_unlock_with_retry_def]]
  obtain evs where "log s1 = log s @ concat evs" "list_all2 fits h1 evs" using subscribe_log(1) by auto
  ultimately show ?thesis by auto
qed

end

end
