(* ===== verification/Wire18022.thy ===== *)
theory Wire18022
  imports Codec
begin

text \<open>
  The TCP 18022 wire frames of \<open>src/wire18022.rs\<close>: the seven frame builders, the checksum of the
  \<open>req=518\<close> frame, the response parser and the strict response check.  A frame is a \<open>byte list\<close>; a
  BCD number is a \<open>byte list\<close> of length four.  The lemmas show that the parser inverts the builders,
  that every request number it returns fits in 32 bits, and that the checksum detects any change of
  one number byte.
\<close>

definition MAGIC_HI :: byte where
  "MAGIC_HI = 0x07"

definition MAGIC_LO :: byte where
  "MAGIC_LO = 0xb8"

definition HEADER_SIZE :: nat where
  "HEADER_SIZE = 6"

definition CHECKSUM_SEED :: u32 where
  "CHECKSUM_SEED = 0x6d"

datatype frame_error =
    FrameTooShort
  | BadMagic
  | BadReserved
  | BadLength
  | BodyTooShort
  | NoReqPrefix
  | NoQuerySeparator
  | EmptyReq
  | ReqTooLong
  | NonDigitReq
  | ReqOutOfRange

definition RESP_711_BODY :: "byte list" where
  "RESP_711_BODY = [0x00, 0x00, 0x01, 0x00, 0x00, 0x00, 0x03, 0x00, 0x00, 0x00]"

definition RESP_519_BODY :: "byte list" where
  "RESP_519_BODY = [0, 0, 0, 0, 0, 0, 0, 0, 0, 0]"

section \<open>Frame builders\<close>

definition assemble_frame :: "byte list \<Rightarrow> byte list" where
  "assemble_frame body =
     [MAGIC_HI, MAGIC_LO] @ u16_to_le_bytes (of_nat (length body)) @ [0x00, 0x00] @ body"

definition build_preview_frame :: "byte list" where
  "build_preview_frame =
     assemble_frame (as_bytes ''req=705&query='' @ [0x00, 0x00, 0x01, 0x00, 0x00, 0x00, 0x03, 0x00, 0x00, 0x01])"

definition build_unlock_a_frame :: "byte list \<Rightarrow> byte list \<Rightarrow> byte list" where
  "build_unlock_a_frame from_bcd to_bcd =
     assemble_frame (as_bytes ''req=710&query='' @ from_bcd @ to_bcd
       @ [0x01, 0x00, 0x00, 0x00, 0x03, 0x00, 0x00, 0x00])"

definition unlock_b_checksum_of :: "byte list \<Rightarrow> byte" where
  "unlock_b_checksum_of frame =
     ucast ((sum_list (map ucast (take 29 frame)) + CHECKSUM_SEED) AND 0xff)"

definition build_unlock_b_frame :: "byte list \<Rightarrow> byte list \<Rightarrow> byte list" where
  "build_unlock_b_frame from_bcd to_bcd =
     (let frame = [MAGIC_HI, MAGIC_LO] @ u16_to_le_bytes 24 @ [0x00, 0x00]
            @ as_bytes ''req=518&query='' @ [0x22] @ from_bcd @ to_bcd @ [0x00]
      in frame[29 := unlock_b_checksum_of frame])"

definition unlock_b_checksum :: "byte list \<Rightarrow> byte list \<Rightarrow> byte" where
  "unlock_b_checksum from_bcd to_bcd = build_unlock_b_frame from_bcd to_bcd ! 29"

definition build_bye_frame :: "byte list \<Rightarrow> byte list \<Rightarrow> byte list" where
  "build_bye_frame from_bcd to_bcd =
     assemble_frame (as_bytes ''req=708&query='' @ from_bcd @ to_bcd
       @ [0x01, 0x00, 0x00, 0x00, 0x03, 0x00, 0x00, 0x00])"

definition build_start_frame :: "byte list \<Rightarrow> byte list \<Rightarrow> byte list" where
  "build_start_frame callee_bcd caller_bcd =
     assemble_frame (as_bytes ''req=704&query*'' @ callee_bcd @ caller_bcd
       @ [0x80, 0x00, 0x00, 0x00, 0x02, 0x00, 0x00, 0x01])"

definition build_stop_frame :: "byte list \<Rightarrow> byte list \<Rightarrow> byte list" where
  "build_stop_frame outdoor_bcd monitor_bcd =
     assemble_frame (as_bytes ''req=708&query='' @ outdoor_bcd @ monitor_bcd
       @ [0x80, 0x00, 0x00, 0x00, 0x02, 0x00, 0x00, 0x01])"

definition build_appoint_frame :: "byte list \<Rightarrow> byte list" where
  "build_appoint_frame from_bcd =
     assemble_frame (as_bytes ''req=518&query='' @ [0xed] @ [0x00, 0x01, 0x00, 0x00]
       @ [from_bcd ! 2] @ [from_bcd ! 3] @ [0x00, 0x07])"

section \<open>Response parser\<close>

text \<open>The digit loop of \<open>parse_req_num\<close>; \<open>i64\<close> cannot overflow on ten digits, see \<open>req_loop_bound\<close>.\<close>

fun req_loop :: "int \<Rightarrow> byte list \<Rightarrow> frame_error + int" where
  "req_loop n [] = Ok n"
| "req_loop n (c # s) =
     (if \<not> is_ascii_digit c then Err NonDigitReq else req_loop (n * 10 + uint (c - 0x30)) s)"

definition parse_req_num :: "byte list \<Rightarrow> frame_error + int" where
  "parse_req_num s =
     (if s = [] then Err EmptyReq
      else if length s > 10 then Err ReqTooLong
      else
        (case req_loop 0 s of
           Err e \<Rightarrow> Err e
         | Ok n \<Rightarrow> if n > 2147483647 then Err ReqOutOfRange else Ok n))"

text \<open>
  The separator scan: \<open>i\<close> starts behind \<open>"req="\<close>, the loop stops at the first window equal to
  \<open>"&query="\<close> or \<open>"&query*"\<close>.
\<close>

definition is_query_sep :: "byte list \<Rightarrow> bool" where
  "is_query_sep s \<longleftrightarrow> s = as_bytes ''&query='' \<or> s = as_bytes ''&query*''"

function sep_scan :: "byte list \<Rightarrow> nat \<Rightarrow> nat option" where
  "sep_scan frame_body i =
     (if i + 7 \<le> length frame_body then
        (if is_query_sep (slice i (i + 7) frame_body) then Some i
         else sep_scan frame_body (i + 1))
      else None)"
  by pat_completeness auto
termination
  by (relation "measure (\<lambda>(frame_body, i). length frame_body - i)") auto

declare sep_scan.simps [simp del]

definition parse_response_frame :: "byte list \<Rightarrow> frame_error + (int \<times> byte list)" where
  "parse_response_frame b =
     (if length b < HEADER_SIZE then Err FrameTooShort
      else if b ! 0 \<noteq> MAGIC_HI \<or> b ! 1 \<noteq> MAGIC_LO then Err BadMagic
      else if b ! 4 \<noteq> 0 \<or> b ! 5 \<noteq> 0 then Err BadReserved
      else
        let len = unat (u16_from_le_bytes (b ! 2) (b ! 3)) in
        if length b - HEADER_SIZE < len then Err BadLength
        else
          let frame_body = slice HEADER_SIZE (HEADER_SIZE + len) b in
          if length frame_body < 4 + 1 + 7 then Err BodyTooShort
          else if take 4 frame_body \<noteq> as_bytes ''req='' then Err NoReqPrefix
          else
            (case sep_scan frame_body 4 of
               None \<Rightarrow> Err NoQuerySeparator
             | Some sep_idx \<Rightarrow>
                 (case parse_req_num (slice 4 sep_idx frame_body) of
                    Err e \<Rightarrow> Err e
                  | Ok req \<Rightarrow> Ok (req, drop (sep_idx + 7) frame_body))))"

definition validate_response :: "byte list \<Rightarrow> int \<Rightarrow> bool" where
  "validate_response resp want_req =
     (case parse_response_frame resp of
        Err _ \<Rightarrow> False
      | Ok (req, body) \<Rightarrow>
          if req \<noteq> want_req then False
          else if want_req = 711 then length body = length RESP_711_BODY \<and> body = RESP_711_BODY
          else if want_req = 519 then length body = length RESP_519_BODY \<and> body = RESP_519_BODY
          else True)"

section \<open>The parser and its specification\<close>

lemma uint_digit: "is_ascii_digit c \<Longrightarrow> uint (c - 0x30) = int (digit_val (byte_char c))"
  by (simp only: digit_val_def of_char_byte_char of_nat_unat)

lemma req_loop_eq:
  "req_loop n s =
     (if list_all is_ascii_digit s then Ok (n * 10 ^ length s + int (dec_val (of_bytes s)))
      else Err NonDigitReq)"
proof (induction s arbitrary: n)
  case Nil
  then show ?case by (simp add: dec_val_def of_bytes_def)
next
  case (Cons c s)
  show ?case
  proof (cases "is_ascii_digit c")
    case True
    let ?d = "int (digit_val (byte_char c))"
    have "req_loop n (c # s) = req_loop (n * 10 + ?d) s"
      using True by (simp only: req_loop.simps uint_digit simp_thms if_False)
    also have "(n * 10 + ?d) * 10 ^ length s + int (dec_val (of_bytes s))
        = n * 10 ^ length (c # s) + int (dec_val (of_bytes (c # s)))"
      by (simp only: of_bytes_def list.map dec_val_Cons distrib_right power_Suc length_Cons
          of_nat_add of_nat_mult of_nat_power of_nat_numeral length_map mult.assoc add.assoc)
    then show ?thesis using True calculation Cons.IH [of "n * 10 + ?d"]
      by (simp only: list.pred_inject simp_thms)
  qed simp
qed

lemma parse_req_num_iff:
  "parse_req_num s = Ok n \<longleftrightarrow>
     1 \<le> length s \<and> length s \<le> 10 \<and> list_all is_ascii_digit s
     \<and> n = int (dec_val (of_bytes s)) \<and> n \<le> 2147483647"
  by (cases s) (auto simp: parse_req_num_def req_loop_eq)

lemma sep_scan_SomeD:
  "sep_scan fb i = Some k \<Longrightarrow> i \<le> k \<and> k + 7 \<le> length fb \<and> is_query_sep (slice k (k + 7) fb)"
proof (induction fb i rule: sep_scan.induct)
  case (1 fb i)
  show ?case
  proof (cases "i + 7 \<le> length fb \<and> \<not> is_query_sep (slice i (i + 7) fb)")
    case True
    with "1.prems" have "sep_scan fb (i + 1) = Some k" by (simp add: sep_scan.simps [of fb i])
    with "1.IH" True show ?thesis by simp
  next
    case False
    with "1.prems" show ?thesis by (auto simp: sep_scan.simps [of fb i] split: if_splits)
  qed
qed

lemma sep_scan_hit:
  "i \<le> k \<Longrightarrow> k + 7 \<le> length fb \<Longrightarrow> is_query_sep (slice k (k + 7) fb) \<Longrightarrow>
     (\<And>j. i \<le> j \<Longrightarrow> j < k \<Longrightarrow> \<not> is_query_sep (slice j (j + 7) fb)) \<Longrightarrow> sep_scan fb i = Some k"
proof (induction "k - i" arbitrary: i)
  case 0
  then show ?case by (simp add: sep_scan.simps [of fb i])
next
  case (Suc d)
  then have "sep_scan fb (i + 1) = Some k" by simp
  with Suc show ?case by (simp add: sep_scan.simps [of fb i])
qed

lemma is_query_sep_head: "is_query_sep s \<Longrightarrow> length s = 7 \<and> s ! 0 = 0x26"
  by (auto simp: is_query_sep_def)

lemma slice_nth: "i < j \<Longrightarrow> j \<le> length xs \<Longrightarrow> slice i j xs ! 0 = xs ! i"
  by (simp add: slice_def)

text \<open>The text part of a response body: \<open>req=\<close>, the digits, a separator, the payload.\<close>

definition response_body :: "byte list \<Rightarrow> byte list \<Rightarrow> byte list \<Rightarrow> byte list" where
  "response_body ds sep payload = as_bytes ''req='' @ ds @ sep @ payload"

lemma response_body_parts:
  "take 4 (response_body ds sep payload) = as_bytes ''req=''"
  "drop 4 (response_body ds sep payload) = ds @ sep @ payload"
  "drop (4 + length ds) (response_body ds sep payload) = sep @ payload"
  "drop (4 + length ds + length sep) (response_body ds sep payload) = payload"
  "length (response_body ds sep payload) = 4 + length ds + length sep + length payload"
  by (simp_all add: response_body_def del: as_bytes_Cons)

lemma sep_scan_response_body:
  assumes "list_all is_ascii_digit ds" "is_query_sep sep"
  shows "sep_scan (response_body ds sep payload) 4 = Some (4 + length ds)"
proof (rule sep_scan_hit)
  have len: "length sep = 7" using assms(2) by (simp add: is_query_sep_head)
  show "4 + length ds + 7 \<le> length (response_body ds sep payload)"
    using len by (simp add: response_body_def)
  show "is_query_sep (slice (4 + length ds) (4 + length ds + 7) (response_body ds sep payload))"
    using len assms(2) by (simp add: response_body_parts slice_def)
  fix j assume j: "4 \<le> j" "j < 4 + length ds"
  then have "response_body ds sep payload ! j = ds ! (j - 4)"
    using response_body_parts(2) [of ds sep payload] nth_drop [of 4 "response_body ds sep payload" "j - 4"]
    by (simp add: nth_append response_body_parts(5) less_diff_conv2)
  moreover have "is_ascii_digit (ds ! (j - 4))"
    using assms(1) j by (simp add: list_all_length)
  ultimately have "response_body ds sep payload ! j \<noteq> 0x26"
    by (auto simp: is_ascii_digit_def)
  then show "\<not> is_query_sep (slice j (j + 7) (response_body ds sep payload))"
    using is_query_sep_head slice_nth [of j "j + 7" "response_body ds sep payload"] j len
    by (fastforce simp: response_body_def)
qed simp

lemma assemble_frame_simps [simp]:
  "length (assemble_frame body) = length body + 6"
  "assemble_frame body ! 0 = MAGIC_HI" "assemble_frame body ! Suc 0 = MAGIC_LO"
  "assemble_frame body ! 4 = 0" "assemble_frame body ! 5 = 0"
  "drop 6 (assemble_frame body) = body"
  by (simp_all add: assemble_frame_def u16_to_le_bytes_def)

lemma assemble_frame_length_field:
  "length body < 65536 \<Longrightarrow>
     unat (u16_from_le_bytes (assemble_frame body ! 2) (assemble_frame body ! 3)) = length body"
  by (simp add: assemble_frame_def u16_to_le_bytes_def byte_simps unat_of_nat)

lemma parse_response_frame_complete:
  assumes "1 \<le> length ds" "length ds \<le> 10" "list_all is_ascii_digit ds" "is_query_sep sep"
    "dec_val (of_bytes ds) \<le> 2147483647" "length (response_body ds sep payload) < 65536"
  shows "parse_response_frame (assemble_frame (response_body ds sep payload) @ rest)
           = Ok (int (dec_val (of_bytes ds)), payload)"
proof -
  let ?rb = "response_body ds sep payload"
  have len: "length sep = 7" using assms(4) by (simp add: is_query_sep_head)
  have sl: "slice 6 (6 + length ?rb) (assemble_frame ?rb @ rest) = ?rb"
    by (simp add: slice_def)
  have req: "parse_req_num (slice 4 (4 + length ds) ?rb) = Ok (int (dec_val (of_bytes ds)))"
    using assms by (simp add: parse_req_num_iff slice_def response_body_def)
  have "drop (4 + length ds + 7) ?rb = payload" "take 4 ?rb = as_bytes ''req=''"
    "\<not> length ?rb < 12"
    using len assms(1) response_body_parts [of ds sep payload] by auto
  then show ?thesis
    using assms len sl req sep_scan_response_body [OF assms(3,4), of payload]
      assemble_frame_length_field [OF assms(6)]
    by (simp add: parse_response_frame_def HEADER_SIZE_def nth_append)
qed

lemma le_bytes_of_from: "u16_to_le_bytes (u16_from_le_bytes a b) = [a, b]"
  using u16_to_be_bytes_from [of b a]
  by (simp add: u16_to_le_bytes_def u16_to_be_bytes_def u16_from_le_bytes_def)

lemma frame_split:
  assumes "6 \<le> length b" "b ! 0 = MAGIC_HI" "b ! 1 = MAGIC_LO" "b ! 4 = 0" "b ! 5 = 0"
    "len = unat (u16_from_le_bytes (b ! 2) (b ! 3))" "len \<le> length b - 6"
  shows "b = assemble_frame (slice 6 (6 + len) b) @ drop (6 + len) b"
proof -
  obtain b0 b1 b2 b3 b4 b5 r where b: "b = b0 # b1 # b2 # b3 # b4 # b5 # r"
    using assms(1) by (auto simp: eval_nat_numeral Suc_le_length_iff)
  have "of_nat len = u16_from_le_bytes b2 b3" using assms(6) b by simp
  then have "u16_to_le_bytes (of_nat len) = [b2, b3]" by (simp add: le_bytes_of_from)
  moreover have "drop (6 + len) b = drop len (drop 6 b)" by (simp add: add.commute)
  ultimately show ?thesis
    using assms b by (simp add: assemble_frame_def slice_def)
qed

lemma parse_response_frame_sound:
  assumes "parse_response_frame b = Ok (req, payload)"
  shows "\<exists>ds sep rest. b = assemble_frame (response_body ds sep payload) @ rest
     \<and> length (response_body ds sep payload) < 65536 \<and> is_query_sep sep
     \<and> 1 \<le> length ds \<and> length ds \<le> 10 \<and> list_all is_ascii_digit ds
     \<and> req = int (dec_val (of_bytes ds)) \<and> req \<le> 2147483647"
proof -
  define len where "len = unat (u16_from_le_bytes (b ! 2) (b ! 3))"
  define fb where "fb = slice 6 (6 + len) b"
  have hd: "6 \<le> length b" "b ! 0 = MAGIC_HI" "b ! 1 = MAGIC_LO" "b ! 4 = 0" "b ! 5 = 0"
      "len \<le> length b - 6" "take 4 fb = as_bytes ''req=''"
      "\<exists>k. sep_scan fb 4 = Some k \<and> parse_req_num (slice 4 k fb) = Ok req \<and> payload = drop (k + 7) fb"
    using assms unfolding parse_response_frame_def HEADER_SIZE_def Let_def len_def [symmetric] fb_def [symmetric]
    by (auto split: if_splits option.splits sum.splits simp del: as_bytes_Cons)
  then obtain k where k: "sep_scan fb 4 = Some k" "parse_req_num (slice 4 k fb) = Ok req"
    "payload = drop (k + 7) fb" by blast
  note sc = sep_scan_SomeD [OF k(1)]
  have "fb = take 4 fb @ slice 4 k fb @ slice k (k + 7) fb @ drop (k + 7) fb"
    using sc by (simp add: slice_def) (metis add.commute append_take_drop_id drop_drop le_add_diff_inverse2)
  then have fb: "fb = response_body (slice 4 k fb) (slice k (k + 7) fb) payload"
    using hd(7) k(3) by (simp add: response_body_def del: as_bytes_Cons)
  have "b = assemble_frame fb @ drop (6 + len) b"
    unfolding fb_def by (rule frame_split) (use hd len_def in simp_all)
  moreover have "length fb < 65536"
    using unsigned_less [of "u16_from_le_bytes (b ! 2) (b ! 3)"] hd(6) by (simp add: fb_def len_def slice_def)
  ultimately show ?thesis
    using fb sc k(2) unfolding parse_req_num_iff by metis
qed

text \<open>
  C39. \<open>parse_response_frame\<close> accepts exactly the frames it should: magic, little-endian length, two
  reserved zero bytes, \<open>req=\<close> with one to ten digits whose value fits in 32 bits signed, one of the two
  separators, then the payload, with anything after the declared length ignored; it returns that number
  and that payload.
\<close>

theorem parse_response_frame_iff:
  "parse_response_frame b = Ok (req, payload) \<longleftrightarrow>
     (\<exists>ds sep rest. b = assemble_frame (response_body ds sep payload) @ rest
        \<and> length (response_body ds sep payload) < 65536 \<and> is_query_sep sep
        \<and> 1 \<le> length ds \<and> length ds \<le> 10 \<and> list_all is_ascii_digit ds
        \<and> req = int (dec_val (of_bytes ds)) \<and> req \<le> 2147483647)"
  using parse_response_frame_sound [of b req payload] parse_response_frame_complete
  by (metis (no_types, lifting) of_nat_le_iff of_nat_numeral)

section \<open>The builders\<close>

lemma list4E:
  assumes "length xs = 4"
  obtains a b c d where "xs = [a, b, c, d]"
  using assms that by (auto simp: eval_nat_numeral length_Suc_conv)

lemma parse_built_frame:
  assumes "rb = response_body (as_bytes ds) (as_bytes sep) payload"
    "list_all is_ascii_digit (as_bytes ds)" "length ds = 3" "is_query_sep (as_bytes sep)"
    "dec_val ds = n" "n \<le> 2147483647" "length payload \<le> 60000"
  shows "parse_response_frame (assemble_frame rb) = Ok (int n, payload)"
proof -
  have "length sep = 7" using is_query_sep_head [OF assms(4)] by simp
  with assms show ?thesis
    using parse_response_frame_complete [of "as_bytes ds" "as_bytes sep" payload "[]"]
    by (simp add: response_body_parts(5))
qed

lemma dec_val_literals [simp]:
  "dec_val ''705'' = 705" "dec_val ''710'' = 710" "dec_val ''518'' = 518" "dec_val ''708'' = 708" "dec_val ''704'' = 704"
  by code_simp+

lemma digits_literals [simp]:
  "list_all is_ascii_digit (as_bytes ''705'')" "list_all is_ascii_digit (as_bytes ''710'')"
  "list_all is_ascii_digit (as_bytes ''518'')" "list_all is_ascii_digit (as_bytes ''708'')"
  "list_all is_ascii_digit (as_bytes ''704'')"
  by (simp_all add: is_ascii_digit_def)

lemma unlock_b_assembled:
  assumes "length f = 4" "length t = 4"
  shows "build_unlock_b_frame f t =
      assemble_frame (as_bytes ''req=518&query='' @ 0x22 # f @ t @ [unlock_b_checksum f t])"
  using assms
  by (elim list4E) (simp add: unlock_b_checksum_def build_unlock_b_frame_def assemble_frame_def Let_def u16_to_le_bytes_def)

text \<open>
  Every request frame the daemon builds is a frame its own parser reads back: the request number and
  the payload (numbers, fixed tail, and the checksum byte of \<open>req=518\<close>) come out as they went in.
\<close>

theorem builders_parse:
  assumes "length f = 4" "length t = 4"
  shows "parse_response_frame build_preview_frame
           = Ok (705, [0x00, 0x00, 0x01, 0x00, 0x00, 0x00, 0x03, 0x00, 0x00, 0x01])
    \<and> parse_response_frame (build_unlock_a_frame f t) = Ok (710, f @ t @ [0x01, 0, 0, 0, 0x03, 0, 0, 0])
    \<and> parse_response_frame (build_unlock_b_frame f t) = Ok (518, 0x22 # f @ t @ [unlock_b_checksum f t])
    \<and> parse_response_frame (build_bye_frame f t) = Ok (708, f @ t @ [0x01, 0, 0, 0, 0x03, 0, 0, 0])
    \<and> parse_response_frame (build_start_frame f t) = Ok (704, f @ t @ [0x80, 0, 0, 0, 0x02, 0, 0, 0x01])
    \<and> parse_response_frame (build_stop_frame f t) = Ok (708, f @ t @ [0x80, 0, 0, 0, 0x02, 0, 0, 0x01])
    \<and> parse_response_frame (build_appoint_frame f) = Ok (518, [0xed, 0, 0x01, 0, 0, f ! 2, f ! 3, 0, 0x07])"
proof -
  have eq: "as_bytes ''&query='' = [38, 113, 117, 101, 114, 121, 61]"
    "as_bytes ''&query*'' = [38, 113, 117, 101, 114, 121, 42]" by simp_all
  have body:
    "as_bytes ''req=705&query='' @ p = response_body (as_bytes ''705'') (as_bytes ''&query='') p"
    "as_bytes ''req=710&query='' @ p = response_body (as_bytes ''710'') (as_bytes ''&query='') p"
    "as_bytes ''req=518&query='' @ p = response_body (as_bytes ''518'') (as_bytes ''&query='') p"
    "as_bytes ''req=708&query='' @ p = response_body (as_bytes ''708'') (as_bytes ''&query='') p"
    "as_bytes ''req=704&query*'' @ p = response_body (as_bytes ''704'') (as_bytes ''&query*'') p" for p
    by (simp_all add: response_body_def)
  note built = parse_built_frame [OF body(1)] parse_built_frame [OF body(2)] parse_built_frame [OF body(3)]
    parse_built_frame [OF body(4)] parse_built_frame [OF body(5)]
  have sep: "is_query_sep (as_bytes ''&query='')" "is_query_sep (as_bytes ''&query*'')"
    by (simp_all add: is_query_sep_def)
  have b: "build_unlock_b_frame f t =
      assemble_frame (as_bytes ''req=518&query='' @ 0x22 # f @ t @ [unlock_b_checksum f t])"
    by (rule unlock_b_assembled [OF assms])
  show ?thesis
    unfolding build_preview_frame_def build_unlock_a_frame_def b build_bye_frame_def
      build_start_frame_def build_stop_frame_def build_appoint_frame_def
    using assms sep by (intro conjI) (subst built; simp del: as_bytes_Cons)+
qed

theorem builders_parse_witness:
  "parse_response_frame (build_unlock_b_frame [0x06, 0x02, 0, 0] [0x06, 0x02, 0x11, 0x03])
     = Ok (518, 0x22 # [0x06, 0x02, 0, 0] @ [0x06, 0x02, 0x11, 0x03]
         @ [unlock_b_checksum [0x06, 0x02, 0, 0] [0x06, 0x02, 0x11, 0x03]])"
proof -
  have "length [0x06, 0x02, 0, 0 :: byte] = 4" "length [0x06, 0x02, 0x11, 0x03 :: byte] = 4" by simp_all
  from builders_parse [OF this] show ?thesis by blast
qed

section \<open>The checksum\<close>

lemma ucast_byte_add: "(ucast (a + b :: u32) :: byte) = ucast a + ucast b"
proof -
  have t: "take_bit 8 (take_bit 32 x) = take_bit 8 x" for x :: int by simp
  show ?thesis
    by transfer (simp, metis take_bit_add t)
qed

lemma ucast_low_byte: "(ucast (a AND 0xff :: u32) :: byte) = ucast a"
proof -
  have "a AND 0xff = take_bit 8 a" by (simp add: take_bit_eq_mask mask_eq_exp_minus_1)
  then show ?thesis by (auto intro!: bit_word_eqI simp: bit_simps)
qed

lemma ucast_ucast_byte: "(ucast (ucast (b :: byte) :: u32) :: byte) = b"
  by (rule bit_word_eqI) (simp add: bit_simps)

lemma sum_list_update_byte:
  "i < length xs \<Longrightarrow> sum_list (xs[i := x]) = sum_list xs - xs ! i + (x :: byte)"
proof (induction xs arbitrary: i)
  case (Cons y ys)
  then show ?case by (cases i) (simp_all add: algebra_simps)
qed simp

lemma unlock_b_checksum_of_eq: "unlock_b_checksum_of frame = 0x6d + sum_list (take 29 frame)"
proof -
  have s: "(ucast (sum_list (map ucast bs) :: u32) :: byte) = sum_list bs" for bs :: "byte list"
    by (induction bs) (simp_all add: ucast_byte_add ucast_ucast_byte)
  have c: "(ucast (0x6d :: u32) :: byte) = 0x6d" by simp
  show ?thesis
    unfolding unlock_b_checksum_of_def CHECKSUM_SEED_def ucast_low_byte ucast_byte_add s c
    by (rule add.commute)
qed

lemma unlock_b_checksum_eq:
  assumes "length f = 4" "length t = 4"
  shows "unlock_b_checksum f t = 0x22 + (sum_list f + sum_list t)"
proof -
  define pre where "pre = [MAGIC_HI, MAGIC_LO] @ u16_to_le_bytes 24 @ [0x00, 0x00] @ as_bytes ''req=518&query='' @ [0x22]"
  have l: "length pre = 21" by (simp add: pre_def)
  have s: "0x6d + sum_list pre = 0x22"
    by (simp add: pre_def u16_to_le_bytes_def MAGIC_HI_def MAGIC_LO_def)
  have "unlock_b_checksum f t = unlock_b_checksum_of (pre @ f @ t @ [0x00])"
    using l assms by (simp add: unlock_b_checksum_def build_unlock_b_frame_def pre_def Let_def del: as_bytes_Cons)
  also have "\<dots> = 0x6d + sum_list (pre @ f @ t)"
    using l assms by (simp add: unlock_b_checksum_of_eq)
  also have "\<dots> = (0x6d + sum_list pre) + (sum_list f + sum_list t)" by simp
  finally show ?thesis by (simp only: s)
qed

text \<open>
  The \<open>req=518\<close> checksum detects the corruption of any one byte of either number: replacing one byte
  by a different one changes the checksum, so no such corrupted frame carries a valid checksum.
\<close>

theorem checksum_detects_byte_change:
  assumes "length f = 4" "length t = 4" "i < 4"
  shows "(unlock_b_checksum (f[i := x]) t = unlock_b_checksum f t) = (x = f ! i)
       \<and> (unlock_b_checksum f (t[i := x]) = unlock_b_checksum f t) = (x = t ! i)"
proof -
  have upd: "sum_list (xs[i := x]) = sum_list xs - xs ! i + x" if "length xs = 4" for xs :: "byte list"
    using that assms(3) by (simp add: sum_list_update_byte)
  show ?thesis
    using assms by (auto simp: unlock_b_checksum_eq upd)
qed

theorem checksum_detects_byte_change_witness:
  "unlock_b_checksum ([6, 2, 0, 0][3 := 1]) [6, 2, 17, 3] \<noteq> unlock_b_checksum [6, 2, 0, 0] [6, 2, 17, 3]"
  using checksum_detects_byte_change [of "[6, 2, 0, 0]" "[6, 2, 17, 3]" 3 1] by simp

text \<open>
  The preview-start frame and the preview-stop frame for the same pair of numbers have 36 bytes and
  differ in exactly two of them: the last digit of the request number (offset 12) and the separator
  (offset 19).
\<close>

theorem start_stop_differ:
  assumes "length f = 4" "length t = 4"
  shows "length (build_start_frame f t) = 36 \<and> length (build_stop_frame f t) = 36
       \<and> {i. i < 36 \<and> build_start_frame f t ! i \<noteq> build_stop_frame f t ! i} = {12, 19}"
proof -
  obtain a b c d where f: "f = [a, b, c, d]" using assms(1) by (rule list4E)
  obtain a' b' c' d' where t: "t = [a', b', c', d']" using assms(2) by (rule list4E)
  have upd: "build_start_frame f t = (build_stop_frame f t)[12 := 0x34, 19 := 0x2a]"
    and old: "build_stop_frame f t ! 12 = 0x38" "build_stop_frame f t ! 19 = 0x3d"
    and len: "length (build_stop_frame f t) = 36"
    unfolding f t by (simp_all add: build_start_frame_def build_stop_frame_def assemble_frame_def u16_to_le_bytes_def)
  show ?thesis
    using old len by (auto simp: upd nth_list_update)
qed

theorem start_stop_differ_witness:
  "{i. i < 36 \<and> build_start_frame [6, 2, 0, 0] [6, 2, 17, 3] ! i \<noteq> build_stop_frame [6, 2, 0, 0] [6, 2, 17, 3] ! i} = {12, 19}"
  using start_stop_differ [of "[6, 2, 0, 0]" "[6, 2, 17, 3]"] by simp

end
