(* ===== verification/WireSender.thy ===== *)
theory WireSender
  imports Unlock Wire18022 RustStr
begin

text \<open>
  \<open>src/wire_sender.rs\<close> and the \<open>WireSenderAdapter\<close> of \<open>src/sender.rs\<close>: one short TCP connection per
  frame, the classification of its failures, the two-step unlock handshake, and the production
  environment of the unlock core.

  The operating system is an oracle in the state: the \<open>i\<close>-th interaction (a clock reading, a reading of
  the cancel flag, a connect, write, read or sleep) gets the \<open>i\<close>-th answer, whatever it is.  The log
  records the frames handed to sockets and the responses read.
\<close>

section \<open>Errors\<close>

datatype io_err = IoErr io_kind string

datatype wire_error = WSilentFin | WTimeout string | WCanceled string | WIo string io_err | WIface string

fun io_err_kind :: "io_err \<Rightarrow> io_kind" where
  "io_err_kind (IoErr k msg) = k"

fun io_err_display :: "io_err \<Rightarrow> string" where
  "io_err_display (IoErr k msg) = msg"

fun wire_error_display :: "wire_error \<Rightarrow> string" where
  "wire_error_display WSilentFin = ''wire18022: peer closed without response (likely ring state mismatch)''"
| "wire_error_display (WTimeout stage) = stage @ '': wire18022: socket timeout''"
| "wire_error_display (WCanceled stage) = stage @ '': canceled''"
| "wire_error_display (WIo stage e) = stage @ '': '' @ io_err_display e"
| "wire_error_display (WIface msg) = ''iface: '' @ msg"

definition io_is_timeout :: "wire_error \<Rightarrow> bool" where
  "io_is_timeout e \<longleftrightarrow> (case e of WIo _ s \<Rightarrow> io_err_kind s = TimedOut \<or> io_err_kind s = WouldBlock | _ \<Rightarrow> False)"

definition wrap_timeout :: "io_err \<Rightarrow> string \<Rightarrow> wire_error" where
  "wrap_timeout err stage =
     (if io_err_kind err = TimedOut \<or> io_err_kind err = WouldBlock then WTimeout stage else WIo stage err)"

definition is_retryable_error :: "wire_error \<Rightarrow> bool" where
  "is_retryable_error err =
     (if err = WSilentFin then True
      else if (case err of WTimeout _ \<Rightarrow> True | _ \<Rightarrow> False) then True
      else if io_is_timeout err then True
      else if (case err of WIo _ s \<Rightarrow> io_err_kind s = ConnectionReset \<or> io_err_kind s = BrokenPipe | _ \<Rightarrow> False) then True
      else find_sub ''connection reset'' (wire_error_display err) \<noteq> None
           \<or> find_sub ''broken pipe'' (wire_error_display err) \<noteq> None)"

definition map_wire_kind :: "wire_error \<Rightarrow> wire_kind" where
  "map_wire_kind err =
     (case err of
        WSilentFin \<Rightarrow> SilentFin
      | WTimeout _ \<Rightarrow> Timeout
      | _ \<Rightarrow> if is_retryable_error err then Retryable else Other)"

section \<open>Sources and targets\<close>

definition is_loopback :: "byte list \<Rightarrow> bool" where
  "is_loopback ip \<longleftrightarrow> ip ! 0 = 127"

text \<open>\<open>pick_ipv4_from_addrs\<close>: the first address that is not a loopback address, else the first of all.\<close>

fun pick_from :: "byte list option \<Rightarrow> byte list list \<Rightarrow> byte list option" where
  "pick_from fallback [] = fallback"
| "pick_from fallback (ip # ips) =
     (if is_loopback ip then pick_from (if fallback = None then Some ip else fallback) ips else Some ip)"

definition pick_ipv4_from_addrs :: "byte list list \<Rightarrow> byte list option" where
  "pick_ipv4_from_addrs addrs = pick_from None addrs"

text \<open>\<open>get_iface_ip\<close> over what the platform reports for the interface.\<close>

definition get_iface_ip :: "string \<Rightarrow> (wire_error + byte list list) \<Rightarrow> wire_error + byte list" where
  "get_iface_ip iface addrs =
     (case addrs of
        Err e \<Rightarrow> Err e
      | Ok as \<Rightarrow>
          (case pick_ipv4_from_addrs as of
             Some ip \<Rightarrow> Ok ip
           | None \<Rightarrow> Err (WIface (''interface '' @ iface @ '' has no IPv4 address''))))"

text \<open>The wait for a non-blocking connect: each round reads the cancel flag and the clock and polls.\<close>

datatype poll_result = PollIntr | PollErr io_err | PollTimeout | PollWritable "io_err option" | PollSockoptErr io_err

fun wait_connect :: "nat \<Rightarrow> (bool \<times> nat \<times> poll_result \<times> bool) list \<Rightarrow> (wire_error + unit) option" where
  "wait_connect deadline [] = None"
| "wait_connect deadline ((cancel, now, p, cancel') # rounds) =
     (if cancel then Some (Err (WCanceled ''connect''))
      else if now \<ge> deadline then Some (Err (WTimeout ''connect''))
      else (case p of
              PollIntr \<Rightarrow> wait_connect deadline rounds
            | PollErr e \<Rightarrow> Some (Err (WIo ''connect-poll'' e))
            | PollTimeout \<Rightarrow> wait_connect deadline rounds
            | PollWritable None \<Rightarrow> Some (Ok ())
            | PollWritable (Some soerr) \<Rightarrow>
                Some (Err (if cancel' then WCanceled ''connect'' else wrap_timeout soerr ''connect''))
            | PollSockoptErr e \<Rightarrow> Some (Err (WIo ''connect-getsockopt'' e))))"

section \<open>The environment\<close>

datatype net_event = Sent string u16 "byte list" | Recv "byte list"

record world =
  w_step :: nat
  w_clock :: "nat \<Rightarrow> nat"
  w_cancel :: "nat \<Rightarrow> bool"
  w_iface :: "nat \<Rightarrow> wire_error + byte list list"
  w_is_ipv6 :: "string \<Rightarrow> bool"
  w_connect :: "nat \<Rightarrow> wire_error option"
  w_setopt :: "nat \<Rightarrow> io_err option"
  w_write :: "nat \<Rightarrow> io_err option"
  w_read :: "nat \<Rightarrow> io_err + byte list"
  w_wake :: "nat \<Rightarrow> sleep_wake"
  w_deadline :: instant_deadline
  w_subs :: nat
  w_log :: "net_event list"

definition tick :: "world \<Rightarrow> world" where
  "tick w = w\<lparr>w_step := w_step w + 1\<rparr>"

definition ask :: "(world \<Rightarrow> nat \<Rightarrow> 'a) \<Rightarrow> world \<Rightarrow> 'a \<times> world" where
  "ask f w = (f w (w_step w), tick w)"

definition log_event :: "net_event \<Rightarrow> world \<Rightarrow> world" where
  "log_event e w = w\<lparr>w_log := w_log w @ [e]\<rparr>"

section \<open>Sending a frame\<close>

definition DEFAULT_TIMEOUT :: nat where "DEFAULT_TIMEOUT = 5000"
definition MAX_RECV_BYTES :: nat where "MAX_RECV_BYTES = 256"

record sender =
  sn_iface :: string
  sn_timeout :: "nat option"
  sn_local_ip :: "byte list option"

definition classify_io :: "io_err \<Rightarrow> string \<Rightarrow> world \<Rightarrow> wire_error \<times> world" where
  "classify_io err stage w =
     (case ask w_cancel w of (c, w1) \<Rightarrow> (if c then WCanceled stage else wrap_timeout err stage, w1))"

text \<open>\<open>parse_target\<close>; IPv6 literals are refused later by the connect.\<close>

definition parse_target :: "world \<Rightarrow> string \<Rightarrow> wire_error + bool" where
  "parse_target w ip =
     (if ipv4_from_str ip \<noteq> None then Ok True
      else if w_is_ipv6 w ip then Ok False
      else Err (WIface (''invalid target IP '' @ ip)))"

definition write_then_read ::
  "string \<Rightarrow> u16 \<Rightarrow> byte list \<Rightarrow> bool \<Rightarrow> nat \<Rightarrow> world \<Rightarrow> (wire_error + byte list option) \<times> world" where
  "write_then_read ip port frame want_recv deadline w0 =
     (case ask w_setopt w0 of
        (Some e, w1) \<Rightarrow> (Err (WIo ''set_write_timeout'' e), w1)
      | (None, w1) \<Rightarrow>
        (case ask w_cancel w1 of (c, w2) \<Rightarrow>
         if c then (Err (WCanceled ''write''), w2)
         else
           (case ask w_write (log_event (Sent ip port frame) w2) of
              (Some e, w3) \<Rightarrow> (case classify_io e ''write'' w3 of (err, w4) \<Rightarrow> (Err err, w4))
            | (None, w3) \<Rightarrow>
              if \<not> want_recv then (Ok None, w3)
              else
                (case ask w_setopt w3 of
                   (Some e, w4) \<Rightarrow> (Err (WIo ''set_read_timeout'' e), w4)
                 | (None, w4) \<Rightarrow>
                   (case ask w_read w4 of
                      (Err e, w5) \<Rightarrow> (case classify_io e ''read'' w5 of (err, w6) \<Rightarrow> (Err err, w6))
                    | (Ok bytes, w5) \<Rightarrow>
                        let buf = take MAX_RECV_BYTES bytes in
                        if buf = [] then
                          (case ask w_cancel w5 of (c2, w6) \<Rightarrow>
                           if c2 then (Err (WCanceled ''read''), w6)
                           else (case ask w_clock w6 of (now, w7) \<Rightarrow>
                                 if now \<ge> deadline then (Err (WTimeout ''read''), w7)
                                 else (Err WSilentFin, w7)))
                        else (Ok (Some buf), log_event (Recv buf) w5))))))"

definition send_context ::
  "sender \<Rightarrow> string \<Rightarrow> u16 \<Rightarrow> byte list \<Rightarrow> bool \<Rightarrow> world \<Rightarrow> (wire_error + byte list option) \<times> world" where
  "send_context sn ip port frame want_recv w0 =
     (let timeout = (case sn_timeout sn of Some t \<Rightarrow> t | None \<Rightarrow> DEFAULT_TIMEOUT) in
      case (case sn_local_ip sn of
              Some lip \<Rightarrow> (Ok (Some lip), w0)
            | None \<Rightarrow>
                if sn_iface sn \<noteq> [] then
                  (case ask w_iface w0 of (as, w1) \<Rightarrow>
                     (case get_iface_ip (sn_iface sn) as of Err e \<Rightarrow> (Err e, w1) | Ok lip \<Rightarrow> (Ok (Some lip), w1)))
                else (Ok None, w0))
      of (Err e, w1) \<Rightarrow> (Err e, w1)
       | (Ok local_ip, w1) \<Rightarrow>
           (case parse_target w1 ip of
              Err e \<Rightarrow> (Err e, w1)
            | Ok v4 \<Rightarrow>
                (case ask w_clock w1 of (now, w2) \<Rightarrow>
                   if \<not> v4 then (Err (WIface ''IPv6 target unsupported''), w2)
                   else (case ask w_connect w2 of (conn, w3) \<Rightarrow>
                           (case conn of
                              Some e \<Rightarrow> (Err e, w3)
                            | None \<Rightarrow> write_then_read ip port frame want_recv (now + timeout) w3)))))"

section \<open>The handshake\<close>

text \<open>The closure \<open>op_timeout\<close>: the step's own limit, cut by what is left of the total cap.\<close>

definition op_timeout :: "nat option \<Rightarrow> world \<Rightarrow> nat \<times> world" where
  "op_timeout per_attempt_cap w =
     (let cap = (case per_attempt_cap of Some c \<Rightarrow> c | None \<Rightarrow> DEFAULT_TIMEOUT) in
      case ask w_clock w of (now, w1) \<Rightarrow>
      case ask w_clock w1 of (now', w2) \<Rightarrow>
      case id_remaining now now' (w_deadline w2) of (rem, d) \<Rightarrow>
        ((case rem of Some r \<Rightarrow> min cap r | None \<Rightarrow> cap), w2\<lparr>w_deadline := d\<rparr>))"

definition try_once ::
  "sender \<Rightarrow> byte list \<Rightarrow> byte list \<Rightarrow> string \<Rightarrow> u16 \<Rightarrow> nat option \<Rightarrow> world \<Rightarrow> attempt_outcome \<times> world" where
  "try_once sn caller callee ip port per_attempt_cap w0 =
     (case op_timeout per_attempt_cap w0 of (t1, w1) \<Rightarrow>
      (case send_context (sn\<lparr>sn_timeout := Some t1\<rparr>) ip port (build_unlock_a_frame caller callee) True w1 of
        (Err e, w2) \<Rightarrow> (WireErr UnlockA (map_wire_kind e), w2)
      | (Ok ra, w2) \<Rightarrow>
          let resp_a = (case ra of Some r \<Rightarrow> r | None \<Rightarrow> []) in
          if \<not> validate_response resp_a 711 then (BusinessErr UnlockA, w2)
          else
            (case op_timeout per_attempt_cap w2 of (t2, w3) \<Rightarrow>
             (case send_context (sn\<lparr>sn_timeout := Some t2\<rparr>) ip port (build_unlock_b_frame caller callee) True w3 of
               (Err e, w4) \<Rightarrow> (WireErr UnlockB (map_wire_kind e), w4)
             | (Ok rb, w4) \<Rightarrow>
                 let resp_b = (case rb of Some r \<Rightarrow> r | None \<Rightarrow> []) in
                 if \<not> validate_response resp_b 519 then (BusinessErr UnlockB, w4) else (AttemptOk, w4)))))"

text \<open>The production environment of the unlock core, with or without a bye listener.\<close>

definition expired_op :: "world \<Rightarrow> bool \<times> world" where
  "expired_op w =
     (case ask w_clock w of (now, w1) \<Rightarrow>
      case ask w_clock w1 of (now', w2) \<Rightarrow>
      case id_expired now now' (w_deadline w2) of (x, d) \<Rightarrow> (x, w2\<lparr>w_deadline := d\<rparr>))"

definition sleep_op :: "bool \<Rightarrow> nat \<Rightarrow> world \<Rightarrow> sleep_wake \<times> world" where
  "sleep_op listening interval w =
     (case ask w_wake w of (k, w1) \<Rightarrow> (if k = Bye \<and> \<not> listening then Elapsed else k, w1))"

definition wire_env :: "sender \<Rightarrow> bool \<Rightarrow> byte list \<Rightarrow> byte list \<Rightarrow> string \<Rightarrow> u16 \<Rightarrow> world unlock_env" where
  "wire_env sn listening caller callee ip port = \<lparr>
     ue_try_once = try_once sn caller callee ip port,
     ue_expired = expired_op,
     ue_cancelled = ask w_cancel,
     ue_sleep = sleep_op listening,
     ue_subscribe = (\<lambda>w. if listening then w\<lparr>w_subs := w_subs w + 1\<rparr> else w),
     ue_unsubscribe = (\<lambda>w. if listening then w\<lparr>w_subs := w_subs w - 1\<rparr> else w)\<rparr>"

text \<open>\<open>WireSenderAdapter::execute_unlock\<close>, the HTTP path.\<close>

definition adapter_execute_unlock ::
  "sender \<Rightarrow> bool \<Rightarrow> byte list \<Rightarrow> byte list \<Rightarrow> string \<Rightarrow> u16 \<Rightarrow> world \<Rightarrow> int \<times> world" where
  "adapter_execute_unlock sn listening caller callee ip port w =
     (case execute_unlock (wire_env sn listening caller callee ip port) None UNLOCK_RETRY_INTERVAL
        (w\<lparr>w_deadline := instant_deadline_new UNLOCK_TOTAL_CAP\<rparr>)
      of (out, w') \<Rightarrow> (uo_result out, w'))"

section \<open>What a send and a handshake put on the wire\<close>

lemma ask_facts [simp]: "w_log (snd (ask f w)) = w_log w" "w_log (tick w) = w_log w"
  by (simp_all add: ask_def tick_def)

lemma ask_log: "ask f w = (x, w') \<Longrightarrow> w_log w' = w_log w"
  using ask_facts(1) [of f w] by simp

lemma log_event_log [simp]: "w_log (log_event e w) = w_log w @ [e]"
  by (simp add: log_event_def)

lemma classify_io_log: "classify_io e st w = (x, w') \<Longrightarrow> w_log w' = w_log w"
  by (auto simp: classify_io_def dest: ask_log split: prod.splits)

lemma write_then_read_log:
  assumes "write_then_read ip port frame True dl w = (r, w')"
  shows "(\<exists>e. r = Err e \<and> (w_log w' = w_log w \<or> w_log w' = w_log w @ [Sent ip port frame]))
    \<or> (\<exists>buf. r = Ok (Some buf) \<and> w_log w' = w_log w @ [Sent ip port frame, Recv buf])"
  using assms
  by (auto simp: write_then_read_def Let_def split: prod.splits option.splits sum.splits if_splits
      dest!: ask_log classify_io_log)

lemma send_context_log:
  assumes "send_context sn ip port frame True w = (r, w')"
  shows "(\<exists>e. r = Err e \<and> (w_log w' = w_log w \<or> w_log w' = w_log w @ [Sent ip port frame]))
    \<or> (\<exists>buf. r = Ok (Some buf) \<and> w_log w' = w_log w @ [Sent ip port frame, Recv buf])"
  using assms
  by (auto simp: send_context_def Let_def split: prod.splits option.splits sum.splits if_splits
      dest!: ask_log write_then_read_log)

text \<open>A frame sent without waiting for a response: nothing or the frame alone.\<close>

lemma write_only_log:
  assumes "write_then_read ip port frame False dl w = (r, w')"
  shows "w_log w' = w_log w @ [Sent ip port frame] \<or> w_log w' = w_log w \<and> (\<exists>e. r = Err e)"
  using assms
  by (auto simp: write_then_read_def split: prod.splits option.splits if_splits dest!: ask_log classify_io_log)

lemma send_only_log:
  assumes "send_context sn ip port frame False w = (r, w')"
  shows "w_log w' = w_log w @ [Sent ip port frame] \<or> w_log w' = w_log w \<and> (\<exists>e. r = Err e)"
  using assms
  by (auto simp: send_context_def Let_def split: prod.splits option.splits sum.splits if_splits
      dest!: ask_log write_only_log)

lemma op_timeout_log: "op_timeout cap w = (t, w') \<Longrightarrow> w_log w' = w_log w"
  by (auto simp: op_timeout_def Let_def dest!: ask_log split: prod.splits)

text \<open>The events that fit the outcome of one handshake.\<close>

definition handshake_events ::
  "byte list \<Rightarrow> byte list \<Rightarrow> string \<Rightarrow> u16 \<Rightarrow> attempt_outcome \<Rightarrow> net_event list \<Rightarrow> bool" where
  "handshake_events caller callee ip port x ev \<longleftrightarrow>
     (let A = Sent ip port (build_unlock_a_frame caller callee); B = Sent ip port (build_unlock_b_frame caller callee) in
      case x of
        WireErr UnlockA _ \<Rightarrow> ev = [] \<or> ev = [A]
      | BusinessErr UnlockA \<Rightarrow> (\<exists>ra. ev = [A, Recv ra] \<and> \<not> validate_response ra 711)
      | WireErr UnlockB _ \<Rightarrow> (\<exists>ra. validate_response ra 711 \<and> (ev = [A, Recv ra] \<or> ev = [A, Recv ra, B]))
      | BusinessErr UnlockB \<Rightarrow> (\<exists>ra rb. validate_response ra 711 \<and> \<not> validate_response rb 519 \<and> ev = [A, Recv ra, B, Recv rb])
      | AttemptOk \<Rightarrow> (\<exists>ra rb. validate_response ra 711 \<and> validate_response rb 519 \<and> ev = [A, Recv ra, B, Recv rb]))"

lemma try_once_log:
  assumes "try_once sn caller callee ip port cap w = (x, w')"
  shows "\<exists>ev. w_log w' = w_log w @ ev \<and> handshake_events caller callee ip port x ev"
proof -
  let ?A = "build_unlock_a_frame caller callee" and ?B = "build_unlock_b_frame caller callee"
  obtain t1 w1 where 1: "op_timeout cap w = (t1, w1)" by (cases "op_timeout cap w")
  obtain ra w2 where 2: "send_context (sn\<lparr>sn_timeout := Some t1\<rparr>) ip port ?A True w1 = (ra, w2)"
    by (cases "send_context (sn\<lparr>sn_timeout := Some t1\<rparr>) ip port ?A True w1")
  note la = send_context_log [OF 2] op_timeout_log [OF 1]
  show ?thesis
  proof (cases ra)
    case (Inl e)
    then have "x = WireErr UnlockA (map_wire_kind e)" "w' = w2" using assms 1 2 by (auto simp: try_once_def)
    then show ?thesis using la Inl by (auto simp: handshake_events_def Let_def)
  next
    case (Inr o1)
    then obtain a where a: "o1 = Some a" "w_log w2 = w_log w @ [Sent ip port ?A, Recv a]" using la by auto
    show ?thesis
    proof (cases "validate_response a 711")
      case False
      then have "x = BusinessErr UnlockA" "w' = w2" using assms 1 2 Inr a by (auto simp: try_once_def)
      then show ?thesis using a False by (auto simp: handshake_events_def Let_def)
    next
      case v: True
      obtain t2 w3 where 3: "op_timeout cap w2 = (t2, w3)" by (cases "op_timeout cap w2")
      obtain rb w4 where 4: "send_context (sn\<lparr>sn_timeout := Some t2\<rparr>) ip port ?B True w3 = (rb, w4)"
        by (cases "send_context (sn\<lparr>sn_timeout := Some t2\<rparr>) ip port ?B True w3")
      note lb = send_context_log [OF 4] op_timeout_log [OF 3]
      have "w' = w4" "x = (case rb of Err e \<Rightarrow> WireErr UnlockB (map_wire_kind e)
          | Ok rb \<Rightarrow> if \<not> validate_response (case rb of Some r \<Rightarrow> r | None \<Rightarrow> []) 519 then BusinessErr UnlockB else AttemptOk)"
        using assms 1 2 3 4 Inr a v by (auto simp: try_once_def Let_def split: sum.splits if_splits)
      then show ?thesis using lb a v by (auto simp: handshake_events_def Let_def)
    qed
  qed
qed

interpretation wire: attempt_log "wire_env sn listening caller callee ip port" w_log
    "handshake_events caller callee ip port"
  for sn listening caller callee ip port
proof
  fix cap s x s'
  assume "ue_try_once (wire_env sn listening caller callee ip port) cap s = (x, s')"
  then show "\<exists>ev. w_log s' = w_log s @ ev \<and> handshake_events caller callee ip port x ev"
    using try_once_log by (simp add: wire_env_def)
next
  fix s
  show "w_log (snd (ue_expired (wire_env sn listening caller callee ip port) s)) = w_log s"
    by (auto simp: wire_env_def expired_op_def split: prod.splits dest!: ask_log)
next
  fix i s
  show "w_log (snd (ue_sleep (wire_env sn listening caller callee ip port) i s)) = w_log s"
    by (auto simp: wire_env_def sleep_op_def split: prod.splits dest!: ask_log)
qed (simp_all add: wire_env_def)

text \<open>The events of a whole run: failed first stages, then the events of the attempt that ended it.\<close>

lemma failed_first_stages:
  assumes "list_all2 (handshake_events caller callee ip port) xs evs" "list_all again xs"
  shows "\<exists>k \<le> length xs. concat evs = replicate k (Sent ip port (build_unlock_a_frame caller callee))"
  using assms
proof (induction rule: list_all2_induct)
  case (Cons x xs ev evs)
  then obtain k where k: "k \<le> length xs" "concat evs = replicate k (Sent ip port (build_unlock_a_frame caller callee))"
    by auto
  have "ev = [] \<or> ev = [Sent ip port (build_unlock_a_frame caller callee)]"
    using Cons by (auto simp: again_def handshake_events_def Let_def)
  then show ?case
    using k by (auto intro: exI [of _ k] exI [of _ "Suc k"])
qed simp

lemma end_of_run:
  assumes "handshake_events caller callee ip port x ev" "A = Sent ip port (build_unlock_a_frame caller callee)"
    "B = Sent ip port (build_unlock_b_frame caller callee)" "log = log0 @ replicate k A @ ev" "k + 1 \<le> 9"
    "(res :: int) = 0 \<longleftrightarrow> x = AttemptOk"
  shows "\<exists>k tail. log = log0 @ replicate k A @ tail \<and> k + (if tail = [] then 0 else 1) \<le> 9
    \<and> (tail = [] \<or> (\<exists>ra. tail = [A, Recv ra])
       \<or> (\<exists>ra. validate_response ra 711 \<and> (tail = [A, Recv ra, B] \<or> (\<exists>rb. tail = [A, Recv ra, B, Recv rb]))))
    \<and> (res = 0 \<longleftrightarrow> (\<exists>ra rb. tail = [A, Recv ra, B, Recv rb] \<and> validate_response ra 711 \<and> validate_response rb 519))"
proof (cases "\<exists>k. x = WireErr UnlockA k \<and> ev = [A]")
  case True
  then show ?thesis
    using assms(4-6) by (intro exI [of _ "Suc k"] exI [of _ "[]"]) (auto simp: replicate_append_same [symmetric])
next
  case False
  then show ?thesis
    using assms by (intro exI [of _ k] exI [of _ ev])
      (cases x; cases "case x of BusinessErr st \<Rightarrow> st | WireErr st _ \<Rightarrow> st";
       auto simp: handshake_events_def Let_def split: unlock_stage.splits)
qed

text \<open>The events of one unlock: \<open>k\<close> unanswered first-stage frames and the tail of the last attempt.\<close>

definition unlock_segment ::
  "byte list \<Rightarrow> byte list \<Rightarrow> string \<Rightarrow> u16 \<Rightarrow> int \<Rightarrow> net_event list \<Rightarrow> bool" where
  "unlock_segment caller callee ip port res ev \<longleftrightarrow>
     (let A = Sent ip port (build_unlock_a_frame caller callee); B = Sent ip port (build_unlock_b_frame caller callee) in
      \<exists>k tail. ev = replicate k A @ tail \<and> k + (if tail = [] then 0 else 1) \<le> 9
       \<and> (tail = [] \<or> (\<exists>ra. tail = [A, Recv ra])
          \<or> (\<exists>ra. validate_response ra 711 \<and> (tail = [A, Recv ra, B] \<or> (\<exists>rb. tail = [A, Recv ra, B, Recv rb]))))
       \<and> (res = 0 \<longleftrightarrow> (\<exists>ra rb. tail = [A, Recv ra, B, Recv rb] \<and> validate_response ra 711 \<and> validate_response rb 519)))"

lemma execute_unlock_segment:
  "case execute_unlock (wire_env sn listening caller callee ip port) per_attempt interval w of (u, w') \<Rightarrow>
     \<exists>ev. w_log w' = w_log w @ ev \<and> unlock_segment caller callee ip port (uo_result u) ev"
proof -
  let ?env = "wire_env sn listening caller callee ip port"
  define A B where AB: "A = Sent ip port (build_unlock_a_frame caller callee)" "B = Sent ip port (build_unlock_b_frame caller callee)"
  obtain u w' h where t: "execute_unlock (traced ?env) per_attempt interval (w, []) = (u, (w', h))"
    "outcome_spec u h" "execute_unlock ?env per_attempt interval w = (u, w')"
    by (rule execute_unlock_traced)
  obtain evs where ev: "w_log w' = w_log w @ concat evs" "list_all2 (handshake_events caller callee ip port) h evs"
    using wire.execute_unlock_log [OF t(1)] by auto
  have sp: "length h \<le> 9" "list_all again (butlast h)" "uo_result u = 0 \<longleftrightarrow> h \<noteq> [] \<and> last h = AttemptOk"
    using t(2) by (simp_all add: outcome_spec_def)
  have "\<exists>k tail. w_log w' = w_log w @ replicate k A @ tail \<and> k + (if tail = [] then 0 else 1) \<le> 9
    \<and> (tail = [] \<or> (\<exists>ra. tail = [A, Recv ra])
       \<or> (\<exists>ra. validate_response ra 711 \<and> (tail = [A, Recv ra, B] \<or> (\<exists>rb. tail = [A, Recv ra, B, Recv rb]))))
    \<and> (uo_result u = 0 \<longleftrightarrow> (\<exists>ra rb. tail = [A, Recv ra, B, Recv rb] \<and> validate_response ra 711 \<and> validate_response rb 519))"
  proof (cases "h = []")
    case True
    then show ?thesis using ev sp(3) by (intro exI [of _ 0] exI [of _ "[]"]) simp
  next
    case False
    then obtain xs x where h: "h = xs @ [x]" by (metis rev_exhaust)
    then obtain evs1 ev2 where e: "evs = evs1 @ [ev2]" "list_all2 (handshake_events caller callee ip port) xs evs1"
      "handshake_events caller callee ip port x ev2" using ev(2) by (auto simp: list_all2_append1 list_all2_Cons1)
    obtain k where k: "k \<le> length xs" "concat evs1 = replicate k A"
      using failed_first_stages [OF e(2)] sp(2) h AB(1) by auto
    have log: "w_log w' = w_log w @ replicate k A @ ev2" using ev(1) e(1) k(2) by simp
    have k9: "k + 1 \<le> 9" using k(1) h sp(1) by simp
    have ok: "uo_result u = 0 \<longleftrightarrow> x = AttemptOk" using sp(3) h by simp
    show ?thesis by (rule end_of_run [OF e(3) AB log k9 ok])
  qed
  then obtain k tail where "w_log w' = w_log w @ replicate k A @ tail" and
    tl: "k + (if tail = [] then 0 else 1) \<le> 9"
    "tail = [] \<or> (\<exists>ra. tail = [A, Recv ra])
       \<or> (\<exists>ra. validate_response ra 711 \<and> (tail = [A, Recv ra, B] \<or> (\<exists>rb. tail = [A, Recv ra, B, Recv rb])))"
    "uo_result u = 0 \<longleftrightarrow> (\<exists>ra rb. tail = [A, Recv ra, B, Recv rb] \<and> validate_response ra 711 \<and> validate_response rb 519)"
    by (elim exE conjE) (rule that)
  moreover have "unlock_segment caller callee ip port (uo_result u) (replicate k A @ tail)"
    unfolding unlock_segment_def Let_def AB [symmetric]
    by (rule exI [of _ k], rule exI [of _ tail], intro conjI tl refl)
  ultimately show ?thesis unfolding t(3) prod.case by (intro exI conjI)
qed


text \<open>
  C1. What an unlock puts on the wire, whatever the network does: first-stage frames (req=710) at most
  nine times, then at most one second-stage frame (req=518), only after a response to the last 710 frame
  that validates as req=711, and nothing after it: the door command is never repeated.  Success is
  reported exactly when that frame was sent and its response validates as req=519.
\<close>

theorem unlock_wire_protocol:
  "case execute_unlock (wire_env sn listening caller callee ip port) per_attempt interval w of (u, w') \<Rightarrow>
     let A = Sent ip port (build_unlock_a_frame caller callee); B = Sent ip port (build_unlock_b_frame caller callee) in
     \<exists>k tail. w_log w' = w_log w @ replicate k A @ tail \<and> k + (if tail = [] then 0 else 1) \<le> 9
       \<and> (tail = [] \<or> (\<exists>ra. tail = [A, Recv ra])
          \<or> (\<exists>ra. validate_response ra 711 \<and> (tail = [A, Recv ra, B] \<or> (\<exists>rb. tail = [A, Recv ra, B, Recv rb]))))
       \<and> (uo_result u = 0 \<longleftrightarrow> (\<exists>ra rb. tail = [A, Recv ra, B, Recv rb] \<and> validate_response ra 711 \<and> validate_response rb 519))"
proof -
  obtain u w' where e: "execute_unlock (wire_env sn listening caller callee ip port) per_attempt interval w = (u, w')"
    by (cases "execute_unlock (wire_env sn listening caller callee ip port) per_attempt interval w")
  obtain ev where "w_log w' = w_log w @ ev" "unlock_segment caller callee ip port (uo_result u) ev"
    using execute_unlock_segment [where sn = sn and listening = listening and caller = caller and callee = callee
        and ip = ip and port = port and per_attempt = per_attempt and interval = interval and w = w]
    unfolding e by auto
  then show ?thesis
    unfolding e unlock_segment_def Let_def prod.case by (elim exE conjE, hypsubst) (intro exI conjI, assumption+)
qed

end
