(* ===== verification/Preview.thy ===== *)
theory Preview
  imports WireSender
begin

text \<open>
  \<open>src/video/preview.rs\<close>: the short TCP exchange that starts and stops the video stream of an outdoor
  station.  The network and the clock answer from an oracle, as in \<open>WireSender\<close>; the record is extended by
  the theories that need more of the system.  Times are in nanoseconds.  Log lines are left out.
\<close>

section \<open>Environment\<close>

datatype video_event =
    Tcp string u16 "byte list"
  | Udp string "byte list"

record vnet =
  vn_step :: nat
  vn_clock :: "nat \<Rightarrow> nat"
  vn_is_ipv6 :: "string \<Rightarrow> bool"
  vn_dial :: "nat \<Rightarrow> io_err option"
  vn_setopt :: "nat \<Rightarrow> io_err option"
  vn_write :: "nat \<Rightarrow> io_err option"
  vn_read :: "nat \<Rightarrow> io_err + byte list"
  vn_udp :: "nat \<Rightarrow> io_err option"
  vn_log :: "video_event list"

definition vask :: "('a vnet_scheme \<Rightarrow> nat \<Rightarrow> 'b) \<Rightarrow> 'a vnet_scheme \<Rightarrow> 'b \<times> 'a vnet_scheme" where
  "vask f s = (f s (vn_step s), s\<lparr>vn_step := vn_step s + 1\<rparr>)"

definition vlog :: "video_event \<Rightarrow> 'a vnet_scheme \<Rightarrow> 'a vnet_scheme" where
  "vlog e s = s\<lparr>vn_log := vn_log s @ [e]\<rparr>"

section \<open>Errors and acknowledgements\<close>

definition ms :: "nat \<Rightarrow> nat" where "ms n = n * 1000000"
definition secs :: "nat \<Rightarrow> nat" where "secs n = n * 1000000000"

definition PREVIEW_DIAL_TIMEOUT :: nat where "PREVIEW_DIAL_TIMEOUT = secs 5"
definition PREVIEW_MAGIC_HI :: byte where "PREVIEW_MAGIC_HI = 0x07"
definition PREVIEW_MAGIC_LO :: byte where "PREVIEW_MAGIC_LO = 0xb8"
definition PREVIEW_HEADER_SIZE :: nat where "PREVIEW_HEADER_SIZE = 6"
definition ACK_READ_BUF :: nat where "ACK_READ_BUF = 64"

datatype preview_error = BadAck string | PvSilentFin | PvTimeout string | PvIo string io_err

fun preview_error_display :: "preview_error \<Rightarrow> string" where
  "preview_error_display (BadAck msg) = ''preview: ack frame invalid: '' @ msg"
| "preview_error_display PvSilentFin = ''preview: empty response (silent FIN)''"
| "preview_error_display (PvTimeout stage) = stage @ '': preview: socket timeout''"
| "preview_error_display (PvIo stage e) = stage @ '': '' @ io_err_display e"

fun is_timeout :: "preview_error \<Rightarrow> bool" where
  "is_timeout (PvTimeout _) = True"
| "is_timeout _ = False"

definition pv_wrap_timeout :: "io_err \<Rightarrow> string \<Rightarrow> preview_error" where
  "pv_wrap_timeout err stage =
     (if io_err_kind err = TimedOut \<or> io_err_kind err = WouldBlock then PvTimeout stage else PvIo stage err)"

definition hex02 :: "byte \<Rightarrow> string" where
  "hex02 v = [hex_digit (drop_bit 4 v), hex_digit (v AND 0x0f)]"

definition validate_preview_ack :: "byte list \<Rightarrow> string \<Rightarrow> preview_error + unit" where
  "validate_preview_ack b want_text =
     (if length b < PREVIEW_HEADER_SIZE + length want_text then Err (BadAck (''too short ('' @ show_nat (length b) @ '')''))
      else if b ! 0 \<noteq> PREVIEW_MAGIC_HI \<or> b ! 1 \<noteq> PREVIEW_MAGIC_LO
      then Err (BadAck (''magic '' @ hex02 (b ! 0) @ '' '' @ hex02 (b ! 1) @ '' != 07b8''))
      else if slice PREVIEW_HEADER_SIZE (PREVIEW_HEADER_SIZE + length want_text) b \<noteq> as_bytes want_text
      then Err (BadAck (''missing '' @ [CHR 0x22] @ want_text @ [CHR 0x22] @ '' at offset 6''))
      else Ok ())"

definition validate_start_ack :: "byte list \<Rightarrow> preview_error + unit" where
  "validate_start_ack b = validate_preview_ack b ''req=705''"

definition validate_stop_ack :: "byte list \<Rightarrow> preview_error + unit" where
  "validate_stop_ack b = validate_preview_ack b ''req=709''"

section \<open>PreviewClient\<close>

definition dial_and_exchange ::
  "nat option \<Rightarrow> string \<Rightarrow> u16 \<Rightarrow> byte list \<Rightarrow> 'a vnet_scheme \<Rightarrow> (preview_error + byte list) \<times> 'a vnet_scheme" where
  "dial_and_exchange tmo ip port frame s0 =
     (let timeout = (case tmo of Some t \<Rightarrow> t | None \<Rightarrow> PREVIEW_DIAL_TIMEOUT) in
      if ipv4_from_str ip = None \<and> \<not> vn_is_ipv6 s0 ip
      then (Err (PvIo ''dial'' (IoErr OtherIo (''invalid target IP '' @ ip))), s0)
      else
        (case vask vn_dial s0 of
           (Some e, s1) \<Rightarrow> (Err (pv_wrap_timeout e ''dial''), s1)
         | (None, s1) \<Rightarrow>
             (case vask vn_clock s1 of (t0, s2) \<Rightarrow>
              let deadline = t0 + timeout in
              case vask vn_clock s2 of (t1, s3) \<Rightarrow>
              (case vask vn_setopt s3 of
                 (Some e, s4) \<Rightarrow> (Err (PvIo ''set_write_timeout'' e), s4)
               | (None, s4) \<Rightarrow>
                   (case vask vn_write (vlog (Tcp ip port frame) s4) of
                      (Some e, s5) \<Rightarrow> (Err (pv_wrap_timeout e ''write''), s5)
                    | (None, s5) \<Rightarrow>
                        (case vask vn_clock s5 of (t2, s6) \<Rightarrow>
                         let remaining = deadline - t2 in
                         if remaining = 0 then (Err (PvTimeout ''read''), s6)
                         else
                           (case vask vn_setopt s6 of
                              (Some e, s7) \<Rightarrow> (Err (PvIo ''set_read_timeout'' e), s7)
                            | (None, s7) \<Rightarrow>
                                (case vask vn_read s7 of
                                   (Err e, s8) \<Rightarrow> (Err (pv_wrap_timeout e ''read''), s8)
                                 | (Ok bytes, s8) \<Rightarrow>
                                     let buf = take ACK_READ_BUF bytes in
                                     if buf = [] then (Err PvSilentFin, s8) else (Ok buf, s8)))))))))"

definition start_preview ::
  "nat option \<Rightarrow> string \<Rightarrow> u16 \<Rightarrow> byte list \<Rightarrow> byte list \<Rightarrow> 'a vnet_scheme \<Rightarrow> (preview_error + unit) \<times> 'a vnet_scheme" where
  "start_preview tmo ip port callee_bcd caller_bcd s =
     (case dial_and_exchange tmo ip port (build_start_frame callee_bcd caller_bcd) s of
        (Err e, s') \<Rightarrow> (Err e, s')
      | (Ok resp, s') \<Rightarrow> (validate_start_ack resp, s'))"

definition stop_preview ::
  "nat option \<Rightarrow> string \<Rightarrow> u16 \<Rightarrow> byte list \<Rightarrow> byte list \<Rightarrow> 'a vnet_scheme \<Rightarrow> (preview_error + unit) \<times> 'a vnet_scheme" where
  "stop_preview tmo ip port outdoor_bcd monitor_bcd s =
     (case dial_and_exchange tmo ip port (build_stop_frame outdoor_bcd monitor_bcd) s of
        (Err e, s') \<Rightarrow> (Err e, s')
      | (Ok resp, s') \<Rightarrow> (validate_stop_ack resp, s'))"

section \<open>Lemmas\<close>

text \<open>An exchange sends the frame at most once and changes nothing but the step counter and the log.\<close>

definition exchanged :: "string \<Rightarrow> u16 \<Rightarrow> byte list \<Rightarrow> 'a vnet_scheme \<Rightarrow> ('e + 'r) \<Rightarrow> 'a vnet_scheme \<Rightarrow> bool" where
  "exchanged ip port frame s r s' \<longleftrightarrow>
     (\<exists>n l. s' = s\<lparr>vn_step := n, vn_log := vn_log s @ l\<rparr>
       \<and> (l = [Tcp ip port frame] \<or> l = [] \<and> (\<exists>e. r = Err e)))"

lemma exchangedI:
  "exchanged ip port frame s (Err e) (s\<lparr>vn_step := n\<rparr>)"
  "exchanged ip port frame s r (s\<lparr>vn_log := vn_log s @ [Tcp ip port frame], vn_step := n\<rparr>)"
  "exchanged ip port frame s (Err e) s"
  unfolding exchanged_def
  by (rule exI [of _ n], rule exI [of _ "[]"], simp,
      rule exI [of _ n], rule exI [of _ "[Tcp ip port frame]"], simp,
      rule exI [of _ "vn_step s"], rule exI [of _ "[]"], simp)

lemma dial_and_exchange_log:
  "case dial_and_exchange tmo ip port frame s of (r, s') \<Rightarrow> exchanged ip port frame s r s'"
  by (simp add: dial_and_exchange_def vask_def vlog_def Let_def exchangedI split: option.split sum.split)

lemma start_preview_log:
  "case start_preview tmo ip port callee caller s of (r, s') \<Rightarrow> exchanged ip port (build_start_frame callee caller) s r s'"
  using dial_and_exchange_log [where tmo = tmo and ip = ip and port = port and frame = "build_start_frame callee caller" and s = s]
  by (auto simp: start_preview_def exchanged_def split: prod.splits sum.splits)

lemma stop_preview_log:
  "case stop_preview tmo ip port callee caller s of (r, s') \<Rightarrow> exchanged ip port (build_stop_frame callee caller) s r s'"
  using dial_and_exchange_log [where tmo = tmo and ip = ip and port = port and frame = "build_stop_frame callee caller" and s = s]
  by (auto simp: stop_preview_def exchanged_def split: prod.splits sum.splits)

lemma validate_preview_ack_iff:
  "validate_preview_ack b want = Ok () \<longleftrightarrow>
     (\<exists>hdr rest. b = hdr @ as_bytes want @ rest \<and> length hdr = 6 \<and> take 2 hdr = [0x07, 0xb8])"
proof
  assume ok: "validate_preview_ack b want = Ok ()"
  then have b: "6 + length want \<le> length b" "b ! 0 = 0x07" "b ! 1 = 0xb8" "slice 6 (6 + length want) b = as_bytes want"
    by (auto simp: validate_preview_ack_def PREVIEW_HEADER_SIZE_def PREVIEW_MAGIC_HI_def PREVIEW_MAGIC_LO_def split: if_splits)
  obtain b0 b1 r where r: "b = b0 # b1 # r" using b(1) by (cases b; cases "tl b") auto
  have "take 6 b @ slice 6 (6 + length want) b @ drop (6 + length want) b = b"
    by (metis slice_def add_diff_cancel_left' append_assoc append_take_drop_id take_add)
  then show "\<exists>hdr rest. b = hdr @ as_bytes want @ rest \<and> length hdr = 6 \<and> take 2 hdr = [0x07, 0xb8]"
    using b r by (intro exI [of _ "take 6 b"] exI [of _ "drop (6 + length want) b"]) (simp add: eval_nat_numeral)
next
  assume "\<exists>hdr rest. b = hdr @ as_bytes want @ rest \<and> length hdr = 6 \<and> take 2 hdr = [0x07, 0xb8]"
  then obtain hdr rest where h: "b = hdr @ as_bytes want @ rest" "length hdr = 6" "take 2 hdr = [0x07, 0xb8]" by blast
  obtain a c r where "hdr = a # c # r" using h(2) by (cases hdr; cases "tl hdr") auto
  with h show "validate_preview_ack b want = Ok ()"
    by (simp add: validate_preview_ack_def PREVIEW_HEADER_SIZE_def PREVIEW_MAGIC_HI_def PREVIEW_MAGIC_LO_def slice_def)
qed

end
