(* ===== verification/Rtcp.thy ===== *)
theory Rtcp
  imports Preview
begin

text \<open>
  \<open>src/video/rtcp.rs\<close>: the RTCP packets and the keep-alive sender.  A packet is written as the
  concatenation of its fields, in the order the code fills the zeroed buffer.  The lemmas read the
  packets back with a reader for compound packets and bound the rate of the keep-alives.
\<close>

section \<open>Packets\<close>

definition RTCP_PT_RR :: byte where "RTCP_PT_RR = 201"
definition RTCP_PT_SDES :: byte where "RTCP_PT_SDES = 202"
definition RTCP_PT_BYE :: byte where "RTCP_PT_BYE = 203"
definition RTCP_CNAME :: string where "RTCP_CNAME = ''dooraccess-go''"

definition build_rr :: "u32 \<Rightarrow> u32 \<Rightarrow> byte list" where
  "build_rr reporter_ssrc stream_ssrc =
     [0x80 OR 0x01, RTCP_PT_RR] @ u16_to_be_bytes 7 @ u32_to_be_bytes reporter_ssrc @ u32_to_be_bytes stream_ssrc
     @ replicate 20 0"

definition build_sdes :: "u32 \<Rightarrow> byte list" where
  "build_sdes chunk_ssrc =
     (let cn = as_bytes RTCP_CNAME;
          item_bytes = 1 + 1 + length cn + 1;
          chunk_size = 4 + item_bytes;
          pad = (4 - chunk_size mod 4) mod 4;
          total_len = 4 + chunk_size + pad
      in [0x81, RTCP_PT_SDES] @ u16_to_be_bytes (of_nat (total_len div 4 - 1)) @ u32_to_be_bytes chunk_ssrc
         @ [1, of_nat (length cn)] @ cn @ replicate (total_len - (10 + length cn)) 0)"

definition build_rr_sdes :: "u32 \<Rightarrow> u32 \<Rightarrow> byte list" where
  "build_rr_sdes reporter_ssrc stream_ssrc = build_rr reporter_ssrc stream_ssrc @ build_sdes reporter_ssrc"

definition build_bye :: "u32 \<Rightarrow> byte list" where
  "build_bye reporter_ssrc =
     ([0x80, RTCP_PT_RR] @ u16_to_be_bytes 1 @ u32_to_be_bytes reporter_ssrc)
     @ build_sdes reporter_ssrc
     @ ([0x81, RTCP_PT_BYE] @ u16_to_be_bytes 1 @ u32_to_be_bytes reporter_ssrc)"

section \<open>RtcpSender\<close>

definition REPORT_INTERVAL :: nat where "REPORT_INTERVAL = ms 5000"

text \<open>\<open>udp_dial\<close> and \<open>send\<close> answer together: binding, connecting or sending can fail.\<close>

definition udp_dial :: "string \<Rightarrow> 'a vnet_scheme \<Rightarrow> io_err option \<times> 'a vnet_scheme" where
  "udp_dial dst s = vask vn_udp s"

definition udp_send :: "string \<Rightarrow> byte list \<Rightarrow> 'a vnet_scheme \<Rightarrow> io_err option \<times> 'a vnet_scheme" where
  "udp_send dst pkt s = vask vn_udp (vlog (Udp dst pkt) s)"

definition send_bye :: "string \<Rightarrow> u32 \<Rightarrow> 'a vnet_scheme \<Rightarrow> (io_err + unit) \<times> 'a vnet_scheme" where
  "send_bye dst reporter_ssrc s0 =
     (case udp_dial dst s0 of
        (Some e, s1) \<Rightarrow> (Err e, s1)
      | (None, s1) \<Rightarrow>
          (case udp_send dst (build_bye reporter_ssrc) s1 of
             (Some e, s2) \<Rightarrow> (Err e, s2)
           | (None, s2) \<Rightarrow> (Ok (), s2)))"

text \<open>
  The keep-alive loop: each round reads the stop flag and the clock, and what \<open>ssrc_source\<close> returns if the
  tick is due.  \<open>None\<close> means still running after the rounds; a failed send is logged and ignored.
\<close>

fun rtcp_loop ::
  "string \<Rightarrow> u32 \<Rightarrow> nat \<Rightarrow> (bool \<times> nat \<times> u32 option) list \<Rightarrow> 'a vnet_scheme \<Rightarrow> (io_err + unit) option \<times> 'a vnet_scheme" where
  "rtcp_loop dst reporter next_tick [] s = (None, s)"
| "rtcp_loop dst reporter next_tick ((stop, now, ssrc) # rounds) s =
     (if stop then (Some (Ok ()), s)
      else if now < next_tick then rtcp_loop dst reporter next_tick rounds s
      else
        let next' = next_tick + REPORT_INTERVAL in
        (case ssrc of
           None \<Rightarrow> rtcp_loop dst reporter next' rounds s
         | Some stream \<Rightarrow>
             rtcp_loop dst reporter next' rounds (snd (udp_send dst (build_rr_sdes reporter stream) s))))"

definition rtcp_run ::
  "string \<Rightarrow> u32 \<Rightarrow> (bool \<times> nat \<times> u32 option) list \<Rightarrow> 'a vnet_scheme \<Rightarrow> (io_err + unit) option \<times> 'a vnet_scheme" where
  "rtcp_run dst reporter rounds s0 =
     (case udp_dial dst s0 of
        (Some e, s1) \<Rightarrow> (Some (Err e), s1)
      | (None, s1) \<Rightarrow>
          (case vask vn_clock s1 of (now, s2) \<Rightarrow> rtcp_loop dst reporter (now + REPORT_INTERVAL) rounds s2))"

section \<open>Reading compound packets\<close>

text \<open>
  RFC 3550: a compound packet is a sequence of packets, each with version 2 and a length field in words;
  the first is a report.  The result lists count field, packet type and body.
\<close>

function rtcp_packets :: "byte list \<Rightarrow> (byte \<times> byte \<times> byte list) list option" where
  "rtcp_packets b =
     (if b = [] then Some []
      else if length b < 4 then None
      else
        let n = 4 * (unat (u16_from_be_bytes (b ! 2) (b ! 3)) + 1) in
        if drop_bit 6 (b ! 0) \<noteq> 2 \<or> length b < n then None
        else map_option ((#) (b ! 0 AND 0x1f, b ! 1, take (n - 4) (drop 4 b))) (rtcp_packets (drop n b)))"
  by pat_completeness auto
termination
  by (relation "measure length") auto

declare rtcp_packets.simps [simp del]

definition rr_body :: "u32 \<Rightarrow> u32 \<Rightarrow> byte list" where
  "rr_body reporter stream = u32_to_be_bytes reporter @ u32_to_be_bytes stream @ replicate 20 0"

definition sdes_body :: "u32 \<Rightarrow> byte list" where
  "sdes_body ssrc = u32_to_be_bytes ssrc @ [1, 13] @ as_bytes ''dooraccess-go'' @ [0]"

lemma rtcp_packets_cons:
  assumes "length body = 4 * n" "n < 2 ^ 16" "drop_bit 6 b0 = (2::byte)"
  shows "rtcp_packets ([b0, pt] @ u16_to_be_bytes (of_nat n) @ body @ rest) =
    map_option ((#) (b0 AND 0x1f, pt, body)) (rtcp_packets rest)"
proof -
  obtain h l where hl: "u16_to_be_bytes (of_nat n) = [h, l]" "h = ucast (drop_bit 8 (of_nat n :: u16))" "l = ucast (of_nat n :: u16)"
    by (simp add: u16_to_be_bytes_def)
  then have "u16_from_be_bytes h l = of_nat n" by (simp add: u16_from_be_bytes_to)
  then have "unat (u16_from_be_bytes h l) = n" using assms(2) by (simp add: unat_of_nat take_bit_nat_eq_self)
  moreover have "drop (4 + 4 * n) (b0 # pt # h # l # body @ rest) = rest"
    using drop_drop [of "4 * n" 4 "b0 # pt # h # l # body @ rest"] assms(1) by (simp add: add.commute)
  ultimately show ?thesis using assms hl(1) by (subst rtcp_packets.simps) (simp add: Let_def)
qed

lemma build_sdes_packet: "build_sdes ssrc = [0x81, 202] @ u16_to_be_bytes (of_nat 5) @ sdes_body ssrc"
  by (simp add: build_sdes_def RTCP_CNAME_def RTCP_PT_SDES_def sdes_body_def Let_def)

lemma length_bodies: "length (rr_body r s) = 4 * 7" "length (sdes_body r) = 4 * 5" "length (u32_to_be_bytes r) = 4 * 1"
  by (simp_all add: rr_body_def sdes_body_def)

text \<open>
  The RTCP packets are well-formed compound packets: read by the rules of RFC 3550 the keep-alive is a
  receiver report about the stream followed by a source description with the canonical name, and the
  farewell is an empty report, the source description and a goodbye, all from the daemon's own source.
\<close>

theorem rtcp_compound_packets:
  "rtcp_packets (build_rr_sdes reporter stream) = Some [(1, 201, rr_body reporter stream), (1, 202, sdes_body reporter)]
   \<and> rtcp_packets (build_bye reporter) =
       Some [(0, 201, u32_to_be_bytes reporter), (1, 202, sdes_body reporter), (1, 203, u32_to_be_bytes reporter)]"
proof -
  have e: "rtcp_packets [] = Some []" by (simp add: rtcp_packets.simps)
  note c = rtcp_packets_cons [where rest = "[]", unfolded append_Nil2]
  have rr: "build_rr reporter stream = [0x81, 201] @ u16_to_be_bytes (of_nat 7) @ rr_body reporter stream"
    by (simp add: build_rr_def RTCP_PT_RR_def rr_body_def)
  show ?thesis
    using rtcp_packets_cons [OF length_bodies(1), of "0x81" 201 reporter stream "build_sdes reporter"]
      rtcp_packets_cons [OF length_bodies(3), of "0x80" 201 reporter]
      rtcp_packets_cons [OF length_bodies(2), of "0x81" 202 reporter]
      c [OF length_bodies(2), of "0x81" 202 reporter] c [OF length_bodies(3), of "0x81" 203 reporter]
    by (simp add: build_rr_sdes_def build_bye_def rr build_sdes_packet RTCP_PT_RR_def RTCP_PT_BYE_def e)
qed

section \<open>Rate of the keep-alives\<close>

lemma udp_send_log: "vn_log (snd (udp_send dst pkt s)) = vn_log s @ [Udp dst pkt]"
  by (simp add: udp_send_def vlog_def vask_def)

definition last_time :: "nat \<Rightarrow> (bool \<times> nat \<times> u32 option) list \<Rightarrow> nat" where
  "last_time t rounds = fold (\<lambda>(stop, now, ssrc) m. max now m) rounds t"

lemma last_time_simps:
  "last_time t [] = t" "last_time t ((stop, now, ssrc) # rounds) = max now (last_time t rounds)"
proof -
  have "fold (\<lambda>(stop, now, ssrc) m. max now m) rs (max a b) = max a (fold (\<lambda>(stop, now, ssrc) m. max now m) rs b)"
    for a b :: nat and rs :: "(bool \<times> nat \<times> u32 option) list"
    by (induction rs arbitrary: b) (auto simp: max.left_commute [of _ a])
  then show "last_time t [] = t" "last_time t ((stop, now, ssrc) # rounds) = max now (last_time t rounds)"
    by (simp_all add: last_time_def)
qed

definition keepalives :: "string \<Rightarrow> u32 \<Rightarrow> u32 list \<Rightarrow> video_event list" where
  "keepalives dst reporter streams = map (\<lambda>s. Udp dst (build_rr_sdes reporter s)) streams"

lemma rtcp_loop_rate:
  "\<exists>ss. vn_log (snd (rtcp_loop dst reporter nt rounds s)) = vn_log s @ keepalives dst reporter ss
     \<and> (ss \<noteq> [] \<longrightarrow> nt + (length ss - 1) * REPORT_INTERVAL \<le> last_time 0 rounds)
     \<and> Some ` set ss \<subseteq> (snd \<circ> snd) ` set rounds"
proof (induction dst reporter nt rounds s rule: rtcp_loop.induct)
  case (1 dst reporter nt s)
  show ?case by (rule exI [of _ "[]"]) (simp add: keepalives_def)
next
  case (2 dst reporter nt stop now ssrc rounds s)
  consider "stop" | "\<not> stop" "now < nt" | "\<not> stop" "\<not> now < nt" "ssrc = None"
    | x where "\<not> stop" "\<not> now < nt" "ssrc = Some x" by (cases ssrc) auto
  then show ?case
  proof cases
    case 1
    then show ?thesis by (intro exI [of _ "[]"]) (simp add: keepalives_def)
  next
    case 2
    then show ?thesis using "2.IH"(1) by (force simp: last_time_simps)
  next
    case 3
    then obtain ss where ss: "vn_log (snd (rtcp_loop dst reporter (nt + REPORT_INTERVAL) rounds s)) = vn_log s @ keepalives dst reporter ss"
      "ss \<noteq> [] \<longrightarrow> nt + REPORT_INTERVAL + (length ss - 1) * REPORT_INTERVAL \<le> last_time 0 rounds"
      "Some ` set ss \<subseteq> (snd \<circ> snd) ` set rounds" using "2.IH"(2) by auto
    then show ?thesis using 3 by (intro exI [of _ ss]) (auto simp: last_time_simps Let_def)
  next
    case (4 x)
    let ?s = "snd (udp_send dst (build_rr_sdes reporter x) s)"
    obtain ss where ss: "vn_log (snd (rtcp_loop dst reporter (nt + REPORT_INTERVAL) rounds ?s)) = vn_log ?s @ keepalives dst reporter ss"
      "ss \<noteq> [] \<longrightarrow> nt + REPORT_INTERVAL + (length ss - 1) * REPORT_INTERVAL \<le> last_time 0 rounds"
      "Some ` set ss \<subseteq> (snd \<circ> snd) ` set rounds" using "2.IH"(3) [OF 4(1,2) refl 4(3)] by blast
    have "nt + length ss * REPORT_INTERVAL \<le> max now (last_time 0 rounds)"
    proof (cases ss)
      case Nil
      then show ?thesis using 4 by simp
    next
      case (Cons y ys)
      then show ?thesis using ss(2) by (simp add: algebra_simps)
    qed
    then show ?thesis
      using 4 ss by (intro exI [of _ "x # ss"]) (auto simp: udp_send_log keepalives_def last_time_simps Let_def)
  qed
qed

text \<open>
  The keep-alive sender sends nothing but receiver reports for SSRCs it was given, none before the
  first interval has passed and on average no more than one per interval: after \<open>n\<close> packets at least
  \<open>n\<close> intervals have passed since its start.
\<close>

theorem rtcp_rate_bounded:
  "\<exists>ss. vn_log (snd (rtcp_run dst reporter rounds s)) = vn_log s @ keepalives dst reporter ss
     \<and> Some ` set ss \<subseteq> (snd \<circ> snd) ` set rounds
     \<and> (ss = [] \<or> vn_clock s (vn_step s + 1) + length ss * REPORT_INTERVAL \<le> last_time 0 rounds)"
proof (cases "vn_udp s (vn_step s)")
  case (Some e)
  then show ?thesis by (intro exI [of _ "[]"]) (simp add: rtcp_run_def udp_dial_def vask_def keepalives_def)
next
  case None
  let ?s = "s\<lparr>vn_step := vn_step s + 2\<rparr>" and ?t = "vn_clock s (vn_step s + 1)"
  have run: "rtcp_run dst reporter rounds s = rtcp_loop dst reporter (?t + REPORT_INTERVAL) rounds ?s"
    using None by (simp add: rtcp_run_def udp_dial_def vask_def)
  obtain ss where ss: "vn_log (snd (rtcp_loop dst reporter (?t + REPORT_INTERVAL) rounds ?s)) = vn_log ?s @ keepalives dst reporter ss"
    "ss \<noteq> [] \<longrightarrow> ?t + REPORT_INTERVAL + (length ss - 1) * REPORT_INTERVAL \<le> last_time 0 rounds"
    "Some ` set ss \<subseteq> (snd \<circ> snd) ` set rounds" using rtcp_loop_rate [of dst reporter "?t + REPORT_INTERVAL" rounds ?s] by (elim exE conjE) (rule that)
  have "vn_log (snd (rtcp_run dst reporter rounds s)) = vn_log s @ keepalives dst reporter ss"
    using ss(1) by (simp add: run)
  moreover have "ss = [] \<or> ?t + length ss * REPORT_INTERVAL \<le> last_time 0 rounds"
    using ss(2) by (cases ss) simp_all
  ultimately show ?thesis using ss(3) by (intro exI [of _ ss] conjI)
qed

end
