(* ===== verification/Reassembler.thy ===== *)
theory Reassembler
  imports Rtp "HOL-Library.Multiset"
begin

text \<open>
  The frame reassembler of \<open>src/video/reassembler.rs\<close>: packets go through a sort window of eight, are
  appended in sequence order to the frame buffer and a marker packet cuts the frame into NAL units.
  The hook-based log lines are not part of the state.  The lemmas bound the memory the reassembler holds,
  show that a frame delivered in order is cut exactly as if it had arrived in one packet, however it was
  fragmented, and that a frame of at most eight packets is cut the same in every arrival order that ends
  with the marker packet.
\<close>

definition REASSEMBLER_WINDOW_SIZE :: nat where
  "REASSEMBLER_WINDOW_SIZE = 8"

definition FRAME_MAX_BYTES :: nat where
  "FRAME_MAX_BYTES = 256 * 1024"

record reassembler_stats =
  st_packets :: u64
  st_nals :: u64
  st_frames :: u64
  st_dropped_frames :: u64
  st_max_frame_bytes :: nat
  st_last_drop_reason :: string

definition stats_default :: reassembler_stats where
  "stats_default = \<lparr>st_packets = 0, st_nals = 0, st_frames = 0, st_dropped_frames = 0,
     st_max_frame_bytes = 0, st_last_drop_reason = ''''\<rparr>"

record frame_reassembler =
  frame_buf :: "byte list"
  frame_timestamp :: u32
  pending :: "rtp_packet list"
  expect_seq :: u16
  expect_seq_set :: bool
  frame_first_seq :: u16
  frame_last_seq :: u16
  ra_stats :: reassembler_stats

definition new_reassembler :: frame_reassembler where
  "new_reassembler = \<lparr>frame_buf = [], frame_timestamp = 0, pending = [], expect_seq = 0,
     expect_seq_set = False, frame_first_seq = 0, frame_last_seq = 0, ra_stats = stats_default\<rparr>"

section \<open>Operations\<close>

text \<open>\<open>a.wrapping_sub(b) as i16\<close>.\<close>

definition seq_diff :: "u16 \<Rightarrow> u16 \<Rightarrow> int" where
  "seq_diff a b = sint (a - b)"

text \<open>
  The downward loop of \<open>insert_sorted\<close>: \<open>n\<close> is the number of pending packets still to compare.
\<close>

fun insert_at :: "rtp_packet \<Rightarrow> rtp_packet list \<Rightarrow> nat \<Rightarrow> rtp_packet list" where
  "insert_at pkt ps 0 = pkt # ps"
| "insert_at pkt ps (Suc i) =
     (if seq_diff (rp_seq pkt) (rp_seq (ps ! i)) \<ge> 0 then take (i + 1) ps @ pkt # drop (i + 1) ps
      else insert_at pkt ps i)"

definition insert_sorted :: "rtp_packet \<Rightarrow> frame_reassembler \<Rightarrow> frame_reassembler" where
  "insert_sorted pkt r = r\<lparr>pending := insert_at pkt (pending r) (length (pending r))\<rparr>"

definition pop_pending_prefix :: "bool \<Rightarrow> frame_reassembler \<Rightarrow> rtp_packet list \<times> frame_reassembler" where
  "pop_pending_prefix marker_in_batch r =
     (let pop_count = (if marker_in_batch then length (pending r) else length (pending r) - 1)
      in if pop_count = 0 then ([], r)
         else (take pop_count (pending r), r\<lparr>pending := drop pop_count (pending r)\<rparr>))"

definition drop_frame :: "string \<Rightarrow> frame_reassembler \<Rightarrow> frame_reassembler" where
  "drop_frame reason r =
     (if frame_buf r = [] then r
      else r\<lparr>ra_stats := (ra_stats r)\<lparr>st_dropped_frames := st_dropped_frames (ra_stats r) + 1,
                                       st_last_drop_reason := reason\<rparr>,
             frame_buf := [], expect_seq_set := False\<rparr>)"

text \<open>The five assignments that start a frame at packet \<open>p\<close>.\<close>

definition start_at :: "rtp_packet \<Rightarrow> u16 \<Rightarrow> frame_reassembler \<Rightarrow> frame_reassembler" where
  "start_at p e r = r\<lparr>expect_seq := e, expect_seq_set := True, frame_timestamp := rp_timestamp p,
     frame_first_seq := rp_seq p, frame_last_seq := rp_seq p\<rparr>"

text \<open>The second half of \<open>append_packet\<close>: the size cap, then the append.\<close>

definition append_payload :: "rtp_packet \<Rightarrow> frame_reassembler \<Rightarrow> frame_reassembler" where
  "append_payload p r =
     (if length (frame_buf r) + length (rp_payload p) > FRAME_MAX_BYTES
      then start_at p (rp_seq p + 1) (drop_frame ''oversize'' r)
      else r\<lparr>frame_buf := frame_buf r @ rp_payload p, expect_seq := rp_seq p + 1,
             frame_last_seq := rp_seq p\<rparr>)"

definition append_packet :: "rtp_packet \<Rightarrow> frame_reassembler \<Rightarrow> frame_reassembler" where
  "append_packet p r =
     (if \<not> expect_seq_set r then append_payload p (start_at p (rp_seq p) r)
      else
        let gap = seq_diff (rp_seq p) (expect_seq r) in
        if gap < 0 then r
        else if gap > int REASSEMBLER_WINDOW_SIZE
        then append_payload p (start_at p (rp_seq p) (drop_frame ''seq-gap'' r))
        else append_payload p r)"

definition cut_frame :: "frame_reassembler \<Rightarrow> nal_unit list \<times> frame_reassembler" where
  "cut_frame r =
     (if frame_buf r = [] then ([], r)
      else
        let nals = extract_nals_annexb (frame_buf r) (frame_timestamp r);
            buf_len = length (frame_buf r); s = ra_stats r in
        (nals, r\<lparr>ra_stats := s\<lparr>st_max_frame_bytes := max (st_max_frame_bytes s) buf_len,
                                st_nals := st_nals s + of_nat (length nals),
                                st_frames := st_frames s + 1\<rparr>,
                 frame_buf := [], expect_seq_set := False\<rparr>))"

text \<open>The flush loop of \<open>push\<close>, with its accumulators.\<close>

fun flush_loop ::
  "rtp_packet list \<Rightarrow> nal_unit list \<Rightarrow> bool \<Rightarrow> frame_reassembler
     \<Rightarrow> nal_unit list \<times> bool \<times> frame_reassembler" where
  "flush_loop [] nals complete r = (nals, complete, r)"
| "flush_loop (p # ps) nals complete r =
     (let r1 = append_packet p r in
      if rp_marker p then
        (case cut_frame r1 of (fnals, r2) \<Rightarrow> flush_loop ps (nals @ fnals) True r2)
      else flush_loop ps nals complete r1)"

definition push :: "rtp_packet \<Rightarrow> frame_reassembler \<Rightarrow> nal_unit list \<times> bool \<times> frame_reassembler" where
  "push pkt r =
     (let r1 = r\<lparr>ra_stats := (ra_stats r)\<lparr>st_packets := st_packets (ra_stats r) + 1\<rparr>\<rparr>;
          marker = rp_marker pkt;
          r2 = insert_sorted pkt r1
      in if length (pending r2) < REASSEMBLER_WINDOW_SIZE \<and> \<not> marker then ([], False, r2)
         else (case pop_pending_prefix marker r2 of
                 (flushed, r3) \<Rightarrow> flush_loop flushed [] False r3))"

definition reset_stream :: "frame_reassembler \<Rightarrow> frame_reassembler" where
  "reset_stream r = r\<lparr>pending := [], frame_buf := [], expect_seq_set := False\<rparr>"

text \<open>Feeding a list of packets and collecting the NAL units, as the receiver loop does.\<close>

fun push_all :: "rtp_packet list \<Rightarrow> frame_reassembler \<Rightarrow> nal_unit list \<times> frame_reassembler" where
  "push_all [] r = ([], r)"
| "push_all (p # ps) r =
     (case push p r of (nals, _, r1) \<Rightarrow>
        (case push_all ps r1 of (nals', r2) \<Rightarrow> (nals @ nals', r2)))"

section \<open>Bounded memory\<close>

definition reassembler_inv :: "frame_reassembler \<Rightarrow> bool" where
  "reassembler_inv r \<longleftrightarrow>
     length (frame_buf r) \<le> FRAME_MAX_BYTES \<and> length (pending r) < REASSEMBLER_WINDOW_SIZE"

lemma length_insert_at [simp]: "i \<le> length ps \<Longrightarrow> length (insert_at pkt ps i) = Suc (length ps)"
  by (induction i) auto

lemma pending_frame_ops [simp]:
  "pending (drop_frame s r) = pending r"
  "pending (start_at p e r) = pending r"
  "pending (append_payload p r) = pending r"
  "pending (append_packet p r) = pending r"
  "pending (snd (cut_frame r)) = pending r"
  by (simp_all add: drop_frame_def start_at_def append_payload_def append_packet_def cut_frame_def Let_def)

lemma frame_buf_start_at [simp]: "frame_buf (start_at p e r) = frame_buf r"
  by (simp add: start_at_def)

lemma frame_buf_drop_frame [simp]: "frame_buf (drop_frame s r) = []"
  by (simp add: drop_frame_def)

lemma frame_buf_append_payload:
  "length (frame_buf r) \<le> FRAME_MAX_BYTES \<Longrightarrow> length (frame_buf (append_payload p r)) \<le> FRAME_MAX_BYTES"
  by (simp add: append_payload_def)

lemma frame_buf_append_packet:
  "length (frame_buf r) \<le> FRAME_MAX_BYTES \<Longrightarrow> length (frame_buf (append_packet p r)) \<le> FRAME_MAX_BYTES"
  by (simp add: append_packet_def Let_def frame_buf_append_payload)

lemma frame_buf_cut_frame [simp]: "frame_buf (snd (cut_frame r)) = []"
  by (simp add: cut_frame_def Let_def)

lemma flush_loop_frame:
  "flush_loop ps nals c r = (nals', c', r') \<Longrightarrow> length (frame_buf r) \<le> FRAME_MAX_BYTES \<Longrightarrow>
     pending r' = pending r \<and> length (frame_buf r') \<le> FRAME_MAX_BYTES"
proof (induction ps nals c r rule: flush_loop.induct)
  case (2 p ps nals c r)
  obtain fnals r2 where cut: "cut_frame (append_packet p r) = (fnals, r2)" by fastforce
  then have "pending r2 = pending r" "frame_buf r2 = []"
    using pending_frame_ops(5) [of "append_packet p r"] frame_buf_cut_frame [of "append_packet p r"] by simp_all
  with 2 cut frame_buf_append_packet [of r p] show ?case
    by (auto simp: Let_def split: if_splits)
qed simp

lemma push_inv:
  assumes "reassembler_inv r" "push pkt r = (nals, c, r')"
  shows "reassembler_inv r'"
proof -
  define r2 where "r2 = insert_sorted pkt (r\<lparr>ra_stats := (ra_stats r)\<lparr>st_packets := st_packets (ra_stats r) + 1\<rparr>\<rparr>)"
  have r2: "frame_buf r2 = frame_buf r" "length (pending r2) = Suc (length (pending r))"
    by (simp_all add: r2_def insert_sorted_def)
  show ?thesis
  proof (cases "length (pending r2) < REASSEMBLER_WINDOW_SIZE \<and> \<not> rp_marker pkt")
    case True
    with assms r2 show ?thesis by (simp add: push_def Let_def r2_def [symmetric] reassembler_inv_def)
  next
    case False
    obtain fl r3 where pop: "pop_pending_prefix (rp_marker pkt) r2 = (fl, r3)" by fastforce
    with False have fl: "flush_loop fl [] False r3 = (nals, c, r')"
      using assms(2) by (auto simp: push_def Let_def r2_def [symmetric])
    have "frame_buf r3 = frame_buf r \<and> length (pending r3) < REASSEMBLER_WINDOW_SIZE"
      using pop False assms(1) r2
      by (auto simp: pop_pending_prefix_def Let_def reassembler_inv_def REASSEMBLER_WINDOW_SIZE_def split: if_splits)
    with flush_loop_frame [OF fl] assms(1) show ?thesis by (simp add: reassembler_inv_def)
  qed
qed

text \<open>
  C32. The reassembler's memory stays bounded: starting from a fresh reassembler, after any sequence of
  packets at most 7 packets are pending and the frame buffer holds at most 256 KiB; a stream reset keeps
  this too.
\<close>

theorem reassembler_bounded:
  "reassembler_inv (snd (push_all ps new_reassembler))
   \<and> reassembler_inv (reset_stream (snd (push_all ps new_reassembler)))"
proof -
  have "reassembler_inv r \<Longrightarrow> reassembler_inv (snd (push_all ps r))" for r
  proof (induction ps arbitrary: r)
    case (Cons p ps)
    then show ?case using push_inv [of r p] by (auto split: prod.splits) (metis snd_conv)
  qed simp
  then have "reassembler_inv (snd (push_all ps new_reassembler))"
    by (simp add: reassembler_inv_def new_reassembler_def REASSEMBLER_WINDOW_SIZE_def)
  then show ?thesis
    by (simp add: reassembler_inv_def reset_stream_def REASSEMBLER_WINDOW_SIZE_def)
qed

section \<open>Frames in sequence order\<close>

fun consecutive :: "u16 \<Rightarrow> rtp_packet list \<Rightarrow> bool" where
  "consecutive s [] = True"
| "consecutive s (p # ps) \<longleftrightarrow> rp_seq p = s \<and> consecutive (s + 1) ps"

abbreviation payloads :: "rtp_packet list \<Rightarrow> byte list" where
  "payloads ps \<equiv> concat (map rp_payload ps)"

text \<open>
  A frame as a sender emits it: consecutive sequence numbers, the marker on the last packet only, some
  payload, within the size cap.
\<close>

definition whole_frame :: "rtp_packet list \<Rightarrow> bool" where
  "whole_frame ps \<longleftrightarrow> ps \<noteq> [] \<and> consecutive (rp_seq (hd ps)) ps \<and> rp_marker (last ps)
     \<and> (\<forall>p \<in> set (butlast ps). \<not> rp_marker p) \<and> payloads ps \<noteq> [] \<and> length (payloads ps) \<le> FRAME_MAX_BYTES"

definition frame_nals :: "rtp_packet list \<Rightarrow> nal_unit list" where
  "frame_nals ps = extract_nals_annexb (payloads ps) (rp_timestamp (hd ps))"

definition idle :: "frame_reassembler \<Rightarrow> bool" where
  "idle r \<longleftrightarrow> pending r = [] \<and> frame_buf r = [] \<and> \<not> expect_seq_set r"

lemma consecutive_append:
  "consecutive s (xs @ ys) \<longleftrightarrow> consecutive s xs \<and> consecutive (s + of_nat (length xs)) ys"
  by (induction xs arbitrary: s) (simp_all add: add.assoc)

text \<open>The state in which the packets \<open>app\<close> of a frame that starts at \<open>s\<close> have been appended.\<close>

definition accum :: "u16 \<Rightarrow> rtp_packet list \<Rightarrow> frame_reassembler \<Rightarrow> bool" where
  "accum s app r \<longleftrightarrow> frame_buf r = payloads app \<and> (expect_seq_set r \<longleftrightarrow> app \<noteq> [])
     \<and> (app \<noteq> [] \<longrightarrow> expect_seq r = s + of_nat (length app) \<and> frame_timestamp r = rp_timestamp (hd app))"

lemma accum_append:
  assumes "accum s app r" "rp_seq p = s + of_nat (length app)" "length (payloads (app @ [p])) \<le> FRAME_MAX_BYTES"
  shows "accum s (app @ [p]) (append_packet p r)" "ra_stats (append_packet p r) = ra_stats r"
  using assms
  by (auto simp: accum_def append_packet_def append_payload_def start_at_def seq_diff_def Let_def add.assoc)

lemma flush_accum:
  assumes "accum s app r" "consecutive (s + of_nat (length app)) ps" "\<forall>p \<in> set ps. \<not> rp_marker p"
    "length (payloads (app @ ps)) \<le> FRAME_MAX_BYTES"
  shows "\<exists>r'. flush_loop ps nals c r = (nals, c, r') \<and> accum s (app @ ps) r'
           \<and> pending r' = pending r \<and> ra_stats r' = ra_stats r"
  using assms
proof (induction ps arbitrary: app r)
  case (Cons p ps)
  have "length (payloads (app @ [p])) \<le> FRAME_MAX_BYTES" using Cons.prems(4) by simp
  then have acc: "accum s (app @ [p]) (append_packet p r)" "ra_stats (append_packet p r) = ra_stats r"
    using accum_append [OF Cons.prems(1), of p] Cons.prems(2) by simp_all
  have "\<exists>r'. flush_loop ps nals c (append_packet p r) = (nals, c, r') \<and> accum s ((app @ [p]) @ ps) r'
      \<and> pending r' = pending (append_packet p r) \<and> ra_stats r' = ra_stats (append_packet p r)"
    using Cons.prems by (intro Cons.IH [OF acc(1)]) (simp_all add: ac_simps)
  with acc(2) Cons.prems(3) show ?case by simp
qed simp

lemma insert_at_end:
  assumes "consecutive s ps" "rp_seq p = s + of_nat (length ps)"
  shows "insert_at p ps (length ps) = ps @ [p]"
proof (cases ps rule: rev_cases)
  case (snoc qs q)
  with assms have "rp_seq p = rp_seq q + 1" by (simp add: consecutive_append add.assoc)
  then have "seq_diff (rp_seq p) (rp_seq q) = 1" by (simp add: seq_diff_def)
  with snoc show ?thesis by simp
qed simp

text \<open>The state after the non-marker packets \<open>xs\<close> of a frame were pushed: some appended, the rest pending.\<close>

definition mid_frame :: "u16 \<Rightarrow> rtp_packet list \<Rightarrow> frame_reassembler \<Rightarrow> frame_reassembler \<Rightarrow> bool" where
  "mid_frame s xs r0 r \<longleftrightarrow> (\<exists>app. xs = app @ pending r \<and> accum s app r \<and> length (pending r) < REASSEMBLER_WINDOW_SIZE)
     \<and> ra_stats r = (ra_stats r0)\<lparr>st_packets := st_packets (ra_stats r0) + of_nat (length xs)\<rparr>"

lemma push_mid:
  assumes "mid_frame s xs r0 r" "consecutive s (xs @ [p])" "\<forall>x \<in> set (xs @ [p]). \<not> rp_marker x"
    "length (payloads (xs @ [p])) \<le> FRAME_MAX_BYTES"
  shows "\<exists>r'. push p r = ([], False, r') \<and> mid_frame s (xs @ [p]) r0 r'"
proof -
  obtain app where app: "xs = app @ pending r" "accum s app r" "length (pending r) < REASSEMBLER_WINDOW_SIZE"
    using assms(1) by (auto simp: mid_frame_def)
  define r2 where "r2 = insert_sorted p (r\<lparr>ra_stats := (ra_stats r)\<lparr>st_packets := st_packets (ra_stats r) + 1\<rparr>\<rparr>)"
  have con: "consecutive (s + of_nat (length app)) (pending r @ [p])"
    using assms(2) by (simp add: app(1) consecutive_append add.assoc)
  then have pend: "pending r2 = pending r @ [p]"
    using insert_at_end [of "s + of_nat (length app)" "pending r" p]
    by (simp add: r2_def insert_sorted_def consecutive_append add.assoc)
  have acc: "accum s app r2" using app(2) by (simp add: accum_def r2_def insert_sorted_def)
  have st: "ra_stats r2 = (ra_stats r0)\<lparr>st_packets := st_packets (ra_stats r0) + of_nat (length (xs @ [p]))\<rparr>"
    using assms(1) by (simp add: mid_frame_def r2_def insert_sorted_def add.assoc)
  show ?thesis
  proof (cases "length (pending r2) < REASSEMBLER_WINDOW_SIZE")
    case True
    then have "push p r = ([], False, r2)"
      using assms(3) by (simp add: push_def Let_def r2_def [symmetric])
    moreover have "mid_frame s (xs @ [p]) r0 r2"
      using True app(1) acc pend st by (auto simp: mid_frame_def)
    ultimately show ?thesis by blast
  next
    case False
    let ?r3 = "r2\<lparr>pending := [p]\<rparr>"
    have ne: "pending r \<noteq> []"
      using False pend by (auto simp: REASSEMBLER_WINDOW_SIZE_def)
    then have "push p r = flush_loop (pending r) [] False ?r3"
      using False pend assms(3) by (simp add: push_def Let_def r2_def [symmetric] pop_pending_prefix_def)
    moreover have "\<exists>r'. flush_loop (pending r) [] False ?r3 = ([], False, r') \<and> accum s (app @ pending r) r'
        \<and> pending r' = pending ?r3 \<and> ra_stats r' = ra_stats ?r3"
    proof (rule flush_accum)
      show "accum s app ?r3" using acc by (simp add: accum_def)
      show "consecutive (s + of_nat (length app)) (pending r)" using con by (simp add: consecutive_append)
    qed (use assms(3,4) app(1) in auto)
    ultimately show ?thesis
      using app(1) st by (auto simp: mid_frame_def REASSEMBLER_WINDOW_SIZE_def)
  qed
qed

lemma push_all_append:
  "push_all (xs @ ys) r =
     (case push_all xs r of (n1, r1) \<Rightarrow> case push_all ys r1 of (n2, r2) \<Rightarrow> (n1 @ n2, r2))"
  by (induction xs arbitrary: r) (auto split: prod.splits)

lemma push_all_mid:
  assumes "idle r0" "consecutive s xs" "\<forall>x \<in> set xs. \<not> rp_marker x" "length (payloads xs) \<le> FRAME_MAX_BYTES"
  shows "\<exists>r. push_all xs r0 = ([], r) \<and> mid_frame s xs r0 r"
  using assms(2-)
proof (induction xs rule: rev_induct)
  case Nil
  then show ?case
    using assms(1) by (auto simp: mid_frame_def accum_def idle_def REASSEMBLER_WINDOW_SIZE_def)
next
  case (snoc p xs)
  then obtain r where r: "push_all xs r0 = ([], r)" "mid_frame s xs r0 r"
    by (auto simp: consecutive_append)
  with push_mid [OF r(2)] snoc.prems obtain r' where
    "push p r = ([], False, r')" "mid_frame s (xs @ [p]) r0 r'" by blast
  with r(1) show ?case by (simp add: push_all_append)
qed

text \<open>The marker packet flushes what is pending and cuts the frame.\<close>

lemma flush_marker:
  assumes "accum s app r" "consecutive (s + of_nat (length app)) (ps @ [p])" "\<forall>x \<in> set ps. \<not> rp_marker x"
    "rp_marker p" "length (payloads (app @ ps @ [p])) \<le> FRAME_MAX_BYTES" "payloads (app @ ps @ [p]) \<noteq> []" "pending r = []"
  shows "\<exists>r'. flush_loop (ps @ [p]) [] False r = (frame_nals (app @ ps @ [p]), True, r') \<and> idle r'
           \<and> st_frames (ra_stats r') = st_frames (ra_stats r) + 1
           \<and> st_dropped_frames (ra_stats r') = st_dropped_frames (ra_stats r)
           \<and> st_packets (ra_stats r') = st_packets (ra_stats r)"
proof -
  have split: "flush_loop (xs @ ys) n c r = (case flush_loop xs n c r of (n', c', r') \<Rightarrow> flush_loop ys n' c' r')"
    for xs ys n c r by (induction xs n c r rule: flush_loop.induct) (auto simp: Let_def split: prod.splits)
  obtain r1 where r1: "flush_loop ps [] False r = ([], False, r1)" "accum s (app @ ps) r1"
    "pending r1 = pending r" "ra_stats r1 = ra_stats r"
    using flush_accum [OF assms(1), where ps = ps and nals = "[]" and c = False] assms(2,3,5)
    by (auto simp: consecutive_append)
  have "rp_seq p = s + of_nat (length (app @ ps))" using assms(2) by (simp add: consecutive_append add.assoc)
  then have r2: "accum s (app @ ps @ [p]) (append_packet p r1)" "ra_stats (append_packet p r1) = ra_stats r"
    using accum_append [OF r1(2), of p] assms(5) r1(4) by simp_all
  then show ?thesis
    using assms(4,6,7) r1 by (auto simp: split Let_def cut_frame_def frame_nals_def accum_def idle_def)
qed

lemma push_marker:
  assumes "mid_frame s xs r0 r" "consecutive s (xs @ [p])" "\<forall>x \<in> set xs. \<not> rp_marker x" "rp_marker p"
    "length (payloads (xs @ [p])) \<le> FRAME_MAX_BYTES" "payloads (xs @ [p]) \<noteq> []"
  shows "\<exists>r'. push p r = (frame_nals (xs @ [p]), True, r') \<and> idle r'
           \<and> st_frames (ra_stats r') = st_frames (ra_stats r0) + 1
           \<and> st_dropped_frames (ra_stats r') = st_dropped_frames (ra_stats r0)
           \<and> st_packets (ra_stats r') = st_packets (ra_stats r0) + of_nat (length (xs @ [p]))"
proof -
  obtain app where app: "xs = app @ pending r" "accum s app r"
    using assms(1) by (auto simp: mid_frame_def)
  define r2 where "r2 = insert_sorted p (r\<lparr>ra_stats := (ra_stats r)\<lparr>st_packets := st_packets (ra_stats r) + 1\<rparr>\<rparr>)"
  have con: "consecutive (s + of_nat (length app)) (pending r @ [p])"
    using assms(2) by (simp add: app(1) consecutive_append add.assoc)
  then have pend: "pending r2 = pending r @ [p]"
    using insert_at_end [of "s + of_nat (length app)" "pending r" p]
    by (simp add: r2_def insert_sorted_def consecutive_append add.assoc)
  let ?r3 = "r2\<lparr>pending := []\<rparr>"
  have acc: "accum s app ?r3" using app(2) by (simp add: accum_def r2_def insert_sorted_def)
  have st: "ra_stats ?r3 = (ra_stats r0)\<lparr>st_packets := st_packets (ra_stats r0) + of_nat (length (xs @ [p]))\<rparr>"
    using assms(1) by (simp add: mid_frame_def r2_def insert_sorted_def add.assoc)
  have "push p r = flush_loop (pending r @ [p]) [] False ?r3"
    using pend assms(4) by (simp add: push_def Let_def r2_def [symmetric] pop_pending_prefix_def)
  with flush_marker [OF acc con] assms app(1) st show ?thesis by auto
qed

lemma push_whole_frame:
  assumes "idle r0" "whole_frame ps"
  shows "\<exists>r'. push_all ps r0 = (frame_nals ps, r') \<and> idle r'
           \<and> st_frames (ra_stats r') = st_frames (ra_stats r0) + 1
           \<and> st_dropped_frames (ra_stats r') = st_dropped_frames (ra_stats r0)
           \<and> st_packets (ra_stats r') = st_packets (ra_stats r0) + of_nat (length ps)"
proof -
  obtain xs p where ps: "ps = xs @ [p]" using assms(2) by (auto simp: whole_frame_def intro: rev_exhaust)
  define s where "s = rp_seq (hd ps)"
  have w: "consecutive s (xs @ [p])" "\<forall>x \<in> set xs. \<not> rp_marker x" "rp_marker p"
    "length (payloads (xs @ [p])) \<le> FRAME_MAX_BYTES" "payloads (xs @ [p]) \<noteq> []"
    using assms(2) unfolding whole_frame_def ps s_def by simp_all
  obtain r where r: "push_all xs r0 = ([], r)" "mid_frame s xs r0 r"
    using push_all_mid [OF assms(1), of s xs] w by (auto simp: consecutive_append)
  from push_marker [OF r(2) w] r(1) show ?thesis unfolding ps push_all_append by auto
qed

lemma push_all_frames:
  assumes "idle r" "\<forall>f \<in> set fs. whole_frame f"
  shows "\<exists>r'. push_all (concat fs) r = (concat (map frame_nals fs), r') \<and> idle r'
           \<and> st_frames (ra_stats r') = st_frames (ra_stats r) + of_nat (length fs)
           \<and> st_dropped_frames (ra_stats r') = st_dropped_frames (ra_stats r)
           \<and> st_packets (ra_stats r') = st_packets (ra_stats r) + of_nat (length (concat fs))"
  using assms
proof (induction fs arbitrary: r)
  case (Cons f fs)
  obtain r1 where r1: "push_all f r = (frame_nals f, r1)" "idle r1"
    "st_frames (ra_stats r1) = st_frames (ra_stats r) + 1"
    "st_dropped_frames (ra_stats r1) = st_dropped_frames (ra_stats r)"
    "st_packets (ra_stats r1) = st_packets (ra_stats r) + of_nat (length f)"
    using push_whole_frame [OF Cons.prems(1), of f] Cons.prems(2) by auto
  from Cons.IH [OF r1(2)] Cons.prems(2) r1 show ?case
    by (auto simp: push_all_append add.assoc)
qed simp

text \<open>
  C25. Frames delivered in sequence order are reassembled exactly: for any list of frames, each sent as
  consecutive packets with the marker on the last one and no larger than the cap, the reassembler emits the
  NAL units of every frame's byte stream in order, as if each frame had come in one packet, counts every
  frame, drops none and ends idle.  How a frame was cut into packets makes no difference, and sequence
  numbers may wrap around.
\<close>

theorem reassemble_in_order:
  assumes "idle r" "\<forall>f \<in> set fs. whole_frame f"
  shows "\<exists>r'. push_all (concat fs) r = (concat (map frame_nals fs), r') \<and> idle r'
           \<and> st_frames (ra_stats r') = st_frames (ra_stats r) + of_nat (length fs)
           \<and> st_dropped_frames (ra_stats r') = st_dropped_frames (ra_stats r)
           \<and> st_packets (ra_stats r') = st_packets (ra_stats r) + of_nat (length (concat fs))"
  by (rule push_all_frames [OF assms])

abbreviation sample_packet :: "bool \<Rightarrow> u16 \<Rightarrow> byte list \<Rightarrow> rtp_packet" where
  "sample_packet m q d \<equiv>
     \<lparr>rp_marker = m, rp_pt = 96, rp_seq = q, rp_timestamp = 3600, rp_ssrc = 1, rp_payload = d\<rparr>"

theorem reassemble_in_order_witness:
  "\<exists>r'. push_all (concat [[sample_packet False 0xffff [0, 0, 0, 1, 0x65], sample_packet True 0 [7]]]) new_reassembler
      = (concat (map frame_nals [[sample_packet False 0xffff [0, 0, 0, 1, 0x65], sample_packet True 0 [7]]]), r')
    \<and> idle r'"
proof -
  let ?f = "[sample_packet False 0xffff [0, 0, 0, 1, 0x65], sample_packet True 0 [7]]"
  have "idle new_reassembler" by (simp add: idle_def new_reassembler_def)
  moreover have "\<forall>f \<in> set [?f]. whole_frame f" by (simp add: whole_frame_def FRAME_MAX_BYTES_def)
  ultimately show ?thesis using reassemble_in_order [of new_reassembler "[?f]"] by blast
qed

section \<open>Reordering inside the window\<close>

text \<open>The distance of a packet from the frame's first sequence number.\<close>

definition seq_off :: "u16 \<Rightarrow> rtp_packet \<Rightarrow> nat" where
  "seq_off s p = unat (rp_seq p - s)"

lemma seq_diff_off:
  assumes "seq_off s p < 8" "seq_off s q < 8"
  shows "seq_diff (rp_seq p) (rp_seq q) \<ge> 0 \<longleftrightarrow> seq_off s q \<le> seq_off s p"
proof -
  have "rp_seq p - rp_seq q = (rp_seq p - s) - (rp_seq q - s)" by simp
  also have "\<dots> = of_int (int (seq_off s p) - int (seq_off s q))" by (simp add: seq_off_def)
  finally have "seq_diff (rp_seq p) (rp_seq q) = signed_take_bit 15 (int (seq_off s p) - int (seq_off s q))"
    unfolding seq_diff_def by (simp only: signed_of_int) simp
  also have "\<dots> = int (seq_off s p) - int (seq_off s q)"
    using assms by (intro signed_take_bit_int_eq_self) auto
  finally show ?thesis by simp
qed

lemma insert_at_mset: "i \<le> length ps \<Longrightarrow> mset (insert_at p ps i) = add_mset p (mset ps)"
proof (induction i)
  case (Suc i)
  then show ?case
    by simp (metis append_take_drop_id mset_append)
qed simp

lemma insert_at_sorted:
  assumes "sorted (map (seq_off s) ps)" "i \<le> length ps" "\<forall>x \<in> set (p # ps). seq_off s x < 8"
    "\<forall>x \<in> set (drop i ps). seq_off s p \<le> seq_off s x"
  shows "sorted (map (seq_off s) (insert_at p ps i))"
  using assms(2,4)
proof (induction i)
  case 0
  with assms(1) show ?case by simp
next
  case (Suc i)
  have off: "seq_off s (ps ! i) < 8" "seq_off s p < 8" using assms(3) Suc.prems(1) by simp_all
  show ?case
  proof (cases "seq_off s (ps ! i) \<le> seq_off s p")
    case True
    have "sorted (map (seq_off s) (take (Suc i) ps @ drop (Suc i) ps))" using assms(1) by simp
    moreover have "\<forall>x \<in> set (take (Suc i) ps). seq_off s x \<le> seq_off s p"
    proof
      fix x assume "x \<in> set (take (Suc i) ps)"
      then obtain j where "j \<le> i" "x = ps ! j" by (auto simp: in_set_conv_nth less_Suc_eq_le)
      then have "seq_off s x \<le> seq_off s (ps ! i)"
        using sorted_nth_mono [OF assms(1), of j i] Suc.prems(1) by simp
      with True show "seq_off s x \<le> seq_off s p" by simp
    qed
    ultimately have "sorted (map (seq_off s) (take (Suc i) ps @ p # drop (Suc i) ps))"
      using Suc.prems(2) by (fastforce simp: sorted_append simp del: append_take_drop_id)
    with True off show ?thesis by (simp add: seq_diff_off [of s])
  next
    case False
    moreover have "drop i ps = ps ! i # drop (Suc i) ps" using Suc.prems(1) by (simp add: Cons_nth_drop_Suc)
    ultimately show ?thesis using Suc off by (simp add: seq_diff_off [of s])
  qed
qed

text \<open>Pushing fewer than eight non-marker packets only sorts them into the window.\<close>

lemma push_all_window:
  assumes "pending r0 = []" "length xs < REASSEMBLER_WINDOW_SIZE" "\<forall>x \<in> set xs. \<not> rp_marker x \<and> seq_off s x < 8"
  shows "\<exists>ps. push_all xs r0 = ([], r0\<lparr>pending := ps, ra_stats := (ra_stats r0)\<lparr>st_packets := st_packets (ra_stats r0) + of_nat (length xs)\<rparr>\<rparr>)
           \<and> mset ps = mset xs \<and> sorted (map (seq_off s) ps)"
  using assms(2-)
proof (induction xs rule: rev_induct)
  case Nil
  then show ?case using assms(1) by (intro exI [of _ "[]"]) simp
next
  case (snoc x xs)
  then obtain ps where ps: "push_all xs r0 = ([], r0\<lparr>pending := ps, ra_stats := (ra_stats r0)\<lparr>st_packets := st_packets (ra_stats r0) + of_nat (length xs)\<rparr>\<rparr>)"
    "mset ps = mset xs" "sorted (map (seq_off s) ps)" by auto
  have len: "length ps = length xs" using ps(2) by (metis size_mset)
  have set: "set ps = set xs" using ps(2) by (metis set_mset_mset)
  let ?ps = "insert_at x ps (length ps)"
  have "sorted (map (seq_off s) ?ps)"
    using insert_at_sorted [OF ps(3), of "length ps" x] snoc.prems(2) set by simp
  moreover have "mset ?ps = mset (xs @ [x])" using ps(2) by (simp add: insert_at_mset)
  moreover have "push_all (xs @ [x]) r0 = ([], r0\<lparr>pending := ?ps, ra_stats := (ra_stats r0)\<lparr>st_packets := st_packets (ra_stats r0) + of_nat (length (xs @ [x]))\<rparr>\<rparr>)"
    using snoc.prems len by (simp add: push_all_append ps(1) push_def insert_sorted_def Let_def add.assoc)
  ultimately show ?case by blast
qed

lemma consecutive_off:
  "consecutive (s + of_nat k) ps \<Longrightarrow> k + length ps \<le> 8 \<Longrightarrow> map (seq_off s) ps = [k..<k + length ps]"
proof (induction ps arbitrary: k)
  case (Cons p ps)
  have "consecutive (s + of_nat (Suc k)) ps" using Cons.prems(1) by (simp add: add.commute add.left_commute)
  then have "map (seq_off s) ps = [Suc k..<Suc k + length ps]"
    using Cons.prems(2) by (intro Cons.IH) simp_all
  moreover have "seq_off s p = k" using Cons.prems by (simp add: seq_off_def unat_of_nat)
  moreover have "[k..<k + length (p # ps)] = k # [Suc k..<Suc k + length ps]"
    by (simp add: upt_conv_Cons del: upt_Suc)
  ultimately show ?case by simp
qed simp

text \<open>
  C26. Reordering inside the window is repaired: if a frame has at most eight packets, then whatever order
  its non-marker packets arrive in, as long as the marker packet arrives last, the reassembler emits exactly
  the NAL units it emits for the frame in sequence order, and ends idle with no frame dropped.
\<close>

theorem reassemble_reordered:
  assumes "idle r" "whole_frame f" "length f \<le> REASSEMBLER_WINDOW_SIZE" "mset xs = mset (butlast f)"
  shows "\<exists>r'. push_all (xs @ [last f]) r = (frame_nals f, r') \<and> idle r'
           \<and> st_dropped_frames (ra_stats r') = st_dropped_frames (ra_stats r)"
proof -
  define s where "s = rp_seq (hd f)"
  define ys where "ys = butlast f"
  have f: "f = ys @ [last f]" using assms(2) by (simp add: whole_frame_def ys_def)
  have w: "consecutive s f" "\<forall>x \<in> set ys. \<not> rp_marker x" using assms(2) by (simp_all add: whole_frame_def s_def ys_def)
  have off: "map (seq_off s) f = [0..<length f]"
    using consecutive_off [of s 0 f] w(1) assms(3) by (simp add: REASSEMBLER_WINDOW_SIZE_def)
  have xy: "length xs = length ys" "set xs = set ys"
    using assms(4) unfolding ys_def [symmetric] by (metis size_mset, metis set_mset_mset)
  have ysoff: "map (seq_off s) ys = [0..<length ys]"
    using off by (subst (asm) f, subst (asm) (2) f) simp
  have small: "\<forall>x \<in> set xs. \<not> rp_marker x \<and> seq_off s x < 8"
  proof
    fix x assume x: "x \<in> set xs"
    then have "seq_off s x \<in> set (map (seq_off s) ys)" using xy(2) by simp
    then have "seq_off s x < length ys" unfolding ysoff by simp
    then show "\<not> rp_marker x \<and> seq_off s x < 8"
      using x w(2) xy(2) assms(3) by (simp add: ys_def REASSEMBLER_WINDOW_SIZE_def)
  qed
  have len: "length xs < REASSEMBLER_WINDOW_SIZE"
    using xy(1) assms(2,3) by (simp add: ys_def whole_frame_def REASSEMBLER_WINDOW_SIZE_def)
  obtain ps where ps: "push_all xs r = ([], r\<lparr>pending := ps, ra_stats := (ra_stats r)\<lparr>st_packets := st_packets (ra_stats r) + of_nat (length xs)\<rparr>\<rparr>)"
    "mset ps = mset xs" "sorted (map (seq_off s) ps)"
    using push_all_window [OF _ len small, of r] assms(1) by (auto simp: idle_def)
  have "ps = ys"
  proof -
    have "inj_on (seq_off s) (set ys)" using ysoff by (metis distinct_map distinct_upt)
    moreover have "mset ys = mset ps" using ps(2) assms(4) by (simp add: ys_def)
    moreover have "sorted (map (seq_off s) ys)" unfolding ysoff by simp
    ultimately show ?thesis using ps(3) by (metis sort_key_inj_key_eq set_mset_mset)
  qed
  let ?r1 = "r\<lparr>pending := ps, ra_stats := (ra_stats r)\<lparr>st_packets := st_packets (ra_stats r) + of_nat (length xs)\<rparr>\<rparr>"
  have mid: "mid_frame s ys r ?r1"
    using assms(1) len \<open>ps = ys\<close> xy(1)
    by (auto simp: mid_frame_def accum_def idle_def)
  have fr: "consecutive s (ys @ [last f])" "rp_marker (last f)" "length (payloads (ys @ [last f])) \<le> FRAME_MAX_BYTES"
    "payloads (ys @ [last f]) \<noteq> []"
    using w(1) assms(2) unfolding f [symmetric] by (simp_all add: whole_frame_def)
  from push_marker [OF mid fr(1) w(2) fr(2-)] ps(1) show ?thesis
    unfolding f [symmetric] push_all_append by auto
qed

theorem reassemble_reordered_witness:
  "\<exists>r'. push_all ([sample_packet False 0 [9], sample_packet False 0xffff [0, 0, 0, 1, 0x65]] @ [sample_packet True 1 [7]])
        new_reassembler
      = (frame_nals [sample_packet False 0xffff [0, 0, 0, 1, 0x65], sample_packet False 0 [9], sample_packet True 1 [7]], r')
    \<and> idle r'"
proof -
  let ?f = "[sample_packet False 0xffff [0, 0, 0, 1, 0x65], sample_packet False 0 [9], sample_packet True 1 [7]]"
  let ?xs = "[sample_packet False 0 [9], sample_packet False 0xffff [0, 0, 0, 1, 0x65]]"
  have "idle new_reassembler" "whole_frame ?f" "length ?f \<le> REASSEMBLER_WINDOW_SIZE" "mset ?xs = mset (butlast ?f)"
    by (simp_all add: idle_def new_reassembler_def whole_frame_def FRAME_MAX_BYTES_def REASSEMBLER_WINDOW_SIZE_def)
  from reassemble_reordered [OF this] show ?thesis by auto
qed

section \<open>Oversized frames\<close>

text \<open>
  When a packet would push the frame over the size cap, the bytes collected so far and that packet are
  discarded and one dropped frame is counted; the rest of the same frame is still collected, so its marker
  packet cuts the tail as a frame of its own, stamped with the discarded packet's timestamp.
\<close>

theorem oversize_tail_emitted:
  assumes "expect_seq_set r" "frame_buf r \<noteq> []" "rp_seq p = expect_seq r" "\<not> rp_marker p"
    "length (frame_buf r) + length (rp_payload p) > FRAME_MAX_BYTES"
    "rp_seq q = rp_seq p + 1" "rp_marker q" "rp_payload q \<noteq> []" "length (rp_payload q) \<le> FRAME_MAX_BYTES"
  shows "\<exists>r'. flush_loop [p, q] [] False r = (extract_nals_annexb (rp_payload q) (rp_timestamp p), True, r')
           \<and> frame_buf r' = [] \<and> st_dropped_frames (ra_stats r') = st_dropped_frames (ra_stats r) + 1
           \<and> st_frames (ra_stats r') = st_frames (ra_stats r) + 1"
proof -
  define r1 where "r1 = start_at p (rp_seq p + 1) (drop_frame ''oversize'' r)"
  have a: "append_packet p r = r1"
    using assms by (simp add: append_packet_def append_payload_def seq_diff_def Let_def r1_def)
  have r1: "frame_buf r1 = []" "expect_seq_set r1" "expect_seq r1 = rp_seq q" "frame_timestamp r1 = rp_timestamp p"
    "st_dropped_frames (ra_stats r1) = st_dropped_frames (ra_stats r) + 1" "st_frames (ra_stats r1) = st_frames (ra_stats r)"
    using assms by (simp_all add: r1_def start_at_def drop_frame_def)
  then have "append_packet q r1 = r1\<lparr>frame_buf := rp_payload q, expect_seq := rp_seq q + 1, frame_last_seq := rp_seq q\<rparr>"
    using assms by (simp add: append_packet_def append_payload_def seq_diff_def Let_def)
  then show ?thesis
    using assms a r1 by (simp add: Let_def cut_frame_def)
qed

theorem oversize_tail_emitted_witness:
  "let r = new_reassembler\<lparr>frame_buf := replicate 262144 0, expect_seq_set := True, expect_seq := 5\<rparr> in
   \<exists>r'. flush_loop [sample_packet False 5 [1], sample_packet True 6 [2]] [] False r
      = (extract_nals_annexb [2] 3600, True, r') \<and> st_dropped_frames (ra_stats r') = st_dropped_frames (ra_stats r) + 1"
proof -
  let ?r = "new_reassembler\<lparr>frame_buf := replicate 262144 0, expect_seq_set := True, expect_seq := 5\<rparr>"
  have "\<exists>r'. flush_loop [sample_packet False 5 [1], sample_packet True 6 [2]] [] False ?r
      = (extract_nals_annexb (rp_payload (sample_packet True 6 [2])) (rp_timestamp (sample_packet False 5 [1])), True, r')
    \<and> frame_buf r' = [] \<and> st_dropped_frames (ra_stats r') = st_dropped_frames (ra_stats ?r) + 1
    \<and> st_frames (ra_stats r') = st_frames (ra_stats ?r) + 1"
    by (rule oversize_tail_emitted) (simp_all add: FRAME_MAX_BYTES_def)
  then show ?thesis unfolding Let_def by auto
qed

end
