(* ===== verification/Receiver.thy ===== *)
theory Receiver
  imports Reassembler FrameBuffer
begin

text \<open>
  \<open>src/video/rtp.rs\<close>, \<open>RtpReceiver::run_with_conn\<close>: the loop that takes datagrams from the UDP socket,
  follows the SSRC of the sender and feeds the reassembler and the frame buffer.  What the socket returns
  and when the stop flag is seen set is a list of events.  \<open>sink\<close> and \<open>hook\<close> are the two callbacks, acting
  on a state of the caller; log lines are left out.
\<close>

section \<open>The receive loop\<close>

definition RECV_BUF_LEN :: nat where "RECV_BUF_LEN = 2048"

datatype recv_result = RecvTimeout | RecvFatal string | Datagram string "byte list"

record 'x receiver =
  rv_reasm :: frame_reassembler
  rv_locked :: "u32 option"
  rv_epoch :: u32
  rv_buf :: frame_buffer
  rv_ext :: 'x

definition receiver_new :: "frame_buffer \<Rightarrow> 'x \<Rightarrow> 'x receiver" where
  "receiver_new buf x = \<lparr>rv_reasm = new_reassembler, rv_locked = None, rv_epoch = 0, rv_buf = buf, rv_ext = x\<rparr>"

text \<open>The SSRC of the sender is followed; a change starts a new stream.\<close>

definition lock_ssrc :: "(u32 \<Rightarrow> 'x \<Rightarrow> 'x) option \<Rightarrow> u32 \<Rightarrow> 'x receiver \<Rightarrow> 'x receiver" where
  "lock_ssrc sink s rv =
     (if rv_locked rv \<noteq> Some s then
        let rv1 = (if rv_locked rv \<noteq> None
                   then rv\<lparr>rv_epoch := rv_epoch rv + 1, rv_reasm := reset_stream (rv_reasm rv)\<rparr> else rv);
            rv2 = rv1\<lparr>rv_locked := Some s\<rparr>
        in (case sink of Some f \<Rightarrow> rv2\<lparr>rv_ext := f s (rv_ext rv2)\<rparr> | None \<Rightarrow> rv2)
      else rv)"

definition recv_packet ::
  "(u32 \<Rightarrow> 'x \<Rightarrow> 'x) option \<Rightarrow> (rtp_packet \<Rightarrow> 'x \<Rightarrow> 'x) option \<Rightarrow> rtp_packet \<Rightarrow> 'x receiver \<Rightarrow> 'x receiver" where
  "recv_packet sink hook pkt rv =
     (let rv1 = lock_ssrc sink (rp_ssrc pkt) rv;
          rv2 = (case hook of Some f \<Rightarrow> rv1\<lparr>rv_ext := f pkt (rv_ext rv1)\<rparr> | None \<Rightarrow> rv1)
      in case push pkt (rv_reasm rv2) of (nals, _, reasm) \<Rightarrow>
           rv2\<lparr>rv_reasm := reasm,
               rv_buf := fold fb_push (map (\<lambda>n. n\<lparr>nal_epoch := rv_epoch rv2\<rparr>) nals) (rv_buf rv2)\<rparr>)"

definition recv_datagram ::
  "(u32 \<Rightarrow> 'x \<Rightarrow> 'x) option \<Rightarrow> (rtp_packet \<Rightarrow> 'x \<Rightarrow> 'x) option \<Rightarrow> string \<Rightarrow> string \<Rightarrow> byte list
   \<Rightarrow> 'x receiver \<Rightarrow> 'x receiver" where
  "recv_datagram sink hook expect_src_ip src data rv =
     (if expect_src_ip \<noteq> [] \<and> src \<noteq> expect_src_ip then rv
      else
        (case parse_rtp (take RECV_BUF_LEN data) of
           Err _ \<Rightarrow> rv
         | Ok pkt \<Rightarrow> recv_packet sink hook pkt rv))"

text \<open>
  One event is an iteration: whether the stop flag is seen set, and what \<open>recv_from\<close> returns.  \<open>None\<close>
  means that the loop is still running after the events.
\<close>

fun run_with_conn ::
  "(u32 \<Rightarrow> 'x \<Rightarrow> 'x) option \<Rightarrow> (rtp_packet \<Rightarrow> 'x \<Rightarrow> 'x) option \<Rightarrow> string \<Rightarrow> (bool \<times> recv_result) list
   \<Rightarrow> 'x receiver \<Rightarrow> (string + unit) option \<times> 'x receiver" where
  "run_with_conn sink hook ip [] rv = (None, rv)"
| "run_with_conn sink hook ip ((stop, ev) # evs) rv =
     (if stop then (Some (Ok ()), rv)
      else
        (case ev of
           RecvTimeout \<Rightarrow> run_with_conn sink hook ip evs rv
         | RecvFatal e \<Rightarrow> (Some (Err e), rv)
         | Datagram src data \<Rightarrow> run_with_conn sink hook ip evs (recv_datagram sink hook ip src data rv)))"

section \<open>What reaches the frame buffer\<close>

text \<open>The packets an event list carries: from the expected address, well formed.\<close>

fun accepted :: "string \<Rightarrow> (bool \<times> recv_result) list \<Rightarrow> rtp_packet list" where
  "accepted ip [] = []"
| "accepted ip ((stop, ev) # evs) =
     (case ev of
        Datagram src data \<Rightarrow>
          (if ip \<noteq> [] \<and> src \<noteq> ip then accepted ip evs
           else (case parse_rtp (take RECV_BUF_LEN data) of Err _ \<Rightarrow> accepted ip evs | Ok p \<Rightarrow> p # accepted ip evs))
      | _ \<Rightarrow> accepted ip evs)"

lemma run_with_conn_accepted:
  "list_all (\<lambda>(stop, ev). \<not> stop \<and> (\<forall>e. ev \<noteq> RecvFatal e)) evs \<Longrightarrow>
   run_with_conn sink hook ip evs rv = (None, fold (recv_packet sink hook) (accepted ip evs) rv)"
  by (induction evs arbitrary: rv)
    (auto simp: recv_datagram_def split: recv_result.splits sum.splits)

text \<open>One run of packets with the SSRC already locked.\<close>

definition at_epoch :: "u32 \<Rightarrow> nal_unit list \<Rightarrow> nal_unit list" where
  "at_epoch e ns = map (\<lambda>n. n\<lparr>nal_epoch := e\<rparr>) ns"

lemma recv_packets_locked:
  "rv_locked rv = Some s \<Longrightarrow> \<forall>p \<in> set ps. rp_ssrc p = s \<Longrightarrow> push_all ps (rv_reasm rv) = (nals, r') \<Longrightarrow>
   (let rv' = fold (recv_packet sink hook) ps rv in
    rv_locked rv' = Some s \<and> rv_epoch rv' = rv_epoch rv \<and> rv_reasm rv' = r'
    \<and> rv_buf rv' = fold fb_push (at_epoch (rv_epoch rv) nals) (rv_buf rv))"
proof (induction ps arbitrary: rv nals)
  case Nil
  then show ?case by (simp add: at_epoch_def)
next
  case (Cons p ps)
  obtain n1 c r1 where p1: "push p (rv_reasm rv) = (n1, c, r1)" by (cases "push p (rv_reasm rv)")
  then obtain n2 where n2: "push_all ps r1 = (n2, r')" "nals = n1 @ n2" using Cons.prems(3) by (auto split: prod.splits)
  define rv1 where "rv1 = recv_packet sink hook p rv"
  have "rv_locked rv1 = Some s \<and> rv_epoch rv1 = rv_epoch rv \<and> rv_reasm rv1 = r1
    \<and> rv_buf rv1 = fold fb_push (at_epoch (rv_epoch rv) n1) (rv_buf rv)"
    using Cons.prems(1,2) p1 by (auto simp: rv1_def recv_packet_def lock_ssrc_def at_epoch_def Let_def split: option.split)
  then show ?case
    using Cons.IH [of rv1 n2] Cons.prems(2) n2 by (simp add: Let_def rv1_def [symmetric] at_epoch_def)
qed

text \<open>A wave of frames from one sender: the first packet locks its SSRC.\<close>

definition wave :: "u32 \<Rightarrow> rtp_packet list list \<Rightarrow> bool" where
  "wave s fs \<longleftrightarrow> fs \<noteq> [] \<and> (\<forall>f \<in> set fs. whole_frame f \<and> (\<forall>p \<in> set f. rp_ssrc p = s))"

definition next_epoch :: "'x receiver \<Rightarrow> u32" where
  "next_epoch rv = (if rv_locked rv = None then rv_epoch rv else rv_epoch rv + 1)"

lemma idle_reset: "idle (reset_stream r)"
  by (simp add: idle_def reset_stream_def)

lemma recv_wave:
  assumes "wave s fs" "rv_locked rv \<noteq> Some s" "rv_locked rv = None \<longrightarrow> idle (rv_reasm rv)"
  shows "let rv' = fold (recv_packet sink hook) (concat fs) rv in
    rv_locked rv' = Some s \<and> rv_epoch rv' = next_epoch rv \<and> idle (rv_reasm rv')
    \<and> rv_buf rv' = fold fb_push (at_epoch (next_epoch rv) (concat (map frame_nals fs))) (rv_buf rv)"
proof -
  define rv1 where "rv1 = lock_ssrc sink s rv"
  have rv1: "rv_locked rv1 = Some s" "rv_epoch rv1 = next_epoch rv" "idle (rv_reasm rv1)" "rv_buf rv1 = rv_buf rv"
    using assms(2,3) by (auto simp: rv1_def lock_ssrc_def next_epoch_def Let_def idle_reset split: option.split)
  have all: "\<forall>f \<in> set fs. whole_frame f" "\<forall>p \<in> set (concat fs). rp_ssrc p = s"
    using assms(1) by (auto simp: wave_def)
  obtain p ps where ps: "concat fs = p # ps"
    using assms(1) by (cases fs; cases "hd fs") (auto simp: wave_def whole_frame_def)
  have "recv_packet sink hook p rv = recv_packet sink hook p rv1"
    using all(2) ps rv1(1) by (simp add: recv_packet_def rv1_def lock_ssrc_def Let_def split: option.split)
  then have "fold (recv_packet sink hook) (concat fs) rv = fold (recv_packet sink hook) (concat fs) rv1"
    by (simp add: ps)
  moreover obtain r' where "push_all (concat fs) (rv_reasm rv1) = (concat (map frame_nals fs), r')" "idle r'"
    using push_all_frames [OF rv1(3) all(1)] by blast
  ultimately show ?thesis
    using recv_packets_locked [OF rv1(1) all(2), where r' = r'] rv1(2,4) by (simp add: Let_def)
qed

text \<open>The NAL units of a sequence of waves, each with its number as the epoch.\<close>

fun wave_nals :: "u32 \<Rightarrow> rtp_packet list list list \<Rightarrow> nal_unit list" where
  "wave_nals e [] = []"
| "wave_nals e (fs # ws) = at_epoch e (concat (map frame_nals fs)) @ wave_nals (e + 1) ws"

fun waves :: "u32 option \<Rightarrow> (u32 \<times> rtp_packet list list) list \<Rightarrow> bool" where
  "waves prev [] = True"
| "waves prev ((s, fs) # ws) \<longleftrightarrow> prev \<noteq> Some s \<and> wave s fs \<and> waves (Some s) ws"

lemma recv_waves:
  "waves (rv_locked rv) ws \<Longrightarrow> rv_locked rv = None \<longrightarrow> idle (rv_reasm rv) \<Longrightarrow>
   rv_buf (fold (recv_packet sink hook) (concat (concat (map snd ws))) rv) =
     fold fb_push (wave_nals (next_epoch rv) (map snd ws)) (rv_buf rv)"
proof (induction ws arbitrary: rv)
  case (Cons w ws)
  obtain s fs where w: "w = (s, fs)" by (cases w)
  define rv1 where "rv1 = fold (recv_packet sink hook) (concat fs) rv"
  have rv1: "rv_locked rv1 = Some s" "rv_epoch rv1 = next_epoch rv" "idle (rv_reasm rv1)"
    "rv_buf rv1 = fold fb_push (at_epoch (next_epoch rv) (concat (map frame_nals fs))) (rv_buf rv)"
    using recv_wave [of s fs rv sink hook] Cons.prems by (auto simp: w rv1_def Let_def)
  have "next_epoch rv1 = next_epoch rv + 1" using rv1(1,2) by (simp add: next_epoch_def)
  then show ?case using Cons.IH [of rv1] Cons.prems rv1 by (simp add: w rv1_def [symmetric])
qed simp

text \<open>
  C27. The receiver delivers what the outdoor station sends and nothing else: when the datagrams that come
  from the expected address and are well formed are the packets of successive waves of frames, each wave
  with an SSRC different from the one before, then the frame buffer receives exactly the NAL units of
  these frames, in order, and those of the n-th wave carry the stream number n, whatever timeouts,
  datagrams of other hosts and malformed datagrams come in between.
\<close>

theorem receiver_delivers_waves:
  assumes "list_all (\<lambda>(stop, ev). \<not> stop \<and> (\<forall>e. ev \<noteq> RecvFatal e)) evs"
    and "waves None ws" "accepted ip evs = concat (concat (map snd ws))"
  shows "\<exists>rv. run_with_conn sink hook ip evs (receiver_new buf x) = (None, rv)
    \<and> rv_buf rv = fold fb_push (wave_nals 0 (map snd ws)) buf"
proof -
  let ?rv = "receiver_new buf x"
  have "rv_locked ?rv = None" "idle (rv_reasm ?rv)" "rv_buf ?rv = buf" "next_epoch ?rv = 0"
    by (simp_all add: receiver_new_def idle_def new_reassembler_def next_epoch_def)
  then show ?thesis
    using run_with_conn_accepted [OF assms(1), of sink hook ip ?rv] recv_waves [of ?rv ws sink hook] assms(2,3)
    by simp
qed

abbreviation wit_datagram :: "byte \<Rightarrow> byte list" where
  "wit_datagram ssrc \<equiv> [0x80, 0xe0, 0, 5, 0, 0, 0, 9, 0, 0, 0, ssrc, 0, 0, 0, 1, 0x65, 7]"

abbreviation wit_packet :: "u32 \<Rightarrow> rtp_packet" where
  "wit_packet ssrc \<equiv>
     \<lparr>rp_marker = True, rp_pt = 0x60, rp_seq = 5, rp_timestamp = 9, rp_ssrc = ssrc, rp_payload = [0, 0, 0, 1, 0x65, 7]\<rparr>"

theorem receiver_delivers_waves_witness:
  "\<exists>rv. run_with_conn (Some (\<lambda>s x. x @ [s])) None ''10.0.0.2''
      [(False, Datagram ''10.0.0.2'' (wit_datagram 1)), (False, Datagram ''10.0.0.3'' (wit_datagram 3)), (False, RecvTimeout),
       (False, Datagram ''10.0.0.2'' [1, 2, 3]), (False, Datagram ''10.0.0.2'' (wit_datagram 2))]
      (receiver_new new_frame_buffer []) = (None, rv)
    \<and> rv_buf rv = fold fb_push (wave_nals 0 [[[wit_packet 1]], [[wit_packet 2]]]) new_frame_buffer"
proof -
  let ?evs = "[(False, Datagram ''10.0.0.2'' (wit_datagram 1)), (False, Datagram ''10.0.0.3'' (wit_datagram 3)), (False, RecvTimeout),
       (False, Datagram ''10.0.0.2'' [1, 2, 3]), (False, Datagram ''10.0.0.2'' (wit_datagram 2))]"
  have p: "parse_rtp (wit_datagram 1) = Ok (wit_packet 1)" "parse_rtp (wit_datagram 2) = Ok (wit_packet 2)"
    "parse_rtp [1, 2, 3] = Err (RtpTooShort 3)"
    by (simp_all add: parse_rtp_def RTP_HEADER_LEN_def u16_from_be_bytes_def u32_from_be_bytes_def Let_def)
  have "whole_frame [wit_packet s]" for s by (simp add: whole_frame_def FRAME_MAX_BYTES_def)
  then have "waves None [(1, [[wit_packet 1]]), (2, [[wit_packet 2]])]" by (simp add: wave_def)
  moreover have "accepted ''10.0.0.2'' ?evs = concat (concat (map snd [(1::u32, [[wit_packet 1]]), (2, [[wit_packet 2]])]))"
    by (simp add: p RECV_BUF_LEN_def)
  ultimately show ?thesis
    using receiver_delivers_waves [of ?evs "[(1, [[wit_packet 1]]), (2, [[wit_packet 2]])]" "''10.0.0.2''"
        "Some (\<lambda>s x. x @ [s])" None new_frame_buffer "[]"]
    by simp
qed

end
