(* ===== verification/Session.thy ===== *)
theory Session
  imports Rtcp Receiver
begin

text \<open>
  \<open>src/video/session.rs\<close>: URIs of the stations, identifiers, and the \<open>Manager\<close> of the single video session.
  Sessions live in a heap (\<open>Arc\<close>), \<open>vm_current\<close> is the slot under the manager's lock.  The operating system
  answers from the oracle of \<open>Preview\<close>, extended by binding the UDP port and reading random bytes.  A
  teardown runs outside the lock, in the thread that took the session out of the slot: it is split into its
  stages, and the step relation of \<open>SessionRace\<close> interleaves the stages of several threads with every
  other operation.  Log lines are left out; waiting only passes time.
\<close>

section \<open>Stations\<close>

datatype parse_error = ParseUri uri_error | ParseBcd bcd_error

record outdoor =
  od_uri :: string
  od_name :: string
  od_ip :: string
  od_port :: u16
  od_bcd_name :: "byte list"

definition addr_rtcp :: "outdoor \<Rightarrow> string" where
  "addr_rtcp o1 = od_ip o1 @ '':6671''"

definition parse_outdoor :: "string \<Rightarrow> parse_error + outdoor" where
  "parse_outdoor uri =
     (case parse_uri uri of
        Err e \<Rightarrow> Err (ParseUri e)
      | Ok (name, ip, port) \<Rightarrow>
          (case encode_bcd name of
             Err e \<Rightarrow> Err (ParseBcd e)
           | Ok bcd \<Rightarrow> Ok \<lparr>od_uri = uri, od_name = name, od_ip = ip, od_port = port, od_bcd_name = bcd\<rparr>))"

record caller =
  ca_name :: string
  ca_bcd_name :: "byte list"

definition parse_caller :: "string \<Rightarrow> parse_error + caller" where
  "parse_caller uri =
     (case parse_uri uri of
        Err e \<Rightarrow> Err (ParseUri e)
      | Ok (name, _, _) \<Rightarrow>
          (case encode_bcd name of
             Err e \<Rightarrow> Err (ParseBcd e)
           | Ok bcd \<Rightarrow> Ok \<lparr>ca_name = name, ca_bcd_name = bcd\<rparr>))"

section \<open>Identifiers\<close>

fun uuid_hex :: "nat \<Rightarrow> byte list \<Rightarrow> string" where
  "uuid_hex i [] = []"
| "uuid_hex i (b # bs) =
     (if i = 4 \<or> i = 6 \<or> i = 8 \<or> i = 10 then ''-'' else []) @ [hex_digit (drop_bit 4 b), hex_digit (b AND 0x0f)]
     @ uuid_hex (i + 1) bs"

definition uuid_of :: "byte list \<Rightarrow> string" where
  "uuid_of b = uuid_hex 0 (b[6 := (b ! 6 AND 0x0f) OR 0x40, 8 := (b ! 8 AND 0x3f) OR 0x80])"

definition is_valid_uuid :: "string \<Rightarrow> bool" where
  "is_valid_uuid s \<longleftrightarrow>
     length s = 36 \<and>
     list_all (\<lambda>(i, c). if i = 8 \<or> i = 13 \<or> i = 18 \<or> i = 23 then c = 0x2d else hex_nibble c \<noteq> None)
       (enumerate 0 (as_bytes s))"

section \<open>Manager\<close>

record reinvite_state =
  ri_last_at :: "nat option"
  ri_packets_at :: u32
  ri_failures :: nat

definition reinvite_default :: reinvite_state where
  "reinvite_default = \<lparr>ri_last_at = None, ri_packets_at = 0, ri_failures = 0\<rparr>"

text \<open>
  A session with the local state of its monitor thread (\<open>se_fired\<close>, \<open>se_next_tick\<close>, \<open>se_rs\<close>) and whether
  its receiver thread still holds the UDP socket.
\<close>

record session =
  se_id :: string
  se_outdoor :: outdoor
  se_ttl_deadline :: nat
  se_reporter_ssrc :: u32
  se_stream_ssrc :: u32
  se_last_rtp_at :: nat
  se_rtp_packets :: u32
  se_buf :: frame_buffer
  se_stop :: bool
  se_fired :: bool
  se_next_tick :: nat
  se_rs :: reinvite_state
  se_socket :: bool

record session_info =
  si_id :: string
  si_outdoor_uri :: string
  si_stream_url :: string
  si_ttl_secs :: nat

datatype start_error =
    Conflict string string
  | Bind string io_err
  | PreviewFailed preview_error
  | Uuid io_err
  | Ssrc io_err

fun start_error_display :: "start_error \<Rightarrow> string" where
  "start_error_display (Conflict active requested) =
     ''video: another outdoor session is active: active='' @ active @ '', requested='' @ requested"
| "start_error_display (Bind addr e) = ''video: rtp bind '' @ addr @ '': '' @ io_err_display e"
| "start_error_display (PreviewFailed e) = ''video: outdoor preview signal failed: '' @ preview_error_display e"
| "start_error_display (Uuid e) = ''video: gen UUID: '' @ io_err_display e"
| "start_error_display (Ssrc e) = ''video: gen SSRC: '' @ io_err_display e"

fun is_conflict :: "start_error \<Rightarrow> bool" where
  "is_conflict (Conflict _ _) = True"
| "is_conflict _ = False"

fun is_preview_timeout :: "start_error \<Rightarrow> bool" where
  "is_preview_timeout (PreviewFailed e) = is_timeout e"
| "is_preview_timeout _ = False"

record mgr_config =
  mc_caller :: caller
  mc_ttl :: nat
  mc_rtp_listen_addr :: string
  mc_ttl_monitor_interval :: nat
  mc_teardown_tail_wait :: nat
  mc_stop_budget :: nat
  mc_ttl_cleanup_budget :: nat
  mc_reinvite_idle :: nat
  mc_reinvite_min_interval :: nat
  mc_reinvite_fail_threshold :: nat
  mc_reinvite_dial_timeout :: nat

definition DEFAULT_SESSION_TTL :: nat where "DEFAULT_SESSION_TTL = secs 60"
definition DEFAULT_RTP_LISTEN_ADDR :: string where "DEFAULT_RTP_LISTEN_ADDR = ''0.0.0.0:9880''"
definition DEFAULT_TTL_MONITOR_INTERVAL :: nat where "DEFAULT_TTL_MONITOR_INTERVAL = secs 1"
definition DEFAULT_TEARDOWN_TAIL_WAIT :: nat where "DEFAULT_TEARDOWN_TAIL_WAIT = ms 50"
definition ROLLBACK_STOP_PREVIEW_TIMEOUT :: nat where "ROLLBACK_STOP_PREVIEW_TIMEOUT = secs 3"
definition DEFAULT_STOP_BUDGET :: nat where "DEFAULT_STOP_BUDGET = secs 8"
definition DEFAULT_TTL_CLEANUP_BUDGET :: nat where "DEFAULT_TTL_CLEANUP_BUDGET = secs 5"
definition DEFAULT_REINVITE_IDLE :: nat where "DEFAULT_REINVITE_IDLE = ms 1000"
definition DEFAULT_REINVITE_MIN_INTERVAL :: nat where "DEFAULT_REINVITE_MIN_INTERVAL = secs 5"
definition DEFAULT_REINVITE_FAIL_THRESHOLD :: nat where "DEFAULT_REINVITE_FAIL_THRESHOLD = 3"
definition DEFAULT_REINVITE_DIAL_TIMEOUT :: nat where "DEFAULT_REINVITE_DIAL_TIMEOUT = secs 2"

definition mgr_config_new :: "caller \<Rightarrow> mgr_config" where
  "mgr_config_new ca = \<lparr>mc_caller = ca, mc_ttl = DEFAULT_SESSION_TTL, mc_rtp_listen_addr = [],
     mc_ttl_monitor_interval = DEFAULT_TTL_MONITOR_INTERVAL, mc_teardown_tail_wait = DEFAULT_TEARDOWN_TAIL_WAIT,
     mc_stop_budget = DEFAULT_STOP_BUDGET, mc_ttl_cleanup_budget = DEFAULT_TTL_CLEANUP_BUDGET,
     mc_reinvite_idle = DEFAULT_REINVITE_IDLE, mc_reinvite_min_interval = DEFAULT_REINVITE_MIN_INTERVAL,
     mc_reinvite_fail_threshold = DEFAULT_REINVITE_FAIL_THRESHOLD,
     mc_reinvite_dial_timeout = DEFAULT_REINVITE_DIAL_TIMEOUT\<rparr>"

text \<open>The accessors \<open>ttl_value\<close>, \<open>monitor_interval\<close>, ...: zero falls back to the default.\<close>

definition or_default :: "nat \<Rightarrow> nat \<Rightarrow> nat" where
  "or_default v d = (if v = 0 then d else v)"

definition ttl_value :: "mgr_config \<Rightarrow> nat" where
  "ttl_value c = or_default (mc_ttl c) DEFAULT_SESSION_TTL"

definition monitor_interval :: "mgr_config \<Rightarrow> nat" where
  "monitor_interval c = or_default (mc_ttl_monitor_interval c) DEFAULT_TTL_MONITOR_INTERVAL"

definition stop_budget_value :: "mgr_config \<Rightarrow> nat" where
  "stop_budget_value c = or_default (mc_stop_budget c) DEFAULT_STOP_BUDGET"

definition ttl_cleanup_budget_value :: "mgr_config \<Rightarrow> nat" where
  "ttl_cleanup_budget_value c = or_default (mc_ttl_cleanup_budget c) DEFAULT_TTL_CLEANUP_BUDGET"

definition reinvite_idle_value :: "mgr_config \<Rightarrow> nat" where
  "reinvite_idle_value c = or_default (mc_reinvite_idle c) DEFAULT_REINVITE_IDLE"

definition reinvite_min_interval_value :: "mgr_config \<Rightarrow> nat" where
  "reinvite_min_interval_value c = or_default (mc_reinvite_min_interval c) DEFAULT_REINVITE_MIN_INTERVAL"

definition reinvite_fail_threshold_value :: "mgr_config \<Rightarrow> nat" where
  "reinvite_fail_threshold_value c = or_default (mc_reinvite_fail_threshold c) DEFAULT_REINVITE_FAIL_THRESHOLD"

definition reinvite_dial_timeout_value :: "mgr_config \<Rightarrow> nat" where
  "reinvite_dial_timeout_value c = or_default (mc_reinvite_dial_timeout c) DEFAULT_REINVITE_DIAL_TIMEOUT"

text \<open>The state: the heap of sessions, the slot, and the cleanup threads that have been spawned.\<close>

record mgr = vnet +
  vm_bind :: "nat \<Rightarrow> io_err option"
  vm_random :: "nat \<Rightarrow> io_err + (nat \<Rightarrow> byte)"
  vm_sessions :: "session list"
  vm_current :: "nat option"
  vm_cleanups :: "nat list"

abbreviation sess :: "mgr \<Rightarrow> nat \<Rightarrow> session" where
  "sess m i \<equiv> vm_sessions m ! i"

definition upd_sess :: "nat \<Rightarrow> (session \<Rightarrow> session) \<Rightarrow> mgr \<Rightarrow> mgr" where
  "upd_sess i f m = m\<lparr>vm_sessions := (vm_sessions m)[i := f (vm_sessions m ! i)]\<rparr>"

definition session_info_of :: "session \<Rightarrow> nat \<Rightarrow> session_info" where
  "session_info_of se ttl =
     \<lparr>si_id = se_id se, si_outdoor_uri = od_uri (se_outdoor se),
      si_stream_url = ''/video/'' @ se_id se @ ''/stream.flv'', si_ttl_secs = ttl div secs 1\<rparr>"

text \<open>\<open>read_random_from\<close> (\<open>read_exact\<close> of \<open>n\<close> bytes), and the loop that draws a non-zero SSRC.\<close>

definition read_random :: "nat \<Rightarrow> mgr \<Rightarrow> (io_err + byte list) \<times> mgr" where
  "read_random n m =
     (case vask vm_random m of (Err e, m') \<Rightarrow> (Err e, m') | (Ok f, m') \<Rightarrow> (Ok (map f [0..<n]), m'))"

partial_function (option) random_ssrc :: "mgr \<Rightarrow> ((io_err + u32) \<times> mgr) option" where
  "random_ssrc m =
     (case read_random 4 m of
        (Err e, m') \<Rightarrow> Some (Err e, m')
      | (Ok b, m') \<Rightarrow>
          let s = u32_from_be_bytes (b ! 0) (b ! 1) (b ! 2) (b ! 3) in
          if s \<noteq> 0 then Some (Ok s, m') else random_ssrc m')"

definition mgr_start_preview :: "mgr_config \<Rightarrow> nat option \<Rightarrow> outdoor \<Rightarrow> mgr \<Rightarrow> (preview_error + unit) \<times> mgr" where
  "mgr_start_preview c tmo o1 m = start_preview tmo (od_ip o1) (od_port o1) (od_bcd_name o1) (ca_bcd_name (mc_caller c)) m"

definition mgr_stop_preview :: "mgr_config \<Rightarrow> nat option \<Rightarrow> outdoor \<Rightarrow> mgr \<Rightarrow> (preview_error + unit) \<times> mgr" where
  "mgr_stop_preview c tmo o1 m = stop_preview tmo (od_ip o1) (od_port o1) (od_bcd_name o1) (ca_bcd_name (mc_caller c)) m"

text \<open>The session that \<open>start\<close> puts into the slot.\<close>

definition new_session :: "mgr_config \<Rightarrow> string \<Rightarrow> outdoor \<Rightarrow> u32 \<Rightarrow> nat \<Rightarrow> nat \<Rightarrow> nat \<Rightarrow> session" where
  "new_session c uuid o1 ssrc t_ttl t_rtp t_tick =
     \<lparr>se_id = uuid, se_outdoor = o1, se_ttl_deadline = t_ttl + ttl_value c, se_reporter_ssrc = ssrc,
      se_stream_ssrc = 0, se_last_rtp_at = t_rtp, se_rtp_packets = 0, se_buf = new_frame_buffer, se_stop = False,
      se_fired = False, se_next_tick = t_tick + monitor_interval c, se_rs = reinvite_default, se_socket = True\<rparr>"

definition mgr_start :: "mgr_config \<Rightarrow> outdoor \<Rightarrow> mgr \<Rightarrow> ((start_error + session_info) \<times> mgr) option" where
  "mgr_start c o1 m =
     (case vm_current m of
        Some i \<Rightarrow>
          if od_uri (se_outdoor (sess m i)) = od_uri o1 then
            if latest_idr (se_buf (sess m i)) \<noteq> None then
              (case vask vn_clock m of (now, m1) \<Rightarrow>
                 Some (Ok (session_info_of (sess m i) (ttl_value c)),
                       upd_sess i (\<lambda>se. se\<lparr>se_ttl_deadline := now + ttl_value c\<rparr>) m1))
            else Some (Ok (session_info_of (sess m i) (ttl_value c)), m)
          else Some (Err (Conflict (od_uri (se_outdoor (sess m i))) (od_uri o1)), m)
      | None \<Rightarrow>
          let rtp_addr = (if mc_rtp_listen_addr c = [] then DEFAULT_RTP_LISTEN_ADDR else mc_rtp_listen_addr c) in
          (case vask vm_bind m of
             (Some e, m1) \<Rightarrow> Some (Err (Bind rtp_addr e), m1)
           | (None, m1) \<Rightarrow>
               (case mgr_start_preview c None o1 m1 of
                  (Err e, m2) \<Rightarrow> Some (Err (PreviewFailed e), m2)
                | (Ok _, m2) \<Rightarrow>
                    (case read_random 16 m2 of
                       (Err e, m3) \<Rightarrow>
                         Some (Err (Uuid e), snd (mgr_stop_preview c (Some ROLLBACK_STOP_PREVIEW_TIMEOUT) o1 m3))
                     | (Ok b, m3) \<Rightarrow>
                         (case random_ssrc m3 of
                            None \<Rightarrow> None
                          | Some (Err e, m4) \<Rightarrow>
                              Some (Err (Ssrc e), snd (mgr_stop_preview c (Some ROLLBACK_STOP_PREVIEW_TIMEOUT) o1 m4))
                          | Some (Ok ssrc, m4) \<Rightarrow>
                              (case vask vn_clock m4 of (t1, m5) \<Rightarrow>
                               case vask vn_clock m5 of (t2, m6) \<Rightarrow>
                               case vask vn_clock m6 of (t3, m7) \<Rightarrow>
                                 let se = new_session c (uuid_of b) o1 ssrc t1 t2 t3 in
                                 Some (Ok (session_info_of se (ttl_value c)),
                                       m7\<lparr>vm_sessions := vm_sessions m7 @ [se],
                                          vm_current := Some (length (vm_sessions m7))\<rparr>)))))))"

section \<open>Teardown\<close>

text \<open>
  The stages of \<open>teardown\<close> in the thread that took session \<open>i\<close> out of the slot: stop signal and farewell,
  within the budget that ends at \<open>deadline\<close>; the stop flag; the close of the frame buffer.
\<close>

definition teardown_wire :: "mgr_config \<Rightarrow> nat \<Rightarrow> nat \<Rightarrow> mgr \<Rightarrow> mgr" where
  "teardown_wire c i deadline m =
     (case vask vn_clock m of (now, m1) \<Rightarrow>
        let remaining = deadline - now;
            m2 = (if remaining = 0 then m1
                  else snd (mgr_stop_preview c
                    (Some (max (min PREVIEW_DIAL_TIMEOUT (remaining div 2)) (ms 1))) (se_outdoor (sess m i)) m1))
        in snd (send_bye (addr_rtcp (se_outdoor (sess m i))) (se_reporter_ssrc (sess m i)) m2))"

definition teardown_stop :: "nat \<Rightarrow> mgr \<Rightarrow> mgr" where
  "teardown_stop i m = upd_sess i (\<lambda>se. se\<lparr>se_stop := True\<rparr>) m"

definition teardown_close :: "nat \<Rightarrow> mgr \<Rightarrow> mgr" where
  "teardown_close i m = upd_sess i (\<lambda>se. se\<lparr>se_buf := close (se_buf se)\<rparr>) m"

definition teardown :: "mgr_config \<Rightarrow> nat \<Rightarrow> nat \<Rightarrow> mgr \<Rightarrow> mgr" where
  "teardown c i deadline m = teardown_close i (teardown_stop i (teardown_wire c i deadline m))"

text \<open>The part of each driver under the lock: whom it takes out of the slot.\<close>

definition take_if :: "(session \<Rightarrow> bool) \<Rightarrow> mgr \<Rightarrow> nat option \<times> mgr" where
  "take_if P m =
     (case vm_current m of
        Some i \<Rightarrow> if P (sess m i) then (Some i, m\<lparr>vm_current := None\<rparr>) else (None, m)
      | None \<Rightarrow> (None, m))"

definition run_teardown :: "mgr_config \<Rightarrow> nat \<Rightarrow> nat option \<times> mgr \<Rightarrow> mgr" where
  "run_teardown c budget r =
     (case r of
        (None, m) \<Rightarrow> m
      | (Some i, m) \<Rightarrow> (case vask vn_clock m of (now, m1) \<Rightarrow> teardown c i (now + budget) m1))"

definition mgr_stop :: "mgr_config \<Rightarrow> string \<Rightarrow> mgr \<Rightarrow> mgr" where
  "mgr_stop c uri m = run_teardown c (stop_budget_value c) (take_if (\<lambda>se. od_uri (se_outdoor se) = uri) m)"

definition mgr_stop_by_id :: "mgr_config \<Rightarrow> string \<Rightarrow> mgr \<Rightarrow> mgr" where
  "mgr_stop_by_id c sid m = run_teardown c (stop_budget_value c) (take_if (\<lambda>se. se_id se = sid) m)"

definition take_same :: "nat \<Rightarrow> mgr \<Rightarrow> nat option \<times> mgr" where
  "take_same i m = (if vm_current m = Some i then (Some i, m\<lparr>vm_current := None\<rparr>) else (None, m))"

definition stop_internal :: "mgr_config \<Rightarrow> nat \<Rightarrow> mgr \<Rightarrow> mgr" where
  "stop_internal c i m = run_teardown c (ttl_cleanup_budget_value c) (take_same i m)"

text \<open>\<open>shutdown\<close>: the session in the slot within the caller's deadline; then the cleanup threads are taken
  from the registry and joined, for as long as the deadline allows.\<close>

definition mgr_shutdown :: "mgr_config \<Rightarrow> nat \<Rightarrow> mgr \<Rightarrow> mgr" where
  "mgr_shutdown c deadline m =
     (case vask vn_clock m of (now, m0) \<Rightarrow>
        (case take_if (\<lambda>_. True) m0 of
           (None, m1) \<Rightarrow> m1\<lparr>vm_cleanups := []\<rparr>
         | (Some i, m1) \<Rightarrow> (teardown c i (now + deadline) m1)\<lparr>vm_cleanups := []\<rparr>))"

section \<open>Lookup and TTL\<close>

definition current_by_id :: "string \<Rightarrow> mgr \<Rightarrow> nat option" where
  "current_by_id sid m =
     (case vm_current m of Some i \<Rightarrow> if se_id (sess m i) = sid then Some i else None | None \<Rightarrow> None)"

definition refresh_ttl :: "mgr_config \<Rightarrow> string \<Rightarrow> mgr \<Rightarrow> bool \<times> mgr" where
  "refresh_ttl c sid m =
     (case current_by_id sid m of
        Some i \<Rightarrow>
          (case vask vn_clock m of (now, m1) \<Rightarrow>
             (True, upd_sess i (\<lambda>se. se\<lparr>se_ttl_deadline := now + ttl_value c\<rparr>) m1))
      | None \<Rightarrow> (False, m))"

definition ttl_remaining :: "string \<Rightarrow> mgr \<Rightarrow> nat option \<times> mgr" where
  "ttl_remaining sid m =
     (case current_by_id sid m of
        Some i \<Rightarrow> (case vask vn_clock m of (now, m1) \<Rightarrow> (Some (se_ttl_deadline (sess m i) - now), m1))
      | None \<Rightarrow> (None, m))"

section \<open>Monitor\<close>

definition register_cleanup :: "nat \<Rightarrow> mgr \<Rightarrow> mgr" where
  "register_cleanup i m = m\<lparr>vm_cleanups := vm_cleanups m @ [i]\<rparr>"

definition set_rs :: "nat \<Rightarrow> reinvite_state \<Rightarrow> mgr \<Rightarrow> mgr" where
  "set_rs i rs m = upd_sess i (\<lambda>se. se\<lparr>se_rs := rs\<rparr>) m"

text \<open>The last part of \<open>tick_reinvite\<close>: the check of the slot and the new invitation.\<close>

definition reinvite :: "mgr_config \<Rightarrow> nat \<Rightarrow> nat \<Rightarrow> reinvite_state \<Rightarrow> mgr \<Rightarrow> mgr" where
  "reinvite c i now rs m =
     (if vm_current m \<noteq> Some i then set_rs i rs m
      else
        let m1 = set_rs i (rs\<lparr>ri_last_at := Some now, ri_packets_at := se_rtp_packets (sess m i)\<rparr>) m;
            m2 = snd (mgr_start_preview c (Some (reinvite_dial_timeout_value c)) (se_outdoor (sess m i)) m1)
        in (case vask vn_clock m2 of (now', m3) \<Rightarrow> upd_sess i (\<lambda>se. se\<lparr>se_last_rtp_at := now'\<rparr>) m3))"

definition tick_reinvite :: "mgr_config \<Rightarrow> nat \<Rightarrow> nat \<Rightarrow> mgr \<Rightarrow> mgr" where
  "tick_reinvite c i now m =
     (let se = sess m i; rs = se_rs se in
      if consumer_count (se_buf se) = 0 then set_rs i reinvite_default m
      else if now - se_last_rtp_at se \<le> reinvite_idle_value c then m
      else
        (case ri_last_at rs of
           None \<Rightarrow> reinvite c i now rs m
         | Some last_at \<Rightarrow>
             if now - last_at < reinvite_min_interval_value c then m
             else if se_rtp_packets se \<noteq> ri_packets_at rs then reinvite c i now (rs\<lparr>ri_failures := 0\<rparr>) m
             else
               let rs' = rs\<lparr>ri_failures := ri_failures rs + 1\<rparr> in
               if ri_failures rs' \<ge> reinvite_fail_threshold_value c then register_cleanup i (set_rs i rs' m)
               else reinvite c i now rs' m))"

text \<open>
  One iteration of the monitor loop while the stop flag is not set; \<open>now\<close> is the clock reading.  With the
  flag set the thread waits for the receiver and the keep-alive sender and ends.
\<close>

definition monitor_iter :: "mgr_config \<Rightarrow> nat \<Rightarrow> mgr \<Rightarrow> mgr" where
  "monitor_iter c i m0 =
     (if se_stop (sess m0 i) then m0
      else
        (case vask vn_clock m0 of (now, m) \<Rightarrow>
           if now < se_next_tick (sess m i) then m
           else
             let m1 = upd_sess i (\<lambda>se. se\<lparr>se_next_tick := now + monitor_interval c\<rparr>) m;
                 expired = (\<not> se_fired (sess m1 i) \<and> now > se_ttl_deadline (sess m1 i));
                 m2 = (if expired then register_cleanup i (upd_sess i (\<lambda>se. se\<lparr>se_fired := True\<rparr>) m1) else m1)
             in if \<not> se_fired (sess m2 i) then tick_reinvite c i now m2 else m2))"

text \<open>The callbacks of the receiver thread, and what it delivers.\<close>

definition on_ssrc :: "nat \<Rightarrow> u32 \<Rightarrow> mgr \<Rightarrow> mgr" where
  "on_ssrc i s m = upd_sess i (\<lambda>se. se\<lparr>se_stream_ssrc := s\<rparr>) m"

definition on_packet :: "nat \<Rightarrow> mgr \<Rightarrow> mgr" where
  "on_packet i m =
     (case vask vn_clock m of (now, m1) \<Rightarrow>
        upd_sess i (\<lambda>se. se\<lparr>se_last_rtp_at := now, se_rtp_packets := se_rtp_packets se + 1\<rparr>) m1)"

definition ssrc_source :: "nat \<Rightarrow> mgr \<Rightarrow> u32 option" where
  "ssrc_source i m = (if se_stream_ssrc (sess m i) = 0 then None else Some (se_stream_ssrc (sess m i)))"

end
