(* ===== verification/Worker.thy ===== *)
theory Worker
  imports WireSender
begin

text \<open>
  \<open>src/daemon.rs\<close>: the job queue and the one thread that owns the wire.  Every frame of an unlock or of a
  hang-up is sent by \<open>run_worker\<close>, which takes the jobs one after another; a caller waits for the answer
  of its job on a channel of its own.  The detached push threads and their tracker are here too.

  Channels: the queue is the list of the jobs sent and not yet taken, a reply channel is a number that is
  fresh when the channel is made, and what was sent into reply channels is a list.
\<close>

section \<open>Jobs\<close>

record unlock_job =
  uj_caller :: "byte list"
  uj_callee :: "byte list"
  uj_ip :: string
  uj_port :: u16
  uj_reply :: nat
  uj_per_attempt :: "nat option"
  uj_interval :: nat

record hangup_job =
  hj_outdoor :: "byte list"
  hj_monitor :: "byte list"
  hj_ip :: string
  hj_port :: u16

datatype job = JUnlock unlock_job | JHangup hangup_job | JShutdown

section \<open>The worker thread\<close>

record worker_deps =
  wd_sender :: sender
  wd_listening :: bool
  wd_hangup :: "sender option"

definition worker_deps_new :: "sender \<Rightarrow> bool \<Rightarrow> worker_deps" where
  "worker_deps_new wire listener = \<lparr>wd_sender = wire, wd_listening = listener, wd_hangup = None\<rparr>"

definition with_hangup_wire :: "sender \<Rightarrow> worker_deps \<Rightarrow> worker_deps" where
  "with_hangup_wire hw deps = deps\<lparr>wd_hangup := Some hw\<rparr>"

record worker =
  wk_world :: world
  wk_replies :: "(nat \<times> unlock_outcome) list"
  wk_lines :: "string list"

definition send_fire_and_forget ::
  "sender \<Rightarrow> string \<Rightarrow> u16 \<Rightarrow> byte list \<Rightarrow> world \<Rightarrow> (string + unit) \<times> world" where
  "send_fire_and_forget sn ip port frame w =
     (case send_context sn ip port frame False w of
        (Err e, w') \<Rightarrow> (Err (wire_error_display e), w')
      | (Ok _, w') \<Rightarrow> (Ok (), w'))"

definition execute_unlock_job :: "worker_deps \<Rightarrow> unlock_job \<Rightarrow> world \<Rightarrow> unlock_outcome \<times> world" where
  "execute_unlock_job deps j =
     execute_unlock (wire_env (wd_sender deps) (wd_listening deps) (uj_caller j) (uj_callee j) (uj_ip j) (uj_port j))
       (uj_per_attempt j) (uj_interval j)"

text \<open>The two working branches of the loop of \<open>run_worker\<close>, and the loop over the jobs the queue yields.\<close>

definition work_unlock :: "worker_deps \<Rightarrow> unlock_job \<Rightarrow> worker \<Rightarrow> worker" where
  "work_unlock deps j wk =
     (case execute_unlock_job deps j ((wk_world wk)\<lparr>w_deadline := instant_deadline_new UNLOCK_TOTAL_CAP\<rparr>) of
        (outcome, w) \<Rightarrow> wk\<lparr>wk_world := w, wk_replies := wk_replies wk @ [(uj_reply j, outcome)]\<rparr>)"

definition work_hangup :: "worker_deps \<Rightarrow> hangup_job \<Rightarrow> worker \<Rightarrow> worker" where
  "work_hangup deps j wk =
     (let frame = build_stop_frame (hj_outdoor j) (hj_monitor j) in
      case wd_hangup deps of
        Some hw \<Rightarrow>
          (case send_fire_and_forget hw (hj_ip j) (hj_port j) frame (wk_world wk) of
             (Err e, w) \<Rightarrow>
               wk\<lparr>wk_world := w,
                  wk_lines := wk_lines wk @ [''auto-hangup (req=708 -> '' @ hj_ip j @ ''): '' @ e]\<rparr>
           | (Ok _, w) \<Rightarrow> wk\<lparr>wk_world := w\<rparr>)
      | None \<Rightarrow>
          wk\<lparr>wk_lines := wk_lines wk @ [''auto-hangup skipped (no hangup wire injected, -> '' @ hj_ip j @ '')'']\<rparr>)"

fun run_worker :: "worker_deps \<Rightarrow> job list \<Rightarrow> worker \<Rightarrow> worker" where
  "run_worker deps [] wk = wk"
| "run_worker deps (JShutdown # jobs) wk = wk"
| "run_worker deps (JUnlock j # jobs) wk = run_worker deps jobs (work_unlock deps j wk)"
| "run_worker deps (JHangup j # jobs) wk = run_worker deps jobs (work_hangup deps j wk)"

section \<open>The queue\<close>

text \<open>
  The queue with its worker.  When the worker has left its loop the receiver is gone: the jobs in the
  queue are dropped with their reply senders, and a further send fails.
\<close>

record worker_sys =
  sy_queue :: "job list"
  sy_alive :: bool
  sy_next :: nat
  sy_worker :: worker

definition submit_job :: "job \<Rightarrow> worker_sys \<Rightarrow> (string + unit) \<times> worker_sys" where
  "submit_job j sys =
     (if sy_alive sys then (Ok (), sys\<lparr>sy_queue := sy_queue sys @ [j]\<rparr>) else (Err ''worker queue closed'', sys))"

definition reply_channel :: "worker_sys \<Rightarrow> nat \<times> worker_sys" where
  "reply_channel sys = (sy_next sys, sys\<lparr>sy_next := sy_next sys + 1\<rparr>)"

text \<open>One round of the loop \<open>for job in rx\<close>.\<close>

definition worker_round :: "worker_deps \<Rightarrow> worker_sys \<Rightarrow> worker_sys" where
  "worker_round deps sys =
     (case sy_queue sys of
        [] \<Rightarrow> sys
      | JShutdown # _ \<Rightarrow> sys\<lparr>sy_queue := [], sy_alive := False\<rparr>
      | job # jobs \<Rightarrow> sys\<lparr>sy_queue := jobs, sy_worker := run_worker deps [job] (sy_worker sys)\<rparr>)"

text \<open>
  The receiver of a reply channel while the worker goes on: the reply when there is one, \<open>Some None\<close>
  (a \<open>RecvError\<close>) when no sender is left, and \<open>None\<close> for a wait that nothing would end.
\<close>

function recv_reply :: "worker_deps \<Rightarrow> nat \<Rightarrow> worker_sys \<Rightarrow> unlock_outcome option option \<times> worker_sys" where
  "recv_reply deps n sys =
     (case map_of (wk_replies (sy_worker sys)) n of
        Some out \<Rightarrow> (Some (Some out), sys)
      | None \<Rightarrow>
          if \<not> sy_alive sys then (Some None, sys)
          else if sy_queue sys = [] then (None, sys)
          else recv_reply deps n (worker_round deps sys))"
  by pat_completeness auto
termination
  by (relation "measure (\<lambda>(_, _, sys). length (sy_queue sys))")
    (auto simp: worker_round_def split: list.splits job.splits)

declare recv_reply.simps [simp del]

section \<open>Push threads\<close>

text \<open>
  \<open>PushTracker\<close>: the handles of the threads not yet reaped; \<open>finished\<close> is what \<open>is_finished\<close> answers at
  the call.
\<close>

definition tracker_register :: "(nat \<Rightarrow> bool) \<Rightarrow> nat \<Rightarrow> nat list \<Rightarrow> nat list" where
  "tracker_register finished h hs = filter (\<lambda>x. \<not> finished x) hs @ [h]"

definition join_all :: "nat list \<Rightarrow> nat list \<times> nat list" where
  "join_all hs = (hs, [])"

text \<open>
  The body of the thread of \<open>spawn_push\<close>: the event and the fields handed to \<open>client.push\<close>, nothing when
  the shutdown flag is set.  The fields are collected into an ordered map, the last value of a name wins.
\<close>

type_synonym push = "string \<times> (string \<rightharpoonup> string)"

definition spawn_push :: "bool \<Rightarrow> string \<Rightarrow> (string \<times> string) list \<Rightarrow> push option" where
  "spawn_push shutdown event kvs = (if shutdown then None else Some (event, map_of (rev kvs)))"

text \<open>The thread of \<open>spawn_diagnosis_push\<close>: rounds of the flag and the clock, then the flag once more.\<close>

fun settle_loop :: "nat \<Rightarrow> (bool \<times> nat) list \<Rightarrow> bool option" where
  "settle_loop deadline [] = None"
| "settle_loop deadline ((shutdown, now) # rounds) =
     (if shutdown then Some False else if now \<ge> deadline then Some True else settle_loop deadline rounds)"

definition spawn_diagnosis_push :: "nat \<Rightarrow> nat \<Rightarrow> (bool \<times> nat) list \<Rightarrow> bool \<Rightarrow> bool option" where
  "spawn_diagnosis_push start settle rounds shutdown =
     (case settle_loop (start + settle) rounds of
        None \<Rightarrow> None
      | Some False \<Rightarrow> Some False
      | Some True \<Rightarrow> Some (\<not> shutdown))"

section \<open>One job after another\<close>

text \<open>What one job does: the events it puts on the wire and the answer it gives.\<close>

fun job_run :: "worker_deps \<Rightarrow> job \<times> net_event list \<times> unlock_outcome option \<Rightarrow> bool" where
  "job_run deps (JUnlock j, ev, Some u) \<longleftrightarrow>
     unlock_segment (uj_caller j) (uj_callee j) (uj_ip j) (uj_port j) (uo_result u) ev"
| "job_run deps (JHangup j, ev, None) \<longleftrightarrow>
     ev = [] \<or> wd_hangup deps \<noteq> None \<and> ev = [Sent (hj_ip j) (hj_port j) (build_stop_frame (hj_outdoor j) (hj_monitor j))]"
| "job_run deps _ \<longleftrightarrow> False"

fun job_reply :: "job \<times> net_event list \<times> unlock_outcome option \<Rightarrow> (nat \<times> unlock_outcome) list" where
  "job_reply (JUnlock j, ev, Some u) = [(uj_reply j, u)]"
| "job_reply _ = []"

lemma work_unlock_run:
  "\<exists>ev u. job_run deps (JUnlock j, ev, Some u)
     \<and> w_log (wk_world (work_unlock deps j wk)) = w_log (wk_world wk) @ ev
     \<and> wk_replies (work_unlock deps j wk) = wk_replies wk @ [(uj_reply j, u)]"
  using execute_unlock_segment [where sn = "wd_sender deps" and listening = "wd_listening deps"
      and caller = "uj_caller j" and callee = "uj_callee j" and ip = "uj_ip j" and port = "uj_port j"
      and per_attempt = "uj_per_attempt j" and interval = "uj_interval j"
      and w = "(wk_world wk)\<lparr>w_deadline := instant_deadline_new UNLOCK_TOTAL_CAP\<rparr>"]
  by (auto simp: work_unlock_def execute_unlock_job_def split: prod.splits)

lemma work_hangup_run:
  "\<exists>ev. job_run deps (JHangup j, ev, None)
     \<and> w_log (wk_world (work_hangup deps j wk)) = w_log (wk_world wk) @ ev
     \<and> wk_replies (work_hangup deps j wk) = wk_replies wk"
  by (auto simp: work_hangup_def send_fire_and_forget_def Let_def split: option.splits prod.splits sum.splits
      dest!: send_only_log)

text \<open>
  C3. The worker serialises the wire: it performs the jobs of the queue in their order up to the first
  shutdown marker and nothing after it; the log of the wire is the concatenation of one segment per
  job, an unlock's segment being that of a complete unlock run (first-stage frames, at most one door
  command, no other frame in between) and a hang-up's at most its own stop frame; each unlock job gets
  exactly one answer, on its own channel, whose result is zero exactly when its segment ends in a
  confirmed door command.
\<close>

theorem worker_serialises_wire:
  "\<exists>runs. map fst runs = takeWhile (\<lambda>j. j \<noteq> JShutdown) jobs \<and> list_all (job_run deps) runs
     \<and> w_log (wk_world (run_worker deps jobs wk)) = w_log (wk_world wk) @ concat (map (\<lambda>r. fst (snd r)) runs)
     \<and> wk_replies (run_worker deps jobs wk) = wk_replies wk @ concat (map job_reply runs)"
proof (induction deps jobs wk rule: run_worker.induct)
  case (3 deps j jobs wk)
  then obtain runs where IH: "map fst runs = takeWhile (\<lambda>j. j \<noteq> JShutdown) jobs" "list_all (job_run deps) runs"
    "w_log (wk_world (run_worker deps jobs (work_unlock deps j wk)))
       = w_log (wk_world (work_unlock deps j wk)) @ concat (map (\<lambda>r. fst (snd r)) runs)"
    "wk_replies (run_worker deps jobs (work_unlock deps j wk))
       = wk_replies (work_unlock deps j wk) @ concat (map job_reply runs)" by auto
  obtain ev u where "job_run deps (JUnlock j, ev, Some u)"
    "w_log (wk_world (work_unlock deps j wk)) = w_log (wk_world wk) @ ev"
    "wk_replies (work_unlock deps j wk) = wk_replies wk @ [(uj_reply j, u)]" using work_unlock_run by blast
  with IH show ?case by (intro exI [of _ "(JUnlock j, ev, Some u) # runs"]) simp
next
  case (4 deps j jobs wk)
  then obtain runs where IH: "map fst runs = takeWhile (\<lambda>j. j \<noteq> JShutdown) jobs" "list_all (job_run deps) runs"
    "w_log (wk_world (run_worker deps jobs (work_hangup deps j wk)))
       = w_log (wk_world (work_hangup deps j wk)) @ concat (map (\<lambda>r. fst (snd r)) runs)"
    "wk_replies (run_worker deps jobs (work_hangup deps j wk))
       = wk_replies (work_hangup deps j wk) @ concat (map job_reply runs)" by auto
  obtain ev where "job_run deps (JHangup j, ev, None)"
    "w_log (wk_world (work_hangup deps j wk)) = w_log (wk_world wk) @ ev"
    "wk_replies (work_hangup deps j wk) = wk_replies wk" using work_hangup_run by blast
  with IH show ?case by (intro exI [of _ "(JHangup j, ev, None) # runs"]) simp
qed simp_all

section \<open>Waiting for an answer\<close>

text \<open>The reply channels in use were handed out before.\<close>

definition job_reply_below :: "nat \<Rightarrow> job \<Rightarrow> bool" where
  "job_reply_below n j \<longleftrightarrow> (case j of JUnlock u \<Rightarrow> uj_reply u < n | _ \<Rightarrow> True)"

definition sys_wf :: "worker_sys \<Rightarrow> bool" where
  "sys_wf sys \<longleftrightarrow> list_all (job_reply_below (sy_next sys)) (sy_queue sys)
     \<and> list_all (\<lambda>r. fst r < sy_next sys) (wk_replies (sy_worker sys)) \<and> (sy_alive sys \<or> sy_queue sys = [])"

lemma run_worker_append:
  "JShutdown \<notin> set q \<Longrightarrow> run_worker deps (q @ q') wk = run_worker deps q' (run_worker deps q wk)"
  by (induction deps q wk rule: run_worker.induct) auto

lemma worker_round_cons:
  "sy_queue sys = j # q \<Longrightarrow> j \<noteq> JShutdown \<Longrightarrow>
     worker_round deps sys = sys\<lparr>sy_queue := q, sy_worker := run_worker deps [j] (sy_worker sys)\<rparr>"
  by (auto simp: worker_round_def split: job.split)

lemma map_of_all_below: "list_all (\<lambda>r. fst r < n) rs \<Longrightarrow> n \<le> (m :: nat) \<Longrightarrow> map_of rs m = None"
  by (induction rs) auto

lemma run_one_replies:
  "job_reply_below n j \<Longrightarrow> list_all (\<lambda>r. fst r < n) (wk_replies wk) \<Longrightarrow>
     list_all (\<lambda>r. fst r < n) (wk_replies (run_worker deps [j] wk))"
proof (cases j)
  case (JUnlock u)
  then show "job_reply_below n j \<Longrightarrow> list_all (\<lambda>r. fst r < n) (wk_replies wk) \<Longrightarrow> ?thesis"
    using work_unlock_run [of deps u wk] by (auto simp: job_reply_below_def)
next
  case (JHangup h)
  then show "job_reply_below n j \<Longrightarrow> list_all (\<lambda>r. fst r < n) (wk_replies wk) \<Longrightarrow> ?thesis"
    using work_hangup_run [of deps h wk] by auto
qed simp

lemma recv_reply_queue:
  assumes "sy_queue sys = q @ JUnlock j # q'" "sy_alive sys" "list_all (job_reply_below (uj_reply j)) q"
    "list_all (\<lambda>r. fst r < uj_reply j) (wk_replies (sy_worker sys))"
  shows "recv_reply deps (uj_reply j) sys =
     (if JShutdown \<in> set q
      then (Some None, sys\<lparr>sy_queue := [], sy_alive := False,
              sy_worker := run_worker deps q (sy_worker sys)\<rparr>)
      else let wk = run_worker deps q (sy_worker sys) in
        (Some (Some (fst (execute_unlock_job deps j
                 ((wk_world wk)\<lparr>w_deadline := instant_deadline_new UNLOCK_TOTAL_CAP\<rparr>)))),
         sys\<lparr>sy_queue := q', sy_worker := work_unlock deps j wk\<rparr>))"
  using assms
proof (induction q arbitrary: sys)
  case Nil
  let ?wk = "work_unlock deps j (sy_worker sys)"
  have m: "map_of (wk_replies (sy_worker sys)) (uj_reply j) = None" using Nil(4) map_of_all_below by blast
  have r: "map_of (wk_replies ?wk) (uj_reply j)
      = Some (fst (execute_unlock_job deps j
           ((wk_world (sy_worker sys))\<lparr>w_deadline := instant_deadline_new UNLOCK_TOTAL_CAP\<rparr>)))"
    using m by (simp add: work_unlock_def case_prod_unfold map_add_def)
  have "recv_reply deps (uj_reply j) sys = recv_reply deps (uj_reply j) (sys\<lparr>sy_queue := q', sy_worker := ?wk\<rparr>)"
    using m Nil(1,2) by (subst recv_reply.simps) (simp add: worker_round_cons)
  then show ?case using r by (subst (asm) (2) recv_reply.simps) (simp add: Let_def)
next
  case (Cons k q)
  have m: "map_of (wk_replies (sy_worker sys)) (uj_reply j) = None" using Cons(5) map_of_all_below by blast
  show ?case
  proof (cases "k = JShutdown")
    case True
    have "worker_round deps sys = sys\<lparr>sy_queue := [], sy_alive := False\<rparr>"
      using Cons(2) True by (simp add: worker_round_def)
    then have "recv_reply deps (uj_reply j) sys = recv_reply deps (uj_reply j) (sys\<lparr>sy_queue := [], sy_alive := False\<rparr>)"
      using m Cons(2,3) by (subst recv_reply.simps) simp
    then show ?thesis using m True by (subst (asm) (2) recv_reply.simps) simp
  next
    case False
    let ?sys = "sys\<lparr>sy_queue := q @ JUnlock j # q', sy_worker := run_worker deps [k] (sy_worker sys)\<rparr>"
    have "recv_reply deps (uj_reply j) sys = recv_reply deps (uj_reply j) ?sys"
      using m Cons(2,3) False by (subst recv_reply.simps) (simp add: worker_round_cons)
    moreover have "list_all (\<lambda>r. fst r < uj_reply j) (wk_replies (sy_worker ?sys))"
      using run_one_replies Cons(4,5) by simp
    ultimately show ?thesis
      using Cons.IH [of ?sys] Cons(3,4) False run_worker_append [of "[k]" deps q]
      by (auto simp: Let_def)
  qed
qed

lemma run_worker_replies:
  "list_all (job_reply_below n) q \<Longrightarrow> list_all (\<lambda>r. fst r < n) (wk_replies wk) \<Longrightarrow>
     list_all (\<lambda>r. fst r < n) (wk_replies (run_worker deps q wk))"
proof (induction q arbitrary: wk)
  case (Cons j q)
  show ?case
  proof (cases "j = JShutdown")
    case False
    then have "run_worker deps (j # q) wk = run_worker deps q (run_worker deps [j] wk)"
      using run_worker_append [of "[j]" deps q wk] by simp
    then show ?thesis using Cons run_one_replies [of n j wk deps] by simp
  qed (use Cons in simp)
qed simp

lemma below_mono: "list_all (\<lambda>r. fst r < n) rs \<Longrightarrow> n \<le> m \<Longrightarrow> list_all (\<lambda>r. fst r < (m :: nat)) rs"
  by (auto simp: list_all_iff)

text \<open>The answer to a job put at the end of the queue with a fresh reply channel.\<close>

lemma recv_fresh:
  assumes "sys_wf sys" "sy_alive sys" "uj_reply j = sy_next sys"
    "sys2 = sys\<lparr>sy_next := sy_next sys + 1, sy_queue := sy_queue sys @ [JUnlock j]\<rparr>"
  shows "\<exists>sys3. recv_reply deps (uj_reply j) sys2 =
     (Some (if JShutdown \<in> set (sy_queue sys) then None
            else Some (fst (execute_unlock_job deps j
              ((wk_world (run_worker deps (sy_queue sys) (sy_worker sys)))\<lparr>w_deadline := instant_deadline_new UNLOCK_TOTAL_CAP\<rparr>)))),
      sys3) \<and> sys_wf sys3"
proof -
  let ?wk = "run_worker deps (sy_queue sys) (sy_worker sys)"
  have q: "sy_queue sys2 = sy_queue sys @ JUnlock j # []" "sy_alive sys2"
    "list_all (job_reply_below (uj_reply j)) (sy_queue sys)" "list_all (\<lambda>r. fst r < uj_reply j) (wk_replies (sy_worker sys2))"
    using assms by (simp_all add: sys_wf_def)
  have r: "list_all (\<lambda>r. fst r < sy_next sys) (wk_replies ?wk)"
    using run_worker_replies assms(1) by (simp add: sys_wf_def)
  have "list_all (\<lambda>r. fst r < sy_next sys + 1) (wk_replies (work_unlock deps j ?wk))"
    using below_mono [OF r, of "sy_next sys + 1"] assms(3) by (simp add: work_unlock_def case_prod_unfold)
  then show ?thesis
    using recv_reply_queue [OF q, of deps] below_mono [OF r, of "sy_next sys + 1"] assms(2,4)
    by (simp add: sys_wf_def Let_def)
qed

end
