(* ===== verification/Dedup.thy ===== *)
theory Dedup
  imports Prelude
begin

unbundle bit_operations_syntax

text \<open>
  The duplicate filter of \<open>src/listen6672.rs\<close> and \<open>src/listen18022.rs\<close>, which carry the same code: a ring
  buffer of 64 entries, and the key of a frame.  The ring refines a bounded list of the frames recorded
  last; the laws of that list are the interface the listeners rest on.  Times are in milliseconds.
\<close>

section \<open>Ring buffer\<close>

definition DEDUP_CAPACITY :: nat where "DEDUP_CAPACITY = 64"
definition DEDUP_WINDOW_MS :: nat where "DEDUP_WINDOW_MS = 200"

record dedup_entry =
  de_key :: u64
  de_ts_ms :: nat
  de_set :: bool

record dedup =
  dd_entries :: "dedup_entry list"
  dd_head :: nat

definition dedup_new :: dedup where
  "dedup_new = \<lparr>dd_entries = replicate DEDUP_CAPACITY \<lparr>de_key = 0, de_ts_ms = 0, de_set = False\<rparr>, dd_head = 0\<rparr>"

definition seen :: "u64 \<Rightarrow> nat \<Rightarrow> dedup \<Rightarrow> bool \<times> dedup" where
  "seen key now_ms d =
     (let cutoff = now_ms - DEDUP_WINDOW_MS in
      if list_ex (\<lambda>e. de_set e \<and> de_key e = key \<and> de_ts_ms e \<ge> cutoff) (dd_entries d) then (True, d)
      else (False, d\<lparr>dd_entries := (dd_entries d)[dd_head d := \<lparr>de_key = key, de_ts_ms = now_ms, de_set = True\<rparr>],
                     dd_head := (dd_head d + 1) mod DEDUP_CAPACITY\<rparr>))"

section \<open>Keys\<close>

definition FNV_OFFSET :: u64 where "FNV_OFFSET = 0xcbf29ce484222325"
definition FNV_PRIME :: u64 where "FNV_PRIME = 0x100000001b3"

definition fnv1a_64 :: "byte list \<Rightarrow> u64" where
  "fnv1a_64 data = foldl (\<lambda>h b. (h XOR ucast b) * FNV_PRIME) FNV_OFFSET data"

text \<open>The key with the number of hashed bytes, which is all the two listeners differ in.\<close>

definition dedup_key_of :: "nat \<Rightarrow> byte list \<Rightarrow> u16 \<Rightarrow> byte list \<Rightarrow> u64" where
  "dedup_key_of limit src_ip src_port payload =
     (let n = min (length payload) limit;
          hash = fnv1a_64 (take n payload);
          ip_bits = ucast (u32_from_be_bytes (src_ip ! 0) (src_ip ! 1) (src_ip ! 2) (src_ip ! 3)) :: u64
      in hash XOR ip_bits XOR push_bit 32 (ucast src_port))"

section \<open>Specification\<close>

text \<open>
  The frames recorded last, newest first, at most \<open>cap\<close>: a key is a duplicate if it was recorded within
  the window, and only other keys are recorded.
\<close>

definition recent_seen :: "nat \<Rightarrow> nat \<Rightarrow> 'k \<Rightarrow> nat \<Rightarrow> ('k \<times> nat) list \<Rightarrow> bool \<times> ('k \<times> nat) list" where
  "recent_seen cap win key now xs =
     (if \<exists>t. (key, t) \<in> set xs \<and> now - win \<le> t then (True, xs) else (False, take cap ((key, now) # xs)))"

text \<open>What a filter lets through of a sequence of arrivals.\<close>

fun pass_all :: "('k \<Rightarrow> nat \<Rightarrow> 'd \<Rightarrow> bool \<times> 'd) \<Rightarrow> ('k \<times> nat \<times> 'a) list \<Rightarrow> 'd \<Rightarrow> 'a list \<times> 'd" where
  "pass_all f [] d = ([], d)"
| "pass_all f ((k, now, a) # r) d =
     (case f k now d of
        (True, d') \<Rightarrow> pass_all f r d'
      | (False, d') \<Rightarrow> (case pass_all f r d' of (out, d'') \<Rightarrow> (a # out, d'')))"

text \<open>The first arrival of each key.\<close>

fun firsts :: "'k set \<Rightarrow> ('k \<times> nat \<times> 'a) list \<Rightarrow> 'a list" where
  "firsts K [] = []"
| "firsts K ((k, now, a) # r) = (if k \<in> K then firsts K r else a # firsts (insert k K) r)"

locale recent_filter =
  fixes sn :: "'k \<Rightarrow> nat \<Rightarrow> 'd \<Rightarrow> bool \<times> 'd"
    and R :: "'d \<Rightarrow> ('k \<times> nat) list \<Rightarrow> bool"
    and cap win :: nat
  assumes refines: "R d xs \<Longrightarrow> sn k now d = (b, d') \<Longrightarrow>
    fst (recent_seen cap win k now xs) = b \<and> R d' (snd (recent_seen cap win k now xs))"
begin

lemma pass_all_refines:
  "R d xs \<Longrightarrow> fst (pass_all sn items d) = fst (pass_all (recent_seen cap win) items xs)"
proof (induction items arbitrary: d xs)
  case (Cons x items)
  obtain k now a where x: "x = (k, now, a)" by (cases x) auto
  obtain b d' where s: "sn k now d = (b, d')" by fastforce
  obtain b' xs' where s': "recent_seen cap win k now xs = (b', xs')" by fastforce
  have "b' = b" "R d' xs'" using refines [OF Cons.prems s] s' by simp_all
  with Cons.IH [of d' xs'] s s' show ?case by (cases b) (simp_all add: x case_prod_unfold)
qed simp

text \<open>Within one window every key passes once, as long as the list holds the keys of the burst.\<close>

lemma burst_recent:
  assumes "\<forall>(k, t) \<in> set xs. t0 \<le> t" "\<forall>(k, t, a) \<in> set items. t0 \<le> t \<and> t \<le> t0 + win"
    and "distinct (map fst xs)" "card (fst ` set xs \<union> fst ` set items) \<le> cap"
  shows "fst (pass_all (recent_seen cap win) items xs) = firsts (fst ` set xs) items"
  using assms
proof (induction items arbitrary: xs)
  case (Cons x items)
  obtain k now a where x: "x = (k, now, a)" by (cases x) auto
  have fin: "finite (fst ` set xs \<union> fst ` set (x # items))" by simp
  show ?case
  proof (cases "k \<in> fst ` set xs")
    case True
    then obtain t where t: "(k, t) \<in> set xs" by auto
    then have "t0 \<le> t" using Cons.prems(1) by auto
    moreover have "now \<le> t0 + win" using Cons.prems(2) by (auto simp: x)
    ultimately have "recent_seen cap win k now xs = (True, xs)"
      using t unfolding recent_seen_def by (meson diff_le_mono diff_add_inverse2 le_trans le_diff_conv)
    moreover have "fst ` set xs \<union> fst ` set (x # items) = fst ` set xs \<union> fst ` set items" using True by (auto simp: x)
    ultimately show ?thesis using Cons True by (simp add: x)
  next
    case False
    have "Suc (length xs) = card (fst ` set ((k, now) # xs))"
      using False Cons.prems(3) distinct_card [of "map fst xs"] by (simp add: image_iff card_insert_if)
    also have "\<dots> \<le> card (fst ` set xs \<union> fst ` set (x # items))" by (rule card_mono [OF fin]) (auto simp: x)
    finally have len: "Suc (length xs) \<le> cap" using Cons.prems(4) by simp
    have "\<nexists>t. (k, t) \<in> set xs \<and> now - win \<le> t" using False by force
    then have s: "recent_seen cap win k now xs = (False, (k, now) # xs)" using len by (simp add: recent_seen_def)
    have "fst ` set xs \<union> fst ` set (x # items) = fst ` set ((k, now) # xs) \<union> fst ` set items" by (auto simp: x)
    then have "fst (pass_all (recent_seen cap win) items ((k, now) # xs)) = firsts (fst ` set ((k, now) # xs)) items"
      using Cons.prems False by (intro Cons.IH) (auto simp: x)
    then show ?thesis using s False by (simp add: x case_prod_unfold)
  qed
qed simp

lemma burst:
  assumes "R d []" "\<forall>(k, t, a) \<in> set items. t0 \<le> t \<and> t \<le> t0 + win" "card (fst ` set items) \<le> cap"
  shows "fst (pass_all sn items d) = firsts {} items"
  using pass_all_refines [OF assms(1), of items] burst_recent [of "[]" t0 items] assms(2,3) by simp

end

section \<open>The ring buffer refines the list\<close>

definition mk_entry :: "u64 \<times> nat \<Rightarrow> dedup_entry" where
  "mk_entry x = \<lparr>de_key = fst x, de_ts_ms = snd x, de_set = True\<rparr>"

abbreviation empty_entry :: dedup_entry where
  "empty_entry \<equiv> \<lparr>de_key = 0, de_ts_ms = 0, de_set = False\<rparr>"

definition newest_first :: "dedup \<Rightarrow> dedup_entry list" where
  "newest_first d = rev (rotate (dd_head d) (dd_entries d))"

definition dedup_rel :: "dedup \<Rightarrow> (u64 \<times> nat) list \<Rightarrow> bool" where
  "dedup_rel d xs \<longleftrightarrow>
     length (dd_entries d) = DEDUP_CAPACITY \<and> dd_head d < DEDUP_CAPACITY \<and> length xs \<le> DEDUP_CAPACITY
   \<and> newest_first d = map mk_entry xs @ replicate (DEDUP_CAPACITY - length xs) empty_entry"

lemma dedup_rel_new: "dedup_rel dedup_new []"
  by (simp add: dedup_rel_def dedup_new_def newest_first_def rotate_def DEDUP_CAPACITY_def)

lemma newest_first_write:
  assumes "length (dd_entries d) = n" "dd_head d < n"
  shows "newest_first (d\<lparr>dd_entries := (dd_entries d)[dd_head d := e], dd_head := (dd_head d + 1) mod n\<rparr>)
    = e # butlast (newest_first d)"
proof -
  let ?h = "dd_head d" and ?es = "dd_entries d"
  have rot: "rotate ?h xs = xs ! ?h # drop (Suc ?h) xs @ take ?h xs" if "length xs = n" for xs :: "dedup_entry list"
    using that assms(2) by (simp add: rotate_drop_take Cons_nth_drop_Suc)
  have "rotate ((?h + 1) mod n) (?es[?h := e]) = rotate1 (rotate ?h (?es[?h := e]))"
    using rotate_conv_mod [of "?h + 1" "?es[?h := e]"] assms(1) by (simp add: rotate_Suc)
  then show ?thesis using rot [of ?es] rot [of "?es[?h := e]"] assms by (simp add: newest_first_def butlast_append)
qed

lemma set_newest_first: "set (newest_first d) = set (dd_entries d)"
  by (simp add: newest_first_def)

lemma seen_refines:
  assumes rel: "dedup_rel d xs" and s: "seen k now d = (b, d')"
  shows "fst (recent_seen DEDUP_CAPACITY DEDUP_WINDOW_MS k now xs) = b
    \<and> dedup_rel d' (snd (recent_seen DEDUP_CAPACITY DEDUP_WINDOW_MS k now xs))"
proof -
  have es: "set (dd_entries d) = set (map mk_entry xs @ replicate (DEDUP_CAPACITY - length xs) empty_entry)"
    using rel set_newest_first [of d] by (simp add: dedup_rel_def)
  have hit: "list_ex (\<lambda>e. de_set e \<and> de_key e = k \<and> now - DEDUP_WINDOW_MS \<le> de_ts_ms e) (dd_entries d)
      \<longleftrightarrow> (\<exists>t. (k, t) \<in> set xs \<and> now - DEDUP_WINDOW_MS \<le> t)" (is "?hit \<longleftrightarrow> ?mem")
    unfolding list_ex_iff es by (auto simp: mk_entry_def bex_Un image_iff) force
  show ?thesis
  proof (cases ?mem)
    case True
    then show ?thesis using hit s rel by (auto simp: seen_def recent_seen_def Let_def)
  next
    case False
    let ?e = "\<lparr>de_key = k, de_ts_ms = now, de_set = True\<rparr>"
    have d': "b = False" "d' = d\<lparr>dd_entries := (dd_entries d)[dd_head d := ?e], dd_head := (dd_head d + 1) mod DEDUP_CAPACITY\<rparr>"
      using False hit s by (auto simp: seen_def Let_def)
    have "newest_first d' = ?e # butlast (newest_first d)"
      unfolding d'(2) by (rule newest_first_write) (use rel in \<open>simp_all add: dedup_rel_def\<close>)
    also have "\<dots> = map mk_entry (take DEDUP_CAPACITY ((k, now) # xs))
        @ replicate (DEDUP_CAPACITY - length (take DEDUP_CAPACITY ((k, now) # xs))) empty_entry"
    proof (cases "length xs = DEDUP_CAPACITY")
      case True
      then have "take DEDUP_CAPACITY ((k, now) # xs) = (k, now) # butlast xs"
        by (simp add: butlast_conv_take take_Cons' DEDUP_CAPACITY_def)
      then show ?thesis using rel True by (simp add: dedup_rel_def mk_entry_def map_butlast DEDUP_CAPACITY_def)
    next
      case False
      then have "length xs < DEDUP_CAPACITY" using rel by (simp add: dedup_rel_def)
      then obtain n where n: "DEDUP_CAPACITY - length xs = Suc n" using Suc_diff_Suc by metis
      have "replicate (Suc n) empty_entry = replicate n empty_entry @ [empty_entry]" by (simp add: replicate_append_same)
      then have "butlast (newest_first d) = map mk_entry xs @ replicate n empty_entry"
        using rel n by (simp only: dedup_rel_def) (simp add: butlast_append)
      moreover have "take DEDUP_CAPACITY ((k, now) # xs) = (k, now) # xs" using n by simp
      moreover have "DEDUP_CAPACITY - Suc (length xs) = n" using n by simp
      ultimately show ?thesis by (simp add: mk_entry_def)
    qed
    finally show ?thesis
      using rel False d' by (simp add: dedup_rel_def recent_seen_def DEDUP_CAPACITY_def)
  qed
qed

interpretation ring: recent_filter seen dedup_rel DEDUP_CAPACITY DEDUP_WINDOW_MS
  by unfold_locales (rule seen_refines)

text \<open>
  C23. The ring buffer of 64 entries is a faithful duplicate filter: on every sequence of arrivals it lets
  through exactly what the list of the 64 frames recorded last lets through, where a frame is a duplicate
  if its key was recorded at most 200 ms before, and a duplicate does not prolong the window.
\<close>

theorem dedup_refines:
  "fst (pass_all seen items dedup_new) = fst (pass_all (recent_seen 64 200) items [])"
  using ring.pass_all_refines [OF dedup_rel_new, of items] by (simp add: DEDUP_CAPACITY_def DEDUP_WINDOW_MS_def)

end
