(* ===== verification/PacketSocket.thy ===== *)
theory PacketSocket
  imports Dedup RustStr
begin

text \<open>
  What the two packet listeners share: the errors of \<open>src/ffi.rs\<close>, and \<open>run_platform\<close> and \<open>run_slave\<close>, which
  \<open>src/listen6672.rs\<close> and \<open>src/listen18022.rs\<close> carry as equal copies up to the packet filter and the
  extraction function.  The system calls answer from a list.
\<close>

datatype ffi_error = FfiUnsupported | Syscall string int | Interface string

fun ffi_error_display :: "ffi_error \<Rightarrow> string" where
  "ffi_error_display FfiUnsupported = ''PF_PACKET only supported on Linux''"
| "ffi_error_display (Syscall stage errno) =
     stage @ '': errno '' @ (if errno < 0 then ''-'' @ show_nat (nat (- errno)) else show_nat (nat errno))"
| "ffi_error_display (Interface msg) = ''interface: '' @ msg"

text \<open>\<open>EAGAIN\<close> and \<open>EWOULDBLOCK\<close> are 11, \<open>EINTR\<close> is 4 on Linux.\<close>

definition is_retry_errno :: "int \<Rightarrow> bool" where
  "is_retry_errno errno \<longleftrightarrow> errno = 11 \<or> errno = 4"

definition CAPTURE_LEN :: nat where "CAPTURE_LEN = 1514"

text \<open>
  The receive loop.  A round is the stop flag at the top, the result of \<open>recv\<close>, and the stop flag after a
  failed \<open>recv\<close>; \<open>None\<close> means still running after the rounds.
\<close>

fun slave_loop ::
  "(byte list \<Rightarrow> 's \<Rightarrow> 's) \<Rightarrow> (bool \<times> (ffi_error + byte list) \<times> bool) list \<Rightarrow> 's \<Rightarrow> (ffi_error + unit) option \<times> 's" where
  "slave_loop deliver [] s = (None, s)"
| "slave_loop deliver ((stop, r, stop') # rounds) s =
     (if stop then (Some (Ok ()), s)
      else
        (case r of
           Ok packet \<Rightarrow> slave_loop deliver rounds (deliver (take CAPTURE_LEN packet) s)
         | Err (Syscall stage errno) \<Rightarrow>
             if is_retry_errno errno then slave_loop deliver rounds s
             else if stop' then (Some (Ok ()), s) else (Some (Err (Syscall stage errno)), s)
         | Err e \<Rightarrow> if stop' then (Some (Ok ()), s) else (Some (Err e), s)))"

text \<open>
  \<open>run_slave\<close>: the results of looking up the interface, opening, binding and filtering the socket, in this
  order; the first error ends the thread.
\<close>

definition run_slave ::
  "(byte list \<Rightarrow> 's \<Rightarrow> 's) \<Rightarrow> ffi_error option list \<Rightarrow> (bool \<times> (ffi_error + byte list) \<times> bool) list \<Rightarrow> 's
   \<Rightarrow> (ffi_error + unit) option \<times> 's" where
  "run_slave deliver setup rounds s =
     (case List.find (\<lambda>r. r \<noteq> None) setup of
        Some (Some e) \<Rightarrow> (Some (Err e), s)
      | _ \<Rightarrow> slave_loop deliver rounds s)"

datatype listener_error = NoSlaves | ListenUnsupported | Slave string ffi_error

text \<open>
  \<open>run_platform\<close>: one thread per interface; the outcomes are listed in the order in which the threads end.
  The first error is kept and stops all of them.
\<close>

fun record_slave :: "string \<times> (ffi_error + unit) \<Rightarrow> (listener_error + unit) \<times> bool \<Rightarrow> (listener_error + unit) \<times> bool" where
  "record_slave (iface, Ok _) slot = slot"
| "record_slave (iface, Err e) (slot, shutdown) =
     ((case slot of Ok _ \<Rightarrow> Err (Slave iface e) | Err _ \<Rightarrow> slot), True)"

definition run_platform :: "string list \<Rightarrow> (string \<times> (ffi_error + unit)) list \<Rightarrow> bool \<Rightarrow> (listener_error + unit) \<times> bool" where
  "run_platform slaves outcomes shutdown =
     (if slaves = [] then (Err NoSlaves, shutdown) else fold record_slave outcomes (Ok (), shutdown))"

definition u32_from_le_bytes :: "byte \<Rightarrow> byte \<Rightarrow> byte \<Rightarrow> byte \<Rightarrow> u32" where
  "u32_from_le_bytes a b c d = u32_from_be_bytes d c b a"

definition u32_to_le_bytes :: "u32 \<Rightarrow> byte list" where
  "u32_to_le_bytes w = rev (u32_to_be_bytes w)"

lemma u32_to_le_bytes_from [byte_simps]: "u32_to_le_bytes (u32_from_le_bytes a b c d) = [a, b, c, d]"
  by (simp add: u32_to_le_bytes_def u32_from_le_bytes_def u32_to_be_bytes_from)

lemma u32_from_le_bytes_to [byte_simps]:
  "u32_to_le_bytes w = [a, b, c, d] \<Longrightarrow> u32_from_le_bytes a b c d = w"
  by (auto simp: u32_to_le_bytes_def u32_from_le_bytes_def u32_to_be_bytes_def u32_from_be_bytes_to)

lemma unat_of_nat_u16: "n < 65536 \<Longrightarrow> unat (of_nat n :: u16) = n"
  by (simp add: unat_of_nat take_bit_nat_eq_self)

lemma slice_four: "i + 4 \<le> length xs \<Longrightarrow> slice i (i + 4) xs = [xs ! i, xs ! (i + 1), xs ! (i + 2), xs ! (i + 3)]"
  by (simp add: slice_def numeral_eq_Suc take_Suc_conv_app_nth)

lemma slice_append_left: "j \<le> length xs \<Longrightarrow> slice i j (xs @ ys) = slice i j xs"
  by (simp add: slice_def)

end
