(* ===== verification/Listen6672.thy ===== *)
theory Listen6672
  imports PacketSocket Codec
begin

unbundle bit_operations_syntax

text \<open>
  \<open>src/listen6672.rs\<close>: the event frames of the building network.  A callback is a function on the state of
  the daemon; logging is one of them.  The duplicate filter is present with more than one interface.
\<close>

section \<open>Frames\<close>

definition FRAME_SIZE :: nat where "FRAME_SIZE = 21"

record frame6672 =
  fr_flag :: byte
  fr_target_bcd :: "byte list"
  fr_self_or_ip :: "byte list"
  fr_reserved :: "byte list"
  fr_event_flag :: u32
  fr_magic :: "byte list"
  fr_subtype :: byte
  fr_event_id :: byte
  fr_raw :: "byte list"

datatype parse_error_6672 = FrameSize nat | FrameMagic byte byte

definition hex_byte :: "byte \<Rightarrow> string" where
  "hex_byte v = [hex_digit (drop_bit 4 v), hex_digit (v AND 0x0f)]"

fun parse_error_6672_display :: "parse_error_6672 \<Rightarrow> string" where
  "parse_error_6672_display (FrameSize n) = ''listen6672: payload not 21 bytes: got '' @ show_nat n @ '' bytes''"
| "parse_error_6672_display (FrameMagic a b) =
     ''listen6672: byte 17-18 not 00 40: got '' @ hex_byte a @ '' '' @ hex_byte b"

definition parse_frame_6672 :: "byte list \<Rightarrow> parse_error_6672 + frame6672" where
  "parse_frame_6672 p =
     (if length p \<noteq> FRAME_SIZE then Err (FrameSize (length p))
      else if p ! 17 \<noteq> 0 \<or> p ! 18 \<noteq> 0x40 then Err (FrameMagic (p ! 17) (p ! 18))
      else Ok \<lparr>fr_flag = p ! 0, fr_target_bcd = slice 1 5 p, fr_self_or_ip = slice 5 9 p, fr_reserved = slice 9 13 p,
               fr_event_flag = u32_from_le_bytes (p ! 13) (p ! 14) (p ! 15) (p ! 16), fr_magic = [p ! 17, p ! 18],
               fr_subtype = p ! 19, fr_event_id = p ! 20, fr_raw = p\<rparr>)"

datatype event_kind = Unknown | Ring | ElevatorKey | KeepAlive | NumberQuery | NumberResponse

definition classify :: "frame6672 \<Rightarrow> event_kind" where
  "classify f =
     (if fr_flag f = 0x01 then NumberResponse
      else if fr_flag f \<noteq> 0x00 then Unknown
      else if fr_event_flag f = 0 then NumberQuery
      else if fr_event_flag f = 1 then
        if fr_subtype f = 0x8c \<or> fr_subtype f = 0x94 \<or> fr_subtype f = 0x95 then Ring
        else if fr_subtype f = 0x90 then ElevatorKey
        else if fr_subtype f = 0x00 then KeepAlive
        else Unknown
      else Unknown)"

text \<open>The UDP payload of a captured Ethernet frame, with the sender's address and port.\<close>

definition extract_udp_payload :: "byte list \<Rightarrow> (byte list \<times> byte list \<times> u16) option" where
  "extract_udp_payload fr =
     (if length fr < 14 + 20 + 8 then None
      else if u16_from_be_bytes (fr ! 12) (fr ! 13) \<noteq> 0x0800 then None
      else
        let ip_hdr = drop 14 fr; ihl = unat (ip_hdr ! 0 AND 0x0f) * 4 in
        if ihl < 20 \<or> length ip_hdr < ihl + 8 then None
        else if ip_hdr ! 9 \<noteq> 17 then None
        else
          let src_ip = [ip_hdr ! 12, ip_hdr ! 13, ip_hdr ! 14, ip_hdr ! 15];
              udp_hdr = drop ihl ip_hdr;
              src_port = u16_from_be_bytes (udp_hdr ! 0) (udp_hdr ! 1);
              udp_len = unat (u16_from_be_bytes (udp_hdr ! 4) (udp_hdr ! 5))
          in if udp_len < 8 \<or> length udp_hdr < udp_len then None
             else Some (slice 8 udp_len udp_hdr, src_ip, src_port))"

section \<open>Number queries\<close>

definition DEFAULT_UDP_PORT :: u16 where "DEFAULT_UDP_PORT = 6672"

definition build_number_query_response :: "frame6672 \<Rightarrow> byte list \<Rightarrow> byte list" where
  "build_number_query_response req our_ip =
     [0x01] @ fr_target_bcd req @ our_ip @ [0, 0, 0, 0] @ u32_to_le_bytes (fr_event_flag req) @ [0x00, 0x40]
     @ [fr_subtype req, fr_event_id req]"

section \<open>Dispatch\<close>

record 's callbacks =
  on_ring :: "(byte list \<Rightarrow> frame6672 \<Rightarrow> 's \<Rightarrow> 's) option"
  on_elevator_key :: "(byte list \<Rightarrow> frame6672 \<Rightarrow> 's \<Rightarrow> 's) option"
  on_number_query :: "(byte list \<Rightarrow> frame6672 \<Rightarrow> 's \<Rightarrow> 's) option"
  on_number_response :: "(byte list \<Rightarrow> frame6672 \<Rightarrow> 's \<Rightarrow> 's) option"
  cb_logf :: "(string \<Rightarrow> 's \<Rightarrow> 's) option"

definition call_back :: "(byte list \<Rightarrow> frame6672 \<Rightarrow> 's \<Rightarrow> 's) option \<Rightarrow> byte list \<Rightarrow> frame6672 \<Rightarrow> 's \<Rightarrow> 's" where
  "call_back cb src_ip f s = (case cb of Some h \<Rightarrow> h src_ip f s | None \<Rightarrow> s)"

definition logf6672 :: "'s callbacks \<Rightarrow> string \<Rightarrow> 's \<Rightarrow> 's" where
  "logf6672 cbs msg s = (case cb_logf cbs of Some h \<Rightarrow> h msg s | None \<Rightarrow> s)"

definition dotted :: "byte list \<Rightarrow> string" where
  "dotted ip = show_nat (unat (ip ! 0)) @ ''.'' @ show_nat (unat (ip ! 1)) @ ''.'' @ show_nat (unat (ip ! 2)) @ ''.''
     @ show_nat (unat (ip ! 3))"

definition dispatch6672 :: "'s callbacks \<Rightarrow> byte list \<Rightarrow> byte list \<Rightarrow> 's \<Rightarrow> 's" where
  "dispatch6672 cbs src_ip payload s =
     (if length payload \<noteq> FRAME_SIZE
      then logf6672 cbs (''listen6672: drop non-21B payload (len='' @ show_nat (length payload) @ '')'') s
      else
        (case parse_frame_6672 payload of
           Err e \<Rightarrow> logf6672 cbs (''listen6672: parse error: '' @ parse_error_6672_display e) s
         | Ok f \<Rightarrow>
             (case classify f of
                Ring \<Rightarrow> call_back (on_ring cbs) src_ip f (logf6672 cbs (''Capture: Ring captured from '' @ dotted src_ip) s)
              | ElevatorKey \<Rightarrow>
                  call_back (on_elevator_key cbs) src_ip f (logf6672 cbs ''indoor station elevator key, ignored'' s)
              | KeepAlive \<Rightarrow> s
              | NumberQuery \<Rightarrow> call_back (on_number_query cbs) src_ip f s
              | NumberResponse \<Rightarrow> call_back (on_number_response cbs) src_ip f s
              | Unknown \<Rightarrow> logf6672 cbs (''listen6672: unknown frame subtype=0x'' @ hex_byte (fr_subtype f)) s)))"

text \<open>\<open>Listener::new\<close> turns the duplicate filter on with more than one interface.\<close>

definition dedup_for :: "string list \<Rightarrow> dedup option" where
  "dedup_for slaves = (if length slaves > 1 then Some dedup_new else None)"

definition dedup_key_6672 :: "byte list \<Rightarrow> u16 \<Rightarrow> byte list \<Rightarrow> u64" where
  "dedup_key_6672 = dedup_key_of FRAME_SIZE"

definition dispatch_with_dedup_6672 ::
  "'s callbacks \<Rightarrow> nat \<Rightarrow> byte list \<Rightarrow> u16 \<Rightarrow> byte list \<Rightarrow> dedup option \<times> 's \<Rightarrow> dedup option \<times> 's" where
  "dispatch_with_dedup_6672 cbs now_ms src_ip src_port payload ds =
     (case ds of
        (Some d, s) \<Rightarrow>
          (case seen (dedup_key_6672 src_ip src_port payload) now_ms d of
             (True, d') \<Rightarrow> (Some d', s)
           | (False, d') \<Rightarrow> (Some d', dispatch6672 cbs src_ip payload s))
      | (None, s) \<Rightarrow> (None, dispatch6672 cbs src_ip payload s))"

text \<open>One received packet; the clock is read for the duplicate filter.\<close>

definition deliver6672 :: "'s callbacks \<Rightarrow> nat \<Rightarrow> byte list \<Rightarrow> dedup option \<times> 's \<Rightarrow> dedup option \<times> 's" where
  "deliver6672 cbs now_ms packet ds =
     (case extract_udp_payload packet of
        Some (payload, src_ip, src_port) \<Rightarrow> dispatch_with_dedup_6672 cbs now_ms src_ip src_port payload ds
      | None \<Rightarrow> ds)"

section \<open>Datagrams in Ethernet frames\<close>

text \<open>An Ethernet frame that carries a UDP datagram in an IPv4 packet, possibly followed by padding.\<close>

definition udp_packet ::
  "byte list \<Rightarrow> byte list \<Rightarrow> u16 \<Rightarrow> u16 \<Rightarrow> byte list \<Rightarrow> byte list \<Rightarrow> byte list \<Rightarrow> byte list" where
  "udp_packet macs ip_hdr src_port dst_port cksum payload padding =
     macs @ [0x08, 0x00] @ ip_hdr @ u16_to_be_bytes src_port @ u16_to_be_bytes dst_port
     @ u16_to_be_bytes (of_nat (8 + length payload)) @ cksum @ payload @ padding"

definition ipv4_header :: "byte \<Rightarrow> byte list \<Rightarrow> bool" where
  "ipv4_header proto ip_hdr \<longleftrightarrow>
     20 \<le> length ip_hdr \<and> length ip_hdr = 4 * unat (ip_hdr ! 0 AND 0x0f) \<and> ip_hdr ! 9 = proto"

lemma drop_exact: "length xs = n \<Longrightarrow> drop n (xs @ ys) = ys"
  by simp

lemma two_bytes: "u16_to_be_bytes w = [a, b] \<Longrightarrow> u16_from_be_bytes a b = w"
  by (auto simp: u16_to_be_bytes_def u16_from_be_bytes_to)

lemma drop_split: "i \<le> length xs \<Longrightarrow> i \<le> j \<Longrightarrow> drop i xs = slice i j xs @ drop j xs"
  by (metis append_take_drop_id drop_drop le_add_diff_inverse2 slice_def)

text \<open>The extraction on a frame split into its headers.\<close>

lemma extract_udp_split:
  assumes "length macs = 12" "20 \<le> length ip_hdr" "length ip_hdr = unat (ip_hdr ! 0 AND 0x0f) * 4" "8 \<le> length udp"
  shows "extract_udp_payload (macs @ [a, b] @ ip_hdr @ udp) =
    (let ul = unat (u16_from_be_bytes (udp ! 4) (udp ! 5)) in
     if u16_from_be_bytes a b = 0x0800 \<and> ip_hdr ! 9 = 17 \<and> 8 \<le> ul \<and> ul \<le> length udp
     then Some (slice 8 ul udp, slice 12 16 ip_hdr, u16_from_be_bytes (udp ! 0) (udp ! 1)) else None)"
proof -
  let ?fr = "macs @ [a, b] @ ip_hdr @ udp"
  have f: "drop 14 ?fr = ip_hdr @ udp" "?fr ! 12 = a" "?fr ! 13 = b" "length ?fr = 14 + length ip_hdr + length udp"
    using assms(1) by (simp_all add: nth_append)
  have nth: "(ip_hdr @ udp) ! i = ip_hdr ! i" if "i < 20" for i using that assms(2) by (simp add: nth_append)
  have n: "(ip_hdr @ udp) ! 0 = ip_hdr ! 0" "(ip_hdr @ udp) ! 9 = ip_hdr ! 9" "(ip_hdr @ udp) ! 12 = ip_hdr ! 12"
    "(ip_hdr @ udp) ! 13 = ip_hdr ! 13" "(ip_hdr @ udp) ! 14 = ip_hdr ! 14" "(ip_hdr @ udp) ! 15 = ip_hdr ! 15"
    by (rule nth, simp)+
  have d: "drop (unat (ip_hdr ! 0 AND 0x0f) * 4) (ip_hdr @ udp) = udp" by (rule drop_exact) (rule assms(3))
  have sl: "slice 12 16 ip_hdr = [ip_hdr ! 12, ip_hdr ! 13, ip_hdr ! 14, ip_hdr ! 15]"
    using slice_four [of 12 ip_hdr] assms(2) by simp
  show ?thesis
    unfolding extract_udp_payload_def Let_def f n d sl length_append assms(3) [symmetric] using assms(1,2,4) by auto
qed

lemma extract_udp_packet:
  assumes "length macs = 12" "ipv4_header 17 ip_hdr" "length cksum = 2" "length payload < 65528"
  shows "extract_udp_payload (udp_packet macs ip_hdr sp dp cksum payload padding) = Some (payload, slice 12 16 ip_hdr, sp)"
proof -
  obtain s0 s1 d0 d1 l0 l1 where b: "u16_to_be_bytes sp = [s0, s1]" "u16_to_be_bytes dp = [d0, d1]"
    "u16_to_be_bytes (of_nat (8 + length payload)) = [l0, l1]"
    by (simp add: u16_to_be_bytes_def)
  define udp where "udp = [s0, s1, d0, d1, l0, l1] @ cksum @ payload @ padding"
  have "unat (of_nat (8 + length payload) :: u16) = 8 + length payload"
    by (rule unat_of_nat_u16) (use assms(4) in simp)
  then have ul: "unat (u16_from_be_bytes (udp ! 4) (udp ! 5)) = 8 + length payload"
    using two_bytes [OF b(3)] by (simp add: udp_def)
  have pl: "slice 8 (8 + length payload) udp = payload"
    using assms(3) by (auto simp: udp_def slice_def length_Suc_conv numeral_eq_Suc)
  have fr: "udp_packet macs ip_hdr sp dp cksum payload padding = macs @ [0x08, 0x00] @ ip_hdr @ udp"
    using b by (simp add: udp_packet_def udp_def)
  have "u16_from_be_bytes (udp ! 0) (udp ! 1) = sp" "length udp = 8 + length payload + length padding"
    using two_bytes [OF b(1)] assms(3) by (simp_all add: udp_def)
  moreover have "u16_from_be_bytes 0x08 0x00 = 0x0800" by (simp add: u16_from_be_bytes_def)
  ultimately show ?thesis
    unfolding fr using extract_udp_split [of macs ip_hdr udp 8 0] assms(1,2) ul pl
    by (simp add: ipv4_header_def Let_def mult.commute)
qed

lemma extract_udp_payload_SomeD:
  assumes "extract_udp_payload fr = Some (payload, src_ip, sp)"
  shows "\<exists>macs ip_hdr dp cksum padding. fr = udp_packet macs ip_hdr sp dp cksum payload padding \<and> length macs = 12
    \<and> ipv4_header 17 ip_hdr \<and> length cksum = 2 \<and> length payload < 65528 \<and> src_ip = slice 12 16 ip_hdr"
proof -
  define ihl where "ihl = unat (fr ! 14 AND 0x0f) * 4"
  define macs ip_hdr udp where "macs = take 12 fr" and "ip_hdr = take ihl (drop 14 fr)" and "udp = drop ihl (drop 14 fr)"
  have len: "42 \<le> length fr" "20 \<le> ihl" "ihl + 22 \<le> length fr"
    using assms by (auto simp: extract_udp_payload_def Let_def ihl_def split: if_splits)
  have ip: "length macs = 12" "length ip_hdr = ihl" "ip_hdr ! 0 = fr ! 14" "8 \<le> length udp"
    using len by (simp_all add: macs_def ip_hdr_def udp_def)
  have "drop 12 fr = fr ! 12 # fr ! 13 # drop 14 fr" using len(1) by (simp add: Cons_nth_drop_Suc numeral_eq_Suc)
  then have fr: "fr = macs @ [fr ! 12, fr ! 13] @ ip_hdr @ udp"
    unfolding macs_def ip_hdr_def udp_def by (metis append.simps append_take_drop_id)
  let ?ul = "unat (u16_from_be_bytes (udp ! 4) (udp ! 5))"
  have hdr: "20 \<le> length ip_hdr" "length ip_hdr = unat (ip_hdr ! 0 AND 0x0f) * 4" using ip len(2) by (simp_all add: ihl_def)
  note sp = extract_udp_split [OF ip(1) hdr ip(4), of "fr ! 12" "fr ! 13"]
  have ok: "u16_from_be_bytes (fr ! 12) (fr ! 13) = 0x0800" "ip_hdr ! 9 = 17" "8 \<le> ?ul" "?ul \<le> length udp"
    "payload = slice 8 ?ul udp" "src_ip = slice 12 16 ip_hdr" "sp = u16_from_be_bytes (udp ! 0) (udp ! 1)"
    using assms sp unfolding fr [symmetric] by (auto simp: Let_def split: if_splits)
  have et: "fr ! 12 = 0x08" "fr ! 13 = 0"
    using ok(1) u16_to_be_bytes_from [of "fr ! 12" "fr ! 13"] by (simp_all add: u16_to_be_bytes_def)
  obtain u0 u1 u2 u3 u4 u5 u6 u7 r where udp: "udp = u0 # u1 # u2 # u3 # u4 # u5 # u6 # u7 # r"
    using ip(4) by (cases udp rule: list.exhaust) (auto simp: Suc_le_length_iff numeral_eq_Suc)
  have pl: "payload = take (?ul - 8) r" "length payload = ?ul - 8" "?ul < 65536"
    using ok(3-5) unsigned_less [of "u16_from_be_bytes (udp ! 4) (udp ! 5)"] by (simp_all add: udp slice_def)
  then have "of_nat (8 + length payload) = u16_from_be_bytes u4 u5" using ok(3) by (simp add: udp)
  then have "fr = udp_packet macs ip_hdr sp (u16_from_be_bytes u2 u3) [u6, u7] payload (drop (?ul - 8) r)"
    using fr et ok(7) pl(1) by (simp add: udp_packet_def udp u16_to_be_bytes_from)
  moreover have "ipv4_header 17 ip_hdr" using hdr ok(2) by (simp add: ipv4_header_def mult.commute)
  moreover have "length payload < 65528" using pl(2,3) ok(3) by simp
  ultimately show ?thesis using ip(1) ok(6) by (intro exI [of _ macs] exI [of _ ip_hdr] exI) auto
qed

text \<open>
  The listener reads exactly the UDP datagrams: a captured Ethernet frame yields a payload, a sender
  address and a sender port if and only if it is an IPv4 frame with a complete header (options included)
  that carries a complete UDP datagram with this payload, whatever padding follows.
\<close>

theorem extract_udp_payload_iff:
  "extract_udp_payload fr = Some (payload, src_ip, sp) \<longleftrightarrow>
   (\<exists>macs ip_hdr dp cksum padding. fr = udp_packet macs ip_hdr sp dp cksum payload padding \<and> length macs = 12
     \<and> ipv4_header 17 ip_hdr \<and> length cksum = 2 \<and> length payload < 65528 \<and> src_ip = slice 12 16 ip_hdr)"
  by (rule iffI, rule extract_udp_payload_SomeD) (auto simp: extract_udp_packet)

section \<open>Bursts\<close>

text \<open>A sequence of arrivals with the time, the sender's address and port, and the payload.\<close>

type_synonym arrival = "nat \<times> byte list \<times> u16 \<times> byte list"

definition feed6672 :: "'s callbacks \<Rightarrow> arrival list \<Rightarrow> dedup option \<times> 's \<Rightarrow> dedup option \<times> 's" where
  "feed6672 cbs = fold (\<lambda>(now, src_ip, src_port, payload). dispatch_with_dedup_6672 cbs now src_ip src_port payload)"

definition keyed :: "(byte list \<Rightarrow> u16 \<Rightarrow> byte list \<Rightarrow> u64) \<Rightarrow> arrival list \<Rightarrow> (u64 \<times> nat \<times> byte list \<times> byte list) list" where
  "keyed key = map (\<lambda>(now, src_ip, src_port, payload). (key src_ip src_port payload, now, src_ip, payload))"

lemma feed6672_pass:
  "snd (feed6672 cbs arr (Some d, s)) =
   fold (\<lambda>(src_ip, payload). dispatch6672 cbs src_ip payload) (fst (pass_all seen (keyed dedup_key_6672 arr) d)) s"
proof (induction arr arbitrary: d s)
  case (Cons x arr)
  obtain now ip port p where x: "x = (now, ip, port, p)" by (cases x) auto
  obtain b d' where s: "seen (dedup_key_6672 ip port p) now d = (b, d')" by fastforce
  have step: "feed6672 cbs (x # arr) (Some d, s) =
      feed6672 cbs arr (dispatch_with_dedup_6672 cbs now ip port p (Some d, s))"
    by (simp add: feed6672_def x)
  have k: "keyed dedup_key_6672 (x # arr) = (dedup_key_6672 ip port p, now, ip, p) # keyed dedup_key_6672 arr"
    by (simp add: keyed_def x)
  show ?case
    unfolding step k using Cons.IH [of d'] s
    by (cases b) (simp_all add: dispatch_with_dedup_6672_def case_prod_unfold)
qed (simp add: feed6672_def keyed_def)


text \<open>A ring frame received twice on two interfaces within 30 ms.\<close>

abbreviation demo_ring_frame :: "byte list" where
  "demo_ring_frame \<equiv> [0, 0x11, 0x01, 0x01, 0x01, 0x11, 0, 0, 1, 0, 0, 0, 0, 1, 0, 0, 0, 0, 0x40, 0x94, 0xb6]"

abbreviation demo_arrivals :: "arrival list" where
  "demo_arrivals \<equiv> [(1000, [10, 0, 0, 2], 6672, demo_ring_frame), (1030, [10, 0, 0, 2], 6672, demo_ring_frame)]"

abbreviation ring_counter :: "nat callbacks" where
  "ring_counter \<equiv> \<lparr>on_ring = Some (\<lambda>_ _ n. n + 1), on_elevator_key = None, on_number_query = None,
     on_number_response = None, cb_logf = None\<rparr>"


section \<open>Number responses\<close>

text \<open>A response to a parsed query is a well-formed frame of the kind that no listener answers.\<close>

lemma response_parses:
  assumes "parse_frame_6672 p = Ok req" "length our_ip = 4"
  shows "\<exists>f. parse_frame_6672 (build_number_query_response req our_ip) = Ok f \<and> classify f = NumberResponse
    \<and> fr_target_bcd f = fr_target_bcd req \<and> fr_self_or_ip f = our_ip"
proof -
  obtain a0 a1 a2 a3 where ip: "our_ip = [a0, a1, a2, a3]" using assms(2) by (auto simp: length_Suc_conv numeral_eq_Suc)
  have "length p = 21" using assms(1) by (auto simp: parse_frame_6672_def FRAME_SIZE_def split: if_splits)
  then have len: "length (slice 1 5 p) = 4" by simp
  then obtain t0 t1 t2 t3 where t: "fr_target_bcd req = [t0, t1, t2, t3]"
    using assms(1) by (auto simp: parse_frame_6672_def length_Suc_conv numeral_eq_Suc split: if_splits)
  obtain e0 e1 e2 e3 where e: "u32_to_le_bytes (fr_event_flag req) = [e0, e1, e2, e3]"
    by (simp add: u32_to_le_bytes_def u32_to_be_bytes_def)
  show ?thesis
    by (simp add: parse_frame_6672_def build_number_query_response_def ip t e FRAME_SIZE_def classify_def slice_def numeral_eq_Suc)
qed

end
