(* ===== verification/Listen18022.thy ===== *)
theory Listen18022
  imports Listen6672 Wire18022
begin

unbundle bit_operations_syntax

text \<open>
  \<open>src/listen18022.rs\<close>: the TCP frames of the intercom protocol, captured on the building network, and the
  subscriptions of other threads to them.  Every operation on the list of subscribers runs under its lock,
  so a sequence of operations covers all interleavings.  The panic of a filter is \<open>None\<close>.
\<close>

section \<open>Captured frames\<close>

record detected_frame =
  df_req :: int
  df_body :: "byte list"
  df_src_ip :: "byte list"
  df_dst_ip :: "byte list"
  df_src_port :: u16
  df_dst_port :: u16

definition parse_frame_18022 :: "byte list \<Rightarrow> (int \<times> byte list) option" where
  "parse_frame_18022 payload = (case parse_response_frame payload of Ok rb \<Rightarrow> Some rb | Err _ \<Rightarrow> None)"

definition extract_tcp_payload :: "byte list \<Rightarrow> (byte list \<times> byte list \<times> byte list \<times> u16 \<times> u16) option" where
  "extract_tcp_payload fr =
     (if length fr < 14 + 20 + 20 then None
      else if u16_from_be_bytes (fr ! 12) (fr ! 13) \<noteq> 0x0800 then None
      else
        let ip_hdr = drop 14 fr; ihl = unat (ip_hdr ! 0 AND 0x0f) * 4 in
        if ihl < 20 \<or> length ip_hdr < ihl + 20 then None
        else if ip_hdr ! 9 \<noteq> 6 then None
        else
          let src_ip = [ip_hdr ! 12, ip_hdr ! 13, ip_hdr ! 14, ip_hdr ! 15];
              dst_ip = [ip_hdr ! 16, ip_hdr ! 17, ip_hdr ! 18, ip_hdr ! 19];
              tcp_hdr = drop ihl ip_hdr;
              src_port = u16_from_be_bytes (tcp_hdr ! 0) (tcp_hdr ! 1);
              dst_port = u16_from_be_bytes (tcp_hdr ! 2) (tcp_hdr ! 3);
              data_off = unat (drop_bit 4 (tcp_hdr ! 12)) * 4
          in if data_off < 20 \<or> length tcp_hdr < data_off then None
             else Some (drop data_off tcp_hdr, src_ip, dst_ip, src_port, dst_port))"

section \<open>Diagnosis\<close>

datatype direction =
    DirUnknown | OutdoorToIndoor | IndoorToOutdoor | DaemonToOutdoor | DaemonToIndoor | OutdoorToDaemon | IndoorToDaemon

text \<open>The arrow of the log texts is the UTF-8 encoding of U+2192.\<close>

definition arrow :: string where
  "arrow = of_bytes [0xe2, 0x86, 0x92]"

fun direction_as_str :: "direction \<Rightarrow> string" where
  "direction_as_str OutdoorToIndoor = ''outdoor'' @ arrow @ ''indoor''"
| "direction_as_str IndoorToOutdoor = ''indoor'' @ arrow @ ''outdoor''"
| "direction_as_str DaemonToOutdoor = ''daemon'' @ arrow @ ''outdoor''"
| "direction_as_str DaemonToIndoor = ''daemon'' @ arrow @ ''indoor''"
| "direction_as_str OutdoorToDaemon = ''outdoor'' @ arrow @ ''daemon''"
| "direction_as_str IndoorToDaemon = ''indoor'' @ arrow @ ''daemon''"
| "direction_as_str DirUnknown = ''unknown''"

definition infer_direction ::
  "byte list \<Rightarrow> byte list \<Rightarrow> byte list option \<Rightarrow> byte list option \<Rightarrow> byte list list \<Rightarrow> direction" where
  "infer_direction src dst daemon_ip indoor_ip outdoor_ips =
     (if src \<in> set outdoor_ips \<and> indoor_ip = Some dst then OutdoorToIndoor
      else if indoor_ip = Some src \<and> dst \<in> set outdoor_ips then IndoorToOutdoor
      else if daemon_ip = Some src \<and> dst \<in> set outdoor_ips then DaemonToOutdoor
      else if daemon_ip = Some src \<and> indoor_ip = Some dst then DaemonToIndoor
      else if src \<in> set outdoor_ips \<and> daemon_ip = Some dst then OutdoorToDaemon
      else if indoor_ip = Some src \<and> daemon_ip = Some dst then IndoorToDaemon
      else DirUnknown)"

definition req_note :: "int \<Rightarrow> string" where
  "req_note req =
     (if req = 704 then ''invite-query'' else if req = 705 then ''invite-ack'' else if req = 708 then ''bye''
      else if req = 709 then ''bye-ack'' else if req = 710 then ''unlock-A'' else if req = 711 then ''ack-OK''
      else if req = 519 then ''ack-OK'' else if req \<in> {564, 565, 840, 841, 888, 889} then ''ring-late-state'' else [])"

definition show_req :: "int \<Rightarrow> string" where
  "show_req i = (if i < 0 then ''-'' @ show_nat (nat (- i)) else show_nat (nat i))"

definition format_log :: "int \<Rightarrow> byte list \<Rightarrow> byte list \<Rightarrow> byte list \<Rightarrow> direction \<Rightarrow> string" where
  "format_log req src dst body dir =
     (let line = ''listen18022: detected req='' @ show_req req @ '' '' @ direction_as_str dir @ '' '' @ dotted src
            @ '' '' @ arrow @ '' '' @ dotted dst in
      if req = 518 \<and> body \<noteq> [] then
        let b = hd body;
            variant = (if b = 0x1b then ''state-notify'' else if b = 0x22 then ''unlock-B-standard''
                       else if b = 0xed then ''appoint-variant'' else ''unknown-variant-0x'' @ hex_byte b)
        in line @ '' byte0=0x'' @ hex_byte b @ '' ('' @ variant @ '')''
      else if req_note req \<noteq> [] then line @ '' ('' @ req_note req @ '')''
      else line)"

section \<open>Subscriptions\<close>

definition SUB_CHAN_DEPTH :: nat where "SUB_CHAN_DEPTH = 8"
definition MAX_HASH_BYTES :: nat where "MAX_HASH_BYTES = 64"

definition dedup_key_18022 :: "byte list \<Rightarrow> u16 \<Rightarrow> byte list \<Rightarrow> u64" where
  "dedup_key_18022 = dedup_key_of MAX_HASH_BYTES"

type_synonym sub_filter = "detected_frame \<Rightarrow> bool option"

record sub_entry =
  sub_id :: nat
  sub_flt :: sub_filter
  sub_closed :: bool

text \<open>The channel of subscriber \<open>id\<close> is \<open>l_chans l id\<close>; its sender lives in the entry of the list.\<close>

record listener18022 =
  l_dedup :: "dedup option"
  l_subs :: "sub_entry list"
  l_chans :: "nat \<Rightarrow> detected_frame list"
  l_next_sub_id :: nat

definition listener_new :: "string list \<Rightarrow> listener18022" where
  "listener_new slaves = \<lparr>l_dedup = dedup_for slaves, l_subs = [], l_chans = (\<lambda>_. []), l_next_sub_id = 0\<rparr>"

definition sub_subscribe :: "sub_filter option \<Rightarrow> listener18022 \<Rightarrow> nat \<times> listener18022" where
  "sub_subscribe flt l =
     (let i = l_next_sub_id l; f = (case flt of Some g \<Rightarrow> g | None \<Rightarrow> (\<lambda>_. Some True)) in
      (i, l\<lparr>l_next_sub_id := i + 1, l_subs := l_subs l @ [\<lparr>sub_id = i, sub_flt = f, sub_closed = False\<rparr>],
            l_chans := (l_chans l)(i := [])\<rparr>))"

text \<open>\<open>cancel\<close>, which \<open>Drop\<close> runs as well.\<close>

definition sub_cancel :: "nat \<Rightarrow> listener18022 \<Rightarrow> listener18022" where
  "sub_cancel i l =
     (case position (\<lambda>s. sub_id s = i \<and> \<not> sub_closed s) (l_subs l) of
        Some pos \<Rightarrow> l\<lparr>l_subs := take pos (l_subs l) @ drop (Suc pos) (l_subs l)\<rparr>
      | None \<Rightarrow> l)"

definition deliver_to :: "detected_frame \<Rightarrow> sub_entry \<Rightarrow> (nat \<Rightarrow> detected_frame list) \<Rightarrow> (nat \<Rightarrow> detected_frame list)" where
  "deliver_to f s ch =
     (if sub_closed s then ch
      else
        (case sub_flt s f of
           None \<Rightarrow> ch
         | Some False \<Rightarrow> ch
         | Some True \<Rightarrow>
             if length (ch (sub_id s)) < SUB_CHAN_DEPTH then ch(sub_id s := ch (sub_id s) @ [f]) else ch))"

definition dispatch_to_subs :: "detected_frame \<Rightarrow> listener18022 \<Rightarrow> listener18022" where
  "dispatch_to_subs f l = l\<lparr>l_chans := fold (deliver_to f) (l_subs l) (l_chans l)\<rparr>"

text \<open>\<open>dispatch_with_dedup\<close>; the callback \<open>on_detect\<close> acts on the state \<open>'s\<close> of the daemon.\<close>

definition dispatch_with_dedup_18022 ::
  "(detected_frame \<Rightarrow> 's \<Rightarrow> 's) option \<Rightarrow> nat \<Rightarrow> byte list \<Rightarrow> byte list \<Rightarrow> u16 \<Rightarrow> u16 \<Rightarrow> byte list
   \<Rightarrow> listener18022 \<times> 's \<Rightarrow> listener18022 \<times> 's" where
  "dispatch_with_dedup_18022 on_detect now_ms src_ip dst_ip src_port dst_port payload ls =
     (case ls of (l, s) \<Rightarrow>
        (case (case l_dedup l of
                 Some d \<Rightarrow> (case seen (dedup_key_18022 src_ip src_port payload) now_ms d of (b, d') \<Rightarrow> (b, Some d'))
               | None \<Rightarrow> (False, None)) of
           (True, dd) \<Rightarrow> (l\<lparr>l_dedup := dd\<rparr>, s)
         | (False, dd) \<Rightarrow>
             (case parse_frame_18022 payload of
                None \<Rightarrow> (l\<lparr>l_dedup := dd\<rparr>, s)
              | Some (req, body) \<Rightarrow>
                  let f = \<lparr>df_req = req, df_body = body, df_src_ip = src_ip, df_dst_ip = dst_ip,
                           df_src_port = src_port, df_dst_port = dst_port\<rparr>
                  in (dispatch_to_subs f (l\<lparr>l_dedup := dd\<rparr>), case on_detect of Some cb \<Rightarrow> cb f s | None \<Rightarrow> s))))"

definition deliver18022 ::
  "(detected_frame \<Rightarrow> 's \<Rightarrow> 's) option \<Rightarrow> nat \<Rightarrow> byte list \<Rightarrow> listener18022 \<times> 's \<Rightarrow> listener18022 \<times> 's" where
  "deliver18022 on_detect now_ms packet ls =
     (case extract_tcp_payload packet of
        Some (payload, src_ip, dst_ip, src_port, dst_port) \<Rightarrow>
          dispatch_with_dedup_18022 on_detect now_ms src_ip dst_ip src_port dst_port payload ls
      | None \<Rightarrow> ls)"

text \<open>What the receiving side of a subscription sees.\<close>

datatype recv18022 = Got detected_frame | RecvEmpty | Disconnected

definition sub_recv :: "nat \<Rightarrow> listener18022 \<Rightarrow> recv18022 \<times> listener18022" where
  "sub_recv i l =
     (case l_chans l i of
        f # r \<Rightarrow> (Got f, l\<lparr>l_chans := (l_chans l)(i := r)\<rparr>)
      | [] \<Rightarrow> (if i \<in> sub_id ` set (l_subs l) then RecvEmpty else Disconnected, l))"

section \<open>Independent mailboxes\<close>

datatype sub_op = OpSubscribe "sub_filter option" | OpCancel nat | OpFrame detected_frame | OpRecv nat

fun sub_step :: "sub_op \<Rightarrow> listener18022 \<Rightarrow> listener18022" where
  "sub_step (OpSubscribe flt) l = snd (sub_subscribe flt l)"
| "sub_step (OpCancel i) l = sub_cancel i l"
| "sub_step (OpFrame f) l = dispatch_to_subs f l"
| "sub_step (OpRecv i) l = snd (sub_recv i l)"

text \<open>
  The specification of one subscription: a mailbox that is open or closed and holds at most eight frames.
  It reacts to frames, and to its own operations only.
\<close>

fun mailbox_step :: "sub_filter \<Rightarrow> nat \<Rightarrow> sub_op \<Rightarrow> bool \<times> detected_frame list \<Rightarrow> bool \<times> detected_frame list" where
  "mailbox_step flt i (OpSubscribe _) mb = mb"
| "mailbox_step flt i (OpCancel j) (op, q) = (op \<and> j \<noteq> i, q)"
| "mailbox_step flt i (OpFrame f) (op, q) = (op, if op \<and> flt f = Some True \<and> length q < 8 then q @ [f] else q)"
| "mailbox_step flt i (OpRecv j) (op, q) = (op, if j = i then tl q else q)"

definition mailbox :: "nat \<Rightarrow> listener18022 \<Rightarrow> bool \<times> detected_frame list" where
  "mailbox i l = (i \<in> sub_id ` set (l_subs l), l_chans l i)"

definition subs_inv :: "listener18022 \<Rightarrow> bool" where
  "subs_inv l \<longleftrightarrow> distinct (map sub_id (l_subs l))
     \<and> (\<forall>s \<in> set (l_subs l). sub_id s < l_next_sub_id l \<and> \<not> sub_closed s)"

definition subs_with :: "nat \<Rightarrow> sub_filter \<Rightarrow> listener18022 \<Rightarrow> bool" where
  "subs_with i flt l \<longleftrightarrow> subs_inv l \<and> i < l_next_sub_id l \<and> (\<forall>s \<in> set (l_subs l). sub_id s = i \<longrightarrow> sub_flt s = flt)"

lemma subs_inv_new: "subs_inv (listener_new slaves)"
  by (simp add: subs_inv_def listener_new_def)

lemma sub_cancel_subs:
  assumes "subs_inv l"
  shows "l_subs (sub_cancel i l) = filter (\<lambda>s. sub_id s \<noteq> i) (l_subs l)" "l_chans (sub_cancel i l) = l_chans l"
    "l_next_sub_id (sub_cancel i l) = l_next_sub_id l"
proof -
  let ?P = "\<lambda>s. sub_id s = i \<and> \<not> sub_closed s"
  show "l_subs (sub_cancel i l) = filter (\<lambda>s. sub_id s \<noteq> i) (l_subs l)"
  proof (cases "position ?P (l_subs l)")
    case None
    then have "\<forall>s \<in> set (l_subs l). sub_id s \<noteq> i" using assms by (auto simp: position_None_iff subs_inv_def)
    then show ?thesis using None by (simp add: sub_cancel_def filter_id_conv [THEN iffD2])
  next
    case (Some pos)
    then have p: "pos < length (l_subs l)" "sub_id (l_subs l ! pos) = i" using position_SomeD [OF Some] by auto
    have l: "l_subs l = take pos (l_subs l) @ l_subs l ! pos # drop (Suc pos) (l_subs l)" by (rule id_take_nth_drop [OF p(1)])
    have "distinct (map sub_id (take pos (l_subs l) @ l_subs l ! pos # drop (Suc pos) (l_subs l)))"
      using assms l by (simp add: subs_inv_def)
    then have "filter (\<lambda>s. sub_id s \<noteq> i) (take pos (l_subs l)) = take pos (l_subs l)"
      "filter (\<lambda>s. sub_id s \<noteq> i) (drop (Suc pos) (l_subs l)) = drop (Suc pos) (l_subs l)"
      using p(2) by (force simp: filter_id_conv image_iff)+
    then have "filter (\<lambda>s. sub_id s \<noteq> i) (l_subs l) = take pos (l_subs l) @ drop (Suc pos) (l_subs l)"
      using p(2) by (subst l) simp
    then show ?thesis using Some by (simp add: sub_cancel_def)
  qed
qed (simp_all add: sub_cancel_def split: option.split)

lemma fold_deliver_other:
  "i \<notin> sub_id ` set ss \<Longrightarrow> fold (deliver_to f) ss ch i = ch i"
  by (induction ss arbitrary: ch) (auto simp: deliver_to_def split: option.split bool.split)

lemma fold_deliver:
  assumes "distinct (map sub_id ss)" "s \<in> set ss"
  shows "fold (deliver_to f) ss ch (sub_id s) = deliver_to f s ch (sub_id s)"
  using assms
proof (induction ss arbitrary: ch)
  case (Cons x ss)
  have other: "deliver_to f s ch' (sub_id s) = deliver_to f s ch (sub_id s)" if "ch' (sub_id s) = ch (sub_id s)" for ch'
    using that by (simp add: deliver_to_def split: option.split bool.split)
  show ?case
  proof (cases "x = s")
    case True
    then have "sub_id s \<notin> sub_id ` set ss" using Cons.prems(1) by auto
    then show ?thesis using fold_deliver_other True by simp
  next
    case False
    then have "sub_id x \<noteq> sub_id s" "s \<in> set ss" using Cons.prems by auto
    then show ?thesis
      using Cons other [of "deliver_to f x ch"] by (auto simp: deliver_to_def split: option.split bool.split)
  qed
qed simp

lemma mailbox_step_frame:
  assumes "subs_with i flt l"
  shows "mailbox i (dispatch_to_subs f l) = mailbox_step flt i (OpFrame f) (mailbox i l)"
proof (cases "i \<in> sub_id ` set (l_subs l)")
  case True
  then obtain s where s: "s \<in> set (l_subs l)" "sub_id s = i" by auto
  then have "sub_flt s = flt" "\<not> sub_closed s" "distinct (map sub_id (l_subs l))"
    using assms by (auto simp: subs_with_def subs_inv_def)
  then show ?thesis
    using fold_deliver [of "l_subs l" s f "l_chans l"] s True
    by (auto simp: mailbox_def dispatch_to_subs_def deliver_to_def SUB_CHAN_DEPTH_def split: option.split bool.split)
next
  case False
  then show ?thesis using fold_deliver_other by (simp add: mailbox_def dispatch_to_subs_def)
qed

lemma sub_step_keeps: "subs_inv l \<Longrightarrow> subs_inv (sub_step op l)"
proof (cases op)
  case (OpCancel j)
  then show "subs_inv l \<Longrightarrow> subs_inv (sub_step op l)"
    using sub_cancel_subs [of l j] by (auto simp: subs_inv_def distinct_map_filter)
next
  case (OpSubscribe f)
  then show "subs_inv l \<Longrightarrow> subs_inv (sub_step op l)"
    by (fastforce simp: subs_inv_def sub_subscribe_def Let_def)
qed (auto simp: subs_inv_def dispatch_to_subs_def sub_recv_def split: list.split)

lemma sub_step_mailbox:
  assumes w: "subs_with i flt l"
  shows "subs_with i flt (sub_step op l) \<and> mailbox i (sub_step op l) = mailbox_step flt i op (mailbox i l)"
proof -
  have inv: "subs_inv l" using w by (simp add: subs_with_def)
  note keep = sub_step_keeps [OF inv, of op]
  show ?thesis
  proof (cases op)
    case (OpSubscribe f)
    then show ?thesis using w keep by (auto simp: subs_with_def mailbox_def sub_subscribe_def Let_def)
  next
    case (OpCancel j)
    then show ?thesis
      using w keep sub_cancel_subs [OF inv, of j] by (auto simp: subs_with_def mailbox_def image_iff)
  next
    case (OpFrame f)
    then show ?thesis
      using w keep mailbox_step_frame [OF w, of f] by (auto simp: subs_with_def dispatch_to_subs_def)
  next
    case (OpRecv j)
    then show ?thesis using w keep by (auto simp: subs_with_def mailbox_def sub_recv_def split: list.split)
  qed
qed

lemma sub_run_mailbox:
  "subs_with i flt l \<Longrightarrow> mailbox i (fold sub_step ops l) = fold (mailbox_step flt i) ops (mailbox i l)"
proof (induction ops arbitrary: l)
  case (Cons op ops)
  then show ?case using sub_step_mailbox [OF Cons.prems, of op] by simp
qed simp

lemma sub_run_inv: "subs_inv l \<Longrightarrow> subs_inv (fold sub_step ops l)"
  by (induction ops arbitrary: l) (simp_all add: sub_step_keeps)

lemma sub_subscribe_with:
  assumes "subs_inv l" "sub_subscribe flt l = (i, l')"
  shows "subs_with i (case flt of Some g \<Rightarrow> g | None \<Rightarrow> (\<lambda>_. Some True)) l' \<and> mailbox i l' = (True, [])"
proof -
  have "subs_inv l'" using sub_step_keeps [OF assms(1), of "OpSubscribe flt"] assms(2) by simp
  moreover have "\<forall>s \<in> set (l_subs l). sub_id s \<noteq> i"
    using assms by (auto simp: subs_inv_def sub_subscribe_def Let_def)
  ultimately show ?thesis using assms(2) by (auto simp: sub_subscribe_def Let_def subs_with_def mailbox_def)
qed

text \<open>
  C21. Subscribers do not disturb each other: after any history of the listener, a new subscription behaves,
  under every further sequence of frames, subscriptions, cancellations and receptions of all threads, as a
  mailbox of its own with eight places.  It collects, in order, the frames its filter accepts, loses one
  only when it is full, ignores a filter that panics, and stays closed after its cancellation whatever the
  others do.
\<close>

theorem subscriber_isolated:
  "case sub_subscribe flt (fold sub_step before (listener_new slaves)) of (i, l) \<Rightarrow>
     mailbox i (fold sub_step later l) =
       fold (mailbox_step (case flt of Some g \<Rightarrow> g | None \<Rightarrow> (\<lambda>_. Some True)) i) later (True, [])"
proof -
  let ?l0 = "fold sub_step before (listener_new slaves)" and ?f = "case flt of Some g \<Rightarrow> g | None \<Rightarrow> (\<lambda>_. Some True)"
  have inv: "subs_inv ?l0" by (rule sub_run_inv [OF subs_inv_new])
  obtain i l where s: "sub_subscribe flt ?l0 = (i, l)" by fastforce
  have "subs_with i ?f l" "mailbox i l = (True, [])"
    using sub_subscribe_with [OF inv s] by simp_all
  then show ?thesis using sub_run_mailbox [of i ?f l later] s by simp
qed

end
