(* ===== verification/AutomationState.thy ===== *)
theory AutomationState
  imports Config
begin

text \<open>
  \<open>src/automation_state.rs\<close>: the two-line state file, its atomic replacement and the \<open>Persister\<close>.  The
  file system is a map from paths to contents; the outcome of each system call is an argument, so that
  every failure, and a crash at any point of a write, is covered.
\<close>

section \<open>Format\<close>

record auto_state =
  au_unlock :: bool
  au_hangup :: bool

definition parse_bool :: "string \<Rightarrow> bool option" where
  "parse_bool v =
     (let l = map to_ascii_lower v in
      if l = ''true'' \<or> l = ''1'' then Some True else if l = ''false'' \<or> l = ''0'' then Some False else None)"

record parse_acc =
  pa_unlock :: bool
  pa_hangup :: bool
  pa_saw_unlock :: bool
  pa_saw_hangup :: bool

definition parse_state_line :: "string \<Rightarrow> parse_acc \<Rightarrow> parse_acc option" where
  "parse_state_line line a =
     (let s = trim line in
      if s = [] then Some a
      else if hd s = CHR '';'' \<or> hd s = CHR ''#'' then Some a
      else
        (case position (\<lambda>c. c = CHR ''='') s of
           None \<Rightarrow> None
         | Some eq \<Rightarrow>
             if \<not> eq > 0 then None
             else
               let key = trim (take eq s); val = trim (drop (eq + 1) s) in
               (case parse_bool val of
                  None \<Rightarrow> None
                | Some b \<Rightarrow>
                    if key = ''auto_unlock'' then Some (a\<lparr>pa_unlock := b, pa_saw_unlock := True\<rparr>)
                    else if key = ''auto_hangup'' then Some (a\<lparr>pa_hangup := b, pa_saw_hangup := True\<rparr>)
                    else None)))"

fun parse_state_lines :: "string list \<Rightarrow> parse_acc \<Rightarrow> parse_acc option" where
  "parse_state_lines [] a = Some a"
| "parse_state_lines (l # ls) a = (case parse_state_line l a of None \<Rightarrow> None | Some a' \<Rightarrow> parse_state_lines ls a')"

text \<open>\<open>parse\<close>; \<open>None\<close> is \<open>ParseError\<close>.\<close>

definition state_parse :: "byte list \<Rightarrow> auto_state option" where
  "state_parse raw =
     (if \<not> utf8_valid raw then None
      else
        (case parse_state_lines (split_on (CHR 0x0a) (of_bytes raw))
                \<lparr>pa_unlock = False, pa_hangup = False, pa_saw_unlock = False, pa_saw_hangup = False\<rparr> of
           None \<Rightarrow> None
         | Some a \<Rightarrow>
             if \<not> pa_saw_unlock a \<or> \<not> pa_saw_hangup a then None
             else Some \<lparr>au_unlock = pa_unlock a, au_hangup = pa_hangup a\<rparr>))"

definition render :: "auto_state \<Rightarrow> byte list" where
  "render st = as_bytes (''auto_unlock='' @ (if au_unlock st then ''true'' else ''false'') @ [CHR 0x0a]
     @ ''auto_hangup='' @ (if au_hangup st then ''true'' else ''false'') @ [CHR 0x0a])"

section \<open>Atomic write\<close>

type_synonym files = "string \<Rightarrow> byte list option"

definition TEMP_SUFFIX :: string where "TEMP_SUFFIX = ''.tmp''"

text \<open>
  \<open>fs::write\<close> with its outcome: a failure leaves a prefix of the data (or, when the file could not be
  opened, the old content).
\<close>

datatype write_outcome = WriteOk | OpenFailed string | WriteFailed nat string

fun fs_write :: "string \<Rightarrow> byte list \<Rightarrow> write_outcome \<Rightarrow> files \<Rightarrow> string option \<times> files" where
  "fs_write p data WriteOk fs = (None, fs(p \<mapsto> data))"
| "fs_write p data (OpenFailed e) fs = (Some e, fs)"
| "fs_write p data (WriteFailed n e) fs = (Some e, fs(p \<mapsto> take n data))"

text \<open>\<open>fs::rename\<close> replaces the target in one step or fails.\<close>

fun fs_rename :: "string \<Rightarrow> string \<Rightarrow> string option \<Rightarrow> files \<Rightarrow> string option \<times> files" where
  "fs_rename p q (Some e) fs = (Some e, fs)"
| "fs_rename p q None fs = (None, (fs(q := fs p))(p := None))"

record io_oracle =
  io_write :: write_outcome
  io_rename :: "string option"
  io_remove_ok :: bool

definition write_atomic :: "io_oracle \<Rightarrow> string \<Rightarrow> auto_state \<Rightarrow> files \<Rightarrow> string option \<times> files" where
  "write_atomic io path st fs =
     (let tmp = path @ TEMP_SUFFIX in
      case fs_write tmp (render st) (io_write io) fs of
        (Some e, fs1) \<Rightarrow> (Some e, fs1)
      | (None, fs1) \<Rightarrow>
          (case fs_rename tmp path (io_rename io) fs1 of
             (Some e, fs2) \<Rightarrow> (Some e, if io_remove_ok io then fs2(tmp := None) else fs2)
           | (None, fs2) \<Rightarrow> (None, fs2)))"

text \<open>
  What the disk can hold when the daemon dies during a call: the state before it, any prefix of the data
  in the temporary file, and the state after the rename.
\<close>

inductive crash_during :: "string \<Rightarrow> auto_state \<Rightarrow> files \<Rightarrow> files \<Rightarrow> bool" for path st fs where
  crash_before: "crash_during path st fs fs"
| crash_write: "crash_during path st fs (fs(path @ TEMP_SUFFIX \<mapsto> take n (render st)))"
| crash_after: "write_atomic io path st fs = (e, fs') \<Longrightarrow> crash_during path st fs fs'"

section \<open>Persister\<close>

record persister =
  ps_has_wrote :: bool
  ps_last :: auto_state

definition persister_new :: persister where
  "persister_new = \<lparr>ps_has_wrote = False, ps_last = \<lparr>au_unlock = False, au_hangup = False\<rparr>\<rparr>"

text \<open>\<open>persist\<close> under its lock; \<open>cur\<close> is what the value source returns there, the result the log line.\<close>

definition persist :: "io_oracle \<Rightarrow> string \<Rightarrow> auto_state \<Rightarrow> persister \<Rightarrow> files \<Rightarrow> string option \<times> persister \<times> files" where
  "persist io path cur ps fs =
     (if ps_has_wrote ps \<and> cur = ps_last ps then (None, ps, fs)
      else
        (case write_atomic io path cur fs of
           (Some e, fs') \<Rightarrow>
             (Some (''automation.state persist failed (best-effort, flag still applied in-memory): '' @ e), ps, fs')
         | (None, fs') \<Rightarrow> (None, ps\<lparr>ps_last := cur, ps_has_wrote := True\<rparr>, fs')))"

section \<open>The format\<close>

text \<open>
  On lines without white space and without capitals the reader does not depend on \<open>trim\<close> and on the case
  folding, so that it can be evaluated on the characters alone.
\<close>

definition plain_char :: "char \<Rightarrow> bool" where
  "plain_char c \<longleftrightarrow> graphic c \<and> to_ascii_lower c = c"

fun plain_value :: "string \<Rightarrow> bool option" where
  "plain_value v =
     (if v = ''true'' \<or> v = ''1'' then Some True else if v = ''false'' \<or> v = ''0'' then Some False else None)"

fun plain_line :: "string \<Rightarrow> parse_acc \<Rightarrow> parse_acc option" where
  "plain_line s a =
     (if s = [] \<or> hd s = CHR '';'' \<or> hd s = CHR ''#'' then Some a
      else
        (case position (\<lambda>c. c = CHR ''='') s of
           None \<Rightarrow> None
         | Some eq \<Rightarrow>
             if eq = 0 then None
             else
               (case plain_value (drop (eq + 1) s) of
                  None \<Rightarrow> None
                | Some b \<Rightarrow>
                    if take eq s = ''auto_unlock'' then Some (a\<lparr>pa_unlock := b, pa_saw_unlock := True\<rparr>)
                    else if take eq s = ''auto_hangup'' then Some (a\<lparr>pa_hangup := b, pa_saw_hangup := True\<rparr>)
                    else None)))"

fun plain_lines :: "string list \<Rightarrow> parse_acc \<Rightarrow> parse_acc option" where
  "plain_lines [] a = Some a"
| "plain_lines (l # ls) a = (case plain_line l a of None \<Rightarrow> None | Some a' \<Rightarrow> plain_lines ls a')"

lemma trim_plain: "list_all plain_char s \<Longrightarrow> trim s = s"
  by (rule trim_graphic) (auto simp: list_all_iff plain_char_def)

lemma parse_bool_plain: "list_all plain_char v \<Longrightarrow> parse_bool v = plain_value v"
  by (simp add: parse_bool_def plain_char_def list_all_iff map_idI)

lemma parse_line_plain:
  assumes "list_all plain_char s"
  shows "parse_state_line s a = plain_line s a"
proof -
  have sub: "list_all plain_char (take n s)" "list_all plain_char (drop n s)" for n
    using assms by (auto simp: list_all_iff dest: in_set_takeD in_set_dropD)
  show ?thesis
    unfolding parse_state_line_def
    by (simp add: trim_plain [OF assms] trim_plain [OF sub(1)] trim_plain [OF sub(2)] parse_bool_plain [OF sub(2)]
        Let_def split: option.split)
qed

lemma parse_lines_plain:
  "list_all (list_all plain_char) ls \<Longrightarrow> parse_state_lines ls a = plain_lines ls a"
  by (induction ls arbitrary: a) (simp_all add: parse_line_plain del: plain_line.simps split: option.split)

definition state_text :: "auto_state \<Rightarrow> string" where
  "state_text st = ''auto_unlock='' @ (if au_unlock st then ''true'' else ''false'') @ [CHR 0x0a]
     @ ''auto_hangup='' @ (if au_hangup st then ''true'' else ''false'') @ [CHR 0x0a]"

lemma render_text: "render st = as_bytes (state_text st)"
  by (simp add: render_def state_text_def)

lemma state_text_chars: "c \<in> set (state_text st) \<Longrightarrow> c = CHR 0x0a \<or> plain_char c"
proof -
  have p: "list_all plain_char ''aefghklnoprstuc=_''"
    by (simp add: plain_char_def graphic_def to_ascii_lower_def)
  have "set (state_text st) \<subseteq> insert (CHR 0x0a) (set ''aefghklnoprstuc=_'')"
    by (cases "au_unlock st"; cases "au_hangup st") (simp_all add: state_text_def)
  with p show "c \<in> set (state_text st) \<Longrightarrow> c = CHR 0x0a \<or> plain_char c"
    unfolding list_all_iff by blast
qed

definition plain_parse :: "string \<Rightarrow> auto_state option" where
  "plain_parse s =
     (case plain_lines (split_on (CHR 0x0a) s)
             \<lparr>pa_unlock = False, pa_hangup = False, pa_saw_unlock = False, pa_saw_hangup = False\<rparr> of
        None \<Rightarrow> None
      | Some a \<Rightarrow>
          if \<not> pa_saw_unlock a \<or> \<not> pa_saw_hangup a then None
          else Some \<lparr>au_unlock = pa_unlock a, au_hangup = pa_hangup a\<rparr>)"

lemma state_parse_plain:
  assumes "\<And>c. c \<in> set s \<Longrightarrow> c = CHR 0x0a \<or> plain_char c"
  shows "state_parse (as_bytes s) = plain_parse s"
proof -
  have "list_all (list_all plain_char) (split_on (CHR 0x0a) s)"
    using assms split_on_parts [of _ "CHR 0x0a" s] by (fastforce simp: list_all_iff)
  moreover have "utf8_valid (as_bytes s)"
    using assms by (intro utf8_valid_ascii)
      (fastforce simp: ascii_bytes_def as_bytes_def plain_char_def graphic_def word_less_nat_alt word_le_nat_alt list_all_iff)
  ultimately show ?thesis by (simp add: state_parse_def plain_parse_def parse_lines_plain)
qed

text \<open>Every prefix of the four possible files, evaluated.\<close>

definition prefixes_ok :: "auto_state \<Rightarrow> bool" where
  "prefixes_ok st =
     list_all (\<lambda>n. plain_parse (take n (state_text st)) = (if n < length (state_text st) - 1 then None else Some st))
       [0..<length (state_text st)]"

lemma prefixes_ok_all: "prefixes_ok st"
proof -
  have "prefixes_ok \<lparr>au_unlock = True, au_hangup = True\<rparr>" "prefixes_ok \<lparr>au_unlock = True, au_hangup = False\<rparr>"
    "prefixes_ok \<lparr>au_unlock = False, au_hangup = True\<rparr>" "prefixes_ok \<lparr>au_unlock = False, au_hangup = False\<rparr>"
    by code_simp+
  then show ?thesis by (cases st; cases "au_unlock st"; cases "au_hangup st") simp_all
qed

lemma take_as_bytes: "take n (as_bytes s) = as_bytes (take n s)"
  by (simp add: as_bytes_def take_map)

lemma state_prefix_parse:
  "state_parse (take n (render st)) = (if n < length (render st) - 1 then None else Some st)"
proof -
  have ok: "list_all (\<lambda>n. plain_parse (take n (state_text st)) = (if n < length (state_text st) - 1 then None else Some st))
      [0..<length (state_text st)]"
    using prefixes_ok_all unfolding prefixes_ok_def .
  have full: "plain_parse (state_text st) = Some st"
    by (cases st; cases "au_unlock st"; cases "au_hangup st") (simp_all add: state_text_def plain_parse_def)
  have "state_parse (take n (render st)) = plain_parse (take n (state_text st))"
    unfolding render_text take_as_bytes
    by (rule state_parse_plain) (blast dest: in_set_takeD state_text_chars)
  moreover have "0 < length (state_text st)" by (simp add: state_text_def)
  ultimately show ?thesis
    using ok full by (cases "n < length (state_text st)") (auto simp: render_text list_all_iff)
qed

lemma state_parse_render: "state_parse (render st) = Some st"
  using state_prefix_parse [of "length (render st)" st] by (simp add: render_def)

text \<open>
  What a torn state file can do: cut off anywhere before the last digit of its second value it is rejected
  as a whole, and otherwise it reads as the state that was written, never as another one.
\<close>

theorem state_parse_prefix:
  "state_parse (take n (render st)) = (if n < length (render st) - 1 then None else Some st)"
  by (rule state_prefix_parse)

section \<open>The file over the life of the daemon\<close>

text \<open>
  Any sequence of \<open>persist\<close> calls, each with its own outcome, and of crashes followed by a restart (which
  makes a new \<open>Persister\<close>); \<open>h\<close> lists the flag values that were to be stored.
\<close>

inductive persist_run :: "string \<Rightarrow> files \<Rightarrow> persister \<Rightarrow> files \<Rightarrow> auto_state list \<Rightarrow> bool" for path fs0 where
  run_start: "persist_run path fs0 persister_new fs0 []"
| run_persist: "persist_run path fs0 ps fs h \<Longrightarrow> persist io path cur ps fs = (e, ps', fs') \<Longrightarrow>
    persist_run path fs0 ps' fs' (h @ [cur])"
| run_crash: "persist_run path fs0 ps fs h \<Longrightarrow> crash_during path cur fs fs' \<Longrightarrow>
    persist_run path fs0 persister_new fs' (h @ [cur])"

lemma TEMP_SUFFIX_not_Nil [simp]: "TEMP_SUFFIX \<noteq> []"
  by (simp add: TEMP_SUFFIX_def)

lemma write_atomic_cases:
  assumes "write_atomic io path st fs = (e, fs')"
  shows "e = None \<and> fs' path = Some (render st) \<or> e \<noteq> None \<and> fs' path = fs path"
  using assms
  by (cases "io_write io"; cases "io_rename io") (auto simp: write_atomic_def Let_def split: if_splits)

lemma write_atomic_frame:
  assumes "write_atomic io path st fs = (e, fs')" "q \<noteq> path" "q \<noteq> path @ TEMP_SUFFIX"
  shows "fs' q = fs q"
  using assms
  by (cases "io_write io"; cases "io_rename io") (auto simp: write_atomic_def Let_def split: if_splits)

lemma crash_during_cases: "crash_during path st fs fs' \<Longrightarrow> fs' path = fs path \<or> fs' path = Some (render st)"
  by (induction rule: crash_during.induct) (auto dest: write_atomic_cases)

definition persisted :: "string \<Rightarrow> persister \<Rightarrow> files \<Rightarrow> bool" where
  "persisted path ps fs \<longleftrightarrow> (ps_has_wrote ps \<longrightarrow> fs path = Some (render (ps_last ps)))"

lemma persist_keeps:
  assumes "persist io path cur ps fs = (e, ps', fs')" "persisted path ps fs"
  shows "persisted path ps' fs'"
    and "e = None \<and> fs' path = Some (render cur) \<or> e \<noteq> None \<and> fs' path = fs path"
  using assms
  by (auto simp: persist_def persisted_def split: if_splits prod.splits option.splits dest: write_atomic_cases)

lemma persist_run_inv:
  assumes "persist_run path fs0 ps fs h"
  shows "persisted path ps fs \<and> (fs path = fs0 path \<or> fs path \<in> (Some \<circ> render) ` set h)"
  using assms
proof induction
  case run_start
  show ?case by (simp add: persisted_def persister_new_def)
next
  case (run_persist ps fs h io cur e ps' fs')
  then show ?case using persist_keeps [OF run_persist.hyps(2)] by fastforce
next
  case (run_crash ps fs h cur fs')
  then show ?case using crash_during_cases [OF run_crash.hyps(2)] by (auto simp: persisted_def persister_new_def)
qed

text \<open>
  C18. Crash safety of the state file: whatever sequence of writes, failed writes, crashes in the middle of a
  write and restarts the daemon goes through, its state file holds what it held at first or the complete
  text of a state that was to be stored, and such a text reads back as that state.
\<close>

theorem state_file_never_torn:
  assumes "persist_run path fs0 ps fs h"
  shows "fs path = fs0 path \<or> (\<exists>raw st. fs path = Some raw \<and> st \<in> set h \<and> state_parse raw = Some st)"
  using persist_run_inv [OF assms] by (auto simp: state_parse_render)

theorem state_file_never_torn_witness:
  "let st = \<lparr>au_unlock = True, au_hangup = False\<rparr>; fs = (\<lambda>_. None)(''s.tmp'' \<mapsto> take 5 (render st)) in
   fs ''s'' = None \<or> (\<exists>raw st'. fs ''s'' = Some raw \<and> st' \<in> set [st] \<and> state_parse raw = Some st')"
  unfolding Let_def
  using state_file_never_torn
    [OF run_crash [OF run_start crash_write, of "''s''" "\<lambda>_. None" 5 "\<lparr>au_unlock = True, au_hangup = False\<rparr>"]]
  by (simp add: TEMP_SUFFIX_def)

text \<open>
  A \<open>persist\<close> that logs nothing has stored the current flags, also when it skipped the write because
  they were stored before; one that logs a failure leaves the file as it was.  No other file than the state
  file and its temporary file is touched.
\<close>

theorem persist_stores:
  assumes "persist_run path fs0 ps fs h" "persist io path cur ps fs = (e, ps', fs')"
  shows "fs' path = (if e = None then Some (render cur) else fs path) \<and>
    fs' |` (- {path, path @ TEMP_SUFFIX}) = fs |` (- {path, path @ TEMP_SUFFIX})"
proof -
  have "fs' q = fs q" if "q \<noteq> path" "q \<noteq> path @ TEMP_SUFFIX" for q
    using assms(2) that by (auto simp: persist_def split: if_splits prod.splits option.splits dest: write_atomic_frame)
  moreover have "persisted path ps fs" using persist_run_inv [OF assms(1)] by simp
  ultimately show ?thesis using persist_keeps(2) [OF assms(2)] by (auto simp: restrict_map_def)
qed

definition all_ok :: io_oracle where
  "all_ok = \<lparr>io_write = WriteOk, io_rename = None, io_remove_ok = True\<rparr>"

theorem persist_stores_witness:
  "let st = \<lparr>au_unlock = True, au_hangup = False\<rparr>; (e, ps, fs) = persist all_ok ''s'' st persister_new (\<lambda>_. None) in
   fs ''s'' = Some (render st) \<and> fs |` (- {''s'', ''s.tmp''}) = (\<lambda>_. None)"
proof -
  let ?st = "\<lparr>au_unlock = True, au_hangup = False\<rparr>"
  obtain e ps fs where p: "persist all_ok ''s'' ?st persister_new (\<lambda>_. None) = (e, ps, fs)"
    by (cases "persist all_ok ''s'' ?st persister_new (\<lambda>_. None)")
  have "e = None" using p by (auto simp: persist_def persister_new_def all_ok_def write_atomic_def Let_def)
  then show ?thesis
    using persist_stores [OF run_start p] p by (simp add: TEMP_SUFFIX_def restrict_map_def fun_eq_iff)
qed

end
