(* ===== verification/Orchestration.thy ===== *)
theory Orchestration
  imports Worker Listen18022 Config AutomationState "HOL-Library.AList"
begin

text \<open>
  \<open>src/orchestration.rs\<close>: the wiring of the daemon.  The start values of the automation flags, the doorbell
  callback of the 18022 listener, the number query callback of the 6672 listener, and the hand-over of an
  unlock request to the worker.

  What a callback does outside its state goes to an \<open>outbox\<close>: the lines logged, the pushes handed to
  the push threads and the datagrams sent.
\<close>

section \<open>Addresses as text\<close>

definition ipv4_str :: "byte list \<Rightarrow> string" where
  "ipv4_str ip = show_nat (unat (ip ! 0)) @ ''.'' @ show_nat (unat (ip ! 1)) @ ''.'' @ show_nat (unat (ip ! 2)) @ ''.''
     @ show_nat (unat (ip ! 3))"

definition parse_ipv4 :: "string \<Rightarrow> byte list option" where
  "parse_ipv4 s = ipv4_from_str s"

section \<open>Automation flags\<close>

text \<open>\<open>load_state_file\<close> over the outcome of \<open>fs::read\<close>.\<close>

definition load_state_file :: "string \<Rightarrow> (fs_error + byte list) \<Rightarrow> string + auto_state option" where
  "load_state_file path content =
     (case content of
        Ok raw \<Rightarrow>
          (case state_parse raw of
             Some st \<Rightarrow> Ok (Some st)
           | None \<Rightarrow> Err ''state file present but unparseable'')
      | Err FsNotFound \<Rightarrow> Ok None
      | Err (FsOther e) \<Rightarrow> Err (''read '' @ path @ '': '' @ e))"

text \<open>The result is the two flags, the source they come from, and the lines logged.\<close>

definition load_automation_flags ::
  "string \<Rightarrow> (fs_error + byte list) \<Rightarrow> bool \<Rightarrow> config \<Rightarrow> (bool \<times> bool \<times> string) \<times> string list" where
  "load_automation_flags path content env_set cfg =
     (let loaded = load_state_file path content;
          warn = (case loaded of
                    Err msg \<Rightarrow> [''automation.state load failed, falling back to config defaults: '' @ msg]
                  | Ok _ \<Rightarrow> []);
          hint = (if env_set
                  then [''DOORACCESS_EXPERIMENTAL_AUTO_* set but ignored (config.ini present; flags from [automation])'']
                  else [])
      in case loaded of
           Ok (Some st) \<Rightarrow> ((au_unlock st, au_hangup st, ''state''), [])
         | _ \<Rightarrow>
             ((a_auto_unlock (c_automation cfg), a_auto_hangup (c_automation cfg), ''config''), warn @ hint))"

text \<open>What \<open>fs::read\<close> finds in a file system.\<close>

definition fs_read :: "files \<Rightarrow> string \<Rightarrow> fs_error + byte list" where
  "fs_read fs path = (case fs path of Some raw \<Rightarrow> Ok raw | None \<Rightarrow> Err FsNotFound)"

section \<open>The doorbell\<close>

record outbox =
  ob_lines :: "string list"
  ob_pushes :: "push list"
  ob_udp :: "(byte list \<times> u16 \<times> byte list) list"

definition ob_log :: "string \<Rightarrow> outbox \<Rightarrow> outbox" where
  "ob_log line ob = ob\<lparr>ob_lines := ob_lines ob @ [line]\<rparr>"

definition ob_push :: "push option \<Rightarrow> outbox \<Rightarrow> outbox" where
  "ob_push p ob = (case p of Some x \<Rightarrow> ob\<lparr>ob_pushes := ob_pushes ob @ [x]\<rparr> | None \<Rightarrow> ob)"

definition station_entry :: "station \<Rightarrow> (string \<times> string) list \<Rightarrow> (string \<times> string) list" where
  "station_entry st m =
     (case parse_uri (st_sip st) of Ok (_, ip_str, _) \<Rightarrow> AList.update ip_str (st_sip st) m | Err _ \<Rightarrow> m)"

definition parse_stations_to_ip_map :: "config \<Rightarrow> (string \<times> string) list" where
  "parse_stations_to_ip_map cfg = fold station_entry (c_stations cfg) []"

text \<open>The address of the configured interface, where there is one.\<close>

definition iface_ip :: "config \<Rightarrow> (wire_error + byte list list) \<Rightarrow> byte list option" where
  "iface_ip cfg addrs =
     (if c_iface cfg = [] then None
      else (case get_iface_ip (c_iface cfg) addrs of Ok ip \<Rightarrow> Some ip | Err _ \<Rightarrow> None))"

text \<open>The room URI of a doorbell event, rebuilt when the ring went to another address than the configured one.\<close>

definition ring_room_uri :: "config \<Rightarrow> string \<Rightarrow> byte list option \<Rightarrow> byte list \<Rightarrow> string" where
  "ring_room_uri cfg indoor_name indoor_ip dst =
     (case indoor_ip of
        Some iip \<Rightarrow>
          if iip \<noteq> dst \<and> indoor_name \<noteq> [] then indoor_name @ ''@'' @ ipv4_str dst @ '':18022'' else c_sip cfg
      | None \<Rightarrow> c_sip cfg)"

definition on_detect :: "config \<Rightarrow> (wire_error + byte list list) \<Rightarrow> bool \<Rightarrow> detected_frame \<Rightarrow> outbox \<Rightarrow> outbox" where
  "on_detect cfg addrs shutdown d ob =
     (let (indoor_name, indoor_ip) =
            (case parse_uri (c_sip cfg) of Ok (name, ip_str, _) \<Rightarrow> (name, parse_ipv4 ip_str) | Err _ \<Rightarrow> ([], None));
          outdoor_by_ip = parse_stations_to_ip_map cfg;
          outdoor_ips = List.map_filter parse_ipv4 (map fst outdoor_by_ip);
          daemon_ip = iface_ip cfg addrs;
          dir = infer_direction (df_src_ip d) (df_dst_ip d) daemon_ip indoor_ip outdoor_ips;
          ob1 = ob_log (format_log (df_req d) (df_src_ip d) (df_dst_ip d) (df_body d) dir) ob
      in if df_req d \<noteq> 704 then ob1
         else
           let src_str = ipv4_str (df_src_ip d) in
           case map_of outdoor_by_ip src_str of
             None \<Rightarrow>
               ob_log (''ring: src='' @ src_str
                 @ '' not in cfg.Stations (dropped, neighbor or unconfigured station)'') ob1
           | Some outdoor_uri \<Rightarrow>
               ob_push (spawn_push shutdown ''ring''
                 [(''from'', outdoor_uri), (''to'', ring_room_uri cfg indoor_name indoor_ip (df_dst_ip d)),
                  (''result'', ''0'')]) ob1)"

text \<open>\<open>build_listen18022\<close>: the listener with its callback, nothing without interfaces.\<close>

definition build_listen18022 ::
  "config \<Rightarrow> (wire_error + byte list list) \<Rightarrow> bool \<Rightarrow> string list
   \<Rightarrow> (listener18022 \<times> (detected_frame \<Rightarrow> outbox \<Rightarrow> outbox)) option" where
  "build_listen18022 cfg addrs shutdown slaves =
     (if slaves = [] then None else Some (listener_new slaves, on_detect cfg addrs shutdown))"

section \<open>Number queries\<close>

text \<open>
  The callback \<open>build_number_query_callback\<close> installs; \<open>sent\<close> is the outcome of the datagram's send and
  \<open>dbg\<close> the rendering of the interface name by \<open>{:?}\<close>.
\<close>

definition number_query_callback ::
  "string \<Rightarrow> byte list option \<Rightarrow> string \<Rightarrow> (string + unit) \<Rightarrow> byte list \<Rightarrow> frame6672 \<Rightarrow> outbox \<Rightarrow> outbox" where
  "number_query_callback my_num our_ip dbg sent src_ip frame ob =
     (if decode_bcd (fr_target_bcd frame) \<noteq> my_num then ob
      else
        (case our_ip of
           None \<Rightarrow> ob_log (''number_query: cannot determine local IPv4 (iface='' @ dbg @ '')'') ob
         | Some ip \<Rightarrow>
             let resp = build_number_query_response frame ip in
             (case sent of
                Ok _ \<Rightarrow>
                  ob_log (''number_query: replied to '' @ ipv4_str src_ip @ '' with our IP '' @ ipv4_str ip)
                    (ob\<lparr>ob_udp := ob_udp ob @ [(src_ip, DEFAULT_UDP_PORT, resp)]\<rparr>)
              | Err e \<Rightarrow> ob_log (''number_query: send: '' @ e) ob)))"

definition build_number_query_callback ::
  "config \<Rightarrow> (wire_error + byte list list) \<Rightarrow> string \<Rightarrow> (string + unit)
   \<Rightarrow> (byte list \<Rightarrow> frame6672 \<Rightarrow> outbox \<Rightarrow> outbox) option \<times> string list" where
  "build_number_query_callback cfg addrs dbg sent =
     (case parse_uri (c_sip cfg) of
        Err _ \<Rightarrow> (None, [''number_query: cfg.sip parse failed, callback not installed''])
      | Ok (my_num, _, _) \<Rightarrow> (Some (number_query_callback my_num (iface_ip cfg addrs) dbg sent), []))"

section \<open>Manual unlock\<close>

definition worker_unavailable_outcome :: unlock_outcome where
  "worker_unavailable_outcome =
     \<lparr>uo_result = RESULT_ERR, uo_retries = 0, uo_terminated_by_bye = False, uo_wire_kind = Some Other\<rparr>"

text \<open>\<open>WorkerUnlockDispatch::dispatch\<close>; the result \<open>None\<close> would be a call that never returns.\<close>

definition dispatch ::
  "worker_deps \<Rightarrow> byte list \<Rightarrow> byte list \<Rightarrow> string \<Rightarrow> u16 \<Rightarrow> worker_sys \<Rightarrow> unlock_outcome option \<times> worker_sys" where
  "dispatch deps caller callee ip port sys =
     (case reply_channel sys of (reply, sys1) \<Rightarrow>
      (case submit_job
              (JUnlock \<lparr>uj_caller = caller, uj_callee = callee, uj_ip = ip, uj_port = port, uj_reply = reply,
                        uj_per_attempt = None, uj_interval = UNLOCK_RETRY_INTERVAL\<rparr>) sys1 of
         (Err _, sys2) \<Rightarrow> (Some worker_unavailable_outcome, sys2)
       | (Ok _, sys2) \<Rightarrow>
           (case recv_reply deps reply sys2 of
              (Some (Some outcome), sys3) \<Rightarrow> (Some outcome, sys3)
            | (Some None, sys3) \<Rightarrow> (Some worker_unavailable_outcome, sys3)
            | (None, sys3) \<Rightarrow> (None, sys3))))"

section \<open>Addresses\<close>

lemma digit_of_val: "digit_char c \<Longrightarrow> digit_val c < 10 \<and> digit_of (digit_val c) = c"
proof -
  assume d: "digit_char c"
  let ?b = "of_char c :: byte"
  have r: "48 \<le> unat ?b" "unat ?b \<le> 57" using d by (simp_all add: digit_char_def is_ascii_digit_def word_le_nat_alt)
  then have "unat (?b - 0x30) = unat ?b - 48" by (simp add: unat_sub_if')
  moreover have "0x30 + of_nat (unat (?b - 0x30)) = ?b" by simp
  ultimately show ?thesis using r by (simp add: digit_val_def digit_of_def)
qed

lemma show_nat_dec_val:
  "list_all digit_char s \<Longrightarrow> s \<noteq> [] \<Longrightarrow> length s > 1 \<longrightarrow> hd s \<noteq> CHR ''0'' \<Longrightarrow> show_nat (dec_val s) = s"
proof (induction s rule: rev_induct)
  case (snoc c s)
  have c: "digit_val c < 10" "digit_of (digit_val c) = c" using digit_of_val [of c] snoc.prems(1) by auto
  show ?case
  proof (cases "s = []")
    case True
    then show ?thesis using c by (subst show_nat.simps) (simp add: dec_val_def)
  next
    case False
    then have h: "hd s \<noteq> CHR ''0''" using snoc.prems(3) by simp
    then have IH: "show_nat (dec_val s) = s" using snoc False by simp
    have "dec_val s \<noteq> 0"
    proof
      assume "dec_val s = 0"
      then have "s = show_nat 0" using IH by simp
      moreover have "digit_of 0 = CHR ''0''" using digit_of_val [of "CHR ''0''"] by (simp add: digit_char_def is_ascii_digit_def digit_val_def)
      ultimately show False using h by (simp add: show_nat.simps)
    qed
    then show ?thesis using c IH by (subst show_nat.simps) simp
  qed
qed simp


lemma show_nat_lead: "length (show_nat n) > 1 \<longrightarrow> hd (show_nat n) \<noteq> CHR ''0''"
proof (induction n rule: show_nat.induct)
  case (1 n)
  show ?case
  proof (cases "n < 10")
    case False
    let ?m = "n div 10"
    have ne: "show_nat ?m \<noteq> []" using show_nat_digits by blast
    have "hd (show_nat ?m) \<noteq> CHR ''0''"
    proof (cases "?m < 10")
      case True
      then have "digit_val (digit_of ?m) = ?m" using digit_of_range by blast
      moreover have "?m \<noteq> 0" using False by simp
      moreover have "digit_val CHR ''0'' = 0" by (simp add: digit_val_def)
      ultimately have "digit_of ?m \<noteq> CHR ''0''" by metis
      then show ?thesis using True by (simp add: show_nat.simps [of ?m])
    next
      case m: False
      then have "length (show_nat ?m) > 1"
        using show_nat_digits [of "?m div 10"] by (subst show_nat.simps) (simp add: Suc_le_eq)
      then show ?thesis using 1 False by blast
    qed
    then show ?thesis using False ne by (subst (2) show_nat.simps) simp
  qed (simp add: show_nat.simps)
qed

lemma length_show_octet: "n < 256 \<Longrightarrow> length (show_nat n) \<le> 3"
  by (simp add: show_nat.simps [of n] show_nat.simps [of "n div 10"] show_nat.simps [of "n div 10 div 10"])

lemma ipv4_octet_iff: "ipv4_octet s = Some b \<longleftrightarrow> s = show_nat (unat b)"
proof
  assume "ipv4_octet s = Some b"
  then have s: "1 \<le> length s" "list_all digit_char s" "length s > 1 \<longrightarrow> hd s \<noteq> CHR ''0''" "dec_val s \<le> 255"
    "b = of_nat (dec_val s)" by (auto simp: ipv4_octet_def split: if_splits)
  have "unat b = dec_val s" using s(4,5) by (simp add: unat_of_nat)
  then show "s = show_nat (unat b)" using show_nat_dec_val [of s] s by fastforce
next
  have u: "unat b < 256" by (rule unat_byte_lt)
  assume "s = show_nat (unat b)"
  then show "ipv4_octet s = Some b"
    using show_nat_digits [of "unat b"] show_nat_lead [of "unat b"] length_show_octet [OF u] u
    by (auto simp: ipv4_octet_def Suc_le_eq)
qed

lemma split_on_join: "split_on c s = p # ps \<Longrightarrow> s = p @ concat (map (\<lambda>q. c # q) ps)"
proof (induction s arbitrary: p ps)
  case (Cons x s)
  obtain q qs where q: "split_on c s = q # qs" by (cases "split_on c s") auto
  note ih = Cons.IH [OF q]
  show ?case
  proof (cases "x = c")
    case True
    then have "p = []" "ps = q # qs" using Cons.prems q by auto
    then show ?thesis using True ih by simp
  next
    case False
    then have "p = x # q" "ps = qs" using Cons.prems q by auto
    then show ?thesis using ih by simp
  qed
qed simp

text \<open>
  Dotted-decimal text and addresses correspond one to one: \<open>parse_ipv4\<close> accepts exactly the texts
  \<open>ipv4_str\<close> prints, so that comparing addresses as text, as the doorbell and the self-unlock filter do, is
  comparing addresses.
\<close>

lemma parse_ipv4_iff: "parse_ipv4 s = Some ip \<longleftrightarrow> length ip = 4 \<and> s = ipv4_str ip"
proof
  assume a: "parse_ipv4 s = Some ip"
  then obtain p q r t w x y z where sp: "split_on (CHR ''.'') s = [p, q, r, t]"
    and o: "ipv4_octet p = Some w" "ipv4_octet q = Some x" "ipv4_octet r = Some y" "ipv4_octet t = Some z"
    and ip: "ip = [w, x, y, z]"
    by (auto simp: parse_ipv4_def ipv4_from_str_def split: list.splits option.splits)
  show "length ip = 4 \<and> s = ipv4_str ip"
    using split_on_join [OF sp] o ip by (simp add: ipv4_octet_iff ipv4_str_def)
next
  assume "length ip = 4 \<and> s = ipv4_str ip"
  then obtain w x y z where ip: "ip = [w, x, y, z]" and s: "s = ipv4_str ip"
    by (auto simp: length_Suc_conv numeral_eq_Suc)
  have nd: "CHR ''.'' \<notin> set (show_nat n)" for n
    using show_nat_digits [of n] digit_char_not_special by (auto simp: list_all_iff)
  have "split_on (CHR ''.'') s = map (\<lambda>b. show_nat (unat b)) [w, x, y, z]"
    unfolding s ip using nd by (simp add: ipv4_str_def split_on_append split_on_no_sep)
  moreover have "ipv4_octet (show_nat (unat b)) = Some b" for b by (simp add: ipv4_octet_iff)
  ultimately show "parse_ipv4 s = Some ip"
    using ip by (simp add: parse_ipv4_def ipv4_from_str_def)
qed

section \<open>The flags after a restart\<close>

text \<open>
  Toggles survive a restart: when the flags have been stored without a logged failure, whatever writes,
  failures and crashes came before, the next start reads exactly these flags back from the state file,
  without a warning and whatever the configuration says.
\<close>

theorem restart_restores_flags:
  assumes "persist_run path fs0 ps fs h" "persist io path cur ps fs = (None, ps', fs')"
  shows "load_automation_flags path (fs_read fs' path) env_set cfg = ((au_unlock cur, au_hangup cur, ''state''), [])"
proof -
  have "fs' path = Some (render cur)"
    using persist_keeps(2) [OF assms(2)] persist_run_inv [OF assms(1)] by simp
  then show ?thesis
    by (simp add: load_automation_flags_def load_state_file_def fs_read_def state_parse_render)
qed

theorem restart_restores_flags_witness:
  "let st = \<lparr>au_unlock = True, au_hangup = False\<rparr>; (e, ps, fs) = persist all_ok ''s'' st persister_new (\<lambda>_. None) in
   load_automation_flags ''s'' (fs_read fs ''s'') False config_default = ((True, False, ''state''), [])"
proof -
  let ?st = "\<lparr>au_unlock = True, au_hangup = False\<rparr>"
  obtain e ps fs where p: "persist all_ok ''s'' ?st persister_new (\<lambda>_. None) = (e, ps, fs)"
    by (cases "persist all_ok ''s'' ?st persister_new (\<lambda>_. None)")
  have "e = None" using p by (auto simp: persist_def persister_new_def all_ok_def write_atomic_def Let_def)
  then show ?thesis using restart_restores_flags [OF run_start, of all_ok "''s''" ?st _ ps fs] p by simp
qed

section \<open>The doorbell reaches the configured stations' rings only\<close>

lemma ob_push_pushes: "ob_pushes (ob_push p ob) = ob_pushes ob @ (case p of Some x \<Rightarrow> [x] | None \<Rightarrow> [])"
  by (simp add: ob_push_def split: option.split)

lemma ob_log_facts [simp]: "ob_pushes (ob_log l ob) = ob_pushes ob" "ob_udp (ob_log l ob) = ob_udp ob"
  by (simp_all add: ob_log_def)

text \<open>The address map: an address is in it when a station of the configuration has it, and the last such station wins.\<close>

lemma station_entry_lookup:
  "map_of (station_entry st m) k =
     (case parse_uri (st_sip st) of Ok (_, ip_str, _) \<Rightarrow> if k = ip_str then Some (st_sip st) else map_of m k
      | Err _ \<Rightarrow> map_of m k)"
  by (auto simp: station_entry_def update_conv' split: sum.split)

lemma stations_fold_lookup:
  "map_of (fold station_entry sts m) k = Some uri \<Longrightarrow>
     map_of m k = Some uri \<or> (\<exists>st \<in> set sts. st_sip st = uri \<and> (\<exists>name port. parse_uri uri = Ok (name, k, port)))"
proof (induction sts arbitrary: m)
  case (Cons st sts)
  from Cons.IH [of "station_entry st m"] Cons.prems
  show ?case by (auto simp: station_entry_lookup split: sum.splits if_splits)
qed simp

lemma station_of_ip:
  assumes "map_of (parse_stations_to_ip_map cfg) k = Some uri"
  shows "\<exists>name port. uri \<in> st_sip ` set (c_stations cfg) \<and> parse_uri uri = Ok (name, k, port)"
  using stations_fold_lookup [of "c_stations cfg" "[]"] assms by (auto simp: parse_stations_to_ip_map_def)

lemma stations_fold_dom:
  "dom (map_of (fold station_entry sts m)) =
     dom (map_of m) \<union> {k. \<exists>st \<in> set sts. \<exists>name port. parse_uri (st_sip st) = Ok (name, k, port)}"
proof (induction sts arbitrary: m)
  case (Cons st sts)
  have "dom (map_of (station_entry st m)) = dom (map_of m) \<union> {k. \<exists>name port. parse_uri (st_sip st) = Ok (name, k, port)}"
    by (cases "parse_uri (st_sip st)") (auto simp: station_entry_lookup dom_def)
  then show ?case using Cons.IH by auto
qed simp

lemma stations_dom:
  "dom (map_of (parse_stations_to_ip_map cfg)) =
     {k. \<exists>st \<in> set (c_stations cfg). \<exists>name port. parse_uri (st_sip st) = Ok (name, k, port)}"
  using stations_fold_dom [of "c_stations cfg" "[]"] by (simp add: parse_stations_to_ip_map_def)

text \<open>A configured station has the address \<open>ip\<close>.\<close>

definition station_at :: "config \<Rightarrow> byte list \<Rightarrow> bool" where
  "station_at cfg ip \<longleftrightarrow>
     (\<exists>st \<in> set (c_stations cfg). \<exists>name s port. parse_uri (st_sip st) = Ok (name, s, port) \<and> parse_ipv4 s = Some ip)"

lemma station_at_lookup:
  assumes "length ip = 4"
  shows "station_at cfg ip \<longleftrightarrow> map_of (parse_stations_to_ip_map cfg) (ipv4_str ip) \<noteq> None"
proof -
  have "map_of (parse_stations_to_ip_map cfg) (ipv4_str ip) \<noteq> None \<longleftrightarrow> ipv4_str ip \<in> dom (map_of (parse_stations_to_ip_map cfg))"
    by auto
  then show ?thesis using assms by (auto simp: stations_dom station_at_def parse_ipv4_iff)
qed


definition ring_event :: "string \<Rightarrow> string \<Rightarrow> push" where
  "ring_event uri room = (''ring'', [''from'' \<mapsto> uri, ''to'' \<mapsto> room, ''result'' \<mapsto> ''0''])"

lemma spawn_push_ring:
  "spawn_push shutdown ''ring'' [(''from'', uri), (''to'', room), (''result'', ''0'')]
     = (if shutdown then None else Some (ring_event uri room))"
  by (simp add: spawn_push_def ring_event_def fun_eq_iff)

lemma on_detect_pushes:
  assumes "length (df_src_ip d) = 4"
  shows "if df_req d = 704 \<and> station_at cfg (df_src_ip d) \<and> \<not> shutdown
     then \<exists>uri room. uri \<in> st_sip ` set (c_stations cfg)
       \<and> (\<exists>name port. parse_uri uri = Ok (name, ipv4_str (df_src_ip d), port))
       \<and> ob_pushes (on_detect cfg addrs shutdown d ob) = ob_pushes ob @ [ring_event uri room]
     else ob_pushes (on_detect cfg addrs shutdown d ob) = ob_pushes ob"
proof (cases "df_req d = 704 \<and> station_at cfg (df_src_ip d) \<and> \<not> shutdown")
  case True
  then obtain uri where u: "map_of (parse_stations_to_ip_map cfg) (ipv4_str (df_src_ip d)) = Some uri"
    using station_at_lookup [OF assms] by auto
  then have "\<exists>room. ob_pushes (on_detect cfg addrs shutdown d ob) = ob_pushes ob @ [ring_event uri room]"
    using True by (simp add: on_detect_def Let_def ob_push_pushes spawn_push_ring case_prod_unfold) blast
  then show ?thesis using True station_of_ip [OF u] by auto
next
  case False
  then show ?thesis
    using station_at_lookup [OF assms, of cfg]
    by (auto simp: on_detect_def Let_def ob_push_pushes spawn_push_ring case_prod_unfold split: option.splits)
qed

lemma extract_tcp_ips:
  "extract_tcp_payload packet = Some (payload, src, dst, sp, dp) \<Longrightarrow> length src = 4 \<and> length dst = 4"
  by (auto simp: extract_tcp_payload_def Let_def split: if_splits)


text \<open>The duplicate filter refuses the packet.\<close>

definition is_duplicate :: "listener18022 \<Rightarrow> nat \<Rightarrow> byte list \<Rightarrow> u16 \<Rightarrow> byte list \<Rightarrow> bool" where
  "is_duplicate l now src_ip src_port payload \<longleftrightarrow>
     (case l_dedup l of Some d \<Rightarrow> fst (seen (dedup_key_18022 src_ip src_port payload) now d) | None \<Rightarrow> False)"

text \<open>The captured packet is a ring of one of the configured stations, and not a repetition.\<close>

definition configured_ring :: "config \<Rightarrow> listener18022 \<Rightarrow> nat \<Rightarrow> byte list \<Rightarrow> byte list \<Rightarrow> bool" where
  "configured_ring cfg l now packet src \<longleftrightarrow>
     (\<exists>payload dst sp dp body. extract_tcp_payload packet = Some (payload, src, dst, sp, dp)
        \<and> parse_frame_18022 payload = Some (704, body) \<and> station_at cfg src \<and> \<not> is_duplicate l now src sp payload)"

lemma deliver18022_snd:
  "snd (deliver18022 (Some cb) now packet (l, s)) =
     (case extract_tcp_payload packet of
        Some (payload, src, dst, sp, dp) \<Rightarrow>
          (if is_duplicate l now src sp payload then s
           else (case parse_frame_18022 payload of
             Some (req, body) \<Rightarrow>
               cb \<lparr>df_req = req, df_body = body, df_src_ip = src, df_dst_ip = dst, df_src_port = sp, df_dst_port = dp\<rparr> s
           | None \<Rightarrow> s))
      | None \<Rightarrow> s)"
  by (auto simp: deliver18022_def dispatch_with_dedup_18022_def is_duplicate_def Let_def
      split: option.splits prod.splits bool.splits)

lemma doorbell_accepted:
  assumes e: "extract_tcp_payload packet = Some (payload, src, dst, sp, dp)"
    and p: "\<not> is_duplicate l now src sp payload" "parse_frame_18022 payload = Some (req, body)"
    and d: "snd (deliver18022 (Some (on_detect cfg addrs shutdown)) now packet (l, ob)) = ob'"
  shows "if \<not> shutdown \<and> req = 704 \<and> station_at cfg src
     then \<exists>uri room name port. uri \<in> st_sip ` set (c_stations cfg) \<and> parse_uri uri = Ok (name, ipv4_str src, port)
            \<and> ob_pushes ob' = ob_pushes ob @ [ring_event uri room]
     else ob_pushes ob' = ob_pushes ob"
proof -
  let ?d = "\<lparr>df_req = req, df_body = body, df_src_ip = src, df_dst_ip = dst, df_src_port = sp, df_dst_port = dp\<rparr>"
  have o: "ob' = on_detect cfg addrs shutdown ?d ob" using p e d by (simp add: deliver18022_snd)
  have "length (df_src_ip ?d) = 4" using extract_tcp_ips [OF e] by simp
  from on_detect_pushes [OF this, of cfg shutdown addrs ob] show ?thesis
    unfolding o by (simp del: image_iff split: if_splits) blast+
qed



section \<open>Number queries\<close>

text \<open>
  C20. Number queries: once the callback is installed (the configured URI parses), a datagram is answered
  exactly when it is a number query for the number of this station and the address of the interface is
  known, with one datagram to its sender, to port 6672; and an answer, from wherever it comes, is never
  answered, so that two stations cannot keep each other talking.
\<close>

theorem number_query_answered:
  "case build_number_query_callback cfg addrs dbg (Ok ()) of
     (None, lines) \<Rightarrow> \<exists>e. parse_uri (c_sip cfg) = Err e
   | (Some cb, lines) \<Rightarrow> \<exists>num ip port. parse_uri (c_sip cfg) = Ok (num, ip, port) \<and>
       (let cbs = \<lparr>on_ring = None, on_elevator_key = None, on_number_query = Some cb, on_number_response = None,
                   cb_logf = Some ob_log\<rparr> in
        (\<forall>src payload ob. ob_udp (dispatch6672 cbs src payload ob) = ob_udp ob @
           (case (parse_frame_6672 payload, iface_ip cfg addrs) of
              (Ok f, Some our_ip) \<Rightarrow>
                if classify f = NumberQuery \<and> decode_bcd (fr_target_bcd f) = num
                then [(src, 6672, build_number_query_response f our_ip)] else []
            | _ \<Rightarrow> []))
        \<and> (\<forall>src payload a b c d ob. case parse_frame_6672 payload of
              Ok f \<Rightarrow> dispatch6672 cbs src (build_number_query_response f [a, b, c, d]) ob = ob
            | Err _ \<Rightarrow> True))"
proof (cases "parse_uri (c_sip cfg)")
  case (Inl e)
  then show ?thesis by (simp add: build_number_query_callback_def)
next
  case (Inr x)
  obtain num ip port where u: "parse_uri (c_sip cfg) = Ok (num, ip, port)" using Inr by (cases x) auto
  let ?cb = "number_query_callback num (iface_ip cfg addrs) dbg (Ok ())"
  let ?cbs = "\<lparr>on_ring = None, on_elevator_key = None, on_number_query = Some ?cb, on_number_response = None,
    cb_logf = Some ob_log\<rparr>"
  have cb: "ob_udp (?cb src f ob) = ob_udp ob @
      (case iface_ip cfg addrs of Some our_ip \<Rightarrow>
         if decode_bcd (fr_target_bcd f) = num then [(src, 6672, build_number_query_response f our_ip)] else []
       | None \<Rightarrow> [])" for src f ob
    by (simp add: number_query_callback_def Let_def DEFAULT_UDP_PORT_def split: option.split)
  have "ob_udp (dispatch6672 ?cbs src payload ob) = ob_udp ob @
      (case (parse_frame_6672 payload, iface_ip cfg addrs) of
         (Ok f, Some our_ip) \<Rightarrow>
           if classify f = NumberQuery \<and> decode_bcd (fr_target_bcd f) = num
           then [(src, 6672, build_number_query_response f our_ip)] else []
       | _ \<Rightarrow> [])" for src payload ob
    by (cases "parse_frame_6672 payload"; cases "length payload = FRAME_SIZE")
      (auto simp: dispatch6672_def logf6672_def call_back_def cb parse_frame_6672_def
        split: event_kind.splits option.splits)
  moreover have "case parse_frame_6672 payload of
      Ok f \<Rightarrow> dispatch6672 ?cbs src (build_number_query_response f [a, b, c, d]) ob = ob | Err _ \<Rightarrow> True"
    for src payload a b c d ob
  proof (cases "parse_frame_6672 payload")
    case (Inr f)
    obtain g where g: "parse_frame_6672 (build_number_query_response f [a, b, c, d]) = Ok g" "classify g = NumberResponse"
      using response_parses [OF Inr, of "[a, b, c, d]"] by auto
    then have "length (build_number_query_response f [a, b, c, d]) = FRAME_SIZE"
      by (auto simp: parse_frame_6672_def split: if_splits)
    then show ?thesis using g Inr by (simp add: dispatch6672_def call_back_def)
  qed simp
  ultimately show ?thesis using u by (simp add: build_number_query_callback_def Let_def)
qed

section \<open>An unlock request gets its answer\<close>

text \<open>
  C14. A manual unlock never waits for ever, and the answer is its own: whatever jobs are queued before it,
  the call returns; when the worker is gone or a shutdown marker is before it in the queue, with the
  outcome ``worker unavailable'' and nothing more on the wire for it; otherwise with the outcome of running
  exactly this unlock after all the jobs queued before it.
\<close>

theorem dispatch_returns:
  assumes "sys_wf sys"
  shows "case dispatch deps caller callee ip port sys of (r, sys') \<Rightarrow>
    if sy_alive sys \<and> JShutdown \<notin> set (sy_queue sys)
    then (let wk = run_worker deps (sy_queue sys) (sy_worker sys);
              env = wire_env (wd_sender deps) (wd_listening deps) caller callee ip port;
              w = (wk_world wk)\<lparr>w_deadline := instant_deadline_new UNLOCK_TOTAL_CAP\<rparr>
          in r = Some (fst (execute_unlock env None UNLOCK_RETRY_INTERVAL w))
             \<and> w_log (wk_world (sy_worker sys')) = w_log (snd (execute_unlock env None UNLOCK_RETRY_INTERVAL w)))
    else r = Some worker_unavailable_outcome
      \<and> sy_worker sys' = run_worker deps (sy_queue sys) (sy_worker sys) \<and> \<not> sy_alive sys'"
proof -
  let ?j = "\<lparr>uj_caller = caller, uj_callee = callee, uj_ip = ip, uj_port = port, uj_reply = sy_next sys,
             uj_per_attempt = None, uj_interval = UNLOCK_RETRY_INTERVAL\<rparr>"
  let ?sys = "sys\<lparr>sy_next := sy_next sys + 1, sy_queue := sy_queue sys @ [JUnlock ?j]\<rparr>"
  show ?thesis
  proof (cases "sy_alive sys")
    case False
    then show ?thesis using assms by (simp add: dispatch_def reply_channel_def submit_job_def sys_wf_def)
  next
    case True
    have q: "sy_queue ?sys = sy_queue sys @ JUnlock ?j # []" "sy_alive ?sys"
      "list_all (job_reply_below (uj_reply ?j)) (sy_queue sys)"
      "list_all (\<lambda>r. fst r < uj_reply ?j) (wk_replies (sy_worker ?sys))"
      using assms True by (simp_all add: sys_wf_def)
    show ?thesis
      using recv_reply_queue [OF q, of deps] True
      by (auto simp: dispatch_def reply_channel_def submit_job_def Let_def work_unlock_def execute_unlock_job_def
          case_prod_unfold)
  qed
qed

text \<open>A world in which every interaction succeeds at once and nothing is ever read.\<close>

definition still_world :: world where
  "still_world = \<lparr>w_step = 0, w_clock = (\<lambda>_. 0), w_cancel = (\<lambda>_. False), w_iface = (\<lambda>_. Ok []), w_is_ipv6 = (\<lambda>_. False),
     w_connect = (\<lambda>_. None), w_setopt = (\<lambda>_. None), w_write = (\<lambda>_. None), w_read = (\<lambda>_. Ok []), w_wake = (\<lambda>_. Elapsed),
     w_deadline = instant_deadline_new 0, w_subs = 0, w_log = []\<rparr>"

theorem dispatch_returns_witness:
  "let wk = \<lparr>wk_world = still_world, wk_replies = [], wk_lines = []\<rparr>;
       sys = \<lparr>sy_queue = [JShutdown], sy_alive = True, sy_next = 0, sy_worker = wk\<rparr>;
       deps = worker_deps_new \<lparr>sn_iface = [], sn_timeout = None, sn_local_ip = None\<rparr> False
   in case dispatch deps [1] [2] ''10.0.0.1'' 18022 sys of (r, sys') \<Rightarrow>
        r = Some worker_unavailable_outcome \<and> sy_worker sys' = wk \<and> \<not> sy_alive sys'"
  using dispatch_returns [of "\<lparr>sy_queue = [JShutdown], sy_alive = True, sy_next = 0,
      sy_worker = \<lparr>wk_world = still_world, wk_replies = [], wk_lines = []\<rparr>\<rparr>"
      "worker_deps_new \<lparr>sn_iface = [], sn_timeout = None, sn_local_ip = None\<rparr> False" "[1]" "[2]" "''10.0.0.1''" 18022]
  by (simp add: sys_wf_def job_reply_below_def)

end
