(* ===== verification/Control.thy ===== *)
theory Control
  imports Info Mux JsonGrammar Session Orchestration
begin

text \<open>
  \<open>src/control.rs\<close>: the HTTP control plane.  A handler maps a request and the state of the daemon to the
  operations it performs on the response writer (all of them ignore the writer's results) and the new
  state; \<open>None\<close> would be a handler that never returns.  The state is what handlers share with the rest of
  the daemon: the automation flags with their persister and file system, the pushes, the worker's queue
  and the video manager.  Answers of the environment during one call are the fields of \<open>call_env\<close>.
\<close>

section \<open>Responses\<close>

definition STATUS_UNSUPPORTED_MEDIA :: nat where "STATUS_UNSUPPORTED_MEDIA = 415"
definition STATUS_SERVICE_UNAVAILABLE :: nat where "STATUS_SERVICE_UNAVAILABLE = 503"
definition STATUS_CONFLICT :: nat where "STATUS_CONFLICT = 409"
definition STATUS_GATEWAY_TIMEOUT :: nat where "STATUS_GATEWAY_TIMEOUT = 504"

datatype rw_op = OpHeader string string | OpStatus nat | OpWrite "byte list"

fun perform_op :: "'w write_fn \<Rightarrow> rw_op \<Rightarrow> 'w response_writer \<Rightarrow> 'w response_writer" where
  "perform_op wr (OpHeader k v) w = rw_header_set k v w"
| "perform_op wr (OpStatus code) w = rw_write_header wr code w"
| "perform_op wr (OpWrite data) w = snd (rw_write wr data w)"

text \<open>What a handler leaves: a complete response, or the head of a video stream of session \<open>i\<close>.\<close>

datatype reply = Plain "rw_op list" | Stream "rw_op list" nat

definition write_json :: "nat \<Rightarrow> (string \<times> json_value) list option \<Rightarrow> rw_op list" where
  "write_json status body =
     [OpHeader ''Content-Type'' ''application/json''] @
     (case body of
        None \<Rightarrow> [OpHeader ''Content-Length'' ''0'', OpStatus status]
      | Some fs \<Rightarrow>
          let buf = encode_struct fs MARSHAL in
          [OpHeader ''Content-Length'' (show_nat (length buf)), OpStatus status, OpWrite buf])"

definition error_json :: "nat \<Rightarrow> string \<Rightarrow> rw_op list" where
  "error_json status msg = write_json status (Some [(''error'', String msg)])"

section \<open>The server\<close>

record call_env =
  ce_io :: io_oracle
  ce_shutdown :: bool
  ce_pid :: nat
  ce_wait :: "(frame_buffer \<times> nat) list"
  ce_closed :: bool
  ce_seed :: bool

record server_cfg =
  sc_cfg :: config
  sc_version :: string
  sc_automation :: bool
  sc_persist :: "string option"
  sc_pusher :: bool
  sc_worker :: worker_deps
  sc_video :: "mgr_config option"
  sc_printable :: "nat \<Rightarrow> bool"

record server =
  sv_auto :: auto_state
  sv_persister :: persister
  sv_files :: files
  sv_pushes :: "push list"
  sv_sys :: worker_sys
  sv_mgr :: mgr

type_synonym handler = "request \<Rightarrow> call_env \<Rightarrow> server \<Rightarrow> (reply \<times> server) option"

section \<open>Middleware\<close>

definition method_guard :: "string \<Rightarrow> handler \<Rightarrow> handler" where
  "method_guard allowed inner r e s =
     (if req_method r \<noteq> allowed
      then Some (Plain ([OpHeader ''Allow'' allowed] @
             error_json STATUS_METHOD_NOT_ALLOWED (''method '' @ req_method r @ '' not allowed; use '' @ allowed)), s)
      else inner r e s)"

definition method_guard_post :: "handler \<Rightarrow> handler" where
  "method_guard_post inner = method_guard METHOD_POST inner"

definition is_json_media_type :: "string \<Rightarrow> bool" where
  "is_json_media_type ct =
     (if ct = [] then False
      else
        let media_type = (case position (\<lambda>c. c = CHR '';'') ct of Some i \<Rightarrow> take i ct | None \<Rightarrow> ct)
        in eq_ignore_ascii_case (trim media_type) ''application/json'')"

definition require_json_content_type :: "handler \<Rightarrow> handler" where
  "require_json_content_type inner r e s =
     (let ct = (case header_get ''Content-Type'' (req_header r) of Some v \<Rightarrow> v | None \<Rightarrow> []) in
      if \<not> is_json_media_type ct
      then Some (Plain (error_json STATUS_UNSUPPORTED_MEDIA ''Content-Type must be application/json''), s)
      else inner r e s)"

definition require_stations_configured :: "config \<Rightarrow> handler \<Rightarrow> handler" where
  "require_stations_configured cfg inner r e s =
     (if c_stations cfg = [] then Some (Plain (write_json STATUS_OK (Some [(''result'', Number RESULT_NO_CONFIG)])), s)
      else inner r e s)"

definition chain_business_post :: "config \<Rightarrow> handler \<Rightarrow> handler" where
  "chain_business_post cfg inner =
     method_guard_post (require_json_content_type (require_stations_configured cfg inner))"

definition chain_control_post :: "handler \<Rightarrow> handler" where
  "chain_control_post inner = method_guard_post (require_json_content_type inner)"

section \<open>Request bodies\<close>

definition read_request_body :: "request \<Rightarrow> (string + byte list) option" where
  "read_request_body r = parse_json_body (req_body r)"

definition unwrap_or_default :: "(string + string) \<Rightarrow> string" where
  "unwrap_or_default x = (case x of Ok v \<Rightarrow> v | Err _ \<Rightarrow> [])"

definition parse_auto_toggle_body :: "byte list \<Rightarrow> (string + bool) option" where
  "parse_auto_toggle_body raw =
     (if raw = [] then Some (Ok False)
      else
        let trimmed = trim_ascii_whitespace raw in
        if trimmed = as_bytes ''null'' then Some (Ok False)
        else
          (case extract_json_bool_field trimmed ''on'' of
             None \<Rightarrow> None
           | Some (Ok v) \<Rightarrow> Some (Ok v)
           | Some (Err m) \<Rightarrow> Some (if m = ''missing field'' then Ok False else Err (''parse JSON body: '' @ m))))"

definition parse_auto_toggle_request :: "request \<Rightarrow> (string + bool) option" where
  "parse_auto_toggle_request r =
     (case read_request_body r of
        None \<Rightarrow> None
      | Some (Err m) \<Rightarrow> Some (Err m)
      | Some (Ok raw) \<Rightarrow> parse_auto_toggle_body raw)"

definition parse_unlock_body :: "byte list \<Rightarrow> (string \<times> string) option" where
  "parse_unlock_body raw =
     (if raw = [] then Some ([], [])
      else
        let trimmed = trim_ascii_whitespace raw in
        (case (extract_json_string_field trimmed ''from'', extract_json_string_field trimmed ''to'') of
           (Some from, Some dest) \<Rightarrow> Some (unwrap_or_default from, unwrap_or_default dest)
         | _ \<Rightarrow> None))"

definition parse_video_body :: "byte list \<Rightarrow> (string + string) option" where
  "parse_video_body raw =
     (if raw = [] then Some (Ok [])
      else
        (case go_json_syntax_check raw of
           None \<Rightarrow> None
         | Some (Err m) \<Rightarrow> Some (Err (''parse JSON body: '' @ m))
         | Some (Ok _) \<Rightarrow>
             map_option (\<lambda>x. Ok (unwrap_or_default x)) (extract_json_string_field (trim_ascii_whitespace raw) ''outdoor'')))"

section \<open>Error texts\<close>

text \<open>\<open>rsplit_once(':')\<close>.\<close>

definition rsplit_colon :: "string \<Rightarrow> (string \<times> string) option" where
  "rsplit_colon s =
     (case rposition (\<lambda>c. c = CHR '':'') s of Some i \<Rightarrow> Some (take i s, drop (i + 1) s) | None \<Rightarrow> None)"

definition format_uri_err :: "(nat \<Rightarrow> bool) \<Rightarrow> uri_error \<Rightarrow> string \<Rightarrow> string" where
  "format_uri_err pr e uri =
     (case e of
        UriFormat \<Rightarrow> ''uri: malformed, want name@ip:port: '' @ debug_str pr uri
      | NameLen got \<Rightarrow>
          ''uri: name must be exactly 8 characters: name='' @ debug_str pr (hd (split_on (CHR ''@'') uri))
          @ '' (len='' @ show_nat got @ '')''
      | IPv4Only \<Rightarrow>
          let parts = split_on (CHR ''@'') uri;
              ip = (if length parts > 1
                    then (case rsplit_colon (parts ! 1) of Some (ip, _) \<Rightarrow> ip | None \<Rightarrow> uri) else uri)
          in ''uri: only IPv4 addresses are supported: ip='' @ debug_str pr ip
      | Port \<Rightarrow>
          ''uri: port must be 1-65535: port=''
          @ debug_str pr (case rsplit_colon uri of Some (_, p) \<Rightarrow> p | None \<Rightarrow> []))"

definition format_bcd_err :: "(nat \<Rightarrow> bool) \<Rightarrow> bcd_error \<Rightarrow> string \<Rightarrow> string" where
  "format_bcd_err pr e uri =
     (case e of
        BcdLength got \<Rightarrow> ''bcd: name must be 8 hex digits: '' @ debug_str pr uri @ '' (len='' @ show_nat got @ '')''
      | BcdFormat ch index \<Rightarrow>
          ''bcd: invalid hex digit '' @ debug_char pr (latin1_utf8 (of_char ch)) @ '' at index '' @ show_nat index
          @ '': '' @ debug_str pr uri)"

definition parse_uri_parts :: "(nat \<Rightarrow> bool) \<Rightarrow> string \<Rightarrow> string + (string \<times> string \<times> u16)" where
  "parse_uri_parts pr uri = (case parse_uri uri of Err e \<Rightarrow> Err (format_uri_err pr e uri) | Ok v \<Rightarrow> Ok v)"

definition parse_uri_bcd :: "(nat \<Rightarrow> bool) \<Rightarrow> string \<Rightarrow> byte list \<times> string \<times> u16 \<times> string option" where
  "parse_uri_bcd pr uri =
     (case parse_uri_parts pr uri of
        Err msg \<Rightarrow> ([0, 0, 0, 0], [], 0, Some msg)
      | Ok (name, ip, port) \<Rightarrow>
          (case encode_bcd name of
             Ok bcd \<Rightarrow> (bcd, ip, port, None)
           | Err e \<Rightarrow> ([0, 0, 0, 0], [], 0, Some (format_bcd_err pr e uri))))"

definition video_parse_err_msg :: "(nat \<Rightarrow> bool) \<Rightarrow> parse_error \<Rightarrow> string \<Rightarrow> string" where
  "video_parse_err_msg pr e uri =
     (case e of ParseUri ue \<Rightarrow> format_uri_err pr ue uri | ParseBcd be \<Rightarrow> format_bcd_err pr be uri)"

section \<open>Automation and information\<close>

text \<open>The persist hook: the persister of \<open>automation_state.rs\<close> on the flags as they are now.\<close>

definition run_persist :: "server_cfg \<Rightarrow> call_env \<Rightarrow> server \<Rightarrow> server" where
  "run_persist sc e s =
     (case sc_persist sc of
        None \<Rightarrow> s
      | Some path \<Rightarrow>
          (case persist (ce_io e) path (sv_auto s) (sv_persister s) (sv_files s) of
             (_, ps, fs) \<Rightarrow> s\<lparr>sv_persister := ps, sv_files := fs\<rparr>))"

definition handle_auto_unlock :: "server_cfg \<Rightarrow> handler" where
  "handle_auto_unlock sc r e s =
     (case parse_auto_toggle_request r of
        None \<Rightarrow> None
      | Some (Err msg) \<Rightarrow> Some (Plain (error_json STATUS_BAD_REQUEST msg), s)
      | Some (Ok on) \<Rightarrow>
          let s1 = (if sc_automation sc then s\<lparr>sv_auto := (sv_auto s)\<lparr>au_unlock := on\<rparr>\<rparr> else s);
              s2 = run_persist sc e s1;
              cur = (if sc_automation sc then au_unlock (sv_auto s2) else on)
          in Some (Plain (write_json STATUS_OK (Some [(''result'', Number 0), (''auto_unlock'', Bool cur)])), s2))"

definition handle_auto_hangup :: "server_cfg \<Rightarrow> handler" where
  "handle_auto_hangup sc r e s =
     (case parse_auto_toggle_request r of
        None \<Rightarrow> None
      | Some (Err msg) \<Rightarrow> Some (Plain (error_json STATUS_BAD_REQUEST msg), s)
      | Some (Ok on) \<Rightarrow>
          let s1 = (if sc_automation sc then s\<lparr>sv_auto := (sv_auto s)\<lparr>au_hangup := on\<rparr>\<rparr> else s);
              s2 = run_persist sc e s1;
              cur = (if sc_automation sc then au_hangup (sv_auto s2) else on)
          in Some (Plain (write_json STATUS_OK (Some [(''result'', Number 0), (''auto_hangup'', Bool cur)])), s2))"

definition handle_automation_get :: "server_cfg \<Rightarrow> handler" where
  "handle_automation_get sc r e s =
     (let (au, ah) = (if sc_automation sc then (au_unlock (sv_auto s), au_hangup (sv_auto s)) else (False, False))
      in Some (Plain (write_json STATUS_OK
           (Some [(''result'', Number 0), (''auto_unlock'', Bool au), (''auto_hangup'', Bool ah)])), s))"

definition handle_info :: "server_cfg \<Rightarrow> handler" where
  "handle_info sc r e s =
     (let body = render_json (info_build (Some (sc_cfg sc)) (sc_version sc) False (ce_pid e) (Ok []))
      in Some (Plain [OpHeader ''Content-Type'' ''application/json'', OpStatus STATUS_OK, OpWrite body], s))"

definition handle_playback :: handler where
  "handle_playback r e s = Some (Plain [OpHeader ''Content-Length'' ''0'', OpStatus STATUS_OK], s)"

section \<open>Unlock\<close>

definition maybe_push :: "server_cfg \<Rightarrow> call_env \<Rightarrow> string \<Rightarrow> (string \<times> string) list \<Rightarrow> server \<Rightarrow> server" where
  "maybe_push sc e event kvs s =
     (if sc_pusher sc
      then (case spawn_push (ce_shutdown e) event kvs of
              Some p \<Rightarrow> s\<lparr>sv_pushes := sv_pushes s @ [p]\<rparr>
            | None \<Rightarrow> s)
      else s)"

definition push_business_fields ::
  "server_cfg \<Rightarrow> call_env \<Rightarrow> string \<Rightarrow> int \<Rightarrow> string \<Rightarrow> string \<Rightarrow> server \<Rightarrow> server" where
  "push_business_fields sc e event code from dest =
     maybe_push sc e event ([(''result'', show_int code)] @ (if from = [] then [] else [(''from'', from)])
       @ (if dest = [] then [] else [(''to'', dest)]))"

definition respond_business_result ::
  "server_cfg \<Rightarrow> call_env \<Rightarrow> string \<Rightarrow> int \<Rightarrow> string \<Rightarrow> string \<Rightarrow> server \<Rightarrow> reply \<times> server" where
  "respond_business_result sc e event code from dest s =
     (Plain (write_json STATUS_OK (Some [(''result'', Number code)])),
      if code \<noteq> RESULT_OK then push_business_fields sc e event code from dest s else s)"

definition classify_wire_kind :: "wire_kind option \<Rightarrow> int" where
  "classify_wire_kind k =
     (case k of
        Some SilentFin \<Rightarrow> RESULT_NO_RING
      | Some Timeout \<Rightarrow> RESULT_TIMEOUT
      | None \<Rightarrow> RESULT_OK
      | Some Retryable \<Rightarrow> RESULT_ERR
      | Some Other \<Rightarrow> RESULT_ERR)"

definition respond_wire_failure ::
  "server_cfg \<Rightarrow> call_env \<Rightarrow> string \<Rightarrow> wire_kind option \<Rightarrow> string \<Rightarrow> string \<Rightarrow> server \<Rightarrow> reply \<times> server" where
  "respond_wire_failure sc e event k from dest s =
     (let code = classify_wire_kind k in
      if code = RESULT_NO_RING then respond_business_result sc e event code from dest s
      else (Plain (write_json STATUS_SERVICE_UNAVAILABLE (Some [(''result'', Number code)])),
            push_business_fields sc e event code from dest s))"

definition respond_unlock_outcome ::
  "server_cfg \<Rightarrow> call_env \<Rightarrow> string \<Rightarrow> unlock_outcome \<Rightarrow> string \<Rightarrow> string \<Rightarrow> server \<Rightarrow> reply \<times> server" where
  "respond_unlock_outcome sc e event outcome from dest s =
     (if uo_result outcome = RESULT_OK then respond_business_result sc e event RESULT_OK from dest s
      else if uo_result outcome = RESULT_ERR \<and> uo_wire_kind outcome = None
      then respond_business_result sc e event RESULT_ERR from dest s
      else if uo_terminated_by_bye outcome then respond_wire_failure sc e event (Some SilentFin) from dest s
      else respond_wire_failure sc e event (uo_wire_kind outcome) from dest s)"

definition handle_unlock :: "server_cfg \<Rightarrow> handler" where
  "handle_unlock sc r e s =
     (let pr = sc_printable sc; bad = (\<lambda>msg. Some (Plain (error_json STATUS_BAD_REQUEST msg), s)) in
      case read_request_body r of
        None \<Rightarrow> None
      | Some (Err msg) \<Rightarrow> bad msg
      | Some (Ok raw) \<Rightarrow>
          (case parse_unlock_body raw of
             None \<Rightarrow> None
           | Some (from, dest) \<Rightarrow>
               if dest = [] then bad (''missing '' @ [CHR 0x27] @ ''to'' @ [CHR 0x27] @ '' field'')
               else
                 (case parse_uri_bcd pr dest of (caller_bcd, _, _, err) \<Rightarrow>
                  (case err of
                     Some msg \<Rightarrow> bad (''invalid '' @ [CHR 0x27] @ ''to'' @ [CHR 0x27] @ '' URI: '' @ msg)
                   | None \<Rightarrow>
                       (case parse_uri_bcd pr from of (callee_bcd, _, _, err2) \<Rightarrow>
                        (case err2 of
                           Some msg \<Rightarrow> bad (''invalid '' @ [CHR 0x27] @ ''from'' @ [CHR 0x27] @ '' URI: '' @ msg)
                         | None \<Rightarrow>
                             (case parse_uri_parts pr dest of
                                Err msg \<Rightarrow> bad (''invalid '' @ [CHR 0x27] @ ''to'' @ [CHR 0x27] @ '' URI: '' @ msg)
                              | Ok (_, target_ip, target_port) \<Rightarrow>
                                  (case dispatch (sc_worker sc) caller_bcd callee_bcd target_ip target_port (sv_sys s) of
                                     (None, _) \<Rightarrow> None
                                   | (Some outcome, sys') \<Rightarrow>
                                       Some (respond_unlock_outcome sc e ''unlock'' outcome from dest
                                         (s\<lparr>sv_sys := sys'\<rparr>))))))))))"

section \<open>Video\<close>

definition VIDEO_NOT_ENABLED :: string where
  "VIDEO_NOT_ENABLED = ''video forward not enabled''"

definition is_outdoor_allowed :: "config \<Rightarrow> string \<Rightarrow> bool" where
  "is_outdoor_allowed cfg uri = list_ex (\<lambda>s. st_sip s = uri) (c_stations cfg)"

text \<open>
  The checks \<open>/video/start\<close> and \<open>/video/stop\<close> share, in their order: a parsed, allowed station with its
  URI, or the error response.
\<close>

definition video_request :: "server_cfg \<Rightarrow> request \<Rightarrow> (rw_op list + (string \<times> outdoor)) option" where
  "video_request sc r =
     (let pr = sc_printable sc; bad = (\<lambda>msg. Some (Err (error_json STATUS_BAD_REQUEST msg))) in
      case parse_video_body (req_body r) of
        None \<Rightarrow> None
      | Some (Err msg) \<Rightarrow> bad msg
      | Some (Ok uri) \<Rightarrow>
          if uri = [] then bad (''missing '' @ [CHR 0x27] @ ''outdoor'' @ [CHR 0x27] @ '' field'')
          else
            (case parse_outdoor uri of
               Err e \<Rightarrow> bad (''invalid '' @ [CHR 0x27] @ ''outdoor'' @ [CHR 0x27] @ '' URI: '' @ video_parse_err_msg pr e uri)
             | Ok od \<Rightarrow>
                 if \<not> is_outdoor_allowed (sc_cfg sc) uri then bad ''outdoor not in cfg.stations allowlist''
                 else Some (Ok (uri, od))))"

definition handle_video_start :: "server_cfg \<Rightarrow> handler" where
  "handle_video_start sc r e s =
     (case sc_video sc of
        None \<Rightarrow> Some (Plain (error_json STATUS_SERVICE_UNAVAILABLE VIDEO_NOT_ENABLED), s)
      | Some mc \<Rightarrow>
          (case video_request sc r of
             None \<Rightarrow> None
           | Some (Err ops) \<Rightarrow> Some (Plain ops, s)
           | Some (Ok (_, od)) \<Rightarrow>
               (case mgr_start mc od (sv_mgr s) of
                  None \<Rightarrow> None
                | Some (Ok info, m) \<Rightarrow>
                    Some (Plain (write_json STATUS_OK
                       (Some [(''session_id'', String (si_id info)), (''stream_url'', String (si_stream_url info)),
                              (''ttl'', Number (int (si_ttl_secs info)))])), s\<lparr>sv_mgr := m\<rparr>)
                | Some (Err err, m) \<Rightarrow>
                    Some (Plain (error_json
                       (if is_conflict err then STATUS_CONFLICT else STATUS_SERVICE_UNAVAILABLE)
                       (start_error_display err)), s\<lparr>sv_mgr := m\<rparr>))))"

definition handle_video_stop :: "server_cfg \<Rightarrow> handler" where
  "handle_video_stop sc r e s =
     (case sc_video sc of
        None \<Rightarrow> Some (Plain (error_json STATUS_SERVICE_UNAVAILABLE VIDEO_NOT_ENABLED), s)
      | Some mc \<Rightarrow>
          (case video_request sc r of
             None \<Rightarrow> None
           | Some (Err ops) \<Rightarrow> Some (Plain ops, s)
           | Some (Ok (uri, _)) \<Rightarrow>
               Some (Plain (write_json STATUS_OK (Some [(''result'', Number 0)])), s\<lparr>sv_mgr := mgr_stop mc uri (sv_mgr s)\<rparr>)))"

text \<open>
  \<open>serve_video_stream\<close> up to the head of the stream: the wait for a key frame, the two re-checks, the one
  refresh of the session's time to live.  \<open>ce_wait\<close> is what the wait observes, \<open>ce_closed\<close> and \<open>ce_seed\<close> what
  the re-checks see.
\<close>

definition serve_video_stream :: "mgr_config \<Rightarrow> nat \<Rightarrow> call_env \<Rightarrow> server \<Rightarrow> (reply \<times> server) option" where
  "serve_video_stream mc i e s =
     (case wait_idr (ce_wait e) of
        None \<Rightarrow> None
      | Some (Err WaitTimeout) \<Rightarrow>
          Some (Plain (error_json STATUS_GATEWAY_TIMEOUT
            ''video: no keyframe within startup timeout; outdoor not pushing RTP''), s)
      | Some (Err WaitClosed) \<Rightarrow> Some (Plain (error_json STATUS_SERVICE_UNAVAILABLE ''video: session closed''), s)
      | Some (Ok _) \<Rightarrow>
          if ce_closed e then Some (Plain (error_json STATUS_SERVICE_UNAVAILABLE ''video: session closed''), s)
          else if \<not> ce_seed e
          then Some (Plain (error_json STATUS_GATEWAY_TIMEOUT ''video: stream not ready (missing SPS/PPS)''), s)
          else
            Some (Stream [OpHeader ''Content-Type'' ''video/x-flv'', OpHeader ''Cache-Control'' ''no-store'', OpStatus STATUS_OK] i,
                  s\<lparr>sv_mgr := snd (refresh_ttl mc (se_id (sess (sv_mgr s) i)) (sv_mgr s))\<rparr>))"

text \<open>The end of \<open>serve_video_stream\<close>, after the stream writer has returned.\<close>

definition finish_video_stream :: "mgr_config \<Rightarrow> nat \<Rightarrow> server \<Rightarrow> server" where
  "finish_video_stream mc i s = s\<lparr>sv_mgr := mgr_stop_by_id mc (se_id (sess (sv_mgr s) i)) (sv_mgr s)\<rparr>"

definition serve_video_snapshot :: "rw_op list" where
  "serve_video_snapshot = error_json STATUS_SERVICE_UNAVAILABLE
     ''snapshot transcoding not supported on this hardware; HACS should fall back to stream-source ffmpeg''"

definition handle_video_dynamic :: "server_cfg \<Rightarrow> handler" where
  "handle_video_dynamic sc r e s =
     (case sc_video sc of
        None \<Rightarrow> Some (Plain (error_json STATUS_SERVICE_UNAVAILABLE VIDEO_NOT_ENABLED), s)
      | Some mc \<Rightarrow>
          let path = url_path (req_url r);
              rest = (if starts_with path ''/video/'' then drop 7 path else []) in
          (case position (\<lambda>c. c = CHR ''/'') rest of
             None \<Rightarrow> Some (Plain (error_json STATUS_NOT_FOUND ''video: malformed path''), s)
           | Some slash \<Rightarrow>
               let session_id = take slash rest; resource = drop (slash + 1) rest in
               if \<not> is_valid_uuid session_id
               then Some (Plain (error_json STATUS_BAD_REQUEST ''invalid session_id''), s)
               else if req_method r \<noteq> METHOD_GET
               then Some (Plain ([OpHeader ''Allow'' METHOD_GET] @ error_json STATUS_METHOD_NOT_ALLOWED
                      (''method '' @ req_method r @ '' not allowed; use '' @ METHOD_GET)), s)
               else
                 (case current_by_id session_id (sv_mgr s) of
                    None \<Rightarrow> Some (Plain (error_json STATUS_NOT_FOUND ''video: session not found''), s)
                  | Some i \<Rightarrow>
                      if resource = ''stream.flv'' then serve_video_stream mc i e s
                      else if resource = ''snapshot.jpg'' then Some (Plain serve_video_snapshot, s)
                      else Some (Plain (error_json STATUS_NOT_FOUND ''video: unknown resource''), s))))"

text \<open>The watcher of the client's connection: what each probe sees, with the \<open>done\<close> flag before it.\<close>

datatype peek_result = PeekBytes nat | PeekErr io_kind

fun fin_peek_loop :: "(bool \<times> peek_result) list \<Rightarrow> frame_buffer \<Rightarrow> frame_buffer option" where
  "fin_peek_loop [] fb = None"
| "fin_peek_loop ((finished, p) # rounds) fb =
     (if finished then Some fb
      else (case p of
              PeekBytes n \<Rightarrow> if n = 0 then Some (close fb) else fin_peek_loop rounds fb
            | PeekErr k \<Rightarrow> if k = WouldBlock \<or> k = TimedOut then fin_peek_loop rounds fb else Some (close fb)))"

text \<open>The refresh of the time to live while a stream runs.\<close>

fun refresh_ttl_loop :: "mgr_config \<Rightarrow> string \<Rightarrow> nat \<Rightarrow> nat \<Rightarrow> (bool \<times> nat) list \<Rightarrow> mgr \<Rightarrow> mgr \<times> bool" where
  "refresh_ttl_loop mc sid period next_tick [] m = (m, False)"
| "refresh_ttl_loop mc sid period next_tick ((finished, now) # rounds) m =
     (if finished then (m, True)
      else if now \<ge> next_tick then
        (case refresh_ttl mc sid m of
           (False, m') \<Rightarrow> (m', True)
         | (True, m') \<Rightarrow> refresh_ttl_loop mc sid period (now + period) rounds m')
      else refresh_ttl_loop mc sid period next_tick rounds m)"

section \<open>Routes\<close>

text \<open>\<open>Server::handler\<close>: the registrations in their order.\<close>

definition routes :: "server_cfg \<Rightarrow> (string \<times> handler option) list" where
  "routes sc =
     [(''/auto_unlock'', Some (chain_control_post (handle_auto_unlock sc))),
      (''/auto_hangup'', Some (chain_control_post (handle_auto_hangup sc))),
      (''/automation'', Some (method_guard METHOD_GET (handle_automation_get sc))),
      (''/info'', Some (method_guard METHOD_GET (handle_info sc))),
      (''/playback'', Some (method_guard METHOD_GET handle_playback)),
      (''/unlock'', Some (chain_business_post (sc_cfg sc) (handle_unlock sc))),
      (''/video/start'', Some (chain_control_post (handle_video_start sc))),
      (''/video/stop'', Some (chain_control_post (handle_video_stop sc))),
      (''/video/'', Some (handle_video_dynamic sc))]"

definition not_found_ops :: "rw_op list" where
  "not_found_ops = [OpHeader ''Content-Type'' ''text/plain; charset=utf-8'', OpHeader ''Content-Length'' ''9'',
     OpStatus STATUS_NOT_FOUND, OpWrite (as_bytes ''Not Found'')]"

text \<open>\<open>ServeMux::serve_http\<close> over these registrations; the panic of a failed registration is \<open>None\<close>.\<close>

definition serve_http :: "server_cfg \<Rightarrow> handler" where
  "serve_http sc r e s =
     (case handle_all (routes sc) mux_new of
        Err _ \<Rightarrow> None
      | Ok mux \<Rightarrow>
          (case match_handler (url_path (req_url r)) mux of
             Some h \<Rightarrow> h r e s
           | None \<Rightarrow> Some (Plain not_found_ops, s)))"

end
