(* ===== verification/JsonFields.thy ===== *)
theory JsonFields
  imports JsonGrammar
begin

text \<open>
  The field readers of the control plane on the objects a client sends: when the members are strings that
  need no escape, the last member whose key matches, ignoring ASCII case, is returned unchanged.
\<close>

section \<open>Plain strings\<close>

definition plain_byte :: "byte \<Rightarrow> bool" where
  "plain_byte b \<longleftrightarrow> 0x20 \<le> b \<and> b < 0x80 \<and> b \<notin> {0x22, 0x5c, 0x3c, 0x3e, 0x26}"

definition plain :: "string \<Rightarrow> bool" where
  "plain s \<longleftrightarrow> list_all plain_byte (as_bytes s)"

lemma escape_byte_plain: "plain_byte b \<Longrightarrow> escape_byte html b = [b]"
  by (auto simp: plain_byte_def escape_byte_def word_le_nat_alt word_less_nat_alt)

lemma escape_bytes_plain: "list_all plain_byte bs \<Longrightarrow> escape_bytes html bs = bs"
proof (induction bs)
  case (Cons a r)
  then have "escape_bytes html r = r" "plain_byte a" "a \<noteq> 0xe2" by (auto simp: plain_byte_def)
  then show ?case by (cases r; cases "tl r") (auto simp: escape_byte_plain)
qed simp

lemma write_string_plain: "plain s \<Longrightarrow> write_string html s = 0x22 # as_bytes s @ [0x22]"
  by (simp add: write_string_def plain_def escape_bytes_plain)

lemma read_plain_block:
  "list_all plain_byte p \<Longrightarrow> ascii_bytes acc \<Longrightarrow> read_plain acc (p @ 0x22 # r) = Ok (of_bytes (acc @ p), r)"
proof (induction p arbitrary: acc)
  case Nil
  then show ?case by (simp add: utf8_valid_ascii)
next
  case (Cons b p)
  then have "plain_byte b" "ascii_bytes (acc @ [b])" by (auto simp: plain_byte_def ascii_bytes_def)
  then show ?case using Cons by (auto simp: plain_byte_def word_le_nat_alt word_less_nat_alt)
qed

lemma read_json_string_plain: "plain s \<Longrightarrow> read_json_string (0x22 # as_bytes s @ 0x22 # r) = Ok (s, r)"
  using read_plain_block [of "as_bytes s" "[]" r] by (simp add: read_json_string_def plain_def ascii_bytes_def)

lemma skip_json_value_plain: "plain s \<Longrightarrow> skip_json_value (0x22 # as_bytes s @ 0x22 # r) = Some (Ok r)"
proof -
  assume s: "plain s"
  have "skip_ws skip_dialect (0x22 # t) = 0x22 # t" for t
    by (simp add: skip_ws_def skip_dialect_def is_ascii_whitespace_def)
  then have "scan skip_dialect (Suc 0) Value (0x22 # as_bytes s @ 0x22 # r) = Some (Ok r)"
    using read_plain_block [of "as_bytes s" "[]" r] s by (simp add: skip_dialect_def plain_def ascii_bytes_def)
  then show ?thesis unfolding skip_json_value_def by (rule skip_reader.scan_fuel_irrelevant)
qed

section \<open>Objects of plain strings\<close>

definition str_member :: "bool \<Rightarrow> string \<times> string \<Rightarrow> byte list" where
  "str_member html = (\<lambda>(k, v). write_string html k @ [0x3a] @ write_string html v)"

definition last_match :: "string \<Rightarrow> (string \<times> string) list \<Rightarrow> string option \<Rightarrow> string option" where
  "last_match key fs lst = fold (\<lambda>(k, v) acc. if eq_ignore_ascii_case k key then Some v else acc) fs lst"

lemma skip_json_ws_stop: "\<not> is_ascii_whitespace b \<Longrightarrow> skip_json_ws (b # r) = b # r"
  by (simp add: skip_json_ws_def)

lemma not_ws_bytes [simp]:
  "\<not> is_ascii_whitespace 0x22" "\<not> is_ascii_whitespace 0x3a" "\<not> is_ascii_whitespace 0x2c"
  "\<not> is_ascii_whitespace 0x7d" "\<not> is_ascii_whitespace 0x7b"
  by (simp_all add: is_ascii_whitespace_def)

text \<open>One member of the loop.\<close>

lemma extract_loop_member:
  assumes "plain k" "plain v" "b = 0x2c \<or> b = 0x7d"
  shows "extract_loop read_json_string key (Suc n) lst (str_member html (k, v) @ b # r) =
    (let lst' = (if eq_ignore_ascii_case k key then Some v else lst) in
     if b = 0x2c then extract_loop read_json_string key n lst' r
     else Some (case lst' of Some x \<Rightarrow> Ok x | None \<Rightarrow> Err ''missing field''))"
  using assms(3)
  by (auto simp: str_member_def write_string_plain assms(1,2) skip_json_ws_stop read_json_string_plain
      skip_json_value_plain Let_def)

lemma extract_loop_members:
  "fs \<noteq> [] \<Longrightarrow> \<forall>(k, v) \<in> set fs. plain k \<and> plain v \<Longrightarrow> length fs \<le> n \<Longrightarrow>
   extract_loop read_json_string key n lst (commas (map (str_member html) fs) @ 0x7d # r) =
     Some (case last_match key fs lst of Some x \<Rightarrow> Ok x | None \<Rightarrow> Err ''missing field'')"
proof (induction fs arbitrary: n lst rule: induct_list012)
  case (2 x)
  obtain k v where x: "x = (k, v)" by (cases x)
  obtain j where n: "n = Suc j" using 2 by (cases n) auto
  show ?case
    using extract_loop_member [of k v "0x7d" key j lst html r] 2 by (simp add: x n last_match_def Let_def)
next
  case (3 x y zs)
  obtain k v where x: "x = (k, v)" by (cases x)
  obtain j where n: "n = Suc j" "length (y # zs) \<le> j" using 3 by (cases n) auto
  have "extract_loop read_json_string key n lst (commas (map (str_member html) (x # y # zs)) @ 0x7d # r) =
    extract_loop read_json_string key j (if eq_ignore_ascii_case k key then Some v else lst)
      (commas (map (str_member html) (y # zs)) @ 0x7d # r)"
    using extract_loop_member [of k v "0x2c" key j lst html "commas (map (str_member html) (y # zs)) @ 0x7d # r"] 3
    by (simp add: x n(1) Let_def del: extract_loop.simps)
  also have "\<dots> = Some (case last_match key (x # y # zs) lst of Some w \<Rightarrow> Ok w | None \<Rightarrow> Err ''missing field'')"
    using 3 n(2) by (simp add: x last_match_def del: extract_loop.simps)
  finally show ?case .
qed simp

lemma trim_ascii_whitespace_solid:
  assumes "s = b # t" "\<not> is_ascii_whitespace b" "s = u @ [c]" "\<not> is_ascii_whitespace c"
  shows "trim_ascii_whitespace s = s"
proof -
  have "position (\<lambda>b. \<not> is_ascii_whitespace b) s = Some 0" using assms(1,2) by simp
  moreover have "rposition (\<lambda>b. \<not> is_ascii_whitespace b) s = Some (length u)"
    using rposition_append_hit [of "\<lambda>b. \<not> is_ascii_whitespace b" c "[]" u] assms(3,4) by simp
  ultimately show ?thesis using assms(3) by (simp add: trim_ascii_whitespace_def Let_def slice_def)
qed

definition str_struct :: "(string \<times> string) list \<Rightarrow> byte list" where
  "str_struct fs = encode_struct (map (map_prod id String) fs) MARSHAL"

lemma str_struct_text: "str_struct fs = 0x7b # commas (map (str_member True) fs) @ [0x7d]"
  by (simp add: str_struct_def encode_struct_def MARSHAL_def newline_def str_member_def comp_def case_prod_unfold)

lemma str_struct_trim [simp]: "trim_ascii_whitespace (str_struct fs) = str_struct fs"
  by (rule trim_ascii_whitespace_solid [of _ "0x7b" _ "0x7b # commas (map (str_member True) fs)" "0x7d"])
    (simp_all add: str_struct_text)

lemma str_struct_valid: "go_json_syntax_check (str_struct fs) = Some (Ok ())" "parse_json_value (str_struct fs) = Some (Ok ())"
  using json_text_encode [of True "Struct (map (map_prod id String) fs)" MARSHAL]
    go_json.json_text_read [of "str_struct fs"] min_json.json_text_read [of "str_struct fs"]
  by (auto simp: str_struct_def encode_struct_def MARSHAL_def go_json_syntax_check_def parse_json_value_def)

lemma commas_length: "\<forall>m \<in> set ms. m \<noteq> [] \<Longrightarrow> length ms \<le> length (commas ms)"
proof (induction ms rule: commas.induct)
  case (3 x y xs)
  then have "0 < length x" "length (y # xs) \<le> length (commas (y # xs))" by auto
  then show ?case by (simp del: commas.simps(2))
qed (auto simp: Suc_le_eq)

lemma extract_str_struct:
  assumes "\<forall>(k, v) \<in> set fs. plain k \<and> plain v"
  shows "extract_json_string_field (str_struct fs) key =
    Some (case last_match key fs None of Some x \<Rightarrow> Ok x | None \<Rightarrow> Err ''missing field'')"
proof (cases "fs = []")
  case True
  then show ?thesis
    using str_struct_trim [of "[]"]
    by (simp add: extract_json_string_field_def extract_field_def Let_def str_struct_text last_match_def skip_json_ws_stop)
next
  case False
  let ?c = "commas (map (str_member True) fs)"
  obtain cs where c: "?c = 0x22 # cs"
    using False by (cases "map (str_member True) fs" rule: commas.cases) (auto simp: str_member_def write_string_def)
  have "\<forall>m \<in> set (map (str_member True) fs). m \<noteq> []" by (simp add: str_member_def write_string_def split: prod.split)
  then have "length fs \<le> length ?c" using commas_length [of "map (str_member True) fs"] by simp
  then have "extract_loop read_json_string key (length (str_struct fs)) None (?c @ [0x7d]) =
    Some (case last_match key fs None of Some x \<Rightarrow> Ok x | None \<Rightarrow> Err ''missing field'')"
    using extract_loop_members [OF False assms, of "length (str_struct fs)" key None True "[]"]
    by (simp add: str_struct_text)
  then show ?thesis
    using str_struct_trim [of fs] c
    by (simp add: extract_json_string_field_def extract_field_def Let_def str_struct_text skip_json_ws_stop)
qed

end
