(* ===== verification/Endpoints.thy ===== *)
theory Endpoints
  imports Control JsonFields
begin

text \<open>
  What requests to the control plane do: which endpoint may change which part of the daemon, an unlock
  request from its JSON text to the worker and back, and a toggle from its request to the next start.
\<close>

section \<open>Routing\<close>

lemma serve_http_eq:
  "serve_http sc r e s =
     (let path = url_path (req_url r) in
      if path = ''/auto_unlock'' then chain_control_post (handle_auto_unlock sc) r e s
      else if path = ''/auto_hangup'' then chain_control_post (handle_auto_hangup sc) r e s
      else if path = ''/automation'' then method_guard METHOD_GET (handle_automation_get sc) r e s
      else if path = ''/info'' then method_guard METHOD_GET (handle_info sc) r e s
      else if path = ''/playback'' then method_guard METHOD_GET handle_playback r e s
      else if path = ''/unlock'' then chain_business_post (sc_cfg sc) (handle_unlock sc) r e s
      else if path = ''/video/start'' then chain_control_post (handle_video_start sc) r e s
      else if path = ''/video/stop'' then chain_control_post (handle_video_stop sc) r e s
      else if starts_with path ''/video/'' then handle_video_dynamic sc r e s
      else Some (Plain not_found_ops, s))"
  by (simp add: serve_http_def routes_def handle_def ends_with_slash_def mux_new_def match_handler_def Let_def)

text \<open>The operations of the 404 answer are those of \<open>http404\<close>.\<close>

lemma not_found_performed: "fold (perform_op wr) not_found_ops w = http404 wr w"
  by (simp add: not_found_ops_def http404_def)

lemma chain_control_post_eq:
  "chain_control_post h r e s =
     (if req_method r \<noteq> ''POST'' \<or> \<not> is_json_media_type (case header_get ''Content-Type'' (req_header r) of Some v \<Rightarrow> v | None \<Rightarrow> [])
      then Some (Plain (if req_method r \<noteq> ''POST'' then [OpHeader ''Allow'' ''POST''] @
             error_json STATUS_METHOD_NOT_ALLOWED (''method '' @ req_method r @ '' not allowed; use POST'')
             else error_json STATUS_UNSUPPORTED_MEDIA ''Content-Type must be application/json''), s)
      else h r e s)"
  by (simp add: chain_control_post_def method_guard_post_def method_guard_def require_json_content_type_def METHOD_POST_def
      Let_def)

section \<open>Which request may do what\<close>

text \<open>A request that passed the method and the media type check.\<close>

definition json_post :: "request \<Rightarrow> bool" where
  "json_post r \<longleftrightarrow> req_method r = ''POST''
     \<and> is_json_media_type (case header_get ''Content-Type'' (req_header r) of Some v \<Rightarrow> v | None \<Rightarrow> [])"

lemma chain_control_cases:
  assumes "chain_control_post h r e s = Some (rep, s')"
  shows "s' = s \<or> json_post r \<and> h r e s = Some (rep, s')"
  using assms by (auto simp: chain_control_post_eq json_post_def split: if_splits)

lemma chain_business_cases:
  assumes "chain_business_post cfg h r e s = Some (rep, s')"
  shows "s' = s \<or> json_post r \<and> c_stations cfg \<noteq> [] \<and> h r e s = Some (rep, s')"
  using assms chain_control_post_eq [of "require_stations_configured cfg h" r e s]
  by (auto simp: chain_business_post_def chain_control_post_def require_stations_configured_def json_post_def split: if_splits)

lemma run_persist_frame [simp]:
  "sv_sys (run_persist sc e s) = sv_sys s" "sv_mgr (run_persist sc e s) = sv_mgr s"
  "sv_pushes (run_persist sc e s) = sv_pushes s" "sv_auto (run_persist sc e s) = sv_auto s"
  by (simp_all add: run_persist_def split: option.split prod.split)

lemma respond_frame:
  "respond_unlock_outcome sc e ev out from dest s = (rep, s') \<Longrightarrow>
     sv_sys s' = sv_sys s \<and> sv_mgr s' = sv_mgr s \<and> sv_auto s' = sv_auto s \<and> sv_files s' = sv_files s"
  by (auto simp: respond_unlock_outcome_def respond_wire_failure_def respond_business_result_def
      push_business_fields_def maybe_push_def Let_def split: if_splits option.splits)

lemma handle_unlock_frame:
  assumes "handle_unlock sc r e s = Some (rep, s')"
  shows "sv_mgr s' = sv_mgr s \<and> sv_auto s' = sv_auto s \<and> sv_files s' = sv_files s"
  using assms
  by (auto simp: handle_unlock_def Let_def split: option.splits sum.splits prod.splits if_splits dest!: respond_frame)

lemma toggle_frame:
  assumes "handle_auto_unlock sc r e s = Some (rep, s') \<or> handle_auto_hangup sc r e s = Some (rep, s')"
  shows "sv_mgr s' = sv_mgr s \<and> sv_sys s' = sv_sys s \<and> sv_pushes s' = sv_pushes s"
  using assms
  by (auto simp: handle_auto_unlock_def handle_auto_hangup_def Let_def split: option.splits sum.splits if_splits)

lemma video_request_allowed:
  assumes "video_request sc r = Some (Ok (uri, od))"
  shows "uri \<in> st_sip ` set (c_stations (sc_cfg sc)) \<and> parse_outdoor uri = Ok od"
  using assms
  by (auto simp: video_request_def Let_def is_outdoor_allowed_def list_ex_iff image_iff
      split: option.splits sum.splits if_splits)


text \<open>
  What a request may do to the video manager: start or stop the session of a configured station, or keep
  the current session alive by asking for its stream.
\<close>

definition video_effect :: "server_cfg \<Rightarrow> request \<Rightarrow> mgr \<Rightarrow> mgr \<Rightarrow> bool" where
  "video_effect sc r m m' \<longleftrightarrow> (\<exists>mc. sc_video sc = Some mc \<and>
     ((\<exists>uri od. json_post r \<and> uri \<in> st_sip ` set (c_stations (sc_cfg sc)) \<and> parse_outdoor uri = Ok od
         \<and> (url_path (req_url r) = ''/video/start'' \<and> (\<exists>x. mgr_start mc od m = Some (x, m'))
            \<or> url_path (req_url r) = ''/video/stop'' \<and> m' = mgr_stop mc uri m))
      \<or> (\<exists>i. req_method r = ''GET'' \<and> vm_current m = Some i
         \<and> url_path (req_url r) = ''/video/'' @ se_id (sess m i) @ ''/stream.flv''
         \<and> m' = snd (refresh_ttl mc (se_id (sess m i)) m))))"

lemma handle_video_start_effect:
  assumes "handle_video_start sc r e s = Some (rep, s')" "json_post r" "url_path (req_url r) = ''/video/start''"
  shows "s' = s \<or> (\<exists>m. s' = s\<lparr>sv_mgr := m\<rparr> \<and> video_effect sc r (sv_mgr s) m)"
proof (cases "sc_video sc")
  case None
  then show ?thesis using assms(1) by (simp add: handle_video_start_def)
next
  case (Some mc)
  obtain x where x: "video_request sc r = Some x" using assms(1) Some by (auto simp: handle_video_start_def split: option.splits)
  show ?thesis
  proof (cases x)
    case (Inl ops)
    then show ?thesis using assms(1) Some x by (simp add: handle_video_start_def)
  next
    case (Inr y)
    obtain uri od where y: "y = (uri, od)" by (cases y)
    obtain res m where "mgr_start mc od (sv_mgr s) = Some (res, m)" "s' = s\<lparr>sv_mgr := m\<rparr>"
      using assms(1) Some x Inr y by (auto simp: handle_video_start_def split: option.splits sum.splits)
    then show ?thesis
      using video_request_allowed x Inr y assms(2,3) Some by (fastforce simp: video_effect_def)
  qed
qed

lemma handle_video_stop_effect:
  assumes "handle_video_stop sc r e s = Some (rep, s')" "json_post r" "url_path (req_url r) = ''/video/stop''"
  shows "s' = s \<or> (\<exists>m. s' = s\<lparr>sv_mgr := m\<rparr> \<and> video_effect sc r (sv_mgr s) m)"
proof (cases "sc_video sc")
  case None
  then show ?thesis using assms(1) by (simp add: handle_video_stop_def)
next
  case (Some mc)
  obtain x where x: "video_request sc r = Some x" using assms(1) Some by (auto simp: handle_video_stop_def split: option.splits)
  show ?thesis
  proof (cases x)
    case (Inl ops)
    then show ?thesis using assms(1) Some x by (simp add: handle_video_stop_def)
  next
    case (Inr y)
    obtain uri od where y: "y = (uri, od)" by (cases y)
    have "s' = s\<lparr>sv_mgr := mgr_stop mc uri (sv_mgr s)\<rparr>" using assms(1) Some x Inr y by (auto simp: handle_video_stop_def)
    then show ?thesis
      using video_request_allowed x Inr y assms(2,3) Some by (fastforce simp: video_effect_def)
  qed
qed

lemma serve_stream_effect:
  assumes "serve_video_stream mc i e s = Some (rep, s')"
  shows "s' = s \<or> s' = s\<lparr>sv_mgr := snd (refresh_ttl mc (se_id (sess (sv_mgr s) i)) (sv_mgr s))\<rparr>"
  using assms by (auto simp: serve_video_stream_def split: option.splits sum.splits wait_idr_error.splits if_splits)

lemma handle_video_dynamic_effect:
  assumes "handle_video_dynamic sc r e s = Some (rep, s')" "starts_with (url_path (req_url r)) ''/video/''"
  shows "s' = s \<or> (\<exists>m. s' = s\<lparr>sv_mgr := m\<rparr> \<and> video_effect sc r (sv_mgr s) m)"
proof (rule disjCI)
  assume no: "\<not> (\<exists>m. s' = s\<lparr>sv_mgr := m\<rparr> \<and> video_effect sc r (sv_mgr s) m)"
  define rest where "rest = drop 7 (url_path (req_url r))"
  show "s' = s"
  proof (rule ccontr)
    assume ne: "s' \<noteq> s"
    then obtain mc where mc: "sc_video sc = Some mc"
      using assms by (auto simp: handle_video_dynamic_def split: option.splits)
    have eq: "handle_video_dynamic sc r e s =
        (case position (\<lambda>c. c = CHR ''/'') rest of
           None \<Rightarrow> Some (Plain (error_json STATUS_NOT_FOUND ''video: malformed path''), s)
         | Some slash \<Rightarrow>
             if \<not> is_valid_uuid (take slash rest) then Some (Plain (error_json STATUS_BAD_REQUEST ''invalid session_id''), s)
             else if req_method r \<noteq> METHOD_GET
             then Some (Plain ([OpHeader ''Allow'' METHOD_GET] @ error_json STATUS_METHOD_NOT_ALLOWED
                    (''method '' @ req_method r @ '' not allowed; use '' @ METHOD_GET)), s)
             else
               (case current_by_id (take slash rest) (sv_mgr s) of
                  None \<Rightarrow> Some (Plain (error_json STATUS_NOT_FOUND ''video: session not found''), s)
                | Some i \<Rightarrow>
                    if drop (slash + 1) rest = ''stream.flv'' then serve_video_stream mc i e s
                    else if drop (slash + 1) rest = ''snapshot.jpg'' then Some (Plain serve_video_snapshot, s)
                    else Some (Plain (error_json STATUS_NOT_FOUND ''video: unknown resource''), s)))"
      unfolding handle_video_dynamic_def mc Let_def option.case rest_def using assms(2) by (simp only: if_True)
    obtain slash where sl: "position (\<lambda>c. c = CHR ''/'') rest = Some slash"
      using assms(1) eq ne by (cases "position (\<lambda>c. c = CHR ''/'') rest") simp_all
    obtain i where g: "req_method r = ''GET''" "current_by_id (take slash rest) (sv_mgr s) = Some i"
      "drop (slash + 1) rest = ''stream.flv''" "serve_video_stream mc i e s = Some (rep, s')"
      using assms(1) eq ne sl
      by (cases "current_by_id (take slash rest) (sv_mgr s)") (auto simp: METHOD_GET_def split: if_splits)
    have i: "vm_current (sv_mgr s) = Some i" "se_id (sess (sv_mgr s) i) = take slash rest"
      using g(2) by (auto simp: current_by_id_def split: option.splits if_splits)
    have "rest = take slash rest @ CHR ''/'' # ''stream.flv''"
      using position_SomeD [OF sl] g(3) by (metis Suc_eq_plus1)
    moreover have "url_path (req_url r) = ''/video/'' @ rest"
    proof -
      have "take 7 (url_path (req_url r)) = ''/video/''" using assms(2) by (simp add: starts_with_def eval_nat_numeral)
      then show ?thesis using append_take_drop_id [of 7 "url_path (req_url r)"] unfolding rest_def by simp
    qed
    ultimately have "url_path (req_url r) = ''/video/'' @ se_id (sess (sv_mgr s) i) @ ''/stream.flv''"
      using i(2) by simp
    then have "video_effect sc r (sv_mgr s) (snd (refresh_ttl mc (se_id (sess (sv_mgr s) i)) (sv_mgr s)))"
      using mc g(1) i(1) by (auto simp: video_effect_def)
    then show False using serve_stream_effect [OF g(4)] no ne by blast
  qed
qed


text \<open>Requests below \<open>/video/\<close> reach the video manager only.\<close>

lemma serve_video_effect:
  assumes "serve_http sc r e s = Some (rep, s')" "starts_with (url_path (req_url r)) ''/video/''"
  shows "s' = s \<or> (\<exists>m. s' = s\<lparr>sv_mgr := m\<rparr> \<and> video_effect sc r (sv_mgr s) m)"
proof -
  let ?path = "url_path (req_url r)"
  consider (start) "?path = ''/video/start''" | (stop) "?path = ''/video/stop''"
    | (other) "?path \<noteq> ''/video/start''" "?path \<noteq> ''/video/stop''" by blast
  then show ?thesis
  proof cases
    case start
    then have "chain_control_post (handle_video_start sc) r e s = Some (rep, s')" using assms by (simp add: serve_http_eq)
    then show ?thesis using chain_control_cases handle_video_start_effect start by blast
  next
    case stop
    then have "chain_control_post (handle_video_stop sc) r e s = Some (rep, s')" using assms by (simp add: serve_http_eq)
    then show ?thesis using chain_control_cases handle_video_stop_effect stop by blast
  next
    case other
    then have "handle_video_dynamic sc r e s = Some (rep, s')"
      using assms by (auto simp: serve_http_eq Let_def starts_with_def split: if_splits)
    then show ?thesis using handle_video_dynamic_effect assms(2) by blast
  qed
qed

lemma serve_toggle_effect:
  assumes "serve_http sc r e s = Some (rep, s')" "url_path (req_url r) \<in> {''/auto_unlock'', ''/auto_hangup''}"
  shows "s' = s \<or> json_post r \<and> sv_mgr s' = sv_mgr s \<and> sv_sys s' = sv_sys s"
proof -
  have "chain_control_post (handle_auto_unlock sc) r e s = Some (rep, s')
      \<or> chain_control_post (handle_auto_hangup sc) r e s = Some (rep, s')"
    using assms by (auto simp: serve_http_eq Let_def)
  then have "s' = s \<or> json_post r
      \<and> (handle_auto_unlock sc r e s = Some (rep, s') \<or> handle_auto_hangup sc r e s = Some (rep, s'))"
    using chain_control_cases by blast
  then show ?thesis using toggle_frame [of sc r e s rep s'] by blast
qed

lemma serve_unlock_effect:
  assumes "serve_http sc r e s = Some (rep, s')" "url_path (req_url r) = ''/unlock''"
  shows "s' = s \<or> json_post r \<and> c_stations (sc_cfg sc) \<noteq> []
    \<and> sv_mgr s' = sv_mgr s \<and> sv_auto s' = sv_auto s \<and> sv_files s' = sv_files s"
proof -
  have "chain_business_post (sc_cfg sc) (handle_unlock sc) r e s = Some (rep, s')"
    using assms by (simp add: serve_http_eq)
  then show ?thesis using chain_business_cases handle_unlock_frame by blast
qed

lemma serve_other_effect:
  assumes "serve_http sc r e s = Some (rep, s')"
    "url_path (req_url r) \<notin> {''/auto_unlock'', ''/auto_hangup'', ''/unlock''}" "\<not> starts_with (url_path (req_url r)) ''/video/''"
  shows "s' = s"
proof -
  have "url_path (req_url r) \<noteq> ''/video/start''" "url_path (req_url r) \<noteq> ''/video/stop''"
    using assms(3) by (auto simp: starts_with_def)
  then show ?thesis
    using assms
    by (auto simp: serve_http_eq Let_def method_guard_def handle_automation_get_def handle_info_def handle_playback_def
        split: if_splits)
qed



section \<open>An unlock request, from its text to the worker\<close>

lemma hex_plain: "hex_nibble b \<noteq> None \<Longrightarrow> plain_byte b"
  by (auto simp: hex_nibble_def plain_byte_def word_le_nat_alt word_less_nat_alt split: if_splits)

lemma digit_plain: "digit_char c \<Longrightarrow> plain_byte (of_char c)"
  by (auto simp: digit_char_def is_ascii_digit_def plain_byte_def word_le_nat_alt word_less_nat_alt)

lemma encode_pairs_hex:
  "encode_pairs i bs = Ok out \<Longrightarrow> even (length bs) \<Longrightarrow> list_all (\<lambda>b. hex_nibble b \<noteq> None) bs"
  by (induction i bs arbitrary: out rule: encode_pairs.induct) (auto split: option.splits sum.splits)

lemma plain_Nil [simp]: "plain []"
  by (simp add: plain_def as_bytes_def)

lemma plain_append [simp]: "plain (a @ b) \<longleftrightarrow> plain a \<and> plain b"
  by (simp add: plain_def as_bytes_def)

lemma plain_digits: "list_all digit_char s \<Longrightarrow> plain s"
  by (auto simp: plain_def as_bytes_def list_all_iff digit_plain)

lemma plain_Cons [simp]: "plain (c # s) \<longleftrightarrow> plain_byte (of_char c) \<and> plain s"
  by (simp add: plain_def as_bytes_def)

lemma plain_seps [simp]:
  "plain_byte 0x40" "plain_byte 0x3a" "plain_byte 0x2e" "plain_byte 0x2b" "plain_byte 0x2d"
  by (simp_all add: plain_byte_def)

lemma plain_chars: "plain ''@''" "plain '':''" "plain ''.''" "plain ''+''" "plain ''-''" "plain ''from''" "plain ''to''"
  by (simp_all add: plain_def as_bytes_def plain_byte_def)

lemma bcd_name_plain: "encode_bcd name = Ok b \<Longrightarrow> plain name"
  using encode_pairs_hex [of 0 "as_bytes name" b]
  by (auto simp: encode_bcd_def Let_def plain_def list_all_iff hex_plain split: if_splits)

lemma ipv4_plain:
  assumes "ipv4_from_str ip \<noteq> None"
  shows "plain ip"
proof -
  obtain q where "ip = ipv4_str q" using assms parse_ipv4_iff [of ip] by (auto simp: parse_ipv4_def)
  moreover have "plain (show_nat n)" for n using show_nat_digits plain_digits by blast
  ultimately show ?thesis by (simp add: ipv4_str_def)
qed

lemma port_plain: "parse_i64 ps = Some p \<Longrightarrow> plain ps"
proof -
  assume p: "parse_i64 ps = Some p"
  show ?thesis
  proof (cases "ps \<noteq> [] \<and> (hd ps = CHR ''-'' \<or> hd ps = CHR ''+'')")
    case True
    then obtain c cs where "ps = [c] @ cs" "c = CHR ''-'' \<or> c = CHR ''+''" by (cases ps) auto
    then show ?thesis using p plain_digits [of cs] plain_chars(4,5) by (auto simp: parse_i64_def Let_def split: if_splits)
  next
    case False
    then have "list_all digit_char ps" using p by (simp add: parse_i64_def Let_def split: if_splits)
    then show ?thesis by (rule plain_digits)
  qed
qed

lemma usable_uri_plain:
  assumes "parse_uri uri = Ok (name, ip, port)" "encode_bcd name = Ok b"
  shows "plain uri" "uri \<noteq> []"
proof -
  obtain ps p where u: "uri = name @ ''@'' @ ip @ '':'' @ ps" "ipv4_from_str ip \<noteq> None" "parse_i64 ps = Some p"
    using parse_uri_sound [OF assms(1)] by blast
  show "plain uri" "uri \<noteq> []"
    unfolding u(1) using bcd_name_plain [OF assms(2)] ipv4_plain [OF u(2)] port_plain [OF u(3)] plain_chars by simp_all
qed

lemma unlock_body_read:
  assumes "plain f" "plain t" "body = str_struct [(''from'', f), (''to'', t)]" "length body \<le> MAX_JSON_BODY_BYTES"
  shows "parse_json_body body = Some (Ok body) \<and> parse_unlock_body body = Some (f, t)"
proof -
  have ne: "body \<noteq> []" using assms(3) by (simp add: str_struct_text)
  have "parse_json_body body = Some (Ok body)"
    using str_struct_valid(2) [of "[(''from'', f), (''to'', t)]"] ne assms(3,4)
    by (simp add: parse_json_body_def read_json_body_def validate_json_syntax_def Let_def)
  moreover have "extract_json_string_field body ''from'' = Some (Ok f)" "extract_json_string_field body ''to'' = Some (Ok t)"
    using assms(1-3) plain_chars(6,7) extract_str_struct [of "[(''from'', f), (''to'', t)]"]
    by (simp_all add: last_match_def eq_ignore_ascii_case_def to_ascii_lower_def)
  ultimately show ?thesis
    using ne assms(3) by (simp add: parse_unlock_body_def unwrap_or_default_def)
qed


lemma unlock_push:
  "f \<noteq> [] \<Longrightarrow> t \<noteq> [] \<Longrightarrow>
   push_business_fields sc e ''unlock'' code f t s = s\<lparr>sv_pushes := sv_pushes s @
     (if sc_pusher sc \<and> \<not> ce_shutdown e
      then [(''unlock'', [''result'' \<mapsto> show_int code, ''from'' \<mapsto> f, ''to'' \<mapsto> t])] else [])\<rparr>"
  by (simp add: push_business_fields_def maybe_push_def spawn_push_def fun_upd_twist)

text \<open>The status and the code of the answer to an unlock.\<close>

definition unlock_answer :: "unlock_outcome \<Rightarrow> nat \<times> int" where
  "unlock_answer out =
     (if uo_result out = 0 then (200, 0)
      else if uo_result out = -1 \<and> uo_wire_kind out = None then (200, -1)
      else if uo_terminated_by_bye out \<or> uo_wire_kind out = Some SilentFin then (200, -103)
      else (503, case uo_wire_kind out of Some Timeout \<Rightarrow> -5 | None \<Rightarrow> 0 | _ \<Rightarrow> -1))"

lemma respond_unlock_eq:
  assumes "f \<noteq> []" "t \<noteq> []" "unlock_answer out = (status, code)"
  shows "respond_unlock_outcome sc e ''unlock'' out f t s =
       (Plain (write_json status (Some [(''result'', Number code)])),
        s\<lparr>sv_pushes := sv_pushes s @
           (if uo_result out \<noteq> 0 \<and> sc_pusher sc \<and> \<not> ce_shutdown e
            then [(''unlock'', [''result'' \<mapsto> show_int code, ''from'' \<mapsto> f, ''to'' \<mapsto> t])] else [])\<rparr>)"
  using assms(3)
  by (auto simp: unlock_answer_def respond_unlock_outcome_def respond_wire_failure_def respond_business_result_def
      classify_wire_kind_def unlock_push [OF assms(1,2)] result_defs STATUS_OK_def STATUS_SERVICE_UNAVAILABLE_def
      split: if_splits option.splits wire_kind.splits)


lemma dispatch_some:
  assumes "sys_wf sys"
  shows "\<exists>out sys'. dispatch deps caller callee ip port sys = (Some out, sys') \<and> sys_wf sys'"
proof (cases "sy_alive sys")
  case False
  then show ?thesis
    using assms by (auto simp: dispatch_def reply_channel_def submit_job_def sys_wf_def elim!: list.pred_mono_strong)
next
  case True
  let ?j = "\<lparr>uj_caller = caller, uj_callee = callee, uj_ip = ip, uj_port = port, uj_reply = sy_next sys,
             uj_per_attempt = None, uj_interval = UNLOCK_RETRY_INTERVAL\<rparr>"
  obtain r sys3 where "recv_reply deps (sy_next sys)
      (sys\<lparr>sy_next := sy_next sys + 1, sy_queue := sy_queue sys @ [JUnlock ?j]\<rparr>) = (Some r, sys3)" "sys_wf sys3"
    using recv_fresh [OF assms True, of ?j, OF _ refl, of deps] by auto
  then show ?thesis
    using True by (cases r) (auto simp: dispatch_def reply_channel_def submit_job_def)
qed

lemma json_media: "is_json_media_type ''application/json''"
proof -
  have "trim ''application/json'' = ''application/json''"
    by (rule trim_graphic) (simp add: graphic_def)
  then show ?thesis by (simp add: is_json_media_type_def eq_ignore_ascii_case_def to_ascii_lower_def)
qed

text \<open>
  C5. An unlock request end to end: a JSON POST to \<open>/unlock\<close> that names a caller and a door by well-formed URIs
  leads to exactly one dispatch of these numbers to the worker, to the address and port of the door's URI;
  the handler always answers; the answer is 200 with result 0 exactly when the unlock was confirmed, and
  then nothing is pushed; otherwise the answer tells why and one push with its code is made.
\<close>

theorem unlock_endpoint:
  assumes "sys_wf (sv_sys s)" "c_stations (sc_cfg sc) \<noteq> []"
    and "req_method r = ''POST''" "url_path (req_url r) = ''/unlock''"
    and "header_get ''Content-Type'' (req_header r) = Some ''application/json''"
    and "req_body r = str_struct [(''from'', f), (''to'', t)]" "length (req_body r) \<le> 1048576"
    and "parse_uri t = Ok (tname, ip, port)" "encode_bcd tname = Ok caller_bcd"
    and "parse_uri f = Ok (fname, fip, fport)" "encode_bcd fname = Ok callee_bcd"
  shows "\<exists>out sys'. dispatch (sc_worker sc) caller_bcd callee_bcd ip port (sv_sys s) = (Some out, sys') \<and>
    (case unlock_answer out of (status, code) \<Rightarrow>
       serve_http sc r e s = Some (Plain (write_json status (Some [(''result'', Number code)])),
         s\<lparr>sv_sys := sys', sv_pushes := sv_pushes s @
            (if uo_result out \<noteq> 0 \<and> sc_pusher sc \<and> \<not> ce_shutdown e
             then [(''unlock'', [''result'' \<mapsto> show_int code, ''from'' \<mapsto> f, ''to'' \<mapsto> t])] else [])\<rparr>)
       \<and> ((status, code) = (200, 0) \<longleftrightarrow> uo_result out = 0))"
proof -
  note pf = usable_uri_plain [OF assms(10,11)] and pt = usable_uri_plain [OF assms(8,9)]
  obtain out sys' where d: "dispatch (sc_worker sc) caller_bcd callee_bcd ip port (sv_sys s) = (Some out, sys')"
    using dispatch_some [OF assms(1)] by blast
  obtain status code where a: "unlock_answer out = (status, code)" by (cases "unlock_answer out")
  have b: "read_request_body r = Some (Ok (req_body r))" "parse_unlock_body (req_body r) = Some (f, t)"
    using unlock_body_read [OF pf(1) pt(1) assms(6)] assms(7) by (simp_all add: read_request_body_def MAX_JSON_BODY_BYTES_def)
  have "serve_http sc r e s = handle_unlock sc r e s"
    using assms(2-5) json_media
    by (simp add: serve_http_eq chain_business_post_def method_guard_post_def method_guard_def METHOD_POST_def
        require_json_content_type_def require_stations_configured_def)
  also have "\<dots> = Some (respond_unlock_outcome sc e ''unlock'' out f t (s\<lparr>sv_sys := sys'\<rparr>))"
    using b pt(2) d assms(8-11)
    by (simp add: handle_unlock_def Let_def parse_uri_bcd_def parse_uri_parts_def)
  finally show ?thesis
    using d a respond_unlock_eq [OF pf(2) pt(2) a, of sc e "s\<lparr>sv_sys := sys'\<rparr>"]
    by (auto simp: unlock_answer_def split: if_splits)
qed

section \<open>A toggle, from its request to the next start\<close>

definition toggle_body :: "bool \<Rightarrow> byte list" where
  "toggle_body on = encode_struct [(''on'', Bool on)] MARSHAL"

lemma toggle_body_text:
  "toggle_body on = 0x7b # 0x22 # as_bytes ''on'' @ 0x22 # 0x3a # as_bytes (if on then ''true'' else ''false'') @ [0x7d]"
  by (simp add: toggle_body_def encode_struct_def MARSHAL_def newline_def write_string_def escape_byte_def as_bytes_def)

lemma toggle_body_trim: "trim_ascii_whitespace (toggle_body on) = toggle_body on"
  by (rule trim_ascii_whitespace_solid [of _ "0x7b" _
        "0x7b # 0x22 # as_bytes ''on'' @ 0x22 # 0x3a # as_bytes (if on then ''true'' else ''false'')" "0x7d"])
    (simp_all add: toggle_body_text)

lemma read_bool_text: "read_json_bool (as_bytes (if on then ''true'' else ''false'') @ r) = Ok (on, r)"
  by (simp add: read_json_bool_def as_bytes_def)

lemma extract_bool_one:
  assumes "read_json_string (0x22 # x) = Ok (''on'', 0x3a # v)" "skip_json_ws v = v" "read_json_bool v = Ok (on, [0x7d])"
  shows "extract_loop read_json_bool ''on'' (Suc n) None (0x22 # x) = Some (Ok on)"
  using assms by (simp add: skip_json_ws_stop peek_def eq_ignore_ascii_case_def Let_def)

lemma toggle_extract: "extract_json_bool_field (toggle_body on) ''on'' = Some (Ok on)"
proof -
  let ?v = "as_bytes (if on then ''true'' else ''false'') @ [0x7d]"
  have k: "read_json_string (0x22 # as_bytes ''on'' @ 0x22 # 0x3a # ?v) = Ok (''on'', 0x3a # ?v)"
    by (rule read_json_string_plain) (simp add: plain_def as_bytes_def plain_byte_def)
  have w: "skip_json_ws ?v = ?v" by (simp add: skip_json_ws_def as_bytes_def is_ascii_whitespace_def)
  have "extract_loop read_json_bool ''on'' (Suc n) None (0x22 # as_bytes ''on'' @ 0x22 # 0x3a # ?v) = Some (Ok on)" for n
    using k w read_bool_text by (rule extract_bool_one)
  then have "extract_loop read_json_bool ''on'' (length (toggle_body on)) None (0x22 # as_bytes ''on'' @ 0x22 # 0x3a # ?v)
      = Some (Ok on)" by (simp add: toggle_body_text)
  then show ?thesis
    unfolding extract_json_bool_field_def extract_field_def toggle_body_trim Let_def
    by (simp add: toggle_body_text peek_def skip_json_ws_stop)
qed

lemma toggle_request_read:
  assumes "req_body r = toggle_body on"
  shows "parse_auto_toggle_request r = Some (Ok on)"
proof -
  have v: "parse_json_value (toggle_body on) = Some (Ok ())"
    using json_text_encode [of True "Struct [(''on'', Bool on)]" MARSHAL] min_json.json_text_read [of "toggle_body on"]
    by (auto simp: toggle_body_def encode_struct_def MARSHAL_def parse_json_value_def)
  have n: "toggle_body on \<noteq> []" "toggle_body on \<noteq> as_bytes ''null''" "length (toggle_body on) \<le> MAX_JSON_BODY_BYTES"
    by (simp_all add: toggle_body_text MAX_JSON_BODY_BYTES_def as_bytes_def)
  then have "parse_json_body (toggle_body on) = Some (Ok (toggle_body on))"
    using v by (simp add: parse_json_body_def read_json_body_def validate_json_syntax_def toggle_body_trim Let_def)
  then show ?thesis
    using assms n toggle_extract
    by (simp add: parse_auto_toggle_request_def read_request_body_def parse_auto_toggle_body_def toggle_body_trim Let_def)
qed


lemma persist_healthy:
  assumes "persisted path ps fs" "io_write io = WriteOk" "io_rename io = None"
  shows "\<exists>ps' fs'. persist io path cur ps fs = (None, ps', fs') \<and> fs' path = Some (render cur)"
proof -
  obtain e ps' fs' where p: "persist io path cur ps fs = (e, ps', fs')" by (cases "persist io path cur ps fs")
  have "e = None" using p assms(2,3) by (auto simp: persist_def write_atomic_def Let_def split: if_splits)
  then show ?thesis using persist_keeps(2) [OF p assms(1)] p by auto
qed

text \<open>
  C15. A toggle end to end: a JSON POST of \<open>{"on":b}\<close> to \<open>/auto_unlock\<close> or \<open>/auto_hangup\<close> sets exactly this flag and
  answers its new value; and when the write goes through, a daemon that starts afterwards with this file
  system comes up with these flags, whatever was written, failed or crashed before and whatever the
  configuration says.
\<close>

theorem toggle_survives_restart:
  assumes "persist_run path fs0 (sv_persister s) (sv_files s) h" "sc_automation sc" "sc_persist sc = Some path"
    and "req_method r = ''POST''" "header_get ''Content-Type'' (req_header r) = Some ''application/json''"
    and "req_body r = toggle_body on" "url_path (req_url r) = (if unlock then ''/auto_unlock'' else ''/auto_hangup'')"
    and "io_write (ce_io e) = WriteOk" "io_rename (ce_io e) = None"
  shows "\<exists>s'. serve_http sc r e s = Some (Plain (write_json 200 (Some [(''result'', Number 0),
            (if unlock then ''auto_unlock'' else ''auto_hangup'', Bool on)])), s')
    \<and> sv_auto s' = (if unlock then (sv_auto s)\<lparr>au_unlock := on\<rparr> else (sv_auto s)\<lparr>au_hangup := on\<rparr>)
    \<and> load_automation_flags path (fs_read (sv_files s') path) env_set cfg
        = ((au_unlock (sv_auto s'), au_hangup (sv_auto s'), ''state''), [])"
proof -
  let ?st = "if unlock then (sv_auto s)\<lparr>au_unlock := on\<rparr> else (sv_auto s)\<lparr>au_hangup := on\<rparr>"
  have "persisted path (sv_persister s) (sv_files s)" using persist_run_inv [OF assms(1)] by simp
  then obtain ps' fs' where p: "persist (ce_io e) path ?st (sv_persister s) (sv_files s) = (None, ps', fs')"
    "fs' path = Some (render ?st)" using persist_healthy assms(8,9) by blast
  let ?s = "s\<lparr>sv_auto := ?st, sv_persister := ps', sv_files := fs'\<rparr>"
  have rp: "run_persist sc e (s\<lparr>sv_auto := ?st\<rparr>) = ?s" using p(1) assms(3) by (simp add: run_persist_def)
  have "serve_http sc r e s = (if unlock then handle_auto_unlock sc r e s else handle_auto_hangup sc r e s)"
    using assms(4,5,7) json_media by (simp add: serve_http_eq chain_control_post_eq)
  also have "\<dots> = Some (Plain (write_json 200 (Some [(''result'', Number 0),
            (if unlock then ''auto_unlock'' else ''auto_hangup'', Bool on)])), ?s)"
    using toggle_request_read [OF assms(6)] rp assms(2)
    by (cases unlock) (simp_all add: handle_auto_unlock_def handle_auto_hangup_def STATUS_OK_def Let_def)
  finally show ?thesis
    using p(2) by (auto simp: load_automation_flags_def load_state_file_def fs_read_def state_parse_render Let_def)
qed

section \<open>Witnesses\<close>

definition idle_mgr :: mgr where
  "idle_mgr = \<lparr>vn_step = 0, vn_clock = (\<lambda>_. 0), vn_is_ipv6 = (\<lambda>_. False), vn_dial = (\<lambda>_. None), vn_setopt = (\<lambda>_. None),
     vn_write = (\<lambda>_. None), vn_read = (\<lambda>_. Ok []), vn_udp = (\<lambda>_. None), vn_log = [], vm_bind = (\<lambda>_. None),
     vm_random = (\<lambda>_. Ok (\<lambda>_. 1)), vm_sessions = [], vm_current = None, vm_cleanups = []\<rparr>"

definition fresh_server :: server where
  "fresh_server = \<lparr>sv_auto = \<lparr>au_unlock = False, au_hangup = False\<rparr>, sv_persister = persister_new, sv_files = (\<lambda>_. None),
     sv_pushes = [],
     sv_sys = \<lparr>sy_queue = [], sy_alive = False, sy_next = 0,
       sy_worker = \<lparr>wk_world = still_world, wk_replies = [], wk_lines = []\<rparr>\<rparr>,
     sv_mgr = idle_mgr\<rparr>"

definition plain_sc :: server_cfg where
  "plain_sc = \<lparr>sc_cfg = config_default\<lparr>c_stations := [station_default]\<rparr>, sc_version = [], sc_automation = True,
     sc_persist = Some ''s'', sc_pusher = True,
     sc_worker = worker_deps_new \<lparr>sn_iface = [], sn_timeout = None, sn_local_ip = None\<rparr> False, sc_video = None,
     sc_printable = (\<lambda>_. True)\<rparr>"

definition plain_env :: call_env where
  "plain_env = \<lparr>ce_io = all_ok, ce_shutdown = False, ce_pid = 1, ce_wait = [], ce_closed = False, ce_seed = False\<rparr>"

definition json_request :: "string \<Rightarrow> byte list \<Rightarrow> request" where
  "json_request path body = \<lparr>req_method = ''POST'', req_url = \<lparr>url_path = path, url_raw_query = []\<rparr>,
     req_header = header_set ''Content-Type'' ''application/json'' header_new, req_body = body, req_host = [],
     req_remote_addr = [], req_content_length = int (length body)\<rparr>"

theorem toggle_survives_restart_witness:
  "\<exists>s'. serve_http plain_sc (json_request ''/auto_unlock'' (toggle_body True)) plain_env fresh_server =
      Some (Plain (write_json 200 (Some [(''result'', Number 0), (''auto_unlock'', Bool True)])), s')
    \<and> load_automation_flags ''s'' (fs_read (sv_files s') ''s'') False config_default = ((True, False, ''state''), [])"
proof -
  let ?r = "json_request ''/auto_unlock'' (toggle_body True)"
  have "persist_run ''s'' (\<lambda>_. None) (sv_persister fresh_server) (sv_files fresh_server) []"
    using run_start by (simp add: fresh_server_def)
  from toggle_survives_restart [OF this, where sc = plain_sc and r = ?r and e = plain_env and on = True and unlock = True
      and env_set = False and cfg = config_default]
  show ?thesis
    by (auto simp: plain_sc_def json_request_def plain_env_def all_ok_def header_get_def header_set_def header_new_def
        fresh_server_def)
qed


definition door_text :: string where
  "door_text = ''10000001'' @ ''@'' @ ipv4_str [10, 0, 0, 2] @ '':'' @ show_nat 18022"

lemma door_uri: "parse_uri door_text = Ok (''10000001'', ipv4_str [10, 0, 0, 2], 18022)"
proof -
  have "ipv4_from_str (ipv4_str [10, 0, 0, 2]) \<noteq> None"
    using parse_ipv4_iff [of "ipv4_str [10, 0, 0, 2]" "[10, 0, 0, 2]"] by (simp add: parse_ipv4_def)
  then show ?thesis
    unfolding door_text_def using parse_uri_complete [of "''10000001''" _ "show_nat 18022" 18022] parse_i64_show_nat [of 18022]
    by simp
qed

lemma door_bcd: "encode_bcd ''10000001'' = Ok [0x10, 0, 0, 0x01]"
  by (simp add: encode_bcd_def as_bytes_def hex_nibble_def)

lemma door_length: "length door_text \<le> 40"
  by (simp add: door_text_def ipv4_str_def show_nat.simps)

theorem unlock_endpoint_witness:
  "\<exists>out sys'. dispatch (sc_worker plain_sc) [0x10, 0, 0, 0x01] [0x10, 0, 0, 0x01] (ipv4_str [10, 0, 0, 2]) 18022
        (sv_sys fresh_server) = (Some out, sys') \<and>
     (case unlock_answer out of (status, code) \<Rightarrow>
        \<exists>s'. serve_http plain_sc (json_request ''/unlock'' (str_struct [(''from'', door_text), (''to'', door_text)]))
            plain_env fresh_server
          = Some (Plain (write_json status (Some [(''result'', Number code)])), s'))"
proof -
  let ?b = "str_struct [(''from'', door_text), (''to'', door_text)]"
  have wf: "sys_wf (sv_sys fresh_server)" by (simp add: sys_wf_def fresh_server_def)
  have st: "c_stations (sc_cfg plain_sc) \<noteq> []" by (simp add: plain_sc_def)
  have pl: "plain door_text" "plain ''from''" "plain ''to''"
    using usable_uri_plain [OF door_uri door_bcd] plain_chars by auto
  have len: "length ?b \<le> 1048576"
    using door_length
    by (simp add: str_struct_text str_member_def write_string_plain [OF pl(1)] write_string_plain [OF pl(2)]
        write_string_plain [OF pl(3)] as_bytes_def)
  show ?thesis
    using unlock_endpoint [OF wf st, where r = "json_request ''/unlock'' ?b" and e = plain_env and f = door_text
        and t = door_text, OF _ _ _ _ _ door_uri door_bcd door_uri door_bcd] len
    by (auto simp: json_request_def header_get_def header_set_def header_new_def)
qed

end
