(* ===== verification/Service.thy ===== *)
theory Service
  imports HttpServer Endpoints
begin

text \<open>
  The control plane behind the HTTP server: \<open>control::Server::handler\<close> as the handler of the connections of
  \<open>httpx::server\<close>, and the two ends of an exchange put together.  A request written by the client of the
  same code base is read by the server, answered by a handler, and the answer is read by the client.
\<close>

section \<open>The handler of a connection\<close>

text \<open>
  What a stream sees while it runs: the frame buffer it is seeded from, the results of its receives, and the
  rounds of the thread that refreshes the session's time to live.
\<close>

record stream_env =
  sm_buffer :: frame_buffer
  sm_events :: "Transmux.recv_result list"
  sm_refresh_period :: nat
  sm_refresh_first :: nat
  sm_refresh_rounds :: "(bool \<times> nat) list"

definition perform :: "rw_op list \<Rightarrow> conn_writer \<Rightarrow> conn_writer" where
  "perform ops w = fold (perform_op conn_write) ops w"

definition control_serve :: "server_cfg \<Rightarrow> call_env \<Rightarrow> stream_env \<Rightarrow> server serve_fn" where
  "control_serve sc e sm r ws =
     (case ws of (w, s) \<Rightarrow>
        (case serve_http sc r e s of
           None \<Rightarrow> None
         | Some (Plain ops, s') \<Rightarrow> Some (Returned (perform ops w, s'))
         | Some (Stream ops i, s') \<Rightarrow>
             (case sc_video sc of
                None \<Rightarrow> None
              | Some mc \<Rightarrow>
                  (case stream_run (body_write_all conn_write) (body_flush conn_write conn_flush) (sm_buffer sm)
                          (sm_events sm) new_stream_writer (perform ops w) of
                     (None, _) \<Rightarrow> None
                   | (Some res, _, w') \<Rightarrow>
                       let m = fst (refresh_ttl_loop mc (se_id (sess (sv_mgr s') i)) (sm_refresh_period sm)
                                 (sm_refresh_first sm) (sm_refresh_rounds sm) (sv_mgr s'))
                       in Some (Returned (w', finish_video_stream mc i (s'\<lparr>sv_mgr := m\<rparr>)))))))"

section \<open>JSON answers\<close>

definition json_headers :: "nat \<Rightarrow> header" where
  "json_headers n = header_set ''Content-Length'' (show_nat n) (header_set ''Content-Type'' ''application/json'' header_new)"

lemma json_headers_eq: "json_headers n = [(''Content-Type'', [''application/json'']), (''Content-Length'', [show_nat n])]"
proof -
  have "canonical_mime_header_key ''Content-Type'' = ''Content-Type''" by code_simp
  then show ?thesis by (simp add: json_headers_def header_set_def header_new_def)
qed

lemma final_json_headers:
  "final_headers (json_headers n) =
     [(''Content-Type'', [''application/json'']), (''Content-Length'', [show_nat n]), (''Connection'', [''close''])]"
proof -
  have "header_get ''Content-Length'' (json_headers n) = Some (show_nat n)"
    by (simp add: json_headers_eq header_get_def)
  from final_headers_fixed(1) [OF this] show ?thesis by (simp add: json_headers_eq header_set_def)
qed

lemma sorted_json_headers:
  "header_sorted (final_headers (json_headers n)) =
     [(''Connection'', [''close'']), (''Content-Length'', [show_nat n]), (''Content-Type'', [''application/json''])]"
proof -
  have "\<not> ''Content-Type'' \<le> ''Connection''" "''Connection'' \<le> ''Content-Length''" "\<not> ''Content-Length'' \<le> ''Connection''"
    "''Content-Length'' \<le> ''Content-Type''" "\<not> ''Content-Type'' \<le> ''Content-Length''" "''Connection'' \<le> ''Content-Type''"
    by code_simp+
  then show ?thesis by (simp add: final_json_headers header_sorted_def)
qed

lemma json_headers_printable:
  assumes "n < DEFAULT_BUF_SIZE"
  shows "printable_headers (final_headers (json_headers n))"
proof -
  have "good_key ''Connection'' \<and> good_key ''Content-Length'' \<and> good_key ''Content-Type''"
    "good_value ''close'' \<and> good_value ''application/json''" by code_simp+
  moreover have "length (show_nat n) \<le> 4"
    using assms by (simp add: DEFAULT_BUF_SIZE_def show_nat.simps [of n] show_nat.simps [of "n div 10"]
        show_nat.simps [of "n div 10 div 10"] show_nat.simps [of "n div 10 div 10 div 10"])
  moreover have "header_inv (final_headers (json_headers n))" by (simp add: final_json_headers header_inv_def)
  ultimately show ?thesis
    using show_nat_good [of n]
    by (simp add: printable_headers_def sorted_json_headers header_fields_def good_fields_def fields_size_def
        MAX_HEADER_BYTES_def MAX_HEADER_COUNT_def MAX_REQUEST_LINE_BYTES_def)
qed

lemma perform_write_json:
  "perform (write_json code (Some fs)) (rw_new bw) =
     snd (rw_write conn_write (encode_struct fs MARSHAL) (rw_write_header conn_write code
       ((rw_new bw)\<lparr>rw_headers := json_headers (length (encode_struct fs MARSHAL))\<rparr>)))"
  by (simp add: perform_def write_json_def Let_def rw_header_set_def json_headers_def rw_new_def)


section \<open>An exchange\<close>

lemma json_headers_get:
  "header_get ''Content-Length'' (json_headers n) = Some (show_nat n)"
  "header_get ''Transfer-Encoding'' (json_headers n) = None"
  by (simp_all add: json_headers_eq header_get_def)

text \<open>
  C7. From the client's call to the client's answer: a request the client builds, that arrives before the
  deadline of the headers in reads of any sizes, on a connection that takes the answer in time, reaches the control plane with the method, path, headers and
  body the client set; and a JSON answer of fewer than 8192 bytes that the control plane gives to it comes
  back to the client whole, with its status and its body, and with the state the handler left.
\<close>

theorem exchange_delivers:
  assumes "split_url dbg (cr_url req) = Ok (hostport, target)" "cr_method req = METHOD_GET \<or> cr_method req = METHOD_POST"
    and "good_target target" "header_inv (cr_header req)" "printable_headers (client_headers hostport req)"
    and "header_get ''Transfer-Encoding'' (cr_header req) = None" "header_get ''Upgrade'' (cr_header req) = None"
    and "int (length (cr_body req)) \<le> MAX_BODY_BYTES"
    and "in_time cx t si (request_bytes (cr_method req) target (client_headers hostport req) (cr_body req))"
    and "tcp_healthy (s\<lparr>tcp_deadline := write_deadline cx t\<rparr>)" "tcp_out s = []"
    and "serve_http sc ((received_request hostport target req)\<lparr>req_remote_addr := peer\<rparr>) ce st
           = Some (Plain (write_json code (Some fs)), st')"
    and "100 \<le> code" "code \<le> 999" "length (encode_struct fs MARSHAL) < DEFAULT_BUF_SIZE"
  shows "\<exists>s'. serve_conn cx (control_serve sc ce sm) t (Some peer) si (s, st) = Some (s', st')
    \<and> read_response \<lparr>rd_input = tcp_out s', rd_end = e\<rparr> = Some (Ok \<lparr>resp_status_code = code,
         resp_header = header_sorted (final_headers (json_headers (length (encode_struct fs MARSHAL)))),
         resp_body = encode_struct fs MARSHAL\<rparr>, \<lparr>rd_input = [], rd_end = e\<rparr>)"
proof -
  let ?bs = "request_bytes (cr_method req) target (client_headers hostport req) (cr_body req)"
  let ?hd = "headers_done_switch cx t si" and ?body = "encode_struct fs MARSHAL"
  let ?s = "s\<lparr>tcp_deadline := write_deadline cx t\<rparr>"
  let ?w = "perform (write_json code (Some fs)) (rw_new (bufw_new ?s))"
  obtain en where en: "deadline_reader (read_deadline cx t False) si = \<lparr>rd_input = ?bs, rd_end = en\<rparr>"
    using deadline_reader_in_time [OF assms(9)] by blast
  have "rd_input (?hd \<lparr>rd_input = cr_body req, rd_end = en\<rparr>) = rd_input \<lparr>rd_input = cr_body req, rd_end = en\<rparr>"
    by (rule headers_done_in_time [OF assms(9)]) (simp add: request_bytes_def)
  then have "rd_input (?hd \<lparr>rd_input = cr_body req, rd_end = en\<rparr>) = cr_body req" by simp
  then obtain r where rd: "read_request ?hd \<lparr>rd_input = ?bs, rd_end = en\<rparr> = Some (Ok (received_request hostport target req), r)"
    using client_request_read [OF assms(1-8), of ?hd en] by blast
  have "tcp_out ?s = []" using assms(11) by simp
  have "serve_conn cx (control_serve sc ce sm) t (Some peer) si (s, st) = Some (conn_close ?w, st')"
    using rd en assms(12)
    by (simp add: serve_conn_def serve_conn_inner_def control_serve_def conn_close_def Let_def)
  moreover have "read_response \<lparr>rd_input = tcp_out (conn_close ?w), rd_end = e\<rparr> = Some (Ok \<lparr>resp_status_code = code,
         resp_header = header_sorted (final_headers (json_headers (length ?body))), resp_body = ?body\<rparr>, \<lparr>rd_input = [], rd_end = e\<rparr>)"
    unfolding perform_write_json
    by (rule fixed_reply_read [OF assms(10) \<open>tcp_out ?s = []\<close> json_headers_get json_headers_printable [OF assms(15)] assms(13-15)])
  ultimately show ?thesis by blast
qed


text \<open>A witness: the automation flags of a fresh server, asked for over a connection that takes 100 bytes at a time.\<close>

definition ask_flags :: client_request where
  "ask_flags = \<lparr>cr_method = ''GET'', cr_url = ''http://d:8080/automation'', cr_header = header_new, cr_body = []\<rparr>"

definition no_stream :: stream_env where
  "no_stream = \<lparr>sm_buffer = new_frame_buffer, sm_events = [], sm_refresh_period = 30000, sm_refresh_first = 0,
     sm_refresh_rounds = []\<rparr>"

abbreviation flags_answer :: "(string \<times> json_value) list" where
  "flags_answer \<equiv> [(''result'', Number 0), (''auto_unlock'', Bool False), (''auto_hangup'', Bool False)]"

lemma ask_flags_headers: "printable_headers (client_headers ''d:8080'' ask_flags)" "header_inv (cr_header ask_flags)"
proof -
  let ?h = "client_headers ''d:8080'' ask_flags"
  show inv: "header_inv (cr_header ask_flags)" by (simp add: ask_flags_def header_inv_new)
  have "header_fields (header_sorted ?h) = [(''Connection'', ''close''), (''Content-Length'', ''0''), (''Host'', ''d:8080'')]"
    by code_simp
  moreover have "good_key ''Connection'' \<and> good_key ''Content-Length'' \<and> good_key ''Host''"
    "good_value ''close'' \<and> good_value ''0'' \<and> good_value ''d:8080''"
    by code_simp+
  ultimately show "printable_headers ?h"
    using client_headers_facts(5) [OF inv]
    by (simp add: printable_headers_def good_fields_def fields_size_def MAX_HEADER_BYTES_def MAX_HEADER_COUNT_def
        MAX_REQUEST_LINE_BYTES_def)
qed

lemma ask_flags_served:
  "serve_http plain_sc ((received_request ''d:8080'' ''/automation'' ask_flags)\<lparr>req_remote_addr := ''p''\<rparr>) plain_env fresh_server
     = Some (Plain (write_json 200 (Some flags_answer)), fresh_server)"
proof -
  have "split_path_query ''/automation'' = (''/automation'', [])" by code_simp
  then show ?thesis
    by (simp add: serve_http_eq method_guard_def handle_automation_get_def plain_sc_def fresh_server_def STATUS_OK_def
        ask_flags_def METHOD_GET_def)
qed

theorem exchange_delivers_witness:
  "\<exists>s'. serve_conn ctx_new (control_serve plain_sc plain_env no_stream) 0 (Some ''p'')
      \<lparr>si_reads = [(0, Ok (request_bytes ''GET'' ''/automation'' (client_headers ''d:8080'' ask_flags) []))], si_spins = 0\<rparr>
      (wit_tcp, fresh_server) = Some (s', fresh_server)
    \<and> (\<exists>h r. read_response \<lparr>rd_input = tcp_out s', rd_end = EndEof None\<rparr> = Some (Ok \<lparr>resp_status_code = 200,
         resp_header = h, resp_body = encode_struct flags_answer MARSHAL\<rparr>, r))"
proof -
  have u: "split_url id (cr_url ask_flags) = Ok (''d:8080'', ''/automation'')" by code_simp
  have g: "good_target ''/automation''" "cr_method ask_flags = METHOD_GET \<or> cr_method ask_flags = METHOD_POST"
    "header_get ''Transfer-Encoding'' (cr_header ask_flags) = None" "header_get ''Upgrade'' (cr_header ask_flags) = None"
    by code_simp+
  have b: "int (length (cr_body ask_flags)) \<le> MAX_BODY_BYTES" "tcp_out wit_tcp = []" "cr_method ask_flags = ''GET''"
    "cr_body ask_flags = []" "tcp_healthy (wit_tcp\<lparr>tcp_deadline := write_deadline ctx_new 0\<rparr>)"
    by (simp_all add: ask_flags_def MAX_BODY_BYTES_def wit_tcp_def ctx_new_def write_deadline_def tcp_healthy_def
        before_deadline_def exI [of _ 1])
  let ?bs = "request_bytes (cr_method ask_flags) ''/automation'' (client_headers ''d:8080'' ask_flags) (cr_body ask_flags)"
  have t: "in_time ctx_new 0 \<lparr>si_reads = [(0, Ok ?bs)], si_spins = 0\<rparr> ?bs"
    by (simp add: in_time_def read_deadline_def ctx_new_def)
  have "plain ''result''" "plain ''auto_unlock''" "plain ''auto_hangup''"
    by (simp_all add: plain_def as_bytes_def plain_byte_def)
  moreover have "show_int 0 = ''0''" by code_simp
  ultimately have "length (encode_struct flags_answer MARSHAL) \<le> 60"
    by (simp add: encode_struct_def MARSHAL_def newline_def write_string_plain)
  then have l: "length (encode_struct flags_answer MARSHAL) < DEFAULT_BUF_SIZE" by (simp add: DEFAULT_BUF_SIZE_def)
  from exchange_delivers [OF u g(2,1) ask_flags_headers(2,1) g(3,4) b(1) t b(5,2) ask_flags_served _ _ l,
      of no_stream "EndEof None"]
  show ?thesis unfolding b(3,4) by auto
qed

end
