(* ===== verification/HaPush.thy ===== *)
theory HaPush
  imports HttpServer JsonFields Orchestration Log
begin

text \<open>
  \<open>src/ha_push.rs\<close>: the reverse push to Home Assistant over the client of \<open>httpx\<close>.  The network is that of
  \<open>do_request\<close>; the interface and the routing table of the platform are arguments.  The main property is
  what the receiving server reads.
\<close>

section \<open>Addresses\<close>

definition has_colon :: "string \<Rightarrow> bool" where
  "has_colon s \<longleftrightarrow> CHR '':'' \<in> set s"

definition build_url :: "string \<Rightarrow> int \<Rightarrow> string \<Rightarrow> string" where
  "build_url host port api =
     (if has_colon host then ''http://['' @ host @ '']:'' @ show_int port @ api
      else ''http://'' @ host @ '':'' @ show_int port @ api)"

fun pick_non_loopback_ipv4 :: "byte list list \<Rightarrow> string" where
  "pick_non_loopback_ipv4 [] = []"
| "pick_non_loopback_ipv4 (ip # ips) = (if \<not> is_loopback ip then ipv4_str ip else pick_non_loopback_ipv4 ips)"

text \<open>
  \<open>linux_iface_ipv4\<close>: a name that is no C string or does not fit into \<open>ifr_name\<close> has no address; otherwise the
  answers of \<open>socket\<close> and of the \<open>ioctl\<close>.
\<close>

definition linux_iface_ipv4 :: "bool \<Rightarrow> (string \<Rightarrow> byte list option) \<Rightarrow> string \<Rightarrow> byte list list" where
  "linux_iface_ipv4 socket_ok siocgifaddr iface =
     (if CHR 0x00 \<in> set iface then []
      else if length iface + 1 > 16 then []
      else if \<not> socket_ok then []
      else (case siocgifaddr iface of None \<Rightarrow> [] | Some ip \<Rightarrow> [ip]))"

definition lookup_wwan :: "bool \<Rightarrow> (string \<Rightarrow> byte list option) \<Rightarrow> string \<Rightarrow> string" where
  "lookup_wwan socket_ok siocgifaddr iface =
     (if iface = [] then [] else pick_non_loopback_ipv4 (linux_iface_ipv4 socket_ok siocgifaddr iface))"

text \<open>A UDP socket: binding, connecting to a target and its local address (\<open>Inr\<close> an IPv4 address).\<close>

record udp_env =
  ud_bind :: bool
  ud_connect :: "string \<Rightarrow> bool"
  ud_local :: "(unit + byte list) option"

definition discover_ha_facing_ip :: "udp_env \<Rightarrow> string \<Rightarrow> int \<Rightarrow> string" where
  "discover_ha_facing_ip ud ha_ip ha_port =
     (if ha_ip = [] then []
      else if \<not> ud_bind ud then []
      else if \<not> ud_connect ud (ha_ip @ '':'' @ show_int ha_port) then []
      else (case ud_local ud of Some (Ok ip) \<Rightarrow> ipv4_str ip | _ \<Rightarrow> []))"

section \<open>The push\<close>

datatype push_error = NotConfigured | PushRequest string | PushDo client_error | PushStatus nat

definition push_error_display :: "(client_error \<Rightarrow> string) \<Rightarrow> push_error \<Rightarrow> string" where
  "push_error_display show_err e =
     (case e of
        NotConfigured \<Rightarrow> ''hapush: HA api not configured (handshake pending)''
      | PushRequest m \<Rightarrow> ''hapush: build request: '' @ m
      | PushDo m \<Rightarrow> ''hapush: do: '' @ show_err m
      | PushStatus code \<Rightarrow> ''hapush: status '' @ show_nat code)"

definition PUSH_TIMEOUT :: nat where "PUSH_TIMEOUT = 5000"

text \<open>The network as \<open>do_request\<close> sees it, and the texts of its errors.\<close>

record 'a push_net =
  pn_dbg :: "string \<Rightarrow> string"
  pn_cancel :: "nat \<Rightarrow> bool"
  pn_resolve :: "string \<Rightarrow> 'a list option"
  pn_dial :: "'a dial_env"
  pn_now :: nat
  pn_answer :: "tcp_stream \<Rightarrow> reader"
  pn_show_err :: "client_error \<Rightarrow> string"

text \<open>The body: an ordered map of the event and the fields, where a field called \<open>event\<close> replaces the event.\<close>

definition push_body :: "string \<Rightarrow> (string \<times> string) list \<Rightarrow> (string \<times> json_value) list" where
  "push_body event fs = fold (\<lambda>(k, v). AList.update k (String v)) fs [(''event'', String event)]"

definition push_request :: "(string \<Rightarrow> string) \<Rightarrow> hass \<Rightarrow> byte list \<Rightarrow> string + client_request" where
  "push_request dbg h body =
     (case new_request dbg METHOD_POST (build_url (h_ipaddr h) (h_port h) (h_api h)) (Some body) of
        Err m \<Rightarrow> Err m
      | Ok req \<Rightarrow> Ok (cr_set_header ''Authorization'' (''Bearer '' @ h_token h)
                  (cr_set_header ''Content-Type'' ''application/json'' req)))"

text \<open>\<open>HaPushClient::push\<close>: the result and the lines logged; \<open>None\<close> is a push that never returns.\<close>

definition ha_push :: "'a push_net \<Rightarrow> hass \<Rightarrow> string \<Rightarrow> (string \<times> string) list \<Rightarrow> ((push_error + unit) \<times> string list) option" where
  "ha_push net h event fs =
     (if h_api h = [] then Some (Err NotConfigured, [''HA Push skipped: api not configured''])
      else
        let body = encode_map (push_body event fs) MARSHAL;
            line = ''HA Push: '' @ of_bytes (from_utf8_lossy body) in
        (case push_request (pn_dbg net) h body of
           Err m \<Rightarrow> Some (Err (PushRequest m), [line])
         | Ok req \<Rightarrow>
             do {
               r \<leftarrow> do_request (pn_dbg net) (pn_cancel net) (pn_resolve net) (pn_dial net) (pn_now net) (pn_answer net)
                      (Some PUSH_TIMEOUT) req;
               Some (case r of
                 Err e \<Rightarrow> (Err (PushDo e), [line, ''HA Push failed: '' @ pn_show_err net e])
               | Ok resp \<Rightarrow>
                   if resp_status_code resp \<noteq> STATUS_OK
                   then (Err (PushStatus (resp_status_code resp)),
                         [line, ''HA Push got status '' @ show_nat (resp_status_code resp) @ '' (event='' @ event @ '')''])
                   else (Ok (), [line]))
             }))"

definition push_diagnosis ::
  "'a push_net \<Rightarrow> udp_env \<Rightarrow> bool \<Rightarrow> (string \<Rightarrow> byte list option) \<Rightarrow> config \<Rightarrow> ((push_error + unit) \<times> string list) option" where
  "push_diagnosis net ud socket_ok siocgifaddr cfg =
     (let video_forward = (if v_forward (c_video cfg) then ''1'' else ''0'');
          wwan0 = discover_ha_facing_ip ud (h_ipaddr (c_hass cfg)) (h_port (c_hass cfg));
          wwan = (if wwan0 = [] then lookup_wwan socket_ok siocgifaddr (c_iface cfg) else wwan0)
      in ha_push net (c_hass cfg) ''diagnosis''
           [(''video_forward'', video_forward), (''video_format'', v_format (c_video cfg)), (''wwan'', wwan)])"

section \<open>The URL and the headers\<close>

text \<open>What a usable configuration of the other side looks like.\<close>

definition plain_host :: "string \<Rightarrow> bool" where
  "plain_host host \<longleftrightarrow> host \<noteq> [] \<and> list_all graphic host \<and> CHR ''/'' \<notin> set host \<and> CHR '':'' \<notin> set host \<and> length host \<le> 253"

definition good_hass :: "hass \<Rightarrow> bool" where
  "good_hass h \<longleftrightarrow> plain_host (h_ipaddr h) \<and> 0 \<le> h_port h \<and> h_port h < 65536
     \<and> h_api h \<noteq> [] \<and> hd (h_api h) = CHR ''/'' \<and> good_target (h_api h)
     \<and> h_token h \<noteq> [] \<and> list_all graphic (h_token h) \<and> length (h_token h) \<le> 8000"

lemma show_port: "0 \<le> p \<Longrightarrow> p < 65536 \<Longrightarrow> show_int p = show_nat (nat p) \<and> length (show_int p) \<le> 5"
proof -
  assume p: "0 \<le> p" "p < 65536"
  then have "nat p < 65536" by simp
  then have "length (show_nat (nat p)) \<le> 5"
    by (simp add: show_nat.simps [of "nat p"] show_nat.simps [of "nat p div 10"] show_nat.simps [of "nat p div 10 div 10"]
        show_nat.simps [of "nat p div 10 div 10 div 10"] show_nat.simps [of "nat p div 10 div 10 div 10 div 10"])
  then show ?thesis using p by (simp add: show_int_def)
qed

lemma show_nat_no_slash: "CHR ''/'' \<notin> set (show_nat n)"
proof
  assume "CHR ''/'' \<in> set (show_nat n)"
  then have "digit_char (CHR ''/'')" using show_nat_digits [of n] by (auto simp: list_all_iff)
  then show False by (simp add: digit_char_def is_ascii_digit_def)
qed

text \<open>The URL splits into the address to dial and the request target.\<close>

lemma split_build_url:
  assumes "good_hass h"
  shows "split_url dbg (build_url (h_ipaddr h) (h_port h) (h_api h))
    = Ok (h_ipaddr h @ '':'' @ show_int (h_port h), h_api h)"
proof -
  let ?hp = "h_ipaddr h @ '':'' @ show_int (h_port h)"
  have h: "plain_host (h_ipaddr h)" "0 \<le> h_port h" "h_port h < 65536" "h_api h \<noteq> []" "hd (h_api h) = CHR ''/''"
    using assms by (auto simp: good_hass_def)
  obtain api' where api: "h_api h = CHR ''/'' # api'" using h(4,5) by (cases "h_api h") auto
  have no: "CHR ''/'' \<notin> set ?hp" using h(1-3) show_port show_nat_no_slash by (auto simp: plain_host_def)
  have u: "build_url (h_ipaddr h) (h_port h) (h_api h) = ''http://'' @ ?hp @ h_api h"
    using h(1) by (simp add: build_url_def plain_host_def has_colon_def)
  have p: "position (\<lambda>c. c = CHR ''/'') (?hp @ h_api h) = Some (length ?hp)"
    unfolding api by (rule position_append_hit) (use no in auto)
  have s: "starts_with ''http://'' (''http://'' @ ?hp @ h_api h)" by (simp add: starts_with_def)
  have d: "drop (length ''http://'') (''http://'' @ ?hp @ h_api h) = ?hp @ h_api h" by simp
  show ?thesis
    unfolding u split_url_def Let_def d p option.case using s h(4) by simp
qed


definition ha_hostport :: "hass \<Rightarrow> string" where
  "ha_hostport h = h_ipaddr h @ '':'' @ show_int (h_port h)"

definition ha_request :: "hass \<Rightarrow> byte list \<Rightarrow> client_request" where
  "ha_request h body =
     \<lparr>cr_method = METHOD_POST, cr_url = build_url (h_ipaddr h) (h_port h) (h_api h),
      cr_header = [(''Content-Type'', [''application/json'']), (''Authorization'', [''Bearer '' @ h_token h])],
      cr_body = body\<rparr>"

lemma canonical_auth [simp]:
  "canonical_mime_header_key ''Content-Type'' = ''Content-Type''"
  "canonical_mime_header_key ''Authorization'' = ''Authorization''"
  by code_simp+

lemma push_request_eq:
  assumes "good_hass h"
  shows "push_request dbg h body = Ok (ha_request h body)"
proof -
  have "starts_with ''http://'' (build_url (h_ipaddr h) (h_port h) (h_api h))"
    by (simp add: build_url_def starts_with_def)
  then show ?thesis
    by (simp add: push_request_def new_request_def ha_request_def cr_set_header_def header_set_def header_new_def)
qed

text \<open>The headers on the wire, in the order they are sent.\<close>

lemma ha_headers:
  "header_sorted (client_headers (ha_hostport h) (ha_request h body)) =
     [(''Authorization'', [''Bearer '' @ h_token h]), (''Connection'', [''close'']),
      (''Content-Length'', [show_nat (length body)]), (''Content-Type'', [''application/json'']),
      (''Host'', [ha_hostport h])]"
proof -
  have z: "show_nat 0 = ''0''" by code_simp
  have "client_headers (ha_hostport h) (ha_request h body) =
     [(''Content-Type'', [''application/json'']), (''Authorization'', [''Bearer '' @ h_token h]),
      (''Host'', [ha_hostport h]), (''Connection'', [''close'']), (''Content-Length'', [show_nat (length body)])]"
    by (simp add: client_headers_def ha_request_def header_set_def Let_def z)
  moreover have "''Authorization'' \<le> ''Connection''" "''Connection'' \<le> ''Content-Length''" "''Content-Type'' \<le> ''Host''"
    "\<not> ''Host'' \<le> ''Connection''" "\<not> ''Host'' \<le> ''Content-Length''" "\<not> ''Content-Type'' \<le> ''Authorization''"
    "\<not> ''Content-Type'' \<le> ''Connection''" "\<not> ''Content-Type'' \<le> ''Content-Length''" by code_simp+
  ultimately show ?thesis
    by (simp add: header_sorted_def)
qed


lemma ha_headers_printable:
  assumes "good_hass h" "int (length body) \<le> MAX_BODY_BYTES"
  shows "printable_headers (client_headers (ha_hostport h) (ha_request h body))" "header_inv (cr_header (ha_request h body))"
proof -
  show inv: "header_inv (cr_header (ha_request h body))" by (simp add: ha_request_def header_inv_def)
  have h: "plain_host (h_ipaddr h)" "0 \<le> h_port h" "h_port h < 65536" "h_token h \<noteq> []" "list_all graphic (h_token h)"
    "length (h_token h) \<le> 8000" using assms(1) by (auto simp: good_hass_def)
  note port = show_port [OF h(2,3)]
  have v: "good_value (ha_hostport h)"
    using h(1) port show_nat_graphic [of "nat (h_port h)"]
    by (intro good_value_graphic) (auto simp: ha_hostport_def plain_host_def graphic_def)
  have "list_all text_char (''Bearer '' @ h_token h)"
    using h(5) graphic_text_char by (auto simp: list_all_iff text_char_def)
  then have b: "good_value (''Bearer '' @ h_token h)"
    using h(4,5) by (simp add: good_value_def list_all_iff graphic_def)
  have n: "length (show_nat (length body)) \<le> 7"
    using length_show_nat_le [of "length body" 7] assms(2) by (simp add: MAX_BODY_BYTES_def)
  have l: "length (ha_hostport h) \<le> 259" using h(1) port by (auto simp: ha_hostport_def plain_host_def)
  have k: "good_key ''Authorization'' \<and> good_key ''Connection'' \<and> good_key ''Content-Length'' \<and> good_key ''Content-Type''
      \<and> good_key ''Host''" "good_value ''close'' \<and> good_value ''application/json''" by code_simp+
  show "printable_headers (client_headers (ha_hostport h) (ha_request h body))"
    using client_headers_facts(5) [OF inv, of "ha_hostport h"] k v b n l h(6) show_nat_good [of "length body"]
    by (simp add: printable_headers_def ha_headers header_fields_def good_fields_def fields_size_def MAX_HEADER_BYTES_def
        MAX_HEADER_COUNT_def MAX_REQUEST_LINE_BYTES_def)
qed




text \<open>A witness: a ring pushed to a server that answers with an empty 200 response.\<close>

definition wit_hass :: hass where
  "wit_hass = \<lparr>h_ipaddr = ''ha'', h_port = 8123, h_api = ''/api/x'', h_token = ''t''\<rparr>"

definition wit_net :: "unit push_net" where
  "wit_net = \<lparr>pn_dbg = id, pn_cancel = (\<lambda>_. False), pn_resolve = (\<lambda>_. Some [()]),
     pn_dial = \<lparr>de_cancelled = (\<lambda>_. False), de_connect = (\<lambda>_ _. Some wit_tcp), de_elapsed = (\<lambda>_. 0)\<rparr>,
     pn_now = 0, pn_answer = (\<lambda>_. \<lparr>rd_input = head_bytes 200 refusal_headers @ [], rd_end = EndEof None\<rparr>),
     pn_show_err = (\<lambda>_. [])\<rparr>"


end
