(* ===== verification/SelfUnlock.thy ===== *)
theory SelfUnlock
  imports Orchestration
begin

text \<open>
  \<open>src/self_unlock.rs\<close>: the consumer thread that opens the door on a ring of a configured station while the
  automation flag is on, and the timer threads of the automatic hang-up.

  Inputs carry what the thread reads from outside: the clock, the two flags, the shutdown flag as the push
  thread sees it, and what other threads have done to the worker's queue since the last ring.  Times are
  milliseconds.  A call that would never return is the result \<open>None\<close>.
\<close>

section \<open>Dependencies\<close>

definition DEBOUNCE_MARGIN_MS :: nat where "DEBOUNCE_MARGIN_MS = 2000"
definition HANGUP_DELAY_MS :: nat where "HANGUP_DELAY_MS = 2000"

definition debounce_window :: nat where
  "debounce_window = UNLOCK_TOTAL_CAP + DEBOUNCE_MARGIN_MS"

definition hangup_delay :: nat where
  "hangup_delay = HANGUP_DELAY_MS"

record self_unlock_deps =
  sd_outdoor_by_ip :: "(string \<times> string) list"
  sd_callee_bcd :: "byte list"
  sd_indoor_ip :: "byte list"
  sd_indoor_uri :: string

definition callee_bcd_failed :: string where
  "callee_bcd_failed = ''[auto_unlock] consumer: parse cfg.sip (callee bcd) failed; self-unlock disabled''"
definition callee_failed :: string where
  "callee_failed = ''[auto_unlock] consumer: parse cfg.sip (callee) failed; self-unlock disabled''"
definition indoor_ip_failed :: string where
  "indoor_ip_failed = ''[auto_unlock] consumer: cfg.sip indoor ip unparseable; self-unlock disabled''"

definition try_new :: "config \<Rightarrow> (string \<times> string) list \<Rightarrow> self_unlock_deps option \<times> string list" where
  "try_new cfg outdoor_by_ip =
     (case parse_uri (c_sip cfg) of
        Err _ \<Rightarrow> (None, [callee_failed])
      | Ok (name, ip_str, _) \<Rightarrow>
          (case encode_bcd name of
             Err _ \<Rightarrow> (None, [callee_bcd_failed])
           | Ok callee_bcd \<Rightarrow>
               (case parse_ipv4 ip_str of
                  None \<Rightarrow> (None, [indoor_ip_failed])
                | Some indoor_ip \<Rightarrow>
                    (Some \<lparr>sd_outdoor_by_ip = outdoor_by_ip, sd_callee_bcd = callee_bcd, sd_indoor_ip = indoor_ip,
                           sd_indoor_uri = c_sip cfg\<rparr>, []))))"

definition make_filter :: "self_unlock_deps \<Rightarrow> sub_filter" where
  "make_filter deps d = Some
     (if df_req d \<noteq> 704 then False
      else if df_dst_ip d \<noteq> sd_indoor_ip deps then False
      else ipv4_str (df_src_ip d) \<in> set (map fst (sd_outdoor_by_ip deps)))"

definition parse_outdoor_uri :: "string \<Rightarrow> string + (byte list \<times> string \<times> u16)" where
  "parse_outdoor_uri uri =
     (case parse_uri uri of
        Err _ \<Rightarrow> Err ''uri parse''
      | Ok (name, ip, port) \<Rightarrow>
          (case encode_bcd name of Err _ \<Rightarrow> Err ''bcd encode'' | Ok bcd \<Rightarrow> Ok (bcd, ip, port)))"

section \<open>One ring\<close>

record ring_input =
  ri_frame :: detected_frame
  ri_at :: nat
  ri_auto_unlock :: bool
  ri_auto_hangup :: bool
  ri_done_at :: nat
  ri_shutdown :: bool
  ri_others :: "worker_sys \<Rightarrow> worker_sys"

text \<open>
  The thread's own state, its output, the jobs it handed to \<open>submit_job\<close> with the station and the instant of
  the ring, and the hang-up timers it started.
\<close>

record consumer =
  cs_last :: "string \<rightharpoonup> nat"
  cs_dequeue :: nat
  cs_triggered :: nat
  cs_out :: outbox
  cs_jobs :: "(nat \<times> string \<times> unlock_job) list"
  cs_timers :: "hangup_job list"

definition sat_inc :: "nat \<Rightarrow> nat" where
  "sat_inc n = min (n + 1) (2 ^ 64 - 1)"

definition cs_log :: "string \<Rightarrow> consumer \<Rightarrow> consumer" where
  "cs_log line st = st\<lparr>cs_out := ob_log line (cs_out st)\<rparr>"

definition self_worker_unavailable_outcome :: unlock_outcome where
  "self_worker_unavailable_outcome =
     \<lparr>uo_result = RESULT_ERR, uo_retries = 0, uo_terminated_by_bye = False, uo_wire_kind = Some Other\<rparr>"

text \<open>What follows the answer of the worker: the log line, and the push on success.\<close>

definition after_reply ::
  "self_unlock_deps \<Rightarrow> ring_input \<Rightarrow> string \<Rightarrow> unlock_outcome \<Rightarrow> consumer \<Rightarrow> consumer" where
  "after_reply deps ri from_uri outcome st =
     (let t_ms = ri_done_at ri - ri_at ri;
          st1 = cs_log (''[auto_unlock] result='' @ show_req (uo_result outcome) @ '' retries=''
                  @ show_nat (uo_retries outcome) @ '' t_ms='' @ show_nat t_ms) st
      in if uo_result outcome = RESULT_OK
         then st1\<lparr>cs_out := ob_push (spawn_push (ri_shutdown ri) ''unlock''
                    [(''from'', from_uri), (''to'', sd_indoor_uri deps), (''result'', ''0'')]) (cs_out st1)\<rparr>
         else st1)"

definition execute_unlock_from_ring ::
  "self_unlock_deps \<Rightarrow> worker_deps \<Rightarrow> ring_input \<Rightarrow> byte list \<Rightarrow> string \<Rightarrow> u16 \<Rightarrow> string \<Rightarrow> consumer \<times> worker_sys
   \<Rightarrow> (unlock_outcome \<times> consumer \<times> worker_sys) option" where
  "execute_unlock_from_ring deps wdeps ri caller_bcd target_ip target_port from_uri ss =
     (case ss of (st, sys) \<Rightarrow>
      case reply_channel sys of (reply, sys1) \<Rightarrow>
      let job = \<lparr>uj_caller = caller_bcd, uj_callee = sd_callee_bcd deps, uj_ip = target_ip, uj_port = target_port,
                 uj_reply = reply, uj_per_attempt = Some SELF_UNLOCK_PROBE_TIMEOUT,
                 uj_interval = SELF_UNLOCK_PROBE_INTERVAL\<rparr>;
          st1 = st\<lparr>cs_jobs := cs_jobs st @ [(ri_at ri, from_uri, job)]\<rparr>
      in (case submit_job (JUnlock job) sys1 of
            (Err _, sys2) \<Rightarrow> Some (self_worker_unavailable_outcome, st1, sys2)
          | (Ok _, sys2) \<Rightarrow>
              (case recv_reply wdeps reply sys2 of
                 (None, _) \<Rightarrow> None
               | (Some r, sys3) \<Rightarrow>
                   let outcome = (case r of Some o1 \<Rightarrow> o1 | None \<Rightarrow> self_worker_unavailable_outcome)
                   in Some (outcome, after_reply deps ri from_uri outcome st1, sys3))))"

text \<open>\<open>handle_ring\<close>; the printability table \<open>pr\<close> is that of \<open>{:?}\<close>.\<close>

definition handle_ring ::
  "(nat \<Rightarrow> bool) \<Rightarrow> self_unlock_deps \<Rightarrow> worker_deps \<Rightarrow> ring_input \<Rightarrow> nat \<Rightarrow> consumer \<times> worker_sys
   \<Rightarrow> (consumer \<times> worker_sys) option" where
  "handle_ring pr deps wdeps ri window ss =
     (case ss of (st, sys) \<Rightarrow>
      case map_of (sd_outdoor_by_ip deps) (ipv4_str (df_src_ip (ri_frame ri))) of
        None \<Rightarrow> Some (st, sys)
      | Some outdoor_uri \<Rightarrow>
          if \<not> ri_auto_unlock ri then Some (cs_log (''[auto_unlock] flag off, skip src='' @ outdoor_uri) st, sys)
          else if (case cs_last st outdoor_uri of Some last_at \<Rightarrow> ri_at ri - last_at < window | None \<Rightarrow> False)
          then Some (cs_log (''[auto_unlock] debounce skip src='' @ outdoor_uri) st, sys)
          else
            let st1 = st\<lparr>cs_last := (cs_last st)(outdoor_uri \<mapsto> ri_at ri)\<rparr> in
            (case parse_outdoor_uri outdoor_uri of
               Err e \<Rightarrow>
                 Some (cs_log (''[auto_unlock] parse outdoor uri '' @ debug_str pr outdoor_uri @ '' failed: '' @ e
                   @ '' (skip)'') st1, sys)
             | Ok (caller_bcd, target_ip, target_port) \<Rightarrow>
                 let st2 = cs_log (''[auto_unlock] trigger src='' @ outdoor_uri
                             @ '' (dequeue-triggered=debounce_skips)'') (st1\<lparr>cs_triggered := sat_inc (cs_triggered st1)\<rparr>)
                 in (case execute_unlock_from_ring deps wdeps ri caller_bcd target_ip target_port outdoor_uri (st2, sys) of
                       None \<Rightarrow> None
                     | Some (outcome, st3, sys3) \<Rightarrow>
                         Some (if ri_auto_hangup ri \<and> uo_result outcome = RESULT_OK
                               then st3\<lparr>cs_timers := cs_timers st3 @
                                      [\<lparr>hj_outdoor = caller_bcd, hj_monitor = sd_callee_bcd deps,
                                        hj_ip = target_ip, hj_port = target_port\<rparr>]\<rparr>
                               else st3, sys3))))"

section \<open>The consumer thread\<close>

datatype consumer_input = InRing ring_input | InTimeout bool | InDisconnected

text \<open>What ended the loop: nothing yet, the thread left it, or a call in it never returned.\<close>

datatype consumer_end = Running | Stopped | Blocked

fun run_consumer ::
  "(nat \<Rightarrow> bool) \<Rightarrow> self_unlock_deps \<Rightarrow> worker_deps \<Rightarrow> consumer_input list \<Rightarrow> consumer \<times> worker_sys
   \<Rightarrow> consumer_end \<times> consumer \<times> worker_sys" where
  "run_consumer pr deps wdeps [] ss = (Running, ss)"
| "run_consumer pr deps wdeps (InRing ri # ins) (st, sys) =
     (case handle_ring pr deps wdeps ri debounce_window (st\<lparr>cs_dequeue := sat_inc (cs_dequeue st)\<rparr>, ri_others ri sys) of
        None \<Rightarrow> (Blocked, st, sys)
      | Some ss' \<Rightarrow> run_consumer pr deps wdeps ins ss')"
| "run_consumer pr deps wdeps (InTimeout shutdown # ins) (st, sys) =
     (if shutdown then (Stopped, cs_log (''[auto_unlock] self-unlock consumer stopping (dequeue='' @ show_nat (cs_dequeue st)
         @ '' triggered='' @ show_nat (cs_triggered st) @ '')'') st, sys)
      else run_consumer pr deps wdeps ins (st, sys))"
| "run_consumer pr deps wdeps (InDisconnected # ins) (st, sys) =
     (Stopped, cs_log (''[auto_unlock] self-unlock consumer stopping (dequeue='' @ show_nat (cs_dequeue st)
         @ '' triggered='' @ show_nat (cs_triggered st) @ '')'') st, sys)"

definition consumer_new :: "outbox \<Rightarrow> consumer" where
  "consumer_new ob = \<lparr>cs_last = (\<lambda>_. None), cs_dequeue = 0, cs_triggered = 0, cs_out = ob, cs_jobs = [], cs_timers = []\<rparr>"

text \<open>\<open>spawn_consumer\<close>: the subscription with the filter, cancelled again when the thread cannot be started.\<close>

definition spawn_consumer ::
  "self_unlock_deps \<Rightarrow> string option \<Rightarrow> listener18022 \<Rightarrow> (nat option \<times> string list) \<times> listener18022" where
  "spawn_consumer deps spawn_error l =
     (case sub_subscribe (Some (make_filter deps)) l of (sub, l') \<Rightarrow>
        (case spawn_error of
           None \<Rightarrow>
             ((Some sub, [''[auto_unlock] self-unlock consumer started (debounce='' @ show_nat (debounce_window div 1000)
                 @ ''s, stations='' @ show_nat (length (sd_outdoor_by_ip deps)) @ '')'']), l')
         | Some e \<Rightarrow>
             ((None, [''[auto_unlock] failed to spawn consumer thread: '' @ e @ '' (self-unlock disabled)'']),
              sub_cancel sub l')))"

section \<open>Hang-up timers\<close>

text \<open>
  The body of the timer thread: rounds of the shutdown flag and the clock, the flag once more, and the job.
  \<open>None\<close> while the listed rounds have not ended the wait.
\<close>

fun timer_loop :: "nat \<Rightarrow> nat \<Rightarrow> (bool \<times> nat) list \<Rightarrow> bool option" where
  "timer_loop start delay [] = None"
| "timer_loop start delay ((shutdown, now) # rounds) =
     (if shutdown then Some False else if now - start \<ge> delay then Some True else timer_loop start delay rounds)"

definition schedule_outdoor_hangup ::
  "hangup_job \<Rightarrow> nat \<Rightarrow> (bool \<times> nat) list \<Rightarrow> bool \<Rightarrow> worker_sys \<Rightarrow> (string list \<times> worker_sys) option" where
  "schedule_outdoor_hangup job start rounds shutdown sys =
     (case timer_loop start hangup_delay rounds of
        None \<Rightarrow> None
      | Some False \<Rightarrow> Some ([], sys)
      | Some True \<Rightarrow>
          if shutdown then Some ([], sys)
          else (case submit_job (JHangup job) sys of
                  (Err _, sys') \<Rightarrow> Some ([''[auto_unlock] hangup Job::Hangup dropped (worker queue closed)''], sys')
                | (Ok _, sys') \<Rightarrow> Some ([], sys')))"

section \<open>How often and why the door is opened\<close>

definition far_apart :: "nat \<Rightarrow> nat \<times> string \<times> unlock_job \<Rightarrow> nat \<times> string \<times> unlock_job \<Rightarrow> bool" where
  "far_apart w a b \<longleftrightarrow> (fst (snd a) = fst (snd b) \<longrightarrow> fst a + w \<le> fst b)"

text \<open>The ring that accounts for a job: the flag was on, the source is a known station, the job is for it.\<close>

definition ring_job :: "self_unlock_deps \<Rightarrow> ring_input \<Rightarrow> nat \<times> string \<times> unlock_job \<Rightarrow> bool" where
  "ring_job deps ri e \<longleftrightarrow> (case e of (at, uri, j) \<Rightarrow>
     ri_auto_unlock ri \<and> at = ri_at ri \<and> map_of (sd_outdoor_by_ip deps) (ipv4_str (df_src_ip (ri_frame ri))) = Some uri
     \<and> parse_outdoor_uri uri = Ok (uj_caller j, uj_ip j, uj_port j) \<and> uj_callee j = sd_callee_bcd deps)"

text \<open>The debounce map and the jobs before and after a ring that was neither gated nor debounced.\<close>

definition due :: "consumer \<Rightarrow> nat \<Rightarrow> string \<Rightarrow> bool" where
  "due st at uri \<longleftrightarrow> (case cs_last st uri of Some t \<Rightarrow> t + debounce_window \<le> at | None \<Rightarrow> True)"

lemma cs_log_facts [simp]:
  "cs_jobs (cs_log l st) = cs_jobs st" "cs_last (cs_log l st) = cs_last st" "cs_timers (cs_log l st) = cs_timers st"
  "ob_pushes (cs_out (cs_log l st)) = ob_pushes (cs_out st)" "cs_triggered (cs_log l st) = cs_triggered st"
  by (simp_all add: cs_log_def)

lemma after_reply_facts [simp]:
  "cs_jobs (after_reply deps ri uri out st) = cs_jobs st" "cs_last (after_reply deps ri uri out st) = cs_last st"
  "cs_timers (after_reply deps ri uri out st) = cs_timers st"
  by (simp_all add: after_reply_def Let_def)

lemma execute_from_ring_jobs:
  assumes "execute_unlock_from_ring deps wdeps ri caller ip port uri (st, sys) = Some (out, st', sys')"
  shows "\<exists>j. cs_jobs st' = cs_jobs st @ [(ri_at ri, uri, j)] \<and> cs_last st' = cs_last st
    \<and> uj_caller j = caller \<and> uj_ip j = ip \<and> uj_port j = port \<and> uj_callee j = sd_callee_bcd deps"
  using assms
  by (auto simp: execute_unlock_from_ring_def Let_def split: prod.splits sum.splits option.splits)

lemma window_pos: "debounce_window > 0"
  by (simp add: debounce_window_def UNLOCK_TOTAL_CAP_def)

lemma handle_ring_jobs:
  assumes "handle_ring pr deps wdeps ri debounce_window (st, sys) = Some (st', sys')"
  shows "cs_jobs st' = cs_jobs st \<and> cs_last st' = cs_last st
    \<or> (\<exists>uri. due st (ri_at ri) uri \<and> cs_last st' = (cs_last st)(uri \<mapsto> ri_at ri)
         \<and> (cs_jobs st' = cs_jobs st
            \<or> (\<exists>j. ring_job deps ri (ri_at ri, uri, j) \<and> cs_jobs st' = cs_jobs st @ [(ri_at ri, uri, j)])))"
proof (cases "map_of (sd_outdoor_by_ip deps) (ipv4_str (df_src_ip (ri_frame ri)))")
  case None
  then show ?thesis using assms by (simp add: handle_ring_def)
next
  case (Some uri)
  show ?thesis
  proof (cases "ri_auto_unlock ri \<and> \<not> (case cs_last st uri of Some t \<Rightarrow> ri_at ri - t < debounce_window | None \<Rightarrow> False)")
    case False
    then show ?thesis using assms Some by (auto simp: handle_ring_def split: if_splits)
  next
    case True
    then have due: "due st (ri_at ri) uri" using window_pos by (auto simp: due_def split: option.splits)
    show ?thesis
    proof (cases "parse_outdoor_uri uri")
      case (Inl e)
      then show ?thesis using assms Some True due by (auto simp: handle_ring_def Let_def)
    next
      case (Inr x)
      obtain bcd ip port where x: "x = (bcd, ip, port)" by (cases x)
      show ?thesis
        using assms Some True due Inr x
        by (auto simp: handle_ring_def Let_def ring_job_def split: option.splits dest!: execute_from_ring_jobs)
    qed
  qed
qed

definition consumer_inv :: "self_unlock_deps \<Rightarrow> ring_input set \<Rightarrow> consumer \<Rightarrow> bool" where
  "consumer_inv deps R st \<longleftrightarrow> sorted_wrt (far_apart debounce_window) (cs_jobs st)
     \<and> (\<forall>e \<in> set (cs_jobs st). (\<exists>ri \<in> R. ring_job deps ri e) \<and> (\<exists>t. cs_last st (fst (snd e)) = Some t \<and> fst e \<le> t))"

lemma handle_ring_inv:
  assumes "consumer_inv deps R st" "handle_ring pr deps wdeps ri debounce_window (st, sys) = Some (st', sys')" "ri \<in> R"
  shows "consumer_inv deps R st'"
proof -
  have "\<exists>t. cs_last st (fst (snd e)) = Some t \<and> fst e \<le> t" if "e \<in> set (cs_jobs st)" for e
    using assms(1) that by (auto simp: consumer_inv_def)
  then have far: "far_apart debounce_window e (ri_at ri, uri, j) \<and> (fst (snd e) = uri \<longrightarrow> fst e \<le> ri_at ri)"
    if "e \<in> set (cs_jobs st)" "due st (ri_at ri) uri" for e uri j
    using that by (fastforce simp: far_apart_def due_def)
  show ?thesis
    using handle_ring_jobs [OF assms(2)]
  proof (elim disjE exE conjE)
    fix uri j
    assume a: "due st (ri_at ri) uri" "cs_last st' = (cs_last st)(uri \<mapsto> ri_at ri)"
      "ring_job deps ri (ri_at ri, uri, j)" "cs_jobs st' = cs_jobs st @ [(ri_at ri, uri, j)]"
    then show ?thesis
      using assms(1,3) far [OF _ a(1), of _ j] by (auto simp: consumer_inv_def sorted_wrt_append)
  next
    fix uri
    assume a: "due st (ri_at ri) uri" "cs_last st' = (cs_last st)(uri \<mapsto> ri_at ri)" "cs_jobs st' = cs_jobs st"
    then show ?thesis using assms(1) far [OF _ a(1)] by (auto simp: consumer_inv_def)
  qed (use assms(1) in \<open>simp add: consumer_inv_def\<close>)
qed

lemma run_consumer_inv:
  "consumer_inv deps R (fst ss) \<Longrightarrow> {ri. InRing ri \<in> set ins} \<subseteq> R \<Longrightarrow>
     consumer_inv deps R (fst (snd (run_consumer pr deps wdeps ins ss)))"
proof (induction pr deps wdeps ins ss rule: run_consumer.induct)
  case (2 pr deps wdeps ri ins st sys)
  let ?st = "st\<lparr>cs_dequeue := sat_inc (cs_dequeue st)\<rparr>"
  have inv: "consumer_inv deps R ?st" using 2(2) by (simp add: consumer_inv_def)
  show ?case
  proof (cases "handle_ring pr deps wdeps ri debounce_window (?st, ri_others ri sys)")
    case None
    then show ?thesis using 2(2) by simp
  next
    case (Some ss')
    obtain st' sys' where s: "ss' = (st', sys')" by (cases ss')
    then have "consumer_inv deps R st'" using handle_ring_inv [OF inv] Some 2(3) by auto
    then show ?thesis using 2(1) [OF Some] 2(3) Some s by auto
  qed
qed (auto simp: consumer_inv_def)

text \<open>
  C4. The door is opened without a person asking only for a reason and not too often: every unlock the
  consumer thread submits is accounted for by a ring taken from its subscription, at that instant, with
  the automation flag on, from the address of a known station, and is directed at that station; and two
  unlocks of one station are at least twelve seconds apart, whatever rings arrive, however the other
  threads use the worker, and whether the unlocks succeed or not.
\<close>

theorem self_unlock_rate:
  "case run_consumer pr deps wdeps ins (consumer_new ob, sys) of (_, st, _) \<Rightarrow>
     sorted_wrt (far_apart 12000) (cs_jobs st) \<and> list_all (\<lambda>e. \<exists>ri. InRing ri \<in> set ins \<and> ring_job deps ri e) (cs_jobs st)"
proof -
  have "consumer_inv deps {ri. InRing ri \<in> set ins} (consumer_new ob)"
    by (simp add: consumer_inv_def consumer_new_def)
  from run_consumer_inv [of _ _ "(consumer_new ob, sys)", simplified, OF this]
  have "consumer_inv deps {ri. InRing ri \<in> set ins} (fst (snd (run_consumer pr deps wdeps ins (consumer_new ob, sys))))"
    by blast
  then show ?thesis
    by (auto simp: consumer_inv_def list_all_iff case_prod_unfold debounce_window_def UNLOCK_TOTAL_CAP_def
        DEBOUNCE_MARGIN_MS_def)
qed

section \<open>What one ring does\<close>

definition unlock_event :: "string \<Rightarrow> string \<Rightarrow> push" where
  "unlock_event uri room = (''unlock'', [''from'' \<mapsto> uri, ''to'' \<mapsto> room, ''result'' \<mapsto> ''0''])"

lemma after_reply_pushes:
  "ob_pushes (cs_out (after_reply deps ri uri out st)) = ob_pushes (cs_out st) @
     (if uo_result out = 0 \<and> \<not> ri_shutdown ri then [unlock_event uri (sd_indoor_uri deps)] else [])"
  by (auto simp: after_reply_def Let_def ob_push_pushes spawn_push_def unlock_event_def RESULT_OK_def fun_eq_iff)

text \<open>The outcome of a ring's unlock: that of the run after the jobs queued before, or ``worker unavailable''.\<close>

definition ring_outcome ::
  "self_unlock_deps \<Rightarrow> worker_deps \<Rightarrow> byte list \<Rightarrow> string \<Rightarrow> u16 \<Rightarrow> worker_sys \<Rightarrow> unlock_outcome" where
  "ring_outcome deps wdeps caller ip port sys =
     (if sy_alive sys \<and> JShutdown \<notin> set (sy_queue sys)
      then fst (execute_unlock (wire_env (wd_sender wdeps) (wd_listening wdeps) caller (sd_callee_bcd deps) ip port)
             (Some 800) 200
             ((wk_world (run_worker wdeps (sy_queue sys) (sy_worker sys)))\<lparr>w_deadline := instant_deadline_new UNLOCK_TOTAL_CAP\<rparr>))
      else worker_unavailable_outcome)"

lemma execute_from_ring_returns:
  assumes "sys_wf sys"
  shows "\<exists>st' sys'. execute_unlock_from_ring deps wdeps ri caller ip port uri (st, sys)
      = Some (ring_outcome deps wdeps caller ip port sys, st', sys') \<and> sys_wf sys' \<and> cs_timers st' = cs_timers st
      \<and> cs_last st' = cs_last st
      \<and> ob_pushes (cs_out st') = ob_pushes (cs_out st) @
          (if uo_result (ring_outcome deps wdeps caller ip port sys) = 0 \<and> \<not> ri_shutdown ri
           then [unlock_event uri (sd_indoor_uri deps)] else [])"
proof (cases "sy_alive sys")
  case False
  then show ?thesis
    using assms
    by (simp add: execute_unlock_from_ring_def reply_channel_def submit_job_def ring_outcome_def
        self_worker_unavailable_outcome_def worker_unavailable_outcome_def RESULT_ERR_def sys_wf_def list_all_iff
        job_reply_below_def split: job.split) (auto simp: less_Suc_eq)
next
  case True
  let ?j = "\<lparr>uj_caller = caller, uj_callee = sd_callee_bcd deps, uj_ip = ip, uj_port = port, uj_reply = sy_next sys,
             uj_per_attempt = Some SELF_UNLOCK_PROBE_TIMEOUT, uj_interval = SELF_UNLOCK_PROBE_INTERVAL\<rparr>"
  obtain sys3 where r: "recv_reply wdeps (sy_next sys)
      (sys\<lparr>sy_next := sy_next sys + 1, sy_queue := sy_queue sys @ [JUnlock ?j]\<rparr>) =
     (Some (if JShutdown \<in> set (sy_queue sys) then None
            else Some (fst (execute_unlock_job wdeps ?j
              ((wk_world (run_worker wdeps (sy_queue sys) (sy_worker sys)))\<lparr>w_deadline := instant_deadline_new UNLOCK_TOTAL_CAP\<rparr>)))),
      sys3)" "sys_wf sys3"
    using recv_fresh [OF assms True, of ?j, OF _ refl, of wdeps] by auto
  have "(case (if JShutdown \<in> set (sy_queue sys) then None
            else Some (fst (execute_unlock_job wdeps ?j
              ((wk_world (run_worker wdeps (sy_queue sys) (sy_worker sys)))\<lparr>w_deadline := instant_deadline_new UNLOCK_TOTAL_CAP\<rparr>))))
         of Some o1 \<Rightarrow> o1 | None \<Rightarrow> self_worker_unavailable_outcome) = ring_outcome deps wdeps caller ip port sys"
    using True by (simp add: ring_outcome_def execute_unlock_job_def SELF_UNLOCK_PROBE_TIMEOUT_def
        SELF_UNLOCK_PROBE_INTERVAL_def self_worker_unavailable_outcome_def worker_unavailable_outcome_def)
  then show ?thesis
    using True r by (simp add: execute_unlock_from_ring_def reply_channel_def submit_job_def after_reply_pushes Let_def)
qed

text \<open>
  C12. One ring, on every branch.  The handling always returns (the wait for the worker ends).  A ring from an
  unknown address, with the flag off, or inside the window of an earlier one leaves the debounce times, the
  jobs, the timers, the pushes and the queue as they were; in particular a ring while the flag is off does
  not occupy the window.  A ring that passes takes the window even when the station's URI is unusable.
  \<open>event=unlock\<close> is pushed and the hang-up timer is started only on a confirmed unlock, the timer only
  with the hang-up flag on, and for the station that rang.
\<close>

theorem ring_handled:
  assumes "sys_wf sys"
  shows "\<exists>st' sys'. handle_ring pr deps wdeps ri debounce_window (st, sys) = Some (st', sys') \<and> sys_wf sys' \<and>
    (case map_of (sd_outdoor_by_ip deps) (ipv4_str (df_src_ip (ri_frame ri))) of
       None \<Rightarrow> st' = st \<and> sys' = sys
     | Some uri \<Rightarrow>
         if \<not> ri_auto_unlock ri \<or> \<not> due st (ri_at ri) uri
         then sys' = sys \<and> cs_last st' = cs_last st \<and> cs_jobs st' = cs_jobs st \<and> cs_timers st' = cs_timers st
              \<and> ob_pushes (cs_out st') = ob_pushes (cs_out st)
         else cs_last st' = (cs_last st)(uri \<mapsto> ri_at ri) \<and>
           (case parse_outdoor_uri uri of
              Err _ \<Rightarrow> sys' = sys \<and> cs_timers st' = cs_timers st \<and> ob_pushes (cs_out st') = ob_pushes (cs_out st)
            | Ok (caller, ip, port) \<Rightarrow>
                let ok = (uo_result (ring_outcome deps wdeps caller ip port sys) = 0) in
                ob_pushes (cs_out st') = ob_pushes (cs_out st) @
                  (if ok \<and> \<not> ri_shutdown ri then [unlock_event uri (sd_indoor_uri deps)] else [])
                \<and> cs_timers st' = cs_timers st @
                  (if ok \<and> ri_auto_hangup ri
                   then [\<lparr>hj_outdoor = caller, hj_monitor = sd_callee_bcd deps, hj_ip = ip, hj_port = port\<rparr>] else [])))"
proof (cases "map_of (sd_outdoor_by_ip deps) (ipv4_str (df_src_ip (ri_frame ri)))")
  case None
  then show ?thesis using assms by (simp add: handle_ring_def)
next
  case (Some uri)
  have d: "(case cs_last st uri of Some t \<Rightarrow> ri_at ri - t < debounce_window | None \<Rightarrow> False) \<longleftrightarrow> \<not> due st (ri_at ri) uri"
    using window_pos by (auto simp: due_def split: option.splits)
  show ?thesis
  proof (cases "\<not> ri_auto_unlock ri \<or> \<not> due st (ri_at ri) uri")
    case True
    then show ?thesis using assms Some d by (cases "ri_auto_unlock ri") (simp_all add: handle_ring_def)
  next
    case False
    note f = False [simplified]
    show ?thesis
    proof (cases "parse_outdoor_uri uri")
      case (Inl e)
      then show ?thesis using assms Some d f by (simp add: handle_ring_def Let_def)
    next
      case (Inr x)
      obtain caller ip port where x: "x = (caller, ip, port)" by (cases x)
      define st2 where "st2 = cs_log (''[auto_unlock] trigger src='' @ uri @ '' (dequeue-triggered=debounce_skips)'')
        (st\<lparr>cs_last := (cs_last st)(uri \<mapsto> ri_at ri), cs_triggered := sat_inc (cs_triggered st)\<rparr>)"
      have s2: "cs_last st2 = (cs_last st)(uri \<mapsto> ri_at ri)" "cs_timers st2 = cs_timers st"
        "ob_pushes (cs_out st2) = ob_pushes (cs_out st)" by (simp_all add: st2_def)
      obtain st3 sys3 where e: "execute_unlock_from_ring deps wdeps ri caller ip port uri (st2, sys)
          = Some (ring_outcome deps wdeps caller ip port sys, st3, sys3)" "sys_wf sys3" "cs_timers st3 = cs_timers st2"
          "cs_last st3 = cs_last st2"
          "ob_pushes (cs_out st3) = ob_pushes (cs_out st2) @
            (if uo_result (ring_outcome deps wdeps caller ip port sys) = 0 \<and> \<not> ri_shutdown ri
             then [unlock_event uri (sd_indoor_uri deps)] else [])"
        using execute_from_ring_returns [OF assms, of deps wdeps ri caller ip port uri st2] by auto
      have "handle_ring pr deps wdeps ri debounce_window (st, sys) =
          Some (if ri_auto_hangup ri \<and> uo_result (ring_outcome deps wdeps caller ip port sys) = RESULT_OK
                then st3\<lparr>cs_timers := cs_timers st3 @ [\<lparr>hj_outdoor = caller, hj_monitor = sd_callee_bcd deps,
                           hj_ip = ip, hj_port = port\<rparr>]\<rparr> else st3, sys3)"
        using Some f d Inr x e(1) by (simp add: handle_ring_def Let_def st2_def)
      then show ?thesis using Some f Inr x e s2 by (simp add: RESULT_OK_def Let_def)
    qed
  qed
qed

text \<open>A ring of the one known station while the flag is off, with a worker that has ended.\<close>

theorem ring_handled_witness:
  "let sys = \<lparr>sy_queue = [], sy_alive = False, sy_next = 0,
              sy_worker = \<lparr>wk_world = still_world, wk_replies = [], wk_lines = []\<rparr>\<rparr>;
       deps = \<lparr>sd_outdoor_by_ip = [(ipv4_str [10, 0, 0, 7], ''u'')], sd_callee_bcd = [], sd_indoor_ip = [], sd_indoor_uri = []\<rparr>;
       wdeps = worker_deps_new \<lparr>sn_iface = [], sn_timeout = None, sn_local_ip = None\<rparr> False;
       frame = \<lparr>df_req = 704, df_body = [], df_src_ip = [10, 0, 0, 7], df_dst_ip = [], df_src_port = 0, df_dst_port = 0\<rparr>;
       ri = \<lparr>ri_frame = frame, ri_at = 5, ri_auto_unlock = False, ri_auto_hangup = True, ri_done_at = 5,
             ri_shutdown = False, ri_others = id\<rparr>;
       st = consumer_new \<lparr>ob_lines = [], ob_pushes = [], ob_udp = []\<rparr>
   in \<exists>st' sys'. handle_ring (\<lambda>_. True) deps wdeps ri debounce_window (st, sys) = Some (st', sys')
        \<and> sys' = sys \<and> cs_last st' = cs_last st \<and> cs_jobs st' = [] \<and> cs_timers st' = []"
proof -
  define sys where "sys = \<lparr>sy_queue = [], sy_alive = False, sy_next = 0,
              sy_worker = \<lparr>wk_world = still_world, wk_replies = [], wk_lines = []\<rparr>\<rparr>"
  have wf: "sys_wf sys" by (simp add: sys_wf_def sys_def)
  show ?thesis
    unfolding Let_def sys_def [symmetric]
    using ring_handled [OF wf, of "\<lambda>_. True" "\<lparr>sd_outdoor_by_ip = [(ipv4_str [10, 0, 0, 7], ''u'')], sd_callee_bcd = [],
        sd_indoor_ip = [], sd_indoor_uri = []\<rparr>" "worker_deps_new \<lparr>sn_iface = [], sn_timeout = None, sn_local_ip = None\<rparr> False"
        "\<lparr>ri_frame = \<lparr>df_req = 704, df_body = [], df_src_ip = [10, 0, 0, 7], df_dst_ip = [], df_src_port = 0, df_dst_port = 0\<rparr>,
          ri_at = 5, ri_auto_unlock = False, ri_auto_hangup = True, ri_done_at = 5, ri_shutdown = False, ri_others = id\<rparr>"
        "consumer_new \<lparr>ob_lines = [], ob_pushes = [], ob_udp = []\<rparr>"]
    by (auto simp: consumer_new_def)
qed

section \<open>What the consumer is given\<close>

text \<open>A ring frame of a configured station, to this station.\<close>

definition own_ring :: "config \<Rightarrow> byte list \<Rightarrow> detected_frame \<Rightarrow> bool" where
  "own_ring cfg indoor_ip f \<longleftrightarrow> df_req f = 704 \<and> df_dst_ip f = indoor_ip
     \<and> (\<exists>st \<in> set (c_stations cfg). \<exists>name port. parse_uri (st_sip st) = Ok (name, ipv4_str (df_src_ip f), port))"

lemma make_filter_own_ring:
  assumes "sd_outdoor_by_ip deps = parse_stations_to_ip_map cfg"
  shows "make_filter deps f = Some (own_ring cfg (sd_indoor_ip deps) f)"
proof -
  have "set (map fst (sd_outdoor_by_ip deps)) = dom (map_of (parse_stations_to_ip_map cfg))"
    using assms by (simp add: dom_map_of_conv_image_fst)
  then show ?thesis by (auto simp: make_filter_def own_ring_def stations_dom)
qed

lemma set_tl_in: "x \<in> set (tl xs) \<Longrightarrow> x \<in> set xs"
  by (cases xs) auto

lemma mailbox_all:
  "list_all P (snd mb) \<Longrightarrow> (\<And>f. flt f = Some True \<Longrightarrow> P f) \<Longrightarrow> list_all P (snd (fold (mailbox_step flt i) ops mb))"
proof (induction ops arbitrary: mb)
  case (Cons op ops)
  have "list_all P (snd (mailbox_step flt i op mb))"
    using Cons.prems by (cases op; cases mb) (auto simp: list_all_iff dest: set_tl_in)
  then show ?case using Cons by simp
qed simp


end
