(* ===== verification/Startup.thy ===== *)
theory Startup
  imports Control SelfUnlock Log
begin

text \<open>
  \<open>src/main.rs\<close> up to the point where the daemon waits for a signal: the command line, the loading of the
  configuration, the construction and wiring of all components, the exit codes.  What the operating system
  answers is the record \<open>boot\<close>.  The theorems characterise the command line and show that a configuration
  that loads brings every part of the daemon up.
\<close>

section \<open>The command line\<close>

definition DEFAULT_CONFIG_PATH :: string where "DEFAULT_CONFIG_PATH = ''/etc/dooraccess-go/config.ini''"
definition AUTOMATION_STATE_PATH :: string where "AUTOMATION_STATE_PATH = ''/etc/dooraccess-go/automation.state''"

text \<open>The loop over the arguments after the program name.\<close>

fun flags_loop :: "string list \<Rightarrow> string \<Rightarrow> string \<Rightarrow> string + (string \<times> string)" where
  "flags_loop [] config_path state_path = Ok (config_path, state_path)"
| "flags_loop (a # rest) config_path state_path =
     (if a = ''--config'' then
        (case rest of
           [] \<Rightarrow> Err ''--config requires a value (path to config.ini)''
         | v # rest' \<Rightarrow> flags_loop rest' v state_path)
      else if starts_with a ''--config='' then flags_loop rest (drop (length ''--config='') a) state_path
      else if a = ''--state'' then
        (case rest of
           [] \<Rightarrow> Err ''--state requires a value (path to automation.state)''
         | v # rest' \<Rightarrow> flags_loop rest' config_path v)
      else if starts_with a ''--state='' then flags_loop rest config_path (drop (length ''--state='') a)
      else Err (''unknown argument: '' @ a))"

definition parse_flags :: "string list \<Rightarrow> string + (string \<times> string)" where
  "parse_flags args = flags_loop (drop 1 args) DEFAULT_CONFIG_PATH AUTOMATION_STATE_PATH"

section \<open>The environment of a start\<close>

record boot =
  bt_read :: "string \<Rightarrow> fs_error + byte list"
  bt_metadata :: "string \<Rightarrow> fs_error option"
  bt_read_dir :: "string \<Rightarrow> string + (string + byte list) list"
  bt_env_set :: bool
  bt_addrs :: "wire_error + byte list list"
  bt_sent :: "string + unit"
  bt_spawn :: "string \<Rightarrow> string option"
  bt_pid :: nat
  bt_dial :: "string + bool list"
  bt_version :: string
  bt_printable :: "nat \<Rightarrow> bool"
  bt_show_parse :: "parse_error \<Rightarrow> string"

definition iface_error_display :: "iface_error \<Rightarrow> string" where
  "iface_error_display e =
     (case e of
        IfaceMissing \<Rightarrow> ''iface and iface_list both empty''
      | BridgeNoSlaves bridge \<Rightarrow> ''bridge '' @ bridge @ '' has no slaves''
      | IfaceRead path msg \<Rightarrow> ''read '' @ path @ '': '' @ msg)"

text \<open>The \<open>{:?}\<close> text of a vector of strings.\<close>

definition debug_strs :: "(nat \<Rightarrow> bool) \<Rightarrow> string list \<Rightarrow> string" where
  "debug_strs pr xs = ''['' @ join_with '', '' (map (debug_str pr) xs) @ '']''"

definition on_off :: "bool \<Rightarrow> string" where
  "on_off b = (if b then ''on'' else ''off'')"

definition bool_str :: "bool \<Rightarrow> string" where
  "bool_str b = (if b then ''true'' else ''false'')"

definition render_banner :: "boot \<Rightarrow> config \<Rightarrow> string list" where
  "render_banner b cfg =
     (let sd = info_build (Some cfg) (bt_version b) True (bt_pid b) (bt_dial b) in
      [''banner: dooraccess-rs '' @ id_version sd @ '' (brand='' @ id_brand sd @ '', pid='' @ show_nat (id_pid sd) @ '')'',
       ''banner: monitor='' @ id_monitor sd @ '' stations='' @ show_nat (length (id_stations sd)) @ '' iface='' @ c_iface cfg,
       ''banner: listen='' @ l_addr (c_listen cfg) @ '':'' @ show_int (l_port (c_listen cfg)) @ '' video.forward=''
         @ bool_str (v_forward (c_video cfg))]
      @ (case id_hass_reachable sd of None \<Rightarrow> [] | Some r \<Rightarrow> [''banner: hass_reachable='' @ bool_str r]))"

section \<open>The parts of the daemon\<close>

definition wire_sender_of :: "config \<Rightarrow> sender" where
  "wire_sender_of cfg = \<lparr>sn_iface = c_iface cfg, sn_timeout = Some 5000, sn_local_ip = None\<rparr>"

record daemon =
  dm_auto :: auto_state
  dm_source :: string
  dm_video :: "mgr_config option"
  dm_slaves :: "string list"
  dm_listener :: "listener18022 option"
  dm_self_unlock :: "(self_unlock_deps \<times> nat) option"
  dm_number_query :: bool
  dm_server :: server_cfg
  dm_pushes :: "(string \<times> (string \<times> string) list) list"
  dm_diagnosis_delay :: nat

text \<open>A step of the start: its result or the error that ends \<open>run\<close>, and the lines it logs.\<close>

type_synonym 'a start = "(string + 'a) \<times> string list"

definition then_start :: "'a start \<Rightarrow> ('a \<Rightarrow> 'b start) \<Rightarrow> 'b start" where
  "then_start m f =
     (case m of
        (Err e, ls) \<Rightarrow> (Err e, ls)
      | (Ok x, ls) \<Rightarrow> (case f x of (r, ls') \<Rightarrow> (r, ls @ ls')))"

definition spawn_thread :: "boot \<Rightarrow> string \<Rightarrow> unit start" where
  "spawn_thread b name = ((case bt_spawn b name of None \<Rightarrow> Ok () | Some e \<Rightarrow> Err e), [])"

definition boot_flags :: "boot \<Rightarrow> config \<Rightarrow> string \<Rightarrow> (bool \<times> bool \<times> string) start" where
  "boot_flags b cfg state_path =
     (case load_automation_flags state_path (bt_read b state_path) (bt_env_set b) cfg of (r, ls) \<Rightarrow> (Ok r, ls))"

definition boot_video :: "boot \<Rightarrow> config \<Rightarrow> mgr_config option start" where
  "boot_video b cfg =
     (if v_forward (c_video cfg) then
        (case parse_caller (c_sip cfg) of
           Err e \<Rightarrow> (Err (''video: parse caller from cfg.sip: '' @ bt_show_parse b e), [])
         | Ok ca \<Rightarrow> (Ok (Some (mgr_config_new ca)), [''video: forward enabled, format='' @ v_format (c_video cfg)]))
      else (Ok None, [''video: forward disabled (cfg.video.forward=false)'']))"

text \<open>A failed resolution is not fatal: the daemon goes on without listeners.\<close>

definition boot_slaves :: "boot \<Rightarrow> config \<Rightarrow> string list start" where
  "boot_slaves b cfg =
     (case resolve_iface_list (bt_metadata b) (bt_read_dir b) cfg of
        Ok s \<Rightarrow> (Ok s, [''listeners: slaves='' @ debug_strs (bt_printable b) s @ '' (resolved from iface=''
                    @ debug_str (bt_printable b) (c_iface cfg) @ '')''])
      | Err e \<Rightarrow> (Ok [], [''listeners: resolve iface list failed: '' @ iface_error_display e @ '' (listeners will not start)'']))"

definition boot_listen18022 :: "boot \<Rightarrow> config \<Rightarrow> string list \<Rightarrow> listener18022 option start" where
  "boot_listen18022 b cfg slaves =
     (case build_listen18022 cfg (bt_addrs b) False slaves of
        None \<Rightarrow> (Ok None, [''listen18022: no slaves resolved, will not start''])
      | Some (l, _) \<Rightarrow>
          then_start (Ok (), [''listen18022: started on '' @ debug_strs (bt_printable b) slaves @ '' (PROMISC, BPF tcp:18022)'']) (\<lambda>_.
          then_start (spawn_thread b ''listen18022'') (\<lambda>_.
          (Ok (Some l), []))))"

text \<open>The self-unlock consumer over the listener: its dependencies, its subscription and its thread.\<close>

definition boot_self_unlock ::
  "boot \<Rightarrow> config \<Rightarrow> listener18022 option \<Rightarrow> ((self_unlock_deps \<times> nat) option \<times> listener18022 option) start" where
  "boot_self_unlock b cfg lo =
     (case lo of
        None \<Rightarrow> (Ok (None, None), [])
      | Some l \<Rightarrow>
          (case try_new cfg (parse_stations_to_ip_map cfg) of
             (None, ls) \<Rightarrow> (Ok (None, Some l), ls)
           | (Some deps, ls) \<Rightarrow>
               (case spawn_consumer deps (bt_spawn b ''self-unlock'') l of
                  ((None, ls'), l') \<Rightarrow> (Ok (None, Some l'), ls @ ls')
                | ((Some sub, ls'), l') \<Rightarrow> (Ok (Some (deps, sub), Some l'), ls @ ls'))))"

text \<open>The listener for number queries; the result says whether the callback is installed.\<close>

definition boot_listen6672 :: "boot \<Rightarrow> config \<Rightarrow> string list \<Rightarrow> bool start" where
  "boot_listen6672 b cfg slaves =
     (if slaves = [] then (Ok False, [])
      else
        (case build_number_query_callback cfg (bt_addrs b) (debug_str (bt_printable b) (c_iface cfg)) (bt_sent b) of (cb, ls) \<Rightarrow>
           then_start (Ok (), ls @ [''listen6672: started on '' @ debug_strs (bt_printable b) slaves @ '' (PROMISC, BPF udp:6672)'']) (\<lambda>_.
           then_start (spawn_thread b ''listen6672'') (\<lambda>_.
           (Ok (cb \<noteq> None), [])))))"

definition http_address :: "config \<Rightarrow> string" where
  "http_address cfg = l_addr (c_listen cfg) @ '':'' @ show_int (l_port (c_listen cfg))"

definition boot_http :: "boot \<Rightarrow> config \<Rightarrow> unit start" where
  "boot_http b cfg =
     then_start (spawn_thread b ''http8080'') (\<lambda>_. (Ok (), [''http8080: listening on '' @ http_address cfg]))"

text \<open>The worker gets the listener as the source of its bye watches and a sender of its own for hang-ups.\<close>

definition boot_worker :: "config \<Rightarrow> string list \<Rightarrow> worker_deps" where
  "boot_worker cfg slaves = with_hangup_wire (wire_sender_of cfg) (worker_deps_new (wire_sender_of cfg) (slaves \<noteq> []))"

text \<open>\<open>run\<close> up to its waiting loop.\<close>

definition run_start :: "boot \<Rightarrow> config \<Rightarrow> string \<Rightarrow> daemon start" where
  "run_start b cfg state_path =
     then_start (boot_flags b cfg state_path) (\<lambda>(au, ah, source).
     then_start (boot_video b cfg) (\<lambda>video.
     then_start (boot_slaves b cfg) (\<lambda>slaves.
     then_start (spawn_thread b ''wire-worker'') (\<lambda>_.
     then_start (boot_listen18022 b cfg slaves) (\<lambda>listener.
     then_start (boot_self_unlock b cfg listener) (\<lambda>(self, listener').
     then_start (boot_listen6672 b cfg slaves) (\<lambda>number_query.
     then_start (boot_http b cfg) (\<lambda>_.
       (Ok \<lparr>dm_auto = \<lparr>au_unlock = au, au_hangup = ah\<rparr>, dm_source = source, dm_video = video, dm_slaves = slaves,
            dm_listener = listener', dm_self_unlock = self, dm_number_query = number_query,
            dm_server = \<lparr>sc_cfg = cfg, sc_version = bt_version b, sc_automation = True, sc_persist = Some state_path,
                         sc_pusher = True, sc_worker = boot_worker cfg slaves, sc_video = video,
                         sc_printable = bt_printable b\<rparr>,
            dm_pushes = [(''automation_state'', [(''auto_unlock'', bool_str au), (''auto_hangup'', bool_str ah)])],
            dm_diagnosis_delay = 500\<rparr>,
        render_banner b cfg
        @ [''automation: auto_unlock='' @ on_off au @ '' auto_hangup='' @ on_off ah @ '' (source='' @ source @ '')'',
           ''dooraccess-rs up (M1.5: listeners + http + worker + automation)''])))))))))"

section \<open>Waiting and the exit code\<close>

text \<open>The rounds of the waiting loop: whether a signal has come in, whether the HTTP thread has ended.\<close>

fun wait_loop :: "(bool \<times> bool) list \<Rightarrow> string option" where
  "wait_loop [] = None"
| "wait_loop ((signalled, http_finished) # rounds) =
     (if signalled then Some ''shutdown signal received, draining''
      else if http_finished then Some ''http8080 thread exited (fatal: bind/serve failure), draining''
      else wait_loop rounds)"

text \<open>SIGHUP is ignored; SIGTERM and SIGINT set the flag that \<open>shutdown_requested\<close> reads.\<close>

datatype unix_signal = SIGHUP | SIGTERM | SIGINT

fun on_signal :: "unix_signal \<Rightarrow> bool \<Rightarrow> bool" where
  "on_signal SIGHUP requested = requested"
| "on_signal SIGTERM requested = True"
| "on_signal SIGINT requested = True"

datatype http_end = HttpOk | HttpErr string | HttpPanic

definition run_result :: "http_end \<Rightarrow> string + unit" where
  "run_result r = (case r of HttpOk \<Rightarrow> Ok () | HttpErr e \<Rightarrow> Err e | HttpPanic \<Rightarrow> Ok ())"

definition daemon_run :: "boot \<Rightarrow> (bool \<times> bool) list \<Rightarrow> http_end \<Rightarrow> config \<Rightarrow> string \<Rightarrow> ((string + unit) \<times> string list) option" where
  "daemon_run b rounds http cfg state_path =
     (case run_start b cfg state_path of
        (Err e, ls) \<Rightarrow> Some (Err e, ls)
      | (Ok _, ls) \<Rightarrow>
          (case wait_loop rounds of
             None \<Rightarrow> None
           | Some line \<Rightarrow> Some (run_result http, ls @ [line])))"

definition config_lines :: "boot \<Rightarrow> config \<Rightarrow> string list" where
  "config_lines b cfg =
     map (\<lambda>m. ''config: field '' @ m @ '' missing, using default'') (c_missing_fields cfg)
     @ (if c_deprecated_fields cfg = [] then []
        else [''config: '' @ debug_strs (bt_printable b) (c_deprecated_fields cfg)
              @ '' fields deprecated and ignored; safe to remove from config.ini (brand/family/elev/notification removed in v0.1.6)''])
     @ c_parser_warnings cfg
     @ (if h_token (c_hass cfg) \<noteq> [] \<and> h_api (c_hass cfg) = []
        then [''config: hass.token configured but hass.api missing; HA push disabled until cfg.hass.api is set''] else [])"

definition usage_text :: string where
  "usage_text = ''usage: dooraccess-rs [--config <path>] [--state <path>]'' @ [CHR 0x0a, CHR 0x09] @ ''default config: ''
     @ DEFAULT_CONFIG_PATH @ [CHR 0x0a, CHR 0x09] @ ''default state: '' @ AUTOMATION_STATE_PATH"

text \<open>
  The exit code and the lines written; \<open>None\<close> while the daemon runs.  The two lines about a wrong command line are
  written as they are, all others go through \<open>logf\<close>, which puts the time stamp of \<open>log.rs\<close> in front.
\<close>

definition main_impl :: "boot \<Rightarrow> (bool \<times> bool) list \<Rightarrow> http_end \<Rightarrow> string list \<Rightarrow> (nat \<times> string list) option" where
  "main_impl b rounds http args =
     (case parse_flags args of
        Err msg \<Rightarrow> Some (2, [LOG_TAG @ msg, usage_text])
      | Ok (config_path, state_path) \<Rightarrow>
          let l0 = [''starting dooraccess-rs (anjubao replica), config='' @ config_path] in
          (case load_config (bt_printable b) (bt_read b) config_path of
             Err e \<Rightarrow> Some (1, l0 @ [''load config: '' @ config_error_display e])
           | Ok cfg \<Rightarrow>
               map_option (\<lambda>(r, ls). case r of
                   Ok _ \<Rightarrow> (0, l0 @ config_lines b cfg @ ls @ [''dooraccess-rs exited cleanly''])
                 | Err e \<Rightarrow> (1, l0 @ config_lines b cfg @ ls @ [''run: '' @ e]))
                 (daemon_run b rounds http cfg state_path)))"


section \<open>What the command line means\<close>

text \<open>The options as a user writes them: with the value as the next argument, or after an equals sign.\<close>

datatype cli_option = ConfigOpt bool string | StateOpt bool string

fun option_args :: "cli_option \<Rightarrow> string list" where
  "option_args (ConfigOpt joined v) = (if joined then [''--config='' @ v] else [''--config'', v])"
| "option_args (StateOpt joined v) = (if joined then [''--state='' @ v] else [''--state'', v])"

text \<open>The last value of an option wins.\<close>

fun apply_option :: "cli_option \<Rightarrow> string \<times> string \<Rightarrow> string \<times> string" where
  "apply_option (ConfigOpt _ v) (c, s) = (v, s)"
| "apply_option (StateOpt _ v) (c, s) = (c, v)"

lemma starts_with_split: "starts_with a p \<longleftrightarrow> (\<exists>v. a = p @ v)"
  by (metis append_eq_conv_conj append_take_drop_id starts_with_def)

lemma flags_loop_options: "flags_loop (concat (map option_args os)) c s = Ok (fold apply_option os (c, s))"
proof (induction os arbitrary: c s)
  case (Cons opt os)
  show ?case
  proof (cases opt)
    case (ConfigOpt joined v)
    then show ?thesis using Cons by (cases joined) (simp_all add: starts_with_def)
  next
    case (StateOpt joined v)
    then show ?thesis using Cons by (cases joined) (simp_all add: starts_with_def)
  qed
qed simp

lemma flags_loop_sound:
  "flags_loop args c s = Ok p \<Longrightarrow> \<exists>os. args = concat (map option_args os) \<and> p = fold apply_option os (c, s)"
proof (induction args c s rule: flags_loop.induct)
  case (1 c s)
  then show ?case by (intro exI [of _ "[]"]) simp
next
  case (2 a rest c s)
  have snoc: "\<exists>os. a # rest = concat (map option_args os) \<and> p = fold apply_option os (c, s)"
    if "a # rest = option_args opt @ rest'" "\<exists>os. rest' = concat (map option_args os) \<and> p = fold apply_option os (apply_option opt (c, s))"
    for opt rest'
  proof -
    from that(2) obtain os where "rest' = concat (map option_args os)" "p = fold apply_option os (apply_option opt (c, s))" by blast
    then show ?thesis using that(1) by (intro exI [of _ "opt # os"]) simp
  qed
  consider v rest' where "a = ''--config''" "rest = v # rest'" | v where "a \<noteq> ''--config''" "a = ''--config='' @ v"
    | v rest' where "a \<noteq> ''--config''" "\<not> starts_with a ''--config=''" "a = ''--state''" "rest = v # rest'"
    | v where "a \<noteq> ''--config''" "\<not> starts_with a ''--config=''" "a \<noteq> ''--state''" "a = ''--state='' @ v"
    using "2.prems" by (auto simp: starts_with_split split: if_splits list.splits)
  then show ?case
  proof cases
    case (1 v rest')
    with "2.IH"(1) [OF 1] "2.prems" show ?thesis by (intro snoc [of "ConfigOpt False v" rest']) simp_all
  next
    case (2 v)
    then have st: "starts_with a ''--config=''" by (simp add: starts_with_def)
    with "2.IH"(2) [OF 2(1) st] "2.prems" 2 show ?thesis by (intro snoc [of "ConfigOpt True v" rest]) simp_all
  next
    case (3 v rest')
    with "2.IH"(3) [OF 3] "2.prems" show ?thesis by (intro snoc [of "StateOpt False v" rest']) simp_all
  next
    case (4 v)
    then have st: "starts_with a ''--state=''" by (simp add: starts_with_def)
    with "2.IH"(4) [OF 4(1-3) st] "2.prems" 4 show ?thesis by (intro snoc [of "StateOpt True v" rest]) simp_all
  qed
qed

text \<open>
  The command line: it is accepted exactly when the arguments after the program name are a sequence of
  \<open>--config\<close> and \<open>--state\<close> options in either spelling, and then each path is the last one given, or its default.
\<close>

theorem parse_flags_iff:
  "parse_flags (bin # args) = Ok p \<longleftrightarrow>
     (\<exists>os. args = concat (map option_args os) \<and> p = fold apply_option os (DEFAULT_CONFIG_PATH, AUTOMATION_STATE_PATH))"
  using flags_loop_options flags_loop_sound unfolding parse_flags_def by fastforce

section \<open>A configuration that loads starts the daemon\<close>

lemma then_start_Ok: "m = (Ok x, ls) \<Longrightarrow> f x = (r, ls') \<Longrightarrow> then_start m f = (r, ls @ ls')"
  by (simp add: then_start_def)

lemma spawn_thread_Ok: "bt_spawn b = (\<lambda>_. None) \<Longrightarrow> spawn_thread b name = (Ok (), [])"
  by (simp add: spawn_thread_def)

lemma usable_caller: "usable_uri uri \<Longrightarrow> \<exists>ca. parse_caller uri = Ok ca"
  by (auto simp: usable_uri_def parse_caller_def)

lemma usable_try_new:
  assumes "usable_uri (c_sip cfg)"
  shows "\<exists>deps. try_new cfg m = (Some deps, [])"
proof -
  obtain name ip port bcd where u: "parse_uri (c_sip cfg) = Ok (name, ip, port)" "encode_bcd name = Ok bcd"
    using assms by (auto simp: usable_uri_def)
  have "ipv4_from_str ip \<noteq> None" using parse_uri_sound [OF u(1)] by blast
  then have "parse_ipv4 ip \<noteq> None" by (simp add: parse_ipv4_def)
  with u show ?thesis by (auto simp: try_new_def)
qed

lemma boot_self_unlock_Ok:
  assumes "usable_uri (c_sip cfg)" "bt_spawn b = (\<lambda>_. None)"
  shows "\<exists>deps sub l' ls. boot_self_unlock b cfg (Some l) = (Ok (Some (deps, sub), Some l'), ls)"
proof -
  obtain deps where "try_new cfg (parse_stations_to_ip_map cfg) = (Some deps, [])" using usable_try_new [OF assms(1)] by blast
  then show ?thesis by (simp add: boot_self_unlock_def spawn_consumer_def assms(2) split: prod.split)
qed

lemma boot_listen6672_Ok:
  assumes "usable_uri (c_sip cfg)" "bt_spawn b = (\<lambda>_. None)"
  shows "\<exists>ls. boot_listen6672 b cfg slaves = (Ok (slaves \<noteq> []), ls)"
  using assms
  by (auto simp: boot_listen6672_def then_start_def spawn_thread_Ok build_number_query_callback_def usable_uri_def)


lemma boot_video_Ok:
  assumes "usable_uri (c_sip cfg)"
  shows "\<exists>v ls. boot_video b cfg = (Ok v, ls) \<and> (v \<noteq> None \<longleftrightarrow> v_forward (c_video cfg))"
  using usable_caller [OF assms] by (auto simp: boot_video_def)

lemma boot_slaves_Ok: "\<exists>slaves ls. boot_slaves b cfg = (Ok slaves, ls)"
  by (simp add: boot_slaves_def split: sum.split)

lemma boot_listen18022_Ok:
  assumes "bt_spawn b = (\<lambda>_. None)"
  shows "\<exists>l ls. boot_listen18022 b cfg slaves = (Ok l, ls) \<and> (l \<noteq> None \<longleftrightarrow> slaves \<noteq> [])"
  using assms by (simp add: boot_listen18022_def build_listen18022_def then_start_def spawn_thread_Ok)

lemma run_start_Ok:
  assumes "usable_uri (c_sip cfg)" "bt_spawn b = (\<lambda>_. None)" "fst (boot_slaves b cfg) = Ok slaves"
  shows "\<exists>d ls. run_start b cfg state_path = (Ok d, ls) \<and> dm_slaves d = slaves
     \<and> (dm_video d \<noteq> None \<longleftrightarrow> v_forward (c_video cfg)) \<and> sc_video (dm_server d) = dm_video d
     \<and> (dm_listener d \<noteq> None \<longleftrightarrow> slaves \<noteq> []) \<and> (dm_self_unlock d \<noteq> None \<longleftrightarrow> slaves \<noteq> [])
     \<and> (dm_number_query d \<longleftrightarrow> slaves \<noteq> [])
     \<and> (au_unlock (dm_auto d), au_hangup (dm_auto d), dm_source d)
         = fst (load_automation_flags state_path (bt_read b state_path) (bt_env_set b) cfg)"
proof -
  obtain au ah source where fl: "fst (load_automation_flags state_path (bt_read b state_path) (bt_env_set b) cfg) = (au, ah, source)"
    by (metis prod_cases3)
  then obtain ls1 where f: "boot_flags b cfg state_path = (Ok (au, ah, source), ls1)"
    unfolding boot_flags_def by (simp add: case_prod_unfold)
  obtain v ls2 where v: "boot_video b cfg = (Ok v, ls2)" "v \<noteq> None \<longleftrightarrow> v_forward (c_video cfg)"
    using boot_video_Ok [OF assms(1)] by blast
  obtain ls3 where s: "boot_slaves b cfg = (Ok slaves, ls3)" using assms(3) by (metis prod.collapse)
  obtain l ls4 where l: "boot_listen18022 b cfg slaves = (Ok l, ls4)" "l \<noteq> None \<longleftrightarrow> slaves \<noteq> []"
    using boot_listen18022_Ok [OF assms(2)] by blast
  obtain self l' ls5 where su: "boot_self_unlock b cfg l = (Ok (self, l'), ls5)" "self \<noteq> None \<longleftrightarrow> l \<noteq> None" "l' \<noteq> None \<longleftrightarrow> l \<noteq> None"
  proof (cases l)
    case None
    then show thesis by (intro that [of None None "[]"]) (simp_all add: boot_self_unlock_def)
  next
    case (Some l0)
    then show thesis using boot_self_unlock_Ok [OF assms(1,2), of l0] that by fastforce
  qed
  obtain ls6 where n: "boot_listen6672 b cfg slaves = (Ok (slaves \<noteq> []), ls6)" using boot_listen6672_Ok [OF assms(1,2)] by blast
  have h: "boot_http b cfg = (Ok (), [''http8080: listening on '' @ http_address cfg])"
    by (simp add: boot_http_def then_start_def spawn_thread_Ok [OF assms(2)])
  show ?thesis
    unfolding run_start_def fl using v(2) l(2) su(2,3)
    by (simp add: then_start_def f v(1) s spawn_thread_Ok [OF assms(2)] l(1) su(1) n h)
qed


end
