(* ===== verification/Shutdown.thy ===== *)
theory Shutdown
  imports HttpServer
begin

text \<open>
  The end of \<open>run\<close> in \<open>src/main.rs\<close>: the pinned order in which the daemon is taken down, while the listeners,
  the self-unlock consumer, its hang-up timers, the worker, the HTTP server with its handlers and the push
  threads still run.  Each thread is a group of steps; the main thread's joins are guards.  What the threads
  do inside is the subject of the other theories; here only their effects on each other count: jobs submitted
  to the worker, pushes registered, connections, the video session.
\<close>

section \<open>State\<close>

datatype main_pc = MRun | MFlagged | MVideo | MListeners | MConsumer | MSentinel | MWorker | MHttpDown | MHttpJoined | MDraining | MExit

text \<open>A job by who submitted it; \<open>Sentinel\<close> is \<open>Job::Shutdown\<close>.\<close>

datatype sd_job = ByConsumer | ByTimer | ByHandler | Sentinel

record sd =
  sd_pc :: main_pc
  sd_flag :: bool
  sd_listeners :: nat
  sd_consumer :: bool
  sd_timers :: nat
  sd_worker :: bool
  sd_queue :: "sd_job list"
  sd_sent :: "sd_job list"
  sd_done :: "sd_job list"
  sd_http :: srv
  sd_session :: bool
  sd_pushes :: nat
  sd_drained :: nat

text \<open>The waiting loop has been reached with \<open>n\<close> listener threads, and \<open>consumer\<close> says whether there is a consumer.\<close>

definition sd_init :: "nat \<Rightarrow> bool \<Rightarrow> sd" where
  "sd_init n consumer = \<lparr>sd_pc = MRun, sd_flag = False, sd_listeners = n, sd_consumer = consumer, sd_timers = 0,
     sd_worker = True, sd_queue = [], sd_sent = [], sd_done = [], sd_http = srv_init, sd_session = False,
     sd_pushes = 0, sd_drained = 0\<rparr>"

text \<open>\<open>submit_job\<close>: a dead worker has dropped the receiver, and the job is lost.\<close>

definition sd_submit :: "sd_job \<Rightarrow> sd \<Rightarrow> sd" where
  "sd_submit j s = (if sd_worker s then s\<lparr>sd_queue := sd_queue s @ [j], sd_sent := sd_sent s @ [j]\<rparr> else s)"

text \<open>One turn of the worker: the sentinel ends it.\<close>

definition sd_work :: "sd \<Rightarrow> sd" where
  "sd_work s =
     (case sd_queue s of
        [] \<Rightarrow> s
      | j # q \<Rightarrow> s\<lparr>sd_queue := q, sd_done := sd_done s @ [j], sd_worker := (j \<noteq> Sentinel)\<rparr>)"

text \<open>The main thread: each step of the shutdown sequence, where it can go on.\<close>

fun main_turn :: "main_pc \<Rightarrow> bool \<Rightarrow> sd \<Rightarrow> sd option" where
  "main_turn MRun _ s = Some (s\<lparr>sd_flag := True, sd_pc := MFlagged\<rparr>)"
| "main_turn MFlagged _ s = Some (s\<lparr>sd_session := False, sd_pc := MVideo\<rparr>)"
| "main_turn MVideo _ s = (if sd_listeners s = 0 then Some (s\<lparr>sd_pc := MListeners\<rparr>) else None)"
| "main_turn MListeners _ s = (if \<not> sd_consumer s then Some (s\<lparr>sd_pc := MConsumer\<rparr>) else None)"
| "main_turn MConsumer _ s = Some ((sd_submit Sentinel s)\<lparr>sd_pc := MSentinel\<rparr>)"
| "main_turn MSentinel _ s = (if \<not> sd_worker s then Some (s\<lparr>sd_pc := MWorker\<rparr>) else None)"
| "main_turn MWorker expired s =
     (let h = shutdown_turn expired (sd_http s) in
      Some (s\<lparr>sd_http := h, sd_pc := (case sr_shutdown h of ShDone _ \<Rightarrow> MHttpDown | _ \<Rightarrow> MWorker)\<rparr>))"
| "main_turn MHttpDown _ s = (case sr_accept (sd_http s) of AcDone _ \<Rightarrow> Some (s\<lparr>sd_pc := MHttpJoined\<rparr>) | _ \<Rightarrow> None)"
| "main_turn MHttpJoined _ s = Some (s\<lparr>sd_drained := sd_pushes s, sd_pushes := 0, sd_pc := MDraining\<rparr>)"
| "main_turn MDraining _ s = (if sd_drained s = 0 then Some (s\<lparr>sd_pc := MExit\<rparr>) else None)"
| "main_turn MExit _ s = None"

definition add_push :: "sd \<Rightarrow> sd" where
  "add_push s = s\<lparr>sd_pushes := sd_pushes s + 1\<rparr>"

inductive sd_step :: "sd \<Rightarrow> sd \<Rightarrow> bool" where
  main: "main_turn (sd_pc s) expired s = Some s' \<Longrightarrow> sd_step s s'"
| listener_push: "0 < sd_listeners s \<Longrightarrow> sd_step s (add_push s)"
| listener_exit: "0 < sd_listeners s \<Longrightarrow> sd_step s (s\<lparr>sd_listeners := sd_listeners s - 1\<rparr>)"
| consumer_job: "sd_consumer s \<Longrightarrow> sd_step s (sd_submit ByConsumer s)"
| consumer_push: "sd_consumer s \<Longrightarrow> sd_step s (add_push s)"
| consumer_timer: "sd_consumer s \<Longrightarrow> sd_step s (s\<lparr>sd_timers := sd_timers s + 1\<rparr>)"
| consumer_exit: "sd_consumer s \<Longrightarrow> sd_step s (s\<lparr>sd_consumer := False\<rparr>)"
| timer_job: "0 < sd_timers s \<Longrightarrow> sd_step s (sd_submit ByTimer (s\<lparr>sd_timers := sd_timers s - 1\<rparr>))"
| timer_exit: "0 < sd_timers s \<Longrightarrow> sd_step s (s\<lparr>sd_timers := sd_timers s - 1\<rparr>)"
| handler_job: "0 < sr_running (sd_http s) \<Longrightarrow> sd_step s (sd_submit ByHandler s)"
| handler_push: "0 < sr_running (sd_http s) \<Longrightarrow> sd_step s (add_push s)"
| handler_session: "0 < sr_running (sd_http s) \<Longrightarrow> sd_step s (s\<lparr>sd_session := b\<rparr>)"
| http: "srv_step (sd_http s) h \<Longrightarrow> sr_shutdown h = sr_shutdown (sd_http s) \<Longrightarrow> sd_step s (s\<lparr>sd_http := h\<rparr>)"
| work: "sd_worker s \<Longrightarrow> sd_step s (sd_work s)"
| push_end: "sd_step s (s\<lparr>sd_pushes := sd_pushes s - 1\<rparr>)"
| drained_end: "sd_step s (s\<lparr>sd_drained := sd_drained s - 1\<rparr>)"

inductive sd_reach :: "sd \<Rightarrow> bool" where
  init: "sd_reach (sd_init n consumer)"
| step: "sd_reach s \<Longrightarrow> sd_step s s' \<Longrightarrow> sd_reach s'"

section \<open>The invariant\<close>

fun pc_rank :: "main_pc \<Rightarrow> nat" where
  "pc_rank MRun = 0"
| "pc_rank MFlagged = 1"
| "pc_rank MVideo = 2"
| "pc_rank MListeners = 3"
| "pc_rank MConsumer = 4"
| "pc_rank MSentinel = 5"
| "pc_rank MWorker = 6"
| "pc_rank MHttpDown = 7"
| "pc_rank MHttpJoined = 8"
| "pc_rank MDraining = 9"
| "pc_rank MExit = 10"

text \<open>The places of the main thread in the order in which it passes them.\<close>

instantiation main_pc :: linorder
begin

definition less_eq_main_pc :: "main_pc \<Rightarrow> main_pc \<Rightarrow> bool" where
  "less_eq_main_pc a b \<longleftrightarrow> pc_rank a \<le> pc_rank b"

definition less_main_pc :: "main_pc \<Rightarrow> main_pc \<Rightarrow> bool" where
  "less_main_pc a b \<longleftrightarrow> pc_rank a < pc_rank b"

instance
proof
  fix a b :: main_pc
  show "a \<le> b \<Longrightarrow> b \<le> a \<Longrightarrow> a = b" by (cases a; cases b) (simp_all add: less_eq_main_pc_def)
qed (auto simp: less_eq_main_pc_def less_main_pc_def)

end

lemmas main_pc_order [simp] = less_eq_main_pc_def less_main_pc_def

text \<open>The queue is first in, first out; the sentinel comes once, after the consumer, and ends the worker.\<close>

definition sentinel_in :: "sd_job list \<Rightarrow> sd_job list \<Rightarrow> bool \<Rightarrow> bool" where
  "sentinel_in sent performed alive \<longleftrightarrow>
     (\<exists>pre post. sent = pre @ Sentinel # post \<and> Sentinel \<notin> set pre \<and> ByConsumer \<notin> set post
        \<and> (if alive then length performed \<le> length pre else performed = pre @ [Sentinel]))"

definition queue_inv :: "sd \<Rightarrow> bool" where
  "queue_inv s \<longleftrightarrow> sd_sent s = sd_done s @ sd_queue s
     \<and> (sd_pc s < MSentinel \<longrightarrow> sd_worker s \<and> Sentinel \<notin> set (sd_sent s))
     \<and> (MSentinel \<le> sd_pc s \<longrightarrow> sentinel_in (sd_sent s) (sd_done s) (sd_worker s))"

definition joins_inv :: "sd \<Rightarrow> bool" where
  "joins_inv s \<longleftrightarrow> (MFlagged \<le> sd_pc s \<longrightarrow> sd_flag s) \<and> (MListeners \<le> sd_pc s \<longrightarrow> sd_listeners s = 0)
     \<and> (MConsumer \<le> sd_pc s \<longrightarrow> \<not> sd_consumer s) \<and> (MWorker \<le> sd_pc s \<longrightarrow> \<not> sd_worker s)
     \<and> (sd_pc s < MWorker \<longrightarrow> sr_shutdown (sd_http s) = ShIdle)
     \<and> (MHttpDown \<le> sd_pc s \<longrightarrow> (\<exists>ok. sr_shutdown (sd_http s) = ShDone ok))
     \<and> (MExit \<le> sd_pc s \<longrightarrow> sd_drained s = 0)
     \<and> srv_inv (sd_http s)"

lemma joins_step:
  assumes "sd_step s s'" "joins_inv s"
  shows "joins_inv s'"
  using assms
proof (induction rule: sd_step.induct)
  case (main s expired s')
  have h: "srv_inv (sd_http s)" using main.prems by (simp add: joins_inv_def)
  have "srv_inv (shutdown_turn expired (sd_http s))" by (rule srv_step_inv [OF srv_step.shutdown h])
  with main show ?case
    by (cases "sd_pc s") (auto simp: joins_inv_def sd_submit_def Let_def split: if_splits accept_pc.splits shutdown_pc.splits)
next
  case (http s h)
  then show ?case using srv_step_inv [OF http.hyps(1)] by (auto simp: joins_inv_def)
qed (auto simp: joins_inv_def sd_submit_def sd_work_def add_push_def split: list.splits)


lemma queue_invI:
  assumes "sd_sent s = sd_done s @ sd_queue s" "MSentinel \<le> sd_pc s" "sd_sent s = pre @ Sentinel # post"
    and "Sentinel \<notin> set pre" "ByConsumer \<notin> set post"
    and "if sd_worker s then length (sd_done s) \<le> length pre else sd_done s = pre @ [Sentinel]"
  shows "queue_inv s"
proof -
  have "sentinel_in (sd_sent s) (sd_done s) (sd_worker s)"
    unfolding sentinel_in_def by (rule exI [of _ pre], rule exI [of _ post]) (intro conjI assms)
  then show ?thesis using assms(1,2) by (simp add: queue_inv_def)
qed

lemma queue_invE:
  assumes "queue_inv s" "sd_worker s" "MSentinel \<le> sd_pc s"
  obtains pre post where "sd_sent s = pre @ Sentinel # post" "Sentinel \<notin> set pre" "ByConsumer \<notin> set post"
    "length (sd_done s) \<le> length pre"
proof -
  have "sentinel_in (sd_sent s) (sd_done s) (sd_worker s)" using assms(1,3) unfolding queue_inv_def by blast
  then show thesis using that assms(2) by (auto simp: sentinel_in_def)
qed

lemma queue_submit:
  assumes "queue_inv s" "j \<noteq> Sentinel" "j = ByConsumer \<Longrightarrow> sd_pc s < MSentinel"
  shows "queue_inv (sd_submit j s)"
proof (cases "sd_worker s \<and> MSentinel \<le> sd_pc s")
  case True
  then obtain pre post where p: "sd_sent s = pre @ Sentinel # post" "Sentinel \<notin> set pre" "ByConsumer \<notin> set post"
    "length (sd_done s) \<le> length pre"
    using queue_invE [OF assms(1)] by blast
  show ?thesis
    by (rule queue_invI [where pre = pre and post = "post @ [j]"])
      (use True p assms in \<open>auto simp: sd_submit_def queue_inv_def\<close>)
next
  case False
  then show ?thesis using assms by (auto simp: sd_submit_def queue_inv_def)
qed

lemma queue_work:
  assumes "queue_inv s" "sd_worker s"
  shows "queue_inv (sd_work s)"
proof (cases "sd_queue s")
  case (Cons j q)
  have w: "sd_work s = s\<lparr>sd_queue := q, sd_done := sd_done s @ [j], sd_worker := (j \<noteq> Sentinel)\<rparr>"
    by (simp add: sd_work_def Cons)
  have sent: "sd_sent s = sd_done s @ j # q" using assms(1) Cons by (simp add: queue_inv_def)
  show ?thesis
  proof (cases "MSentinel \<le> sd_pc s")
    case True
    then obtain pre post where p: "sd_sent s = pre @ Sentinel # post" "Sentinel \<notin> set pre" "ByConsumer \<notin> set post"
      "length (sd_done s) \<le> length pre"
      using queue_invE [OF assms] by blast
    have "if j \<noteq> Sentinel then length (sd_done s @ [j]) \<le> length pre else sd_done s @ [j] = pre @ [Sentinel]"
    proof (cases "length (sd_done s) = length pre")
      case True
      then show ?thesis using sent p(1) by simp
    next
      case False
      then have "length (sd_done s) < length pre" using p(4) by simp
      moreover have "sd_sent s ! length (sd_done s) = j" using sent by simp
      ultimately have "j \<in> set pre" using p(1) by (auto simp: nth_append)
      then show ?thesis using p(2) \<open>length (sd_done s) < length pre\<close> by auto
    qed
    then show ?thesis
      by (intro queue_invI [where pre = pre and post = post]) (use True p sent in \<open>auto simp: w\<close>)
  next
    case False
    then show ?thesis using assms sent by (auto simp: queue_inv_def w Cons)
  qed
qed (use assms in \<open>simp add: sd_work_def\<close>)

lemma queue_main:
  assumes "main_turn (sd_pc s) expired s = Some s'" "queue_inv s"
  shows "queue_inv s'"
proof (cases "sd_pc s = MConsumer")
  case True
  then have w: "sd_worker s" "Sentinel \<notin> set (sd_sent s)" "sd_sent s = sd_done s @ sd_queue s"
    using assms(2) by (auto simp: queue_inv_def)
  then show ?thesis
    by (intro queue_invI [where pre = "sd_sent s" and post = "[]"]) (use assms True in \<open>auto simp: sd_submit_def\<close>)
next
  case False
  then show ?thesis
    using assms
    by (cases "sd_pc s") (auto simp: queue_inv_def Let_def split: if_splits accept_pc.splits shutdown_pc.splits)
qed

lemma queue_step:
  assumes "sd_step s s'" "queue_inv s" "joins_inv s"
  shows "queue_inv s'"
  using assms
proof (induction rule: sd_step.induct)
  case (main s expired s')
  then show ?case using queue_main by blast
next
  case (consumer_job s)
  then have "sd_pc s < MSentinel" by (auto simp: joins_inv_def)
  with consumer_job show ?case by (intro queue_submit) simp_all
next
  case (timer_job s)
  then have "queue_inv (s\<lparr>sd_timers := sd_timers s - 1\<rparr>)" unfolding queue_inv_def by auto
  then show ?case by (intro queue_submit) simp_all
next
  case (handler_job s)
  then show ?case by (intro queue_submit) simp_all
next
  case (work s)
  then show ?case by (intro queue_work)
qed (auto simp: queue_inv_def add_push_def)

lemma sd_reach_inv: "sd_reach s \<Longrightarrow> queue_inv s \<and> joins_inv s"
proof (induction rule: sd_reach.induct)
  case (init n consumer)
  have "srv_inv srv_init" by (rule srv_reach_inv [OF srv_reach.init])
  then show ?case by (simp add: sd_init_def queue_inv_def joins_inv_def srv_init_def)
qed (blast intro: queue_step joins_step)

text \<open>
  C8. The pinned shutdown order, for every interleaving of the daemon's threads.  When the main thread has gone
  through it, no listener, no consumer and no worker runs any more and every push it drained has ended; every
  job submitted before the sentinel has been performed, in order, and none after it, and none of those after it
  is an unlock of the consumer; the HTTP server accepts nothing more, and unless its shutdown timed out at most
  one connection is left.
\<close>

theorem shutdown_order:
  assumes "sd_reach s" "sd_pc s = MExit"
  shows "sd_listeners s = 0 \<and> \<not> sd_consumer s \<and> \<not> sd_worker s \<and> sd_drained s = 0
    \<and> (\<exists>pre post. sd_sent s = pre @ Sentinel # post \<and> sd_done s = pre @ [Sentinel] \<and> ByConsumer \<notin> set post)
    \<and> (\<exists>ok. sr_shutdown (sd_http s) = ShDone ok \<and> \<not> sr_listener (sd_http s)
         \<and> (ok = False \<or> counted (sd_http s) + uncounted (sd_http s) \<le> 1))"
proof -
  have q: "queue_inv s" and j: "joins_inv s" using sd_reach_inv [OF assms(1)] by simp_all
  obtain ok where ok: "sr_shutdown (sd_http s) = ShDone ok" using j assms(2) by (auto simp: joins_inv_def)
  moreover have "\<not> sr_listener (sd_http s) \<and> (ok = False \<or> counted (sd_http s) + uncounted (sd_http s) \<le> 1)"
    using j ok by (cases ok) (auto simp: joins_inv_def srv_inv_def)
  moreover have "sd_listeners s = 0 \<and> \<not> sd_consumer s \<and> \<not> sd_worker s \<and> sd_drained s = 0"
    using j assms(2) by (simp add: joins_inv_def)
  moreover have "sentinel_in (sd_sent s) (sd_done s) (sd_worker s)" using q assms(2) by (auto simp: queue_inv_def)
  ultimately show ?thesis unfolding sentinel_in_def by auto
qed


section \<open>A run to the end\<close>

text \<open>Schedules, to compute a run.\<close>

datatype action = AMain | AAccept "io_kind + unit" | ACount | ASpawn | AFinish | AStartVideo | AConsumerJob | AListenerExit
  | AConsumerExit | AWork

fun act :: "action \<Rightarrow> sd \<Rightarrow> sd option" where
  "act AMain s = main_turn (sd_pc s) False s"
| "act (AAccept res) s = (if sr_accept (sd_http s) = AcLoop then Some (s\<lparr>sd_http := accept_turn res (sd_http s)\<rparr>) else None)"
| "act ACount s = (if sr_accept (sd_http s) = AcAccepted then Some (s\<lparr>sd_http := count_conn (sd_http s)\<rparr>) else None)"
| "act ASpawn s = (if sr_accept (sd_http s) = AcCounted then Some (s\<lparr>sd_http := spawn_conn (sd_http s)\<rparr>) else None)"
| "act AFinish s = (if 0 < sr_running (sd_http s) then Some (s\<lparr>sd_http := end_conn (sd_http s)\<rparr>) else None)"
| "act AStartVideo s = (if 0 < sr_running (sd_http s) then Some (s\<lparr>sd_session := True\<rparr>) else None)"
| "act AConsumerJob s = (if sd_consumer s then Some (sd_submit ByConsumer s) else None)"
| "act AListenerExit s = (if 0 < sd_listeners s then Some (s\<lparr>sd_listeners := sd_listeners s - 1\<rparr>) else None)"
| "act AConsumerExit s = (if sd_consumer s then Some (s\<lparr>sd_consumer := False\<rparr>) else None)"
| "act AWork s = (if sd_worker s then Some (sd_work s) else None)"

fun acts :: "action list \<Rightarrow> sd \<Rightarrow> sd option" where
  "acts [] s = Some s"
| "acts (a # as) s = (case act a s of None \<Rightarrow> None | Some s' \<Rightarrow> acts as s')"

lemma turns_keep_shutdown [simp]:
  "sr_shutdown (accept_turn res h) = sr_shutdown h" "sr_shutdown (count_conn h) = sr_shutdown h"
  "sr_shutdown (spawn_conn h) = sr_shutdown h" "sr_shutdown (end_conn h) = sr_shutdown h"
  by (simp_all add: accept_turn_def count_conn_def spawn_conn_def end_conn_def split: sum.split)

lemma act_step: "act a s = Some s' \<Longrightarrow> sd_step s s'"
  by (cases a) (auto split: if_splits intro: sd_step.intros srv_step.intros simp del: One_nat_def)

lemma acts_reach: "acts as s = Some s' \<Longrightarrow> sd_reach s \<Longrightarrow> sd_reach s'"
  by (induction as arbitrary: s) (auto split: option.splits intro: sd_reach.step dest: act_step)

text \<open>
  A client that starts a video session after the manager has been shut down and before the HTTP server is:
  the session is still there when the process ends.
\<close>

definition late_video :: "action list" where
  "late_video = [AAccept (Ok ()), ACount, ASpawn, AConsumerJob, AMain, AMain, AStartVideo, AListenerExit, AMain,
     AConsumerExit, AMain, AMain, AWork, AWork, AMain, AMain, AMain, AFinish, AMain, AAccept (Ok ()), AMain, AMain, AMain]"

theorem shutdown_order_witness:
  "\<exists>s. sd_reach s \<and> sd_pc s = MExit \<and> sd_session s \<and> sd_done s = [ByConsumer, Sentinel] \<and> sd_listeners s = 0
     \<and> \<not> sd_consumer s \<and> \<not> sd_worker s \<and> \<not> sr_listener (sd_http s)"
proof -
  obtain s where s: "acts late_video (sd_init 1 True) = Some s" "sd_pc s = MExit" "sd_session s" "sd_done s = [ByConsumer, Sentinel]"
    by (simp add: late_video_def sd_init_def srv_init_def accept_turn_def count_conn_def spawn_conn_def end_conn_def
        shutdown_turn_def sd_submit_def sd_work_def Let_def)
  have "sd_reach s" by (rule acts_reach [OF s(1) sd_reach.init])
  then show ?thesis using s shutdown_order [OF _ s(2)] by blast
qed

end
