(* ===== verification/Bpf.thy ===== *)
theory Bpf
  imports Listen18022
begin

unbundle bit_operations_syntax

text \<open>
  \<open>src/bpf.rs\<close>: the packet filters attached to the capture sockets.  The machine that runs them is the
  kernel's; its documented behaviour on the seven instructions the filters use is the locale
  \<open>bpf_machine\<close>, and \<open>bpf_exec\<close> is an interpreter that satisfies it.
\<close>

section \<open>Filters\<close>

record sock_filter =
  sf_code :: u16
  sf_jt :: byte
  sf_jf :: byte
  sf_k :: u32

definition ins :: "u16 \<Rightarrow> byte \<Rightarrow> byte \<Rightarrow> u32 \<Rightarrow> sock_filter" where
  "ins code jt jf k = \<lparr>sf_code = code, sf_jt = jt, sf_jf = jf, sf_k = k\<rparr>"

definition BPF_6672 :: "sock_filter list" where
  "BPF_6672 =
     [ins 0x0028 0 0 0x0000000c,
      ins 0x0015 0 8 0x00000800,
      ins 0x0030 0 0 0x00000017,
      ins 0x0015 0 6 0x00000011,
      ins 0x0028 0 0 0x00000014,
      ins 0x0045 4 0 0x00003fff,
      ins 0x00b1 0 0 0x0000000e,
      ins 0x0048 0 0 0x00000010,
      ins 0x0015 0 1 0x00001a10,
      ins 0x0006 0 0 0x0000ffff,
      ins 0x0006 0 0 0x00000000]"

definition BPF_18022 :: "sock_filter list" where
  "BPF_18022 =
     [ins 0x0028 0 0 0x0000000c,
      ins 0x0015 0 10 0x00000800,
      ins 0x0030 0 0 0x00000017,
      ins 0x0015 0 8 0x00000006,
      ins 0x0028 0 0 0x00000014,
      ins 0x0045 6 0 0x00003fff,
      ins 0x00b1 0 0 0x0000000e,
      ins 0x0048 0 0 0x0000000e,
      ins 0x0015 2 0 0x00004666,
      ins 0x0048 0 0 0x00000010,
      ins 0x0015 0 1 0x00004666,
      ins 0x0006 0 0 0x0000ffff,
      ins 0x0006 0 0 0x00000000]"

section \<open>Machine\<close>

definition be16 :: "byte list \<Rightarrow> nat \<Rightarrow> u16" where
  "be16 b i = u16_from_be_bytes (b ! i) (b ! (i + 1))"

text \<open>
  \<open>exec prog b pc a x\<close> is the number of bytes kept when the filter continues at instruction \<open>pc\<close> with
  accumulator \<open>a\<close> and index register \<open>x\<close> on the packet \<open>b\<close>; a load outside the packet drops it.
\<close>

locale bpf_machine =
  fixes exec :: "sock_filter list \<Rightarrow> byte list \<Rightarrow> nat \<Rightarrow> u32 \<Rightarrow> u32 \<Rightarrow> u32"
  assumes ldh_abs: "pc < length prog \<Longrightarrow> prog ! pc = ins 0x28 jt jf k \<Longrightarrow>
      exec prog b pc a x = (if unat k + 2 \<le> length b then exec prog b (pc + 1) (ucast (be16 b (unat k))) x else 0)"
    and ldb_abs: "pc < length prog \<Longrightarrow> prog ! pc = ins 0x30 jt jf k \<Longrightarrow>
      exec prog b pc a x = (if unat k + 1 \<le> length b then exec prog b (pc + 1) (ucast (b ! unat k)) x else 0)"
    and ldh_ind: "pc < length prog \<Longrightarrow> prog ! pc = ins 0x48 jt jf k \<Longrightarrow>
      exec prog b pc a x =
        (if unat k + unat x + 2 \<le> length b then exec prog b (pc + 1) (ucast (be16 b (unat k + unat x))) x else 0)"
    and ldx_msh: "pc < length prog \<Longrightarrow> prog ! pc = ins 0xb1 jt jf k \<Longrightarrow>
      exec prog b pc a x =
        (if unat k + 1 \<le> length b then exec prog b (pc + 1) a (4 * ucast (b ! unat k AND 0x0f)) else 0)"
    and jeq: "pc < length prog \<Longrightarrow> prog ! pc = ins 0x15 jt jf k \<Longrightarrow>
      exec prog b pc a x = exec prog b (pc + 1 + unat (if a = k then jt else jf)) a x"
    and jset: "pc < length prog \<Longrightarrow> prog ! pc = ins 0x45 jt jf k \<Longrightarrow>
      exec prog b pc a x = exec prog b (pc + 1 + unat (if a AND k \<noteq> 0 then jt else jf)) a x"
    and ret: "pc < length prog \<Longrightarrow> prog ! pc = ins 0x06 jt jf k \<Longrightarrow> exec prog b pc a x = k"

text \<open>An interpreter.\<close>

function bpf_exec :: "sock_filter list \<Rightarrow> byte list \<Rightarrow> nat \<Rightarrow> u32 \<Rightarrow> u32 \<Rightarrow> u32" where
  "bpf_exec prog b pc a x =
     (if pc \<ge> length prog then 0
      else
        let i = prog ! pc; k = sf_k i in
        if sf_code i = 0x28 then
          if unat k + 2 \<le> length b then bpf_exec prog b (pc + 1) (ucast (be16 b (unat k))) x else 0
        else if sf_code i = 0x30 then
          if unat k + 1 \<le> length b then bpf_exec prog b (pc + 1) (ucast (b ! unat k)) x else 0
        else if sf_code i = 0x48 then
          if unat k + unat x + 2 \<le> length b then bpf_exec prog b (pc + 1) (ucast (be16 b (unat k + unat x))) x else 0
        else if sf_code i = 0xb1 then
          if unat k + 1 \<le> length b then bpf_exec prog b (pc + 1) a (4 * ucast (b ! unat k AND 0x0f)) else 0
        else if sf_code i = 0x15 then bpf_exec prog b (pc + 1 + unat (if a = k then sf_jt i else sf_jf i)) a x
        else if sf_code i = 0x45 then bpf_exec prog b (pc + 1 + unat (if a AND k \<noteq> 0 then sf_jt i else sf_jf i)) a x
        else if sf_code i = 0x06 then k
        else 0)"
  by pat_completeness auto
termination
  by (relation "measure (\<lambda>(prog, b, pc, a, x). length prog - pc)") auto

declare bpf_exec.simps [simp del]

interpretation vm: bpf_machine bpf_exec
  by unfold_locales (subst bpf_exec.simps; simp add: ins_def Let_def)+

section \<open>What the filters accept\<close>

text \<open>The port field at an offset, if the captured frame reaches that far.\<close>

definition port_at :: "byte list \<Rightarrow> nat \<Rightarrow> u16 option" where
  "port_at fr i = (if i + 2 \<le> length fr then Some (be16 fr i) else None)"

definition transport_offset :: "byte list \<Rightarrow> nat" where
  "transport_offset fr = 14 + 4 * unat (fr ! 14 AND 0x0f)"

text \<open>An IPv4 frame of the given protocol that is not a fragment.\<close>

definition ip_frame :: "byte \<Rightarrow> byte list \<Rightarrow> bool" where
  "ip_frame proto fr \<longleftrightarrow>
     24 \<le> length fr \<and> be16 fr 12 = 0x0800 \<and> fr ! 23 = proto \<and> be16 fr 20 AND 0x3fff = 0"

lemma ucast_unat: "unat (ucast (w :: u16) :: u32) = unat w" "unat (ucast (b :: byte) :: u32) = unat b"
proof -
  have "unat w < 65536" "unat b < 256" using unsigned_less [of w] unsigned_less [of b] by simp_all
  then show "unat (ucast w :: u32) = unat w" "unat (ucast b :: u32) = unat b"
    by (simp_all add: unsigned_ucast_eq take_bit_eq_mod)
qed

lemma ucast_eq_iff:
  "(ucast (w :: u16) :: u32) = 0x0800 \<longleftrightarrow> w = 0x0800" "(ucast (w :: u16) :: u32) = 0x1a10 \<longleftrightarrow> w = 0x1a10"
  "(ucast (w :: u16) :: u32) = 0x4666 \<longleftrightarrow> w = 0x4666" "(ucast (b :: byte) :: u32) = 0x11 \<longleftrightarrow> b = 0x11"
  "(ucast (b :: byte) :: u32) = 0x06 \<longleftrightarrow> b = 0x06"
proof -
  have 16: "(ucast (w :: u16) :: u32) = ucast v \<longleftrightarrow> w = v" for v by (simp add: word_unat_eq_iff ucast_unat)
  have 8: "(ucast (b :: byte) :: u32) = ucast v \<longleftrightarrow> b = v" for v by (simp add: word_unat_eq_iff ucast_unat)
  show "(ucast (w :: u16) :: u32) = 0x0800 \<longleftrightarrow> w = 0x0800" using 16 [of "0x0800"] by simp
  show "(ucast (w :: u16) :: u32) = 0x1a10 \<longleftrightarrow> w = 0x1a10" using 16 [of "0x1a10"] by simp
  show "(ucast (w :: u16) :: u32) = 0x4666 \<longleftrightarrow> w = 0x4666" using 16 [of "0x4666"] by simp
  show "(ucast (b :: byte) :: u32) = 0x11 \<longleftrightarrow> b = 0x11" using 8 [of "0x11"] by simp
  show "(ucast (b :: byte) :: u32) = 0x06 \<longleftrightarrow> b = 0x06" using 8 [of "0x06"] by simp
qed

lemma ucast_mask: "(ucast (w :: u16) :: u32) AND 0x3fff = 0 \<longleftrightarrow> w AND 0x3fff = 0"
proof -
  have "unat ((ucast w :: u32) AND 0x3fff) = unat (w AND 0x3fff)" by (simp add: unsigned_and_eq ucast_unat)
  then show ?thesis by (simp add: word_unat_eq_iff)
qed

lemma ihl_word: "unat (4 * ucast ((v :: byte) AND 0x0f) :: u32) = 4 * unat (v AND 0x0f)"
proof -
  have "unat (v AND 0x0f) < 16" using nibble_bounds(2) [of v] by (simp add: word_less_nat_alt)
  then show ?thesis by (simp add: unat_word_ariths ucast_unat)
qed

lemma fetch_6672:
  "length BPF_6672 = 11"
  "BPF_6672 ! 0 = ins 0x28 0 0 0x0c"
  "BPF_6672 ! 1 = ins 0x15 0 8 0x0800"
  "BPF_6672 ! 2 = ins 0x30 0 0 0x17"
  "BPF_6672 ! 3 = ins 0x15 0 6 0x11"
  "BPF_6672 ! 4 = ins 0x28 0 0 0x14"
  "BPF_6672 ! 5 = ins 0x45 4 0 0x3fff"
  "BPF_6672 ! 6 = ins 0xb1 0 0 0x0e"
  "BPF_6672 ! 7 = ins 0x48 0 0 0x10"
  "BPF_6672 ! 8 = ins 0x15 0 1 0x1a10"
  "BPF_6672 ! 9 = ins 0x06 0 0 0xffff"
  "BPF_6672 ! 10 = ins 0x06 0 0 0"
  by (simp_all add: BPF_6672_def)

lemma fetch_18022:
  "length BPF_18022 = 13"
  "BPF_18022 ! 0 = ins 0x28 0 0 0x0c"
  "BPF_18022 ! 1 = ins 0x15 0 10 0x0800"
  "BPF_18022 ! 2 = ins 0x30 0 0 0x17"
  "BPF_18022 ! 3 = ins 0x15 0 8 0x06"
  "BPF_18022 ! 4 = ins 0x28 0 0 0x14"
  "BPF_18022 ! 5 = ins 0x45 6 0 0x3fff"
  "BPF_18022 ! 6 = ins 0xb1 0 0 0x0e"
  "BPF_18022 ! 7 = ins 0x48 0 0 0x0e"
  "BPF_18022 ! 8 = ins 0x15 2 0 0x4666"
  "BPF_18022 ! 9 = ins 0x48 0 0 0x10"
  "BPF_18022 ! 10 = ins 0x15 0 1 0x4666"
  "BPF_18022 ! 11 = ins 0x06 0 0 0xffff"
  "BPF_18022 ! 12 = ins 0x06 0 0 0"
  by (simp_all add: BPF_18022_def)

context bpf_machine
begin

lemma run_6672:
  "exec BPF_6672 fr 0 a x = (if ip_frame 17 fr \<and> port_at fr (transport_offset fr + 2) = Some 6672 then 0xffff else 0)"
proof -
  let ?e = "exec BPF_6672 fr"
  have 10: "?e 10 a x = 0" for a x using ret [of 10, OF _ fetch_6672(12)] fetch_6672(1) by simp
  have 9: "?e 9 a x = 0xffff" for a x using ret [of 9, OF _ fetch_6672(11)] fetch_6672(1) by simp
  have 8: "?e 8 a x = (if a = 0x1a10 then 0xffff else 0)" for a x
    using jeq [of 8, OF _ fetch_6672(10), of fr a x] fetch_6672(1) 9 10 by simp
  have 7: "?e 7 a x = (if port_at fr (16 + unat x) = Some 6672 then 0xffff else 0)" for a x
    using ldh_ind [of 7, OF _ fetch_6672(9), of fr a x] fetch_6672(1) 8 by (simp add: port_at_def ucast_eq_iff)
  have 6: "?e 6 a x = (if port_at fr (transport_offset fr + 2) = Some 6672 then 0xffff else 0)" if "24 \<le> length fr" for a x
    using ldx_msh [of 6, OF _ fetch_6672(8), of fr a x] fetch_6672(1) 7 that
    by (simp add: transport_offset_def ihl_word)
  have 5: "?e 5 a x = (if a AND 0x3fff \<noteq> 0 then 0 else ?e 6 a x)" for a x
    using jset [of 5, OF _ fetch_6672(7), of fr a x] fetch_6672(1) 10 by simp
  have 4: "?e 4 a x = (if be16 fr 20 AND 0x3fff \<noteq> 0 then 0 else ?e 6 (ucast (be16 fr 20)) x)" if "24 \<le> length fr" for a x
    using ldh_abs [of 4, OF _ fetch_6672(6), of fr a x] fetch_6672(1) 5 that by (simp add: ucast_mask)
  have 3: "?e 3 a x = (if a = 0x11 then ?e 4 a x else 0)" for a x
    using jeq [of 3, OF _ fetch_6672(5), of fr a x] fetch_6672(1) 10 by simp
  have 2: "?e 2 a x = (if 24 \<le> length fr then if fr ! 23 = 17 then ?e 4 17 x else 0 else 0)" for a x
    using ldb_abs [of 2, OF _ fetch_6672(4), of fr a x] fetch_6672(1) 3 by (simp add: ucast_eq_iff)
  have 1: "?e 1 a x = (if a = 0x0800 then ?e 2 a x else 0)" for a x
    using jeq [of 1, OF _ fetch_6672(3), of fr a x] fetch_6672(1) 10 by (simp add: numeral_2_eq_2 [symmetric])
  show ?thesis
    using ldh_abs [of 0, OF _ fetch_6672(2), of fr a x] fetch_6672(1) 1 2 4 6
    by (simp add: ip_frame_def ucast_eq_iff)
qed

lemma run_18022:
  "exec BPF_18022 fr 0 a x =
   (if ip_frame 6 fr \<and> (port_at fr (transport_offset fr) = Some 18022 \<or> port_at fr (transport_offset fr + 2) = Some 18022)
    then 0xffff else 0)"
proof -
  let ?e = "exec BPF_18022 fr" and ?o = "transport_offset fr"
  have 12: "?e 12 a x = 0" for a x using ret [of 12, OF _ fetch_18022(14)] fetch_18022(1) by simp
  have 11: "?e 11 a x = 0xffff" for a x using ret [of 11, OF _ fetch_18022(13)] fetch_18022(1) by simp
  have 10: "?e 10 a x = (if a = 0x4666 then 0xffff else 0)" for a x
    using jeq [of 10, OF _ fetch_18022(12), of fr a x] fetch_18022(1) 11 12 by simp
  have 9: "?e 9 a x = (if port_at fr (16 + unat x) = Some 18022 then 0xffff else 0)" for a x
    using ldh_ind [of 9, OF _ fetch_18022(11), of fr a x] fetch_18022(1) 10 by (simp add: port_at_def ucast_eq_iff)
  have 8: "?e 8 a x = (if a = 0x4666 then 0xffff else ?e 9 a x)" for a x
    using jeq [of 8, OF _ fetch_18022(10), of fr a x] fetch_18022(1) 11 by simp
  have 7: "?e 7 a x = (if port_at fr (14 + unat x) = Some 18022 \<or> port_at fr (16 + unat x) = Some 18022 then 0xffff else 0)" for a x
    using ldh_ind [of 7, OF _ fetch_18022(9), of fr a x] fetch_18022(1) 8 9 by (simp add: port_at_def ucast_eq_iff)
  have 6: "?e 6 a x = (if port_at fr ?o = Some 18022 \<or> port_at fr (?o + 2) = Some 18022 then 0xffff else 0)"
    if "24 \<le> length fr" for a x
    using ldx_msh [of 6, OF _ fetch_18022(8), of fr a x] fetch_18022(1) 7 that by (simp add: transport_offset_def ihl_word)
  have 5: "?e 5 a x = (if a AND 0x3fff \<noteq> 0 then 0 else ?e 6 a x)" for a x
    using jset [of 5, OF _ fetch_18022(7), of fr a x] fetch_18022(1) 12 by simp
  have 4: "?e 4 a x = (if be16 fr 20 AND 0x3fff \<noteq> 0 then 0 else ?e 6 (ucast (be16 fr 20)) x)" if "24 \<le> length fr" for a x
    using ldh_abs [of 4, OF _ fetch_18022(6), of fr a x] fetch_18022(1) 5 that by (simp add: ucast_mask)
  have 3: "?e 3 a x = (if a = 0x06 then ?e 4 a x else 0)" for a x
    using jeq [of 3, OF _ fetch_18022(5), of fr a x] fetch_18022(1) 12 by simp
  have 2: "?e 2 a x = (if 24 \<le> length fr then if fr ! 23 = 6 then ?e 4 6 x else 0 else 0)" for a x
    using ldb_abs [of 2, OF _ fetch_18022(4), of fr a x] fetch_18022(1) 3 by (simp add: ucast_eq_iff)
  have 1: "?e 1 a x = (if a = 0x0800 then ?e 2 a x else 0)" for a x
    using jeq [of 1, OF _ fetch_18022(3), of fr a x] fetch_18022(1) 12 by (simp add: numeral_2_eq_2 [symmetric])
  show ?thesis
    using ldh_abs [of 0, OF _ fetch_18022(2), of fr a x] fetch_18022(1) 1 2 4 6
    by (simp add: ip_frame_def ucast_eq_iff)
qed

end

text \<open>
  C24. The packet filters select what their names say.  On a machine with the documented behaviour of the
  classic packet filter, the first keeps a captured frame exactly if it is an unfragmented IPv4 frame of
  protocol UDP whose destination port is 6672, the second exactly if it is an unfragmented IPv4 frame of
  protocol TCP with 18022 as source or destination port; the offset of the ports follows the header length,
  so IP options are handled, and all other frames are dropped.
\<close>

theorem filters_select_ports:
  assumes "bpf_machine exec"
  shows "exec BPF_6672 fr 0 0 0 =
      (if ip_frame 17 fr \<and> port_at fr (transport_offset fr + 2) = Some 6672 then 0xffff else 0)
    \<and> exec BPF_18022 fr 0 0 0 =
      (if ip_frame 6 fr \<and> (port_at fr (transport_offset fr) = Some 18022 \<or> port_at fr (transport_offset fr + 2) = Some 18022)
       then 0xffff else 0)"
  using bpf_machine.run_6672 [OF assms] bpf_machine.run_18022 [OF assms] by blast

abbreviation demo_udp :: "byte list" where
  "demo_udp \<equiv> [0, 0, 0, 0, 0, 0, 0, 0, 0, 0, 0, 0, 8, 0,
     69, 0, 0, 0, 0, 0, 0, 0, 0, 17, 0, 0, 0, 0, 0, 0, 0, 0, 0, 0,
     26, 16, 26, 16, 0, 8, 0, 0]"

theorem filters_select_ports_witness:
  "bpf_exec BPF_6672 demo_udp 0 0 0 = 0xffff \<and> bpf_exec BPF_18022 demo_udp 0 0 0 = 0"
  using filters_select_ports [OF vm.bpf_machine_axioms, of demo_udp]
  by (simp add: ip_frame_def port_at_def transport_offset_def be16_def u16_from_be_bytes_def)

end
