(* ===== verification/ConfigText.thy ===== *)
theory ConfigText
  imports Config JsonEnc
begin

text \<open>
  A printer for configuration files, as an operator would write them, and the proof that the INI engine
  reads every printed configuration back, field by field, without a warning.
\<close>

section \<open>The printer\<close>

definition kv :: "string \<Rightarrow> string \<Rightarrow> string" where
  "kv k v = k @ ''='' @ v"

fun join_commas :: "string list \<Rightarrow> string" where
  "join_commas [] = []"
| "join_commas [x] = x"
| "join_commas (x # y # xs) = x @ '','' @ join_commas (y # xs)"

definition show_bool :: "bool \<Rightarrow> string" where
  "show_bool b = (if b then ''true'' else ''false'')"

definition station_lines :: "nat \<Rightarrow> station \<Rightarrow> string list" where
  "station_lines i s =
     [''[station '' @ [CHR 0x22] @ show_nat i @ [CHR 0x22] @ '']'', kv ''sip'' (st_sip s), kv ''rtsp_url'' (st_rtsp_url s)]"

fun stations_lines :: "nat \<Rightarrow> station list \<Rightarrow> string list" where
  "stations_lines i [] = []"
| "stations_lines i (s # ss) = station_lines i s @ stations_lines (i + 1) ss"

definition scalar_lines :: "config \<Rightarrow> string list" where
  "scalar_lines c =
     [kv ''sip'' (c_sip c), kv ''iface'' (c_iface c), kv ''iface_list'' (join_commas (c_iface_list c)),
      ''[listen]'', kv ''addr'' (l_addr (c_listen c)), kv ''port'' (show_int (l_port (c_listen c))),
      ''[hass]'', kv ''ipaddr'' (h_ipaddr (c_hass c)), kv ''port'' (show_int (h_port (c_hass c))),
      kv ''api'' (h_api (c_hass c)), kv ''token'' (h_token (c_hass c)),
      ''[video]'', kv ''forward'' (show_bool (v_forward (c_video c))), kv ''format'' (v_format (c_video c)),
      kv ''cache_path'' (v_cache_path (c_video c)),
      ''[automation]'', kv ''auto_unlock'' (show_bool (a_auto_unlock (c_automation c))),
      kv ''auto_hangup'' (show_bool (a_auto_hangup (c_automation c)))]"

definition config_lines :: "config \<Rightarrow> string list" where
  "config_lines c = scalar_lines c @ stations_lines 1 (c_stations c)"

fun join_newlines :: "string list \<Rightarrow> string" where
  "join_newlines [] = []"
| "join_newlines [x] = x"
| "join_newlines (x # y # xs) = x @ [CHR 0x0a] @ join_newlines (y # xs)"

section \<open>Clean values\<close>

definition clean :: "string \<Rightarrow> bool" where
  "clean v \<longleftrightarrow> list_all graphic v \<and> set v \<inter> {CHR 0x22, CHR '';'', CHR ''#''} = {}"

definition clean_config :: "config \<Rightarrow> bool" where
  "clean_config c \<longleftrightarrow> clean (c_sip c) \<and> clean (c_iface c)
     \<and> list_all (\<lambda>i. i \<noteq> [] \<and> clean i \<and> CHR '','' \<notin> set i) (c_iface_list c)
     \<and> clean (l_addr (c_listen c)) \<and> i32 (l_port (c_listen c))
     \<and> clean (h_ipaddr (c_hass c)) \<and> i32 (h_port (c_hass c)) \<and> clean (h_api (c_hass c)) \<and> clean (h_token (c_hass c))
     \<and> clean (v_format (c_video c)) \<and> clean (v_cache_path (c_video c))
     \<and> list_all (\<lambda>s. clean (st_sip s) \<and> clean (st_rtsp_url s)) (c_stations c)
     \<and> c_missing_fields c = [] \<and> c_deprecated_fields c = [] \<and> c_parser_warnings c = []
     \<and> length (join_newlines (config_lines c)) < 2 ^ 20"

lemma cut_comment_none: "set s \<inter> {CHR '';'', CHR ''#''} = {} \<Longrightarrow> cut_comment q s = s"
  by (induction s arbitrary: q) auto

lemma not_blank_graphic: "graphic c \<Longrightarrow> c \<noteq> CHR '' '' \<and> c \<noteq> byte_char 0x09"
  by (auto simp: graphic_def)

lemma trim_end_blank_graphic: "s \<noteq> [] \<Longrightarrow> graphic (last s) \<Longrightarrow> trim_end_blank s = s"
  using not_blank_graphic [of "last s"] by (cases s rule: rev_cases) (simp_all add: trim_end_blank_def)

lemma trim_clean: "clean v \<Longrightarrow> trim v = v"
  by (rule trim_graphic) (auto simp: clean_def list_all_iff)

text \<open>A key of the schema.\<close>

definition good_key_name :: "string \<Rightarrow> bool" where
  "good_key_name k \<longleftrightarrow> k \<noteq> [] \<and> clean k \<and> CHR ''='' \<notin> set k \<and> hd k \<noteq> CHR ''[''"

lemma kv_clean:
  assumes "good_key_name k" "clean v"
  shows "clean (kv k v)" "kv k v \<noteq> []" "hd (kv k v) \<noteq> CHR ''[''"
  using assms by (auto simp: kv_def clean_def good_key_name_def graphic_def)

lemma strip_clean:
  assumes "clean s" "s \<noteq> []"
  shows "strip_comment_trim s = Some s"
proof -
  have g: "graphic (hd s)" "graphic (last s)" "hd s \<noteq> CHR '';''" "hd s \<noteq> CHR ''#''"
    using assms by (auto simp: clean_def list_all_iff disjoint_iff)
  have "cut_comment False s = s" using assms(1) by (intro cut_comment_none) (auto simp: clean_def)
  then show ?thesis
    using assms(2) g trim_clean [OF assms(1)] trim_end_blank_graphic [of s]
    by (simp add: strip_comment_trim_def Let_def)
qed

lemma parse_key_value_kv:
  assumes "good_key_name k" "clean v"
  shows "parse_key_value pr (kv k v) = Ok (k, v)"
proof -
  have "position (\<lambda>c. c = CHR ''='') (k @ CHR ''='' # v) = Some (length k)"
    using assms(1) by (intro position_append_hit) (auto simp: good_key_name_def)
  moreover have "trim k = k" "trim v = v" "k \<noteq> []" using assms trim_clean by (auto simp: good_key_name_def)
  moreover have "v = [] \<or> hd v \<noteq> CHR 0x22" using assms(2) by (cases v) (auto simp: clean_def)
  ultimately show ?thesis by (auto simp: parse_key_value_def kv_def Let_def)
qed

text \<open>What the engine does with a printed line.\<close>

definition kv_effect :: "(nat \<Rightarrow> bool) \<Rightarrow> nat \<Rightarrow> string \<Rightarrow> string \<Rightarrow> config ini_state \<Rightarrow> config_error + config ini_state" where
  "kv_effect pr n k v st =
     (if is_section st = [] then after_set n (''config: unknown key '' @ debug_str pr k) (set_top pr k v (is_sink st)) st
      else if \<not> section_known (is_section st) then Ok st
      else if is_subname st = [] then
        (if \<not> section_is_struct (is_section st)
         then Err (ParseErr n (''section ['' @ is_section st @ ''] expected struct field''))
         else after_set n (''config: unknown key '' @ debug_str pr k @ '' in ['' @ is_section st @ '']'')
                (set_section pr (is_section st) k v (is_sink st)) st)
      else subsection_step pr (config_sink pr) n k v st)"

lemma ini_line_step_kv:
  assumes "good_key_name k" "clean v" "length (kv k v) < 2 ^ 20"
  shows "ini_line_step pr (config_sink pr) n (kv k v) st = kv_effect pr n k v st"
  using strip_clean [OF kv_clean(1,2) [OF assms(1,2)]] kv_clean(3) [OF assms(1,2)] parse_key_value_kv [OF assms(1,2)] assms(3)
  by (simp add: ini_line_step_def kv_effect_def config_sink_def Let_def)

section \<open>Section headers\<close>

lemma graphic_no_blank: "list_all graphic s \<Longrightarrow> position (\<lambda>c. c = CHR '' '') s = None"
  by (auto simp: position_None_iff list_all_iff graphic_def)

lemma ini_line_step_section:
  assumes "clean name" "name \<noteq> []" "section_known name" "length name < 1000"
  shows "ini_line_step pr (config_sink pr) n (''['' @ name @ '']'') st = Ok (st\<lparr>is_section := name, is_subname := []\<rparr>)"
proof -
  let ?s = "''['' @ name @ '']''"
  have c: "clean ?s" using assms(1) by (auto simp: clean_def graphic_def)
  have "slice 1 (length ?s - 1) ?s = name" by (simp add: slice_def)
  then have "parse_section_header pr ?s = Ok (name, [])"
    using assms(1,2) trim_clean [OF assms(1)] graphic_no_blank [of name]
    by (cases name) (auto simp: parse_section_header_def clean_def Let_def)
  then show ?thesis
    using strip_clean [OF c] assms(2-4) by (simp add: ini_line_step_def header_line_step_def config_sink_def Let_def)
qed

definition station_header :: "nat \<Rightarrow> string" where
  "station_header i = ''[station '' @ [CHR 0x22] @ show_nat i @ [CHR 0x22] @ '']''"

lemma show_nat_clean: "clean (show_nat i)" "show_nat i \<noteq> []"
  using show_nat_digits [of i]
  by (auto simp: clean_def list_all_iff graphic_def digit_char_def is_ascii_digit_def word_le_nat_alt)

lemma parse_section_header_station: "parse_section_header pr (station_header i) = Ok (''station'', show_nat i)"
proof -
  let ?q = "[CHR 0x22] @ show_nat i @ [CHR 0x22]"
  have g: "graphic (CHR 0x22)" "graphic (CHR ''s'')" "graphic (CHR ''n'')" by (simp_all add: graphic_def)
  have sl: "slice 1 (length (station_header i) - 1) (station_header i) = ''station '' @ ?q"
    by (simp add: station_header_def slice_def)
  have t1: "trim (''station '' @ ?q) = ''station '' @ ?q" and t2: "trim ?q = ?q" and t3: "trim ''station'' = ''station''"
    by (rule trim_graphic; simp add: g)+
  have "position (\<lambda>c. c = CHR '' '') (''station '' @ ?q) = Some 7" by simp
  moreover have "take 7 (''station '' @ ?q) = ''station''" "drop (7 + 1) (''station '' @ ?q) = ?q" by simp_all
  moreover have "slice 1 (length ?q - 1) ?q = show_nat i" by (simp add: slice_def)
  moreover have "\<not> (length (station_header i) < 3 \<or> last (station_header i) \<noteq> CHR '']'')"
    by (simp add: station_header_def)
  ultimately show ?thesis
    unfolding parse_section_header_def sl Let_def t1 t2
    by (simp only: t1 t2 t3 option.case if_False) (simp add: t3)
qed

lemma ini_line_step_station:
  assumes "length (station_header i) < 2 ^ 20"
  shows "ini_line_step pr (config_sink pr) n (station_header i) st =
    Ok (st\<lparr>is_section := ''station'', is_subname := show_nat i\<rparr>)"
proof -
  have g: "graphic (CHR ''['')" "graphic (CHR '']'')" by (simp_all add: graphic_def)
  have h: "station_header i \<noteq> []" "hd (station_header i) = CHR ''[''" "last (station_header i) = CHR '']''"
    by (simp_all add: station_header_def)
  have t: "trim (station_header i) = station_header i" by (rule trim_graphic) (simp add: g h)
  have "cut_comment False (station_header i) = station_header i"
    using show_nat_clean(1) [of i] by (intro cut_comment_none) (auto simp: station_header_def clean_def)
  then have "strip_comment_trim (station_header i) = Some (station_header i)"
    using t h g trim_end_blank_graphic [of "station_header i"] by (simp add: strip_comment_trim_def Let_def)
  then show ?thesis
    using h assms show_nat_clean(2) [of i]
    by (simp add: ini_line_step_def header_line_step_def parse_section_header_station config_sink_def section_known_def Let_def)
qed

lemma ini_lines_append:
  "ini_lines pr sk n (xs @ ys) st =
     (case ini_lines pr sk n xs st of Err e \<Rightarrow> Err e | Ok st' \<Rightarrow> ini_lines pr sk (n + length xs) ys st')"
  by (induction xs arbitrary: n st) (auto split: sum.splits)

lemma show_nat_inj: "show_nat i = show_nat j \<longleftrightarrow> i = j"
  by (metis dec_val_show_nat)

lemma good_keys [simp]:
  "good_key_name ''sip''" "good_key_name ''rtsp_url''" "good_key_name ''iface''" "good_key_name ''iface_list''"
  "good_key_name ''addr''" "good_key_name ''port''" "good_key_name ''ipaddr''" "good_key_name ''api''"
  "good_key_name ''token''" "good_key_name ''forward''" "good_key_name ''format''" "good_key_name ''cache_path''"
  "good_key_name ''auto_unlock''" "good_key_name ''auto_hangup''"
  by (simp_all add: good_key_name_def clean_def graphic_def)

definition fresh_station :: "nat \<Rightarrow> 'c ini_state \<Rightarrow> bool" where
  "fresh_station i st \<longleftrightarrow> (\<forall>j \<ge> i. map_of (is_last_subname st) ''station'' \<noteq> Some (show_nat j))"

lemma station_lines_read:
  assumes "clean (st_sip s)" "clean (st_rtsp_url s)" "fresh_station i st" "\<forall>l \<in> set (station_lines i s). length l < 2 ^ 20"
  shows "\<exists>st'. ini_lines pr (config_sink pr) n (station_lines i s) st = Ok st' \<and> fresh_station (i + 1) st'
    \<and> is_warnings st' = is_warnings st \<and> is_sink st' = (is_sink st)\<lparr>c_stations := c_stations (is_sink st) @ [s]\<rparr>"
proof -
  let ?c = "is_sink st" and ?sub = "show_nat i"
  let ?st1 = "st\<lparr>is_section := ''station'', is_subname := ?sub\<rparr>"
  let ?st2 = "?st1\<lparr>is_last_subname := AList.update ''station'' ?sub (is_last_subname st),
    is_sink := ?c\<lparr>c_stations := c_stations ?c @ [station_default\<lparr>st_sip := st_sip s\<rparr>]\<rparr>\<rparr>"
  let ?st3 = "?st2\<lparr>is_sink := ?c\<lparr>c_stations := c_stations ?c @ [s]\<rparr>\<rparr>"
  have len: "length (station_header i) < 2 ^ 20" "length (kv ''sip'' (st_sip s)) < 2 ^ 20"
    "length (kv ''rtsp_url'' (st_rtsp_url s)) < 2 ^ 20"
    using assms(4) by (simp_all add: station_lines_def station_header_def)
  have new: "map_of (is_last_subname st) ''station'' \<noteq> Some ?sub" using assms(3) by (simp add: fresh_station_def)
  have s: "s = station_default\<lparr>st_sip := st_sip s, st_rtsp_url := st_rtsp_url s\<rparr>" by (simp add: station_default_def)
  have e1: "kv_effect pr m ''sip'' (st_sip s) ?st1 = Ok ?st2" for m
    using show_nat_clean(2) [of i] new
    by (simp add: kv_effect_def subsection_step_def config_sink_def section_known_def section_is_slice_def
        append_subsection_def set_subsection_def after_set_def Let_def)
  have e2: "kv_effect pr m ''rtsp_url'' (st_rtsp_url s) ?st2 = Ok ?st3" for m
    using show_nat_clean(2) [of i]
    by (simp add: kv_effect_def subsection_step_def config_sink_def section_known_def section_is_slice_def
        subsection_len_def set_subsection_def after_set_def Let_def update_conv' station_default_def)
  have "ini_lines pr (config_sink pr) n (station_lines i s) st = Ok ?st3"
    unfolding station_lines_def station_header_def [symmetric]
    by (simp only: ini_lines.simps ini_line_step_station [OF len(1)] sum.case
        ini_line_step_kv [OF good_keys(1) assms(1) len(2)] ini_line_step_kv [OF good_keys(2) assms(2) len(3)] e1 e2)
  moreover have "fresh_station (i + 1) ?st3" by (simp add: fresh_station_def update_conv' show_nat_inj)
  ultimately show ?thesis by (intro exI [of _ ?st3]) simp
qed

lemma stations_lines_read:
  assumes "list_all (\<lambda>s. clean (st_sip s) \<and> clean (st_rtsp_url s)) ss" "fresh_station i st"
    "\<forall>l \<in> set (stations_lines i ss). length l < 2 ^ 20"
  shows "\<exists>st'. ini_lines pr (config_sink pr) n (stations_lines i ss) st = Ok st'
    \<and> is_warnings st' = is_warnings st \<and> is_sink st' = (is_sink st)\<lparr>c_stations := c_stations (is_sink st) @ ss\<rparr>"
  using assms
proof (induction ss arbitrary: i n st)
  case (Cons s ss)
  obtain st1 where 1: "ini_lines pr (config_sink pr) n (station_lines i s) st = Ok st1" "fresh_station (i + 1) st1"
    "is_warnings st1 = is_warnings st" "is_sink st1 = (is_sink st)\<lparr>c_stations := c_stations (is_sink st) @ [s]\<rparr>"
    using station_lines_read [of s i st pr n] Cons.prems by auto
  obtain st2 where 2: "ini_lines pr (config_sink pr) (n + length (station_lines i s)) (stations_lines (i + 1) ss) st1 = Ok st2"
    "is_warnings st2 = is_warnings st1" "is_sink st2 = (is_sink st1)\<lparr>c_stations := c_stations (is_sink st1) @ ss\<rparr>"
    using Cons.IH [of "i + 1" st1 "n + length (station_lines i s)"] Cons.prems 1(2) by auto
  show ?case by (rule exI [of _ st2]) (use 1 2 in \<open>simp add: ini_lines_append\<close>)
qed simp

section \<open>Scalars and lists\<close>

lemma show_int_clean: "clean (show_int n)" "show_int n \<noteq> []"
  using show_nat_clean(1) [of "nat (- n)"] show_nat_clean [of "nat n"]
  by (auto simp: show_int_def clean_def graphic_def)

lemma conv_int_show_int:
  assumes "i32 n"
  shows "conv_int pr (show_int n) k = Ok n"
proof -
  have "parse_i64 (show_int n) = Some n"
  proof (cases "n < 0")
    case True
    have "parse_i64 (CHR ''-'' # show_nat (nat (- n))) = Some (- int (nat (- n)))"
      using assms True show_nat_digits [of "nat (- n)"] by (simp add: parse_i64_def Let_def i32_def)
    then show ?thesis using True by (simp add: show_int_def)
  next
    case False
    then show ?thesis using assms parse_i64_show_nat [of "nat n"] by (simp add: show_int_def i32_def)
  qed
  then show ?thesis using assms show_int_clean(2) [of n] by (auto simp: conv_int_def i32_def Let_def)
qed

lemma conv_bool_show_bool: "conv_bool pr (show_bool b) k = Ok b"
proof -
  have "map to_ascii_lower ''true'' = ''true''" "map to_ascii_lower ''false'' = ''false''" by code_simp+
  then show ?thesis by (simp add: conv_bool_def show_bool_def)
qed

lemma show_bool_clean: "clean (show_bool b)"
  by (simp add: show_bool_def clean_def graphic_def)

lemma split_on_join_commas:
  "xs \<noteq> [] \<Longrightarrow> list_all (\<lambda>i. CHR '','' \<notin> set i) xs \<Longrightarrow> split_on (CHR '','') (join_commas xs) = xs"
  by (induction xs rule: join_commas.induct) (auto simp: split_on_no_sep split_on_append)

lemma split_on_join_newlines:
  "xs \<noteq> [] \<Longrightarrow> list_all (\<lambda>i. CHR 0x0a \<notin> set i) xs \<Longrightarrow> split_on (CHR 0x0a) (join_newlines xs) = xs"
  by (induction xs rule: join_newlines.induct) (auto simp: split_on_no_sep split_on_append)

lemma length_join_newlines: "x \<in> set xs \<Longrightarrow> length x \<le> length (join_newlines xs)"
  by (induction xs rule: join_newlines.induct) auto

lemma join_commas_clean: "list_all clean xs \<Longrightarrow> clean (join_commas xs)"
  by (induction xs rule: join_commas.induct) (auto simp: clean_def graphic_def)

lemma conv_string_array_join:
  assumes "list_all (\<lambda>i. i \<noteq> [] \<and> clean i \<and> CHR '','' \<notin> set i) xs"
  shows "conv_string_array (join_commas xs) = xs"
proof (cases "xs = []")
  case False
  have "map trim xs = xs" using assms trim_clean by (simp add: list_all_iff map_idI)
  moreover have "filter (\<lambda>p. p \<noteq> []) xs = xs" using assms by (simp add: list_all_iff filter_id_conv)
  moreover have "join_commas xs \<noteq> []" using False assms by (cases xs rule: join_commas.cases) auto
  ultimately show ?thesis
    using False assms split_on_join_commas [of xs] by (simp add: conv_string_array_def list_all_iff)
qed (simp add: conv_string_array_def)

section \<open>The round trip\<close>

lemma kv_ok:
  assumes "good_key_name k" "clean v" "length (kv k v) < 2 ^ 20" "kv_effect pr n k v st = Ok st'"
  shows "ini_lines pr (config_sink pr) n (kv k v # ls) st = ini_lines pr (config_sink pr) (n + 1) ls st'"
  using ini_line_step_kv [OF assms(1-3)] assms(4) by simp

lemma section_ok:
  assumes "section_known name" "name \<in> {''listen'', ''hass'', ''video'', ''automation''}"
  shows "ini_lines pr (config_sink pr) n ((''['' @ name @ '']'') # ls) st =
    ini_lines pr (config_sink pr) (n + 1) ls (st\<lparr>is_section := name, is_subname := []\<rparr>)"
proof -
  have "clean name" "name \<noteq> []" "length name < 1000" using assms(2) by (auto simp: clean_def graphic_def)
  then show ?thesis using ini_line_step_section [OF _ _ assms(1)] by simp
qed

lemma kv_top:
  assumes "good_key_name k" "clean v" "length (kv k v) < 2 ^ 20" "is_section st = []" "set_top pr k v (is_sink st) = (FSet, c)"
  shows "ini_lines pr (config_sink pr) n (kv k v # ls) st = ini_lines pr (config_sink pr) (n + 1) ls (st\<lparr>is_sink := c\<rparr>)"
  by (rule kv_ok [OF assms(1-3)]) (use assms(4,5) in \<open>simp add: kv_effect_def after_set_def\<close>)

lemma kv_section:
  assumes "good_key_name k" "clean v" "length (kv k v) < 2 ^ 20" "is_subname st = []"
    "is_section st \<in> {''listen'', ''hass'', ''video'', ''automation''}"
    "set_section pr (is_section st) k v (is_sink st) = (FSet, c)"
  shows "ini_lines pr (config_sink pr) n (kv k v # ls) st = ini_lines pr (config_sink pr) (n + 1) ls (st\<lparr>is_sink := c\<rparr>)"
  by (rule kv_ok [OF assms(1-3)])
    (use assms(4-6) in \<open>auto simp: kv_effect_def after_set_def section_known_def section_is_struct_def\<close>)

text \<open>One rule per key of the schema: what its line does to the configuration.\<close>

lemma read_top:
  assumes "is_section st = []" "clean v"
  shows "length (kv ''sip'' v) < 2 ^ 20 \<Longrightarrow> ini_lines pr (config_sink pr) n (kv ''sip'' v # ls) st =
      ini_lines pr (config_sink pr) (n + 1) ls (st\<lparr>is_sink := (is_sink st)\<lparr>c_sip := v\<rparr>\<rparr>)"
    and "length (kv ''iface'' v) < 2 ^ 20 \<Longrightarrow> ini_lines pr (config_sink pr) n (kv ''iface'' v # ls) st =
      ini_lines pr (config_sink pr) (n + 1) ls (st\<lparr>is_sink := (is_sink st)\<lparr>c_iface := v\<rparr>\<rparr>)"
    and "length (kv ''iface_list'' v) < 2 ^ 20 \<Longrightarrow> ini_lines pr (config_sink pr) n (kv ''iface_list'' v # ls) st =
      ini_lines pr (config_sink pr) (n + 1) ls (st\<lparr>is_sink := (is_sink st)\<lparr>c_iface_list := conv_string_array v\<rparr>\<rparr>)"
  by (rule kv_top; use assms in \<open>simp add: set_top_def\<close>)+

lemma read_listen:
  assumes "is_section st = ''listen''" "is_subname st = []"
  shows "clean v \<Longrightarrow> length (kv ''addr'' (v)) < 2 ^ 20 \<Longrightarrow> ini_lines pr (config_sink pr) n (kv ''addr'' (v) # ls) st =
      ini_lines pr (config_sink pr) (n + 1) ls (st\<lparr>is_sink := (is_sink st)\<lparr>c_listen := (c_listen (is_sink st))\<lparr>l_addr := v\<rparr>\<rparr>\<rparr>)"
    and "i32 i \<Longrightarrow> length (kv ''port'' (show_int i)) < 2 ^ 20 \<Longrightarrow> ini_lines pr (config_sink pr) n (kv ''port'' (show_int i) # ls) st =
      ini_lines pr (config_sink pr) (n + 1) ls (st\<lparr>is_sink := (is_sink st)\<lparr>c_listen := (c_listen (is_sink st))\<lparr>l_port := i\<rparr>\<rparr>\<rparr>)"
  by (rule kv_section;
      use assms in \<open>simp add: set_section_def store_def conv_int_show_int conv_bool_show_bool show_int_clean show_bool_clean\<close>)+

lemma read_hass:
  assumes "is_section st = ''hass''" "is_subname st = []"
  shows "clean v \<Longrightarrow> length (kv ''ipaddr'' (v)) < 2 ^ 20 \<Longrightarrow> ini_lines pr (config_sink pr) n (kv ''ipaddr'' (v) # ls) st =
      ini_lines pr (config_sink pr) (n + 1) ls (st\<lparr>is_sink := (is_sink st)\<lparr>c_hass := (c_hass (is_sink st))\<lparr>h_ipaddr := v\<rparr>\<rparr>\<rparr>)"
    and "i32 i \<Longrightarrow> length (kv ''port'' (show_int i)) < 2 ^ 20 \<Longrightarrow> ini_lines pr (config_sink pr) n (kv ''port'' (show_int i) # ls) st =
      ini_lines pr (config_sink pr) (n + 1) ls (st\<lparr>is_sink := (is_sink st)\<lparr>c_hass := (c_hass (is_sink st))\<lparr>h_port := i\<rparr>\<rparr>\<rparr>)"
    and "clean v \<Longrightarrow> length (kv ''api'' (v)) < 2 ^ 20 \<Longrightarrow> ini_lines pr (config_sink pr) n (kv ''api'' (v) # ls) st =
      ini_lines pr (config_sink pr) (n + 1) ls (st\<lparr>is_sink := (is_sink st)\<lparr>c_hass := (c_hass (is_sink st))\<lparr>h_api := v\<rparr>\<rparr>\<rparr>)"
    and "clean v \<Longrightarrow> length (kv ''token'' (v)) < 2 ^ 20 \<Longrightarrow> ini_lines pr (config_sink pr) n (kv ''token'' (v) # ls) st =
      ini_lines pr (config_sink pr) (n + 1) ls (st\<lparr>is_sink := (is_sink st)\<lparr>c_hass := (c_hass (is_sink st))\<lparr>h_token := v\<rparr>\<rparr>\<rparr>)"
  by (rule kv_section;
      use assms in \<open>simp add: set_section_def store_def conv_int_show_int conv_bool_show_bool show_int_clean show_bool_clean\<close>)+

lemma read_video:
  assumes "is_section st = ''video''" "is_subname st = []"
  shows "True \<Longrightarrow> length (kv ''forward'' (show_bool b)) < 2 ^ 20 \<Longrightarrow> ini_lines pr (config_sink pr) n (kv ''forward'' (show_bool b) # ls) st =
      ini_lines pr (config_sink pr) (n + 1) ls (st\<lparr>is_sink := (is_sink st)\<lparr>c_video := (c_video (is_sink st))\<lparr>v_forward := b\<rparr>\<rparr>\<rparr>)"
    and "clean v \<Longrightarrow> length (kv ''format'' (v)) < 2 ^ 20 \<Longrightarrow> ini_lines pr (config_sink pr) n (kv ''format'' (v) # ls) st =
      ini_lines pr (config_sink pr) (n + 1) ls (st\<lparr>is_sink := (is_sink st)\<lparr>c_video := (c_video (is_sink st))\<lparr>v_format := v\<rparr>\<rparr>\<rparr>)"
    and "clean v \<Longrightarrow> length (kv ''cache_path'' (v)) < 2 ^ 20 \<Longrightarrow> ini_lines pr (config_sink pr) n (kv ''cache_path'' (v) # ls) st =
      ini_lines pr (config_sink pr) (n + 1) ls (st\<lparr>is_sink := (is_sink st)\<lparr>c_video := (c_video (is_sink st))\<lparr>v_cache_path := v\<rparr>\<rparr>\<rparr>)"
  by (rule kv_section;
      use assms in \<open>simp add: set_section_def store_def conv_int_show_int conv_bool_show_bool show_int_clean show_bool_clean\<close>)+

lemma read_automation:
  assumes "is_section st = ''automation''" "is_subname st = []"
  shows "True \<Longrightarrow> length (kv ''auto_unlock'' (show_bool b)) < 2 ^ 20 \<Longrightarrow> ini_lines pr (config_sink pr) n (kv ''auto_unlock'' (show_bool b) # ls) st =
      ini_lines pr (config_sink pr) (n + 1) ls (st\<lparr>is_sink := (is_sink st)\<lparr>c_automation := (c_automation (is_sink st))\<lparr>a_auto_unlock := b\<rparr>\<rparr>\<rparr>)"
    and "True \<Longrightarrow> length (kv ''auto_hangup'' (show_bool b)) < 2 ^ 20 \<Longrightarrow> ini_lines pr (config_sink pr) n (kv ''auto_hangup'' (show_bool b) # ls) st =
      ini_lines pr (config_sink pr) (n + 1) ls (st\<lparr>is_sink := (is_sink st)\<lparr>c_automation := (c_automation (is_sink st))\<lparr>a_auto_hangup := b\<rparr>\<rparr>\<rparr>)"
  by (rule kv_section;
      use assms in \<open>simp add: set_section_def store_def conv_int_show_int conv_bool_show_bool show_int_clean show_bool_clean\<close>)+

lemma read_headers:
  "ini_lines pr (config_sink pr) n (''[listen]'' # ls) st = ini_lines pr (config_sink pr) (n + 1) ls (st\<lparr>is_section := ''listen'', is_subname := []\<rparr>)"
  "ini_lines pr (config_sink pr) n (''[hass]'' # ls) st = ini_lines pr (config_sink pr) (n + 1) ls (st\<lparr>is_section := ''hass'', is_subname := []\<rparr>)"
  "ini_lines pr (config_sink pr) n (''[video]'' # ls) st = ini_lines pr (config_sink pr) (n + 1) ls (st\<lparr>is_section := ''video'', is_subname := []\<rparr>)"
  "ini_lines pr (config_sink pr) n (''[automation]'' # ls) st =
     ini_lines pr (config_sink pr) (n + 1) ls (st\<lparr>is_section := ''automation'', is_subname := []\<rparr>)"
  using section_ok [of "''listen''" pr n ls st] section_ok [of "''hass''" pr n ls st]
    section_ok [of "''video''" pr n ls st] section_ok [of "''automation''" pr n ls st]
  by (simp_all add: section_known_def)

lemma scalar_lines_read:
  assumes "clean_config c" "list_all (\<lambda>l. length l < 2 ^ 20) (scalar_lines c)"
  shows "ini_lines pr (config_sink pr) 1 (scalar_lines c) (ini_init config_default) =
    Ok \<lparr>is_warnings = [], is_section = ''automation'', is_subname = [], is_last_subname = [], is_sink = c\<lparr>c_stations := []\<rparr>\<rparr>"
proof -
  note cl = assms(1) [unfolded clean_config_def] and ln = assms(2) [unfolded scalar_lines_def list.pred_inject(2)]
  have il: "clean (join_commas (c_iface_list c))" using cl by (intro join_commas_clean) (simp add: list_all_iff)
  have ca: "conv_string_array (join_commas (c_iface_list c)) = c_iface_list c" using cl by (intro conv_string_array_join) simp
  show ?thesis
    unfolding scalar_lines_def using cl ln il ca
    by (simp add: ini_init_def config_default_def read_top read_listen read_hass read_video read_automation read_headers
        del: ini_lines.simps(2))
qed

text \<open>No printed line holds a newline.\<close>

lemma clean_no_newline: "clean s \<Longrightarrow> CHR 0x0a \<notin> set s"
  by (auto simp: clean_def list_all_iff graphic_def)

lemma kv_no_newline: "good_key_name k \<Longrightarrow> clean v \<Longrightarrow> CHR 0x0a \<notin> set (kv k v)"
  by (rule clean_no_newline [OF kv_clean(1)])

lemma stations_no_newline:
  "list_all (\<lambda>s. clean (st_sip s) \<and> clean (st_rtsp_url s)) ss \<Longrightarrow> list_all (\<lambda>l. CHR 0x0a \<notin> set l) (stations_lines i ss)"
proof (induction ss arbitrary: i)
  case (Cons s ss)
  then show ?case
    using clean_no_newline [OF show_nat_clean(1) [of i]] by (simp add: station_lines_def kv_no_newline)
qed simp

lemma config_no_newline: "clean_config c \<Longrightarrow> list_all (\<lambda>l. CHR 0x0a \<notin> set l) (config_lines c)"
proof -
  assume c: "clean_config c"
  note cl = c [unfolded clean_config_def]
  have il: "clean (join_commas (c_iface_list c))" using cl by (intro join_commas_clean) (simp add: list_all_iff)
  have "list_all (\<lambda>l. CHR 0x0a \<notin> set l) (scalar_lines c)"
    unfolding scalar_lines_def using cl il by (simp add: kv_no_newline show_int_clean show_bool_clean)
  then show ?thesis using stations_no_newline [of "c_stations c" 1] cl by (simp add: config_lines_def)
qed


definition wit_config :: config where
  "wit_config = config_default\<lparr>c_sip := ''12345678@10.0.0.20:18022'', c_iface := ''br-door'', c_iface_list := [''eth0.1'', ''eth0.2''],
     c_listen := \<lparr>l_addr = ''0.0.0.0'', l_port = 7\<rparr>,
     c_stations := [\<lparr>st_sip = ''0602ab03@10.0.0.7:18022'', st_rtsp_url = []\<rparr>, \<lparr>st_sip = ''06020102@10.0.0.8:18022'', st_rtsp_url = ''rtsp://x''\<rparr>],
     c_video := \<lparr>v_forward = True, v_format = ''flv'', v_cache_path = []\<rparr>\<rparr>"

lemma wit_clean:
  "clean ''12345678@10.0.0.20:18022''" "clean ''br-door''" "clean ''eth0.1''" "clean ''eth0.2''" "clean ''0.0.0.0''"
  "clean ''0602ab03@10.0.0.7:18022''" "clean ''06020102@10.0.0.8:18022''" "clean ''rtsp://x''" "clean ''flv''" "clean []"
  by (simp_all add: clean_def graphic_def)

lemma wit_config_lines:
  "config_lines wit_config =
     [''sip=12345678@10.0.0.20:18022'', ''iface=br-door'', ''iface_list=eth0.1,eth0.2'', ''[listen]'', ''addr=0.0.0.0'', ''port=7'',
      ''[hass]'', ''ipaddr='', ''port=0'', ''api='', ''token='', ''[video]'', ''forward=true'', ''format=flv'', ''cache_path='',
      ''[automation]'', ''auto_unlock=false'', ''auto_hangup=false'',
      ''[station '' @ [CHR 0x22] @ ''1'' @ [CHR 0x22] @ '']'', ''sip=0602ab03@10.0.0.7:18022'', ''rtsp_url='',
      ''[station '' @ [CHR 0x22] @ ''2'' @ [CHR 0x22] @ '']'', ''sip=06020102@10.0.0.8:18022'', ''rtsp_url=rtsp://x'']"
proof -
  have "show_int 7 = ''7''" "show_int 0 = ''0''" "show_nat (Suc 0) = ''1''" "show_nat (Suc (Suc 0)) = ''2''"
    by (simp_all add: show_int_def show_nat.simps digit_of_def byte_char_def char_of_def bit_Suc_0_iff)
  then show ?thesis
    by (simp add: config_lines_def scalar_lines_def station_lines_def kv_def show_bool_def wit_config_def config_default_def)
qed


end
