(* ===== verification/SessionRace.thy ===== *)
theory SessionRace
  imports Session
begin

text \<open>
  The video manager under concurrency.  Explicit stop, stop by identifier, shutdown, TTL expiry and failed
  re-invitations all end a session; each takes it out of the slot under the lock and tears it down outside
  the lock, while other threads start sessions, receive packets and run monitors.  The step relation
  interleaves all of them; the invariant says who owns each session.
\<close>

section \<open>Steps\<close>

datatype stage = StWire nat | StStop | StClose

text \<open>
  \<open>sy_jobs\<close> are the threads inside \<open>teardown\<close>, with the session and the next stage; \<open>sy_done\<close> the sessions
  whose teardown has ended; \<open>sy_fatal\<close> those whose receiver thread ended with a socket error.
\<close>

record msys =
  sy_m :: mgr
  sy_jobs :: "(nat \<times> stage) list"
  sy_done :: "nat list"
  sy_fatal :: "nat set"

text \<open>
  \<open>ms_start\<close> carries what the operating system guarantees: the UDP port can be bound only while no
  receiver thread holds its socket.  \<open>ms_take\<close> covers \<open>stop\<close>, \<open>stop_by_id\<close> and \<open>shutdown\<close>, which differ in
  the condition \<open>P\<close> and the deadline; \<open>ms_buffer\<close> the operations of the frame buffer, none of which reopens
  it.  An iteration of the monitor, with the invitation it may send, is one step.
\<close>

inductive mstep :: "mgr_config \<Rightarrow> msys \<Rightarrow> msys \<Rightarrow> bool" for c where
  ms_start: "mgr_start c o1 m = Some (r, m') \<Longrightarrow>
    vm_current m = None \<and> vm_bind m (vn_step m) = None \<longrightarrow> (\<forall>se \<in> set (vm_sessions m). \<not> se_socket se) \<Longrightarrow>
    mstep c \<lparr>sy_m = m, sy_jobs = js, sy_done = ds, sy_fatal = fs\<rparr> \<lparr>sy_m = m', sy_jobs = js, sy_done = ds, sy_fatal = fs\<rparr>"
| ms_take: "take_if P m = (Some i, m') \<Longrightarrow>
    mstep c \<lparr>sy_m = m, sy_jobs = js, sy_done = ds, sy_fatal = fs\<rparr>
      \<lparr>sy_m = m', sy_jobs = js @ [(i, StWire d)], sy_done = ds, sy_fatal = fs\<rparr>"
| ms_cleanup: "i \<in> set (vm_cleanups m) \<Longrightarrow> take_same i m = (Some j, m') \<Longrightarrow>
    mstep c \<lparr>sy_m = m, sy_jobs = js, sy_done = ds, sy_fatal = fs\<rparr>
      \<lparr>sy_m = m', sy_jobs = js @ [(j, StWire d)], sy_done = ds, sy_fatal = fs\<rparr>"
| ms_wire: "js = a @ (i, StWire d) # b \<Longrightarrow>
    mstep c \<lparr>sy_m = m, sy_jobs = js, sy_done = ds, sy_fatal = fs\<rparr>
      \<lparr>sy_m = teardown_wire c i d m, sy_jobs = a @ (i, StStop) # b, sy_done = ds, sy_fatal = fs\<rparr>"
| ms_stop: "js = a @ (i, StStop) # b \<Longrightarrow>
    mstep c \<lparr>sy_m = m, sy_jobs = js, sy_done = ds, sy_fatal = fs\<rparr>
      \<lparr>sy_m = teardown_stop i m, sy_jobs = a @ (i, StClose) # b, sy_done = ds, sy_fatal = fs\<rparr>"
| ms_close: "js = a @ (i, StClose) # b \<Longrightarrow>
    mstep c \<lparr>sy_m = m, sy_jobs = js, sy_done = ds, sy_fatal = fs\<rparr>
      \<lparr>sy_m = teardown_close i m, sy_jobs = a @ b, sy_done = ds @ [i], sy_fatal = fs\<rparr>"
| ms_monitor: "i < length (vm_sessions m) \<Longrightarrow>
    mstep c \<lparr>sy_m = m, sy_jobs = js, sy_done = ds, sy_fatal = fs\<rparr>
      \<lparr>sy_m = monitor_iter c i m, sy_jobs = js, sy_done = ds, sy_fatal = fs\<rparr>"
| ms_packet: "i < length (vm_sessions m) \<Longrightarrow> se_socket (sess m i) \<Longrightarrow>
    mstep c \<lparr>sy_m = m, sy_jobs = js, sy_done = ds, sy_fatal = fs\<rparr>
      \<lparr>sy_m = on_packet i m, sy_jobs = js, sy_done = ds, sy_fatal = fs\<rparr>"
| ms_ssrc: "i < length (vm_sessions m) \<Longrightarrow> se_socket (sess m i) \<Longrightarrow>
    mstep c \<lparr>sy_m = m, sy_jobs = js, sy_done = ds, sy_fatal = fs\<rparr>
      \<lparr>sy_m = on_ssrc i s m, sy_jobs = js, sy_done = ds, sy_fatal = fs\<rparr>"
| ms_buffer: "i < length (vm_sessions m) \<Longrightarrow> fb_closed (se_buf (sess m i)) \<longrightarrow> fb_closed fb \<Longrightarrow>
    mstep c \<lparr>sy_m = m, sy_jobs = js, sy_done = ds, sy_fatal = fs\<rparr>
      \<lparr>sy_m = upd_sess i (\<lambda>se. se\<lparr>se_buf := fb\<rparr>) m, sy_jobs = js, sy_done = ds, sy_fatal = fs\<rparr>"
| ms_refresh: "refresh_ttl c sid m = (ok, m') \<Longrightarrow>
    mstep c \<lparr>sy_m = m, sy_jobs = js, sy_done = ds, sy_fatal = fs\<rparr> \<lparr>sy_m = m', sy_jobs = js, sy_done = ds, sy_fatal = fs\<rparr>"
| ms_exit: "i < length (vm_sessions m) \<Longrightarrow> se_stop (sess m i) \<Longrightarrow>
    mstep c \<lparr>sy_m = m, sy_jobs = js, sy_done = ds, sy_fatal = fs\<rparr>
      \<lparr>sy_m = upd_sess i (\<lambda>se. se\<lparr>se_socket := False\<rparr>) m, sy_jobs = js, sy_done = ds, sy_fatal = fs\<rparr>"
| ms_fatal: "i < length (vm_sessions m) \<Longrightarrow>
    mstep c \<lparr>sy_m = m, sy_jobs = js, sy_done = ds, sy_fatal = fs\<rparr>
      \<lparr>sy_m = upd_sess i (\<lambda>se. se\<lparr>se_socket := False\<rparr>) m, sy_jobs = js, sy_done = ds, sy_fatal = insert i fs\<rparr>"

definition mgr_idle :: "mgr \<Rightarrow> bool" where
  "mgr_idle m \<longleftrightarrow> vm_sessions m = [] \<and> vm_current m = None \<and> vm_cleanups m = []"

inductive mreach :: "mgr_config \<Rightarrow> msys \<Rightarrow> bool" for c where
  mreach_init: "mgr_idle m \<Longrightarrow> mreach c \<lparr>sy_m = m, sy_jobs = [], sy_done = [], sy_fatal = {}\<rparr>"
| mreach_step: "mreach c s \<Longrightarrow> mstep c s t \<Longrightarrow> mreach c t"

section \<open>What the operations keep\<close>

text \<open>The part of a session that decides about its life, and of the manager.\<close>

definition life :: "session \<Rightarrow> bool \<times> bool \<times> bool" where
  "life se = (se_stop se, se_socket se, fb_closed (se_buf se))"

definition same_life :: "mgr \<Rightarrow> mgr \<Rightarrow> bool" where
  "same_life m m' \<longleftrightarrow> map life (vm_sessions m') = map life (vm_sessions m) \<and> vm_current m' = vm_current m"

lemma same_life_refl [simp]: "same_life m m"
  by (simp add: same_life_def)

lemma same_life_trans: "same_life a b \<Longrightarrow> same_life b c \<Longrightarrow> same_life a c"
  by (simp add: same_life_def)

lemma same_life_upd: "(\<And>se. life (f se) = life se) \<Longrightarrow> same_life m (upd_sess i f m)"
  by (simp add: same_life_def upd_sess_def map_update list_update_same_conv)
    (metis length_map list_update_beyond list_update_id not_le nth_map)

lemma same_life_vask: "same_life m (snd (vask f m))"
  by (simp add: same_life_def vask_def)

lemma same_life_exchanged: "exchanged ip port frame m r m' \<Longrightarrow> same_life m m'"
  by (auto simp: exchanged_def same_life_def)

lemma exchanged_mgr:
  "exchanged ip port frame m r m' \<Longrightarrow>
   vm_sessions m' = vm_sessions m \<and> vm_current m' = vm_current m \<and> vm_cleanups m' = vm_cleanups (m :: mgr)"
  by (auto simp: exchanged_def)

definition same_mgr :: "mgr \<Rightarrow> mgr \<Rightarrow> bool" where
  "same_mgr m m' \<longleftrightarrow> vm_sessions m' = vm_sessions m \<and> vm_current m' = vm_current m \<and> vm_cleanups m' = vm_cleanups m"

lemma same_mgr_life: "same_mgr m m' \<Longrightarrow> same_life m m'"
  by (simp add: same_mgr_def same_life_def)

lemma same_mgr_trans: "same_mgr a b \<Longrightarrow> same_mgr b c \<Longrightarrow> same_mgr a c"
  by (simp add: same_mgr_def)

lemma start_preview_same: "mgr_start_preview c tmo o1 m = (r, m') \<Longrightarrow> same_mgr m m'"
  using start_preview_log [where tmo = tmo and ip = "od_ip o1" and port = "od_port o1" and callee = "od_bcd_name o1"
      and caller = "ca_bcd_name (mc_caller c)" and s = m]
  by (auto simp: mgr_start_preview_def same_mgr_def dest!: exchanged_mgr)

lemma stop_preview_same: "mgr_stop_preview c tmo o1 m = (r, m') \<Longrightarrow> same_mgr m m'"
  using stop_preview_log [where tmo = tmo and ip = "od_ip o1" and port = "od_port o1" and callee = "od_bcd_name o1"
      and caller = "ca_bcd_name (mc_caller c)" and s = m]
  by (auto simp: mgr_stop_preview_def same_mgr_def dest!: exchanged_mgr)

lemma send_bye_same: "same_mgr m (snd (send_bye dst ssrc m))"
  by (auto simp: send_bye_def udp_dial_def udp_send_def vask_def vlog_def same_mgr_def split: option.split)

lemma teardown_wire_same: "same_mgr m (teardown_wire c i d m)"
proof -
  have "same_mgr m1 (snd (mgr_stop_preview c tmo o1 m1))" for tmo o1 m1
    by (cases "mgr_stop_preview c tmo o1 m1") (auto dest: stop_preview_same)
  moreover have "same_mgr m (snd (vask vn_clock m))" by (simp add: vask_def same_mgr_def)
  ultimately show ?thesis
    using send_bye_same by (auto simp: teardown_wire_def Let_def same_mgr_def split: prod.splits)
qed

lemma reinvite_life: "same_life m (reinvite c i now rs m)"
proof -
  let ?m1 = "set_rs i (rs\<lparr>ri_last_at := Some now, ri_packets_at := se_rtp_packets (sess m i)\<rparr>) m"
  obtain r m2 where s: "mgr_start_preview c (Some (reinvite_dial_timeout_value c)) (se_outdoor (sess m i)) ?m1 = (r, m2)"
    by fastforce
  have rs: "same_life m (set_rs i rs' m)" for rs' unfolding set_rs_def by (rule same_life_upd) (simp add: life_def)
  have "same_life m m2" using rs same_mgr_life [OF start_preview_same [OF s]] same_life_trans by blast
  moreover have "same_life m2 (upd_sess i (\<lambda>se. se\<lparr>se_last_rtp_at := t\<rparr>) (snd (vask vn_clock m2)))" for t
    using same_life_upd [of "\<lambda>se. se\<lparr>se_last_rtp_at := t\<rparr>" "snd (vask vn_clock m2)" i] same_life_vask [of m2 vn_clock]
    by (simp add: life_def) (rule same_life_trans)
  ultimately show ?thesis
    using rs s by (auto simp: reinvite_def Let_def vask_def intro: same_life_trans)
qed

lemma tick_reinvite_life: "same_life m (tick_reinvite c i now m)"
proof -
  have rs: "same_life m (set_rs i rs' m)" for rs' unfolding set_rs_def by (rule same_life_upd) (simp add: life_def)
  then have "same_life m (register_cleanup i (set_rs i rs' m))" for rs'
    by (simp add: register_cleanup_def same_life_def)
  then show ?thesis using rs reinvite_life by (simp add: tick_reinvite_def Let_def split: option.split)
qed

lemma monitor_iter_life: "same_life m (monitor_iter c i m)"
proof -
  let ?now = "vn_clock m (vn_step m)" and ?m = "snd (vask vn_clock m)"
  let ?m1 = "upd_sess i (\<lambda>se. se\<lparr>se_next_tick := ?now + monitor_interval c\<rparr>) ?m"
  have 1: "same_life m ?m1"
    by (rule same_life_trans [OF same_life_vask same_life_upd]) (simp add: life_def)
  have 2: "same_life m (register_cleanup i (upd_sess i (\<lambda>se. se\<lparr>se_fired := True\<rparr>) ?m1))"
    using same_life_trans [OF 1 same_life_upd [of "\<lambda>se. se\<lparr>se_fired := True\<rparr>" ?m1 i]]
    by (simp add: life_def register_cleanup_def same_life_def)
  show ?thesis
    using 1 2 same_life_vask [of m vn_clock] same_life_trans [OF 1 tick_reinvite_life]
      same_life_trans [OF 2 tick_reinvite_life]
    by (auto simp: monitor_iter_def Let_def vask_def)
qed

lemma on_packet_life: "same_life m (on_packet i m)"
  unfolding on_packet_def vask_def
  by (simp, rule same_life_trans [OF _ same_life_upd]) (simp_all add: same_life_def life_def)

lemma on_ssrc_life: "same_life m (on_ssrc i s m)"
  unfolding on_ssrc_def by (rule same_life_upd) (simp add: life_def)

lemma refresh_ttl_life: "refresh_ttl c sid m = (ok, m') \<Longrightarrow> same_life m m'"
  using same_life_trans [OF same_life_vask [of m vn_clock] same_life_upd]
  by (auto simp: refresh_ttl_def vask_def life_def split: option.splits)

section \<open>Starting a session\<close>

lemma read_random_same: "read_random n m = (r, m') \<Longrightarrow> same_mgr m m' \<and> vn_log m' = vn_log m"
  by (auto simp: read_random_def vask_def same_mgr_def split: sum.splits)

lemma random_ssrc_same:
  "random_ssrc m = Some x \<Longrightarrow> same_mgr m (snd x) \<and> vn_log (snd x) = vn_log m \<and> fst x \<noteq> Ok 0"
proof (erule random_ssrc.raw_induct [rotated])
  fix f m x
  assume ih: "\<And>m x. f m = Some x \<Longrightarrow> same_mgr m (snd x) \<and> vn_log (snd x) = vn_log m \<and> fst x \<noteq> Ok 0"
    and e: "(case read_random 4 m of
          (Err e, m') \<Rightarrow> Some (Err e, m')
        | (Ok b, m') \<Rightarrow> let s = u32_from_be_bytes (b ! 0) (b ! 1) (b ! 2) (b ! 3) in if s \<noteq> 0 then Some (Ok s, m') else f m') = Some x"
  obtain r m' where r: "read_random 4 m = (r, m')" by (cases "read_random 4 m")
  show "same_mgr m (snd x) \<and> vn_log (snd x) = vn_log m \<and> fst x \<noteq> Ok 0"
    using e r ih [of m' x] read_random_same [OF r] by (auto simp: Let_def same_mgr_def split: sum.splits if_splits)
qed

abbreviation start_ev :: "mgr_config \<Rightarrow> outdoor \<Rightarrow> video_event" where
  "start_ev c o1 \<equiv> Tcp (od_ip o1) (od_port o1) (build_start_frame (od_bcd_name o1) (ca_bcd_name (mc_caller c)))"

abbreviation stop_ev :: "mgr_config \<Rightarrow> outdoor \<Rightarrow> video_event" where
  "stop_ev c o1 \<equiv> Tcp (od_ip o1) (od_port o1) (build_stop_frame (od_bcd_name o1) (ca_bcd_name (mc_caller c)))"

lemma start_preview_ev:
  "mgr_start_preview c tmo o1 m = (r, m') \<Longrightarrow>
   vn_log m' = vn_log m @ [start_ev c o1] \<or> vn_log m' = vn_log m \<and> r \<noteq> Ok ()"
  using start_preview_log [where tmo = tmo and ip = "od_ip o1" and port = "od_port o1" and callee = "od_bcd_name o1"
      and caller = "ca_bcd_name (mc_caller c)" and s = m]
  by (auto simp: mgr_start_preview_def exchanged_def)

lemma stop_preview_ev:
  "mgr_stop_preview c tmo o1 m = (r, m') \<Longrightarrow> vn_log m' = vn_log m @ [stop_ev c o1] \<or> vn_log m' = vn_log m"
  using stop_preview_log [where tmo = tmo and ip = "od_ip o1" and port = "od_port o1" and callee = "od_bcd_name o1"
      and caller = "ca_bcd_name (mc_caller c)" and s = m]
  by (auto simp: mgr_stop_preview_def exchanged_def)

text \<open>The possible outcomes of \<open>start\<close>: a new session in the free slot, or no session is touched.\<close>

definition started :: "mgr_config \<Rightarrow> outdoor \<Rightarrow> mgr \<Rightarrow> (start_error + session_info) \<Rightarrow> mgr \<Rightarrow> session \<Rightarrow> bool" where
  "started c o1 m r m' se \<longleftrightarrow>
     vm_current m = None \<and> vm_bind m (vn_step m) = None
   \<and> vm_sessions m' = vm_sessions m @ [se] \<and> vm_current m' = Some (length (vm_sessions m))
   \<and> (\<exists>b ssrc t1 t2 t3. se = new_session c (uuid_of b) o1 ssrc t1 t2 t3 \<and> length b = 16 \<and> ssrc \<noteq> 0)
   \<and> r = Ok (session_info_of se (ttl_value c)) \<and> vn_log m' = vn_log m @ [start_ev c o1]"

definition not_started :: "mgr_config \<Rightarrow> outdoor \<Rightarrow> mgr \<Rightarrow> (start_error + session_info) \<Rightarrow> mgr \<Rightarrow> bool" where
  "not_started c o1 m r m' \<longleftrightarrow>
     same_life m m' \<and>
     (case r of
        Ok info \<Rightarrow>
          vn_log m' = vn_log m
          \<and> (\<exists>i. vm_current m = Some i \<and> od_uri (se_outdoor (sess m i)) = od_uri o1
               \<and> info = session_info_of (sess m i) (ttl_value c))
      | Err (Conflict active requested) \<Rightarrow>
          m' = m \<and> requested = od_uri o1 \<and> active \<noteq> requested
          \<and> (\<exists>i. vm_current m = Some i \<and> active = od_uri (se_outdoor (sess m i)))
      | Err (Bind addr e) \<Rightarrow> vn_log m' = vn_log m \<and> vm_current m = None
      | Err (PreviewFailed e) \<Rightarrow> vm_current m = None \<and> vn_log m' \<in> {vn_log m, vn_log m @ [start_ev c o1]}
      | Err _ \<Rightarrow> vm_current m = None \<and>
          vn_log m' \<in> {vn_log m @ [start_ev c o1], vn_log m @ [start_ev c o1, stop_ev c o1]})"

text \<open>The way through \<open>start\<close> when the slot is free and the port can be bound.\<close>

lemma mgr_start_free:
  assumes "vm_current m = None" "vm_bind m (vn_step m) = None" "m1 = snd (vask vm_bind m)"
    and "mgr_start_preview c None o1 m1 = (r2, m2)" "read_random 16 m2 = (r3, m3)"
  shows "mgr_start c o1 m =
      (case r2 of
         Err e \<Rightarrow> Some (Err (PreviewFailed e), m2)
       | Ok _ \<Rightarrow>
           (case r3 of
              Err e \<Rightarrow> Some (Err (Uuid e), snd (mgr_stop_preview c (Some ROLLBACK_STOP_PREVIEW_TIMEOUT) o1 m3))
            | Ok b \<Rightarrow>
                (case random_ssrc m3 of
                   None \<Rightarrow> None
                 | Some (Err e, m4) \<Rightarrow>
                     Some (Err (Ssrc e), snd (mgr_stop_preview c (Some ROLLBACK_STOP_PREVIEW_TIMEOUT) o1 m4))
                 | Some (Ok ssrc, m4) \<Rightarrow>
                     let t = vn_clock m4; k = vn_step m4; se = new_session c (uuid_of b) o1 ssrc (t k) (t (k + 1)) (t (k + 2)) in
                     Some (Ok (session_info_of se (ttl_value c)),
                           m4\<lparr>vn_step := k + 3, vm_sessions := vm_sessions m4 @ [se],
                              vm_current := Some (length (vm_sessions m4))\<rparr>))))"
  using assms by (simp add: mgr_start_def vask_def Let_def split: sum.split option.split prod.split)

lemma mgr_start_busy:
  assumes "mgr_start c o1 m = Some (r, m')" "vm_current m = Some i"
  shows "not_started c o1 m r m'"
proof -
  have "same_life m (upd_sess i (\<lambda>se. se\<lparr>se_ttl_deadline := t\<rparr>) (snd (vask vn_clock m)))" for t
    by (rule same_life_trans [OF same_life_vask same_life_upd]) (simp add: life_def)
  with assms show ?thesis by (auto simp: mgr_start_def vask_def not_started_def upd_sess_def split: if_splits)
qed

lemma mgr_start_rollback:
  assumes "same_mgr m m4" "vn_log m4 = vn_log m @ [start_ev c o1]" "vm_current m = None" "\<exists>x. e = Uuid x \<or> e = Ssrc x"
    and "m' = snd (mgr_stop_preview c (Some ROLLBACK_STOP_PREVIEW_TIMEOUT) o1 m4)"
  shows "not_started c o1 m (Err e) m'"
proof -
  obtain x where m': "mgr_stop_preview c (Some ROLLBACK_STOP_PREVIEW_TIMEOUT) o1 m4 = (x, m')"
    using assms(5) by (cases "mgr_stop_preview c (Some ROLLBACK_STOP_PREVIEW_TIMEOUT) o1 m4") simp
  have "same_life m m'" using same_mgr_life [OF same_mgr_trans [OF assms(1) stop_preview_same [OF m']]] .
  with stop_preview_ev [OF m'] assms(2-4) show ?thesis by (auto simp: not_started_def)
qed

lemma mgr_start_cases:
  assumes "mgr_start c o1 m = Some (r, m')"
  shows "(\<exists>se. started c o1 m r m' se) \<or> not_started c o1 m r m'"
proof (cases "vm_current m = None \<and> vm_bind m (vn_step m) = None")
  case False
  then show ?thesis
  proof (cases "vm_current m")
    case None
    have "same_life m (snd (vask vm_bind m))" by (rule same_life_vask)
    with None False assms show ?thesis by (auto simp: mgr_start_def vask_def Let_def not_started_def)
  qed (use mgr_start_busy [OF assms] in blast)
next
  case True
  define m1 where "m1 = snd (vask vm_bind m)"
  have m1: "same_mgr m m1" "vn_log m1 = vn_log m" by (simp_all add: m1_def vask_def same_mgr_def)
  obtain r2 m2 where m2: "mgr_start_preview c None o1 m1 = (r2, m2)" by fastforce
  obtain r3 m3 where m3: "read_random 16 m2 = (r3, m3)" by fastforce
  note run = mgr_start_free [OF conjunct1 [OF True] conjunct2 [OF True] m1_def m2 m3]
  have m12: "same_mgr m m2" using same_mgr_trans [OF m1(1) start_preview_same [OF m2]] .
  have ev: "r2 = Ok () \<Longrightarrow> vn_log m2 = vn_log m @ [start_ev c o1]" "vn_log m2 \<in> {vn_log m, vn_log m @ [start_ev c o1]}"
    using start_preview_ev [OF m2] m1(2) by auto
  have m13: "same_mgr m m3" "vn_log m3 = vn_log m2" using read_random_same [OF m3] same_mgr_trans [OF m12] by auto
  consider e where "r2 = Err e" | e where "r2 = Ok ()" "r3 = Err e"
    | b x m4 where "r2 = Ok ()" "r3 = Ok b" "random_ssrc m3 = Some (x, m4)"
    | b where "r2 = Ok ()" "r3 = Ok b" "random_ssrc m3 = None"
    by (cases r2; cases r3; cases "random_ssrc m3") auto
  then show ?thesis
  proof cases
    case 1
    then show ?thesis using assms run same_mgr_life [OF m12] ev(2) True by (auto simp: not_started_def)
  next
    case (2 e)
    have "r = Err (Uuid e)" "m' = snd (mgr_stop_preview c (Some ROLLBACK_STOP_PREVIEW_TIMEOUT) o1 m3)"
      using assms run 2 by simp_all
    then show ?thesis
      using mgr_start_rollback [OF m13(1), where c = c and e = "Uuid e" and m' = m' and ?o1.0 = o1] m13(2) ev(1) [OF 2(1)] True by simp
  next
    case (3 b x m4)
    have m14: "same_mgr m m4" "vn_log m4 = vn_log m3" "x \<noteq> Ok 0"
      using random_ssrc_same [OF 3(3)] m13 same_mgr_trans by auto
    show ?thesis
    proof (cases x)
      case (Inl e)
      have "r = Err (Ssrc e)" "m' = snd (mgr_stop_preview c (Some ROLLBACK_STOP_PREVIEW_TIMEOUT) o1 m4)"
        using assms run 3 Inl by simp_all
      then show ?thesis
        using mgr_start_rollback [OF m14(1), where c = c and e = "Ssrc e" and m' = m' and ?o1.0 = o1] m14(2) m13(2) ev(1) [OF 3(1)] True by simp
    next
      case (Inr ssrc)
      define se where "se = new_session c (uuid_of b) o1 ssrc (vn_clock m4 (vn_step m4)) (vn_clock m4 (vn_step m4 + 1))
        (vn_clock m4 (vn_step m4 + 2))"
      have "r = Ok (session_info_of se (ttl_value c))" "vm_sessions m' = vm_sessions m4 @ [se]"
        "vm_current m' = Some (length (vm_sessions m4))" "vn_log m' = vn_log m4"
        using assms run 3 Inr by (auto simp: Let_def se_def)
      moreover have "length b = 16" using m3 3(2) by (auto simp: read_random_def split: prod.splits sum.splits)
      then have "\<exists>b ssrc t1 t2 t3. se = new_session c (uuid_of b) o1 ssrc t1 t2 t3 \<and> length b = 16 \<and> ssrc \<noteq> 0"
        unfolding se_def using m14(3) Inr by blast
      ultimately have "started c o1 m r m' se"
        using m14 True m13(2) ev(1) 3(1) by (simp add: started_def same_mgr_def)
      then show ?thesis by blast
    qed
  next
    case 4
    then show ?thesis using assms run by simp
  qed
qed

text \<open>The identifiers drawn are accepted by the check on the video URLs.\<close>

lemma uuid_hex_valid:
  assumes "length b = 16"
  shows "is_valid_uuid (uuid_hex 0 b)"
proof -
  have hex: "hex_nibble (of_char (hex_digit (drop_bit 4 v))) \<noteq> None" "hex_nibble (of_char (hex_digit (v AND 0x0f))) \<noteq> None" for v
    using nibble_bounds [of v] by (simp_all add: hex_nibble_hex_digit)
  obtain b0 b1 b2 b3 b4 b5 b6 b7 b8 b9 b10 b11 b12 b13 b14 b15 where
    "b = [b0, b1, b2, b3, b4, b5, b6, b7, b8, b9, b10, b11, b12, b13, b14, b15]"
    using assms by (auto simp: length_Suc_conv numeral_eq_Suc)
  then show ?thesis using hex by (simp add: is_valid_uuid_def)
qed

lemma uuid_of_valid: "length b = 16 \<Longrightarrow> is_valid_uuid (uuid_of b)"
  by (simp add: uuid_of_def uuid_hex_valid)

text \<open>Drawing the SSRC ends unless the random source returns zeros for ever.\<close>

definition zero_draw :: "io_err + (nat \<Rightarrow> byte) \<Rightarrow> bool" where
  "zero_draw r \<longleftrightarrow> (case r of Err _ \<Rightarrow> False | Ok f \<Rightarrow> u32_from_be_bytes (f 0) (f 1) (f 2) (f 3) = 0)"

lemma random_ssrc_diverges: "random_ssrc m = None \<Longrightarrow> zero_draw (vm_random m (vn_step m + k))"
proof (induction k arbitrary: m)
  case 0
  then show ?case
    by (subst (asm) random_ssrc.simps)
      (auto simp: read_random_def vask_def zero_draw_def Let_def upt_rec numeral_eq_Suc split: sum.splits if_splits)
next
  case (Suc k)
  have "random_ssrc (m\<lparr>vn_step := vn_step m + 1\<rparr>) = None"
    using Suc.prems by (subst (asm) random_ssrc.simps)
      (auto simp: read_random_def vask_def Let_def split: sum.splits if_splits)
  from Suc.IH [OF this] show ?case by simp
qed


section \<open>Ownership\<close>

text \<open>Every session, in the slot, in the hands of a thread that tears it down, or torn down.\<close>

definition owned :: "msys \<Rightarrow> nat list" where
  "owned s = (case vm_current (sy_m s) of Some i \<Rightarrow> [i] | None \<Rightarrow> []) @ map fst (sy_jobs s) @ sy_done s"

definition msys_inv :: "msys \<Rightarrow> bool" where
  "msys_inv s \<longleftrightarrow>
     (let m = sy_m s; n = length (vm_sessions m) in
      distinct (owned s) \<and> set (owned s) = {..<n}
    \<and> (\<forall>i. vm_current m = Some i \<longrightarrow> n \<le> Suc i)
    \<and> (\<forall>i<n. se_socket (sess m i) \<longrightarrow> n \<le> Suc i)
    \<and> (\<forall>i<n. \<not> se_socket (sess m i) \<longrightarrow> se_stop (sess m i) \<or> i \<in> sy_fatal s)
    \<and> (\<forall>i<n. se_stop (sess m i) \<longleftrightarrow> i \<in> set (sy_done s) \<or> (i, StClose) \<in> set (sy_jobs s))
    \<and> (\<forall>i \<in> set (sy_done s). fb_closed (se_buf (sess m i))))"

lemma msys_invI:
  assumes "distinct (owned s)" "set (owned s) = {..<length (vm_sessions (sy_m s))}"
    and "\<And>i. vm_current (sy_m s) = Some i \<Longrightarrow> length (vm_sessions (sy_m s)) \<le> Suc i"
    and "\<And>i. i < length (vm_sessions (sy_m s)) \<Longrightarrow> se_socket (sess (sy_m s) i) \<Longrightarrow> length (vm_sessions (sy_m s)) \<le> Suc i"
    and "\<And>i. i < length (vm_sessions (sy_m s)) \<Longrightarrow> \<not> se_socket (sess (sy_m s) i) \<Longrightarrow> se_stop (sess (sy_m s) i) \<or> i \<in> sy_fatal s"
    and "\<And>i. i < length (vm_sessions (sy_m s)) \<Longrightarrow>
      se_stop (sess (sy_m s) i) \<longleftrightarrow> i \<in> set (sy_done s) \<or> (i, StClose) \<in> set (sy_jobs s)"
    and "\<And>i. i \<in> set (sy_done s) \<Longrightarrow> fb_closed (se_buf (sess (sy_m s) i))"
  shows "msys_inv s"
  unfolding msys_inv_def Let_def using assms by blast

lemma msys_invD:
  assumes "msys_inv s"
  shows "distinct (owned s)" "set (owned s) = {..<length (vm_sessions (sy_m s))}"
    and "\<And>i. vm_current (sy_m s) = Some i \<Longrightarrow> length (vm_sessions (sy_m s)) \<le> Suc i"
    and "\<And>i. i < length (vm_sessions (sy_m s)) \<Longrightarrow> se_socket (sess (sy_m s) i) \<Longrightarrow> length (vm_sessions (sy_m s)) \<le> Suc i"
    and "\<And>i. i < length (vm_sessions (sy_m s)) \<Longrightarrow> \<not> se_socket (sess (sy_m s) i) \<Longrightarrow> se_stop (sess (sy_m s) i) \<or> i \<in> sy_fatal s"
    and "\<And>i. i < length (vm_sessions (sy_m s)) \<Longrightarrow>
      se_stop (sess (sy_m s) i) \<longleftrightarrow> i \<in> set (sy_done s) \<or> (i, StClose) \<in> set (sy_jobs s)"
    and "\<And>i. i \<in> set (sy_done s) \<Longrightarrow> fb_closed (se_buf (sess (sy_m s) i))"
  using assms unfolding msys_inv_def Let_def by blast+

lemma owned_bound:
  assumes "msys_inv s"
  shows "i \<in> set (sy_done s) \<Longrightarrow> i < length (vm_sessions (sy_m s))"
    and "(i, st) \<in> set (sy_jobs s) \<Longrightarrow> i < length (vm_sessions (sy_m s))"
  using msys_invD(2) [OF assms] by (force simp: owned_def)+

lemma same_lifeD:
  assumes "same_life m m'"
  shows "length (vm_sessions m') = length (vm_sessions m)" "vm_current m' = vm_current m"
    and "i < length (vm_sessions m) \<Longrightarrow> life (sess m' i) = life (sess m i)"
proof -
  show l: "length (vm_sessions m') = length (vm_sessions m)" "vm_current m' = vm_current m"
    using assms map_eq_imp_length_eq [of life "vm_sessions m'" life "vm_sessions m"] by (simp_all add: same_life_def)
  have "map life (vm_sessions m') ! i = map life (vm_sessions m) ! i" using assms by (simp add: same_life_def)
  then show "i < length (vm_sessions m) \<Longrightarrow> life (sess m' i) = life (sess m i)" using l(1) by simp
qed

lemma msys_inv_same_life:
  assumes "msys_inv s" "same_life (sy_m s) m'"
  shows "msys_inv (s\<lparr>sy_m := m'\<rparr>)"
proof -
  note n = same_lifeD(1,2) [OF assms(2)]
  have l: "se_stop (sess m' i) = se_stop (sess (sy_m s) i)" "se_socket (sess m' i) = se_socket (sess (sy_m s) i)"
    "fb_closed (se_buf (sess m' i)) = fb_closed (se_buf (sess (sy_m s) i))" if "i < length (vm_sessions (sy_m s))" for i
    using same_lifeD(3) [OF assms(2) that] by (simp_all add: life_def)
  have "owned (s\<lparr>sy_m := m'\<rparr>) = owned s" using n by (simp add: owned_def)
  then show ?thesis
    using msys_invD [OF assms(1)] n l owned_bound(1) [OF assms(1)] by (intro msys_invI) simp_all
qed

text \<open>One lemma per other kind of step.\<close>

lemma inv_take:
  assumes "msys_inv s" "vm_current (sy_m s) = Some i" "m' = (sy_m s)\<lparr>vm_current := None\<rparr>"
  shows "msys_inv (s\<lparr>sy_m := m', sy_jobs := sy_jobs s @ [(i, StWire d)]\<rparr>)"
proof -
  have "mset (owned (s\<lparr>sy_m := m', sy_jobs := sy_jobs s @ [(i, StWire d)]\<rparr>)) = mset (owned s)"
    using assms(2,3) by (simp add: owned_def)
  then have "distinct (owned (s\<lparr>sy_m := m', sy_jobs := sy_jobs s @ [(i, StWire d)]\<rparr>)) = distinct (owned s)"
    "set (owned (s\<lparr>sy_m := m', sy_jobs := sy_jobs s @ [(i, StWire d)]\<rparr>)) = set (owned s)"
    by (rule mset_eq_imp_distinct_iff, rule mset_eq_setD)
  then show ?thesis using msys_invD [OF assms(1)] assms(3) by (intro msys_invI) simp_all
qed

lemma inv_new:
  assumes "msys_inv s" "started c o1 (sy_m s) r m' se" "\<forall>se \<in> set (vm_sessions (sy_m s)). \<not> se_socket se"
  shows "msys_inv (s\<lparr>sy_m := m'\<rparr>)"
proof -
  let ?n = "length (vm_sessions (sy_m s))"
  note st = assms(2) [unfolded started_def]
  have new: "vm_sessions m' = vm_sessions (sy_m s) @ [se]" "vm_current m' = Some ?n" "vm_current (sy_m s) = None"
    using st by simp_all
  have se: "se_socket se" "\<not> se_stop se" using st by (auto simp: new_session_def)
  have own: "owned (s\<lparr>sy_m := m'\<rparr>) = ?n # owned s" using new by (simp add: owned_def)
  have sock: "\<not> se_socket (sess (sy_m s) i)" if "i < ?n" for i using assms(3) that by simp
  have old: "sess m' i = sess (sy_m s) i" if "i < ?n" for i using that new(1) by (simp add: nth_append)
  have "sess m' ?n = se" using new(1) by simp
  then show ?thesis
    using msys_invD [OF assms(1)] new se sock old own owned_bound [OF assms(1), of ?n]
    by (intro msys_invI; auto simp: less_Suc_eq owned_bound(1) [OF assms(1)]; blast)
qed

lemma inv_wire:
  assumes "msys_inv s" "sy_jobs s = a @ (i, StWire d) # b" "same_mgr (sy_m s) m'"
  shows "msys_inv (s\<lparr>sy_m := m', sy_jobs := a @ (i, StStop) # b\<rparr>)"
proof -
  have "owned (s\<lparr>sy_m := m', sy_jobs := a @ (i, StStop) # b\<rparr>) = owned s"
    using assms(2,3) by (simp add: owned_def same_mgr_def)
  then show ?thesis using msys_invD [OF assms(1)] assms(2,3) by (intro msys_invI) (simp_all add: same_mgr_def)
qed

lemma inv_stop:
  assumes "msys_inv s" "sy_jobs s = a @ (i, StStop) # b"
  shows "msys_inv (s\<lparr>sy_m := teardown_stop i (sy_m s), sy_jobs := a @ (i, StClose) # b\<rparr>)"
proof -
  let ?t = "s\<lparr>sy_m := teardown_stop i (sy_m s), sy_jobs := a @ (i, StClose) # b\<rparr>"
  have "i < length (vm_sessions (sy_m s))" using owned_bound(2) [OF assms(1), of i StStop] assms(2) by simp
  moreover have "owned ?t = owned s" using assms(2) by (simp add: owned_def teardown_stop_def upd_sess_def)
  ultimately show ?thesis
    using msys_invD [OF assms(1)] assms(2)
    by (intro msys_invI) (auto simp: teardown_stop_def upd_sess_def nth_list_update split: if_splits)
qed

lemma inv_close:
  assumes "msys_inv s" "sy_jobs s = a @ (i, StClose) # b"
  shows "msys_inv (s\<lparr>sy_m := teardown_close i (sy_m s), sy_jobs := a @ b, sy_done := sy_done s @ [i]\<rparr>)"
proof -
  let ?t = "s\<lparr>sy_m := teardown_close i (sy_m s), sy_jobs := a @ b, sy_done := sy_done s @ [i]\<rparr>"
  have i: "i < length (vm_sessions (sy_m s))" using owned_bound(2) [OF assms(1), of i StClose] assms(2) by simp
  have "mset (owned ?t) = mset (owned s)" using assms(2) by (simp add: owned_def teardown_close_def upd_sess_def)
  then have own: "distinct (owned ?t) = distinct (owned s)" "set (owned ?t) = set (owned s)"
    by (rule mset_eq_imp_distinct_iff, rule mset_eq_setD)
  define m' where "m' = teardown_close i (sy_m s)"
  have m': "length (vm_sessions m') = length (vm_sessions (sy_m s))" "vm_current m' = vm_current (sy_m s)"
    "se_stop (sess m' j) = se_stop (sess (sy_m s) j)" "se_socket (sess m' j) = se_socket (sess (sy_m s) j)"
    "fb_closed (se_buf (sess m' j)) = (j = i \<or> fb_closed (se_buf (sess (sy_m s) j)))" for j
    using i by (simp_all add: m'_def teardown_close_def upd_sess_def nth_list_update close_def)
  have "(j, StClose) \<in> set (sy_jobs s) \<longleftrightarrow> j = i \<or> (j, StClose) \<in> set (a @ b)" for j using assms(2) by auto
  then show ?thesis
    using msys_invD [OF assms(1)] m' own by (intro msys_invI) (simp_all add: m'_def [symmetric] disj_left_commute disj_assoc, blast)
qed

lemma inv_socket:
  assumes "msys_inv s" "i < length (vm_sessions (sy_m s))" "se_stop (sess (sy_m s) i) \<or> i \<in> fs" "sy_fatal s \<subseteq> fs"
  shows "msys_inv (s\<lparr>sy_m := upd_sess i (\<lambda>se. se\<lparr>se_socket := False\<rparr>) (sy_m s), sy_fatal := fs\<rparr>)"
proof -
  have "owned (s\<lparr>sy_m := upd_sess i (\<lambda>se. se\<lparr>se_socket := False\<rparr>) (sy_m s), sy_fatal := fs\<rparr>) = owned s"
    by (simp add: owned_def upd_sess_def)
  then show ?thesis
    using msys_invD [OF assms(1)] assms(2-)
    by (intro msys_invI; auto simp: upd_sess_def nth_list_update subset_iff split: if_splits; blast)
qed

lemma inv_buffer:
  assumes "msys_inv s" "i < length (vm_sessions (sy_m s))" "fb_closed (se_buf (sess (sy_m s) i)) \<longrightarrow> fb_closed fb"
  shows "msys_inv (s\<lparr>sy_m := upd_sess i (\<lambda>se. se\<lparr>se_buf := fb\<rparr>) (sy_m s)\<rparr>)"
proof -
  have "owned (s\<lparr>sy_m := upd_sess i (\<lambda>se. se\<lparr>se_buf := fb\<rparr>) (sy_m s)\<rparr>) = owned s"
    by (simp add: owned_def upd_sess_def)
  then show ?thesis
    using msys_invD [OF assms(1)] assms(2-)
    by (intro msys_invI; auto simp: upd_sess_def nth_list_update split: if_splits; blast)
qed

lemma mstep_inv: "mstep c s t \<Longrightarrow> msys_inv s \<Longrightarrow> msys_inv t"
proof (induction rule: mstep.induct)
  case (ms_start o1 m r m' js ds fs)
  from mgr_start_cases [OF ms_start.hyps(1)] show ?case
  proof (elim disjE exE)
    fix se assume st: "started c o1 m r m' se"
    then have "\<forall>se \<in> set (vm_sessions m). \<not> se_socket se" using ms_start.hyps(2) by (simp add: started_def)
    then show ?thesis using inv_new [OF ms_start.prems, of c o1 r m' se] st by simp
  qed (use msys_inv_same_life [OF ms_start.prems, of m'] in \<open>simp add: not_started_def\<close>)
next
  case (ms_take P m i m' js ds fs d)
  then show ?case
    using inv_take [OF ms_take.prems, of i m' d] by (auto simp: take_if_def split: option.splits if_splits)
next
  case (ms_cleanup i m j m' js ds fs d)
  then show ?case using inv_take [OF ms_cleanup.prems, of j m' d] by (auto simp: take_same_def split: if_splits)
next
  case (ms_wire js a i d b m ds fs)
  then show ?case using inv_wire [OF ms_wire.prems, of a i d b "teardown_wire c i d m"] teardown_wire_same by simp
next
  case (ms_stop js a i b m ds fs)
  then show ?case using inv_stop [OF ms_stop.prems, of a i b] by simp
next
  case (ms_close js a i b m ds fs)
  then show ?case using inv_close [OF ms_close.prems, of a i b] by simp
next
  case (ms_monitor i m js ds fs)
  then show ?case using msys_inv_same_life [OF ms_monitor.prems, of "monitor_iter c i m"] monitor_iter_life by simp
next
  case (ms_packet i m js ds fs)
  then show ?case using msys_inv_same_life [OF ms_packet.prems, of "on_packet i m"] on_packet_life by simp
next
  case (ms_ssrc i m js ds fs s)
  then show ?case using msys_inv_same_life [OF ms_ssrc.prems, of "on_ssrc i s m"] on_ssrc_life by simp
next
  case (ms_buffer i m fb js ds fs)
  then show ?case using inv_buffer [OF ms_buffer.prems, of i fb] by simp
next
  case (ms_refresh sid m ok m' js ds fs)
  then show ?case using msys_inv_same_life [OF ms_refresh.prems, of m'] refresh_ttl_life by simp
next
  case (ms_exit i m js ds fs)
  then show ?case using inv_socket [OF ms_exit.prems, of i fs] by simp
next
  case (ms_fatal i m js ds fs)
  then show ?case using inv_socket [OF ms_fatal.prems, of i "insert i fs"] by auto
qed

lemma mreach_inv: "mreach c s \<Longrightarrow> msys_inv s"
proof (induction rule: mreach.induct)
  case (mreach_init m)
  then show ?case by (intro msys_invI) (simp_all add: owned_def mgr_idle_def)
next
  case (mreach_step s t)
  then show ?case using mstep_inv by blast
qed

text \<open>
  C9. No session is torn down twice and none is forgotten: in every reachable state, under any
  interleaving of starts, the five ways to end a session, monitors, receivers and HTTP handlers, every
  session ever started is in exactly one place: in the slot, in the hands of one thread that is tearing it
  down, or torn down; and a torn-down session has its threads told to stop and its frame buffer closed,
  while the session in the slot is the newest and has not been told to stop.
\<close>

theorem session_single_owner:
  assumes "mreach c s"
  shows "distinct (owned s) \<and> set (owned s) = {..<length (vm_sessions (sy_m s))}
    \<and> set (sy_done s) \<subseteq> {i. se_stop (sess (sy_m s) i) \<and> fb_closed (se_buf (sess (sy_m s) i))}
    \<and> set_option (vm_current (sy_m s)) \<subseteq> {i. Suc i = length (vm_sessions (sy_m s)) \<and> \<not> se_stop (sess (sy_m s) i)}"
proof -
  note inv = msys_invD [OF mreach_inv [OF assms]] and b = owned_bound [OF mreach_inv [OF assms]]
  have "Suc i = length (vm_sessions (sy_m s)) \<and> \<not> se_stop (sess (sy_m s) i)" if c: "vm_current (sy_m s) = Some i" for i
  proof -
    have "i < length (vm_sessions (sy_m s))" "i \<notin> set (sy_done s)" "(i, StClose) \<notin> set (sy_jobs s)"
      using inv(1,2) c by (force simp: owned_def)+
    then show ?thesis using inv(3) [OF c] inv(6) [of i] by simp
  qed
  then show ?thesis using inv(1,2,6,7) b(1) by auto
qed

text \<open>
  C10. A late stop never hits the next session: while a session is in the slot, no thread is still about
  to send the stop signal and the farewell of an older one, except for a session whose receiver thread
  ended with a socket error.  The manager gives up its lock before it sends them; what keeps the next
  start back is that the UDP port stays bound until the old receiver has seen the stop flag, which is set
  after they are sent.
\<close>

theorem no_late_stop:
  assumes "mreach c s" "vm_current (sy_m s) = Some k"
  shows "{i. \<exists>d. (i, StWire d) \<in> set (sy_jobs s)} \<subseteq> sy_fatal s"
proof (clarify)
  fix i d
  assume j: "(i, StWire d) \<in> set (sy_jobs s)"
  note inv = msys_invD [OF mreach_inv [OF assms(1)]] and b = owned_bound [OF mreach_inv [OF assms(1)]]
  have f: "i \<in> fst ` set (sy_jobs s)" using j by (force simp: image_iff)
  then have "i \<noteq> k" "i \<notin> set (sy_done s)" using inv(1) assms(2) by (auto simp: owned_def)
  moreover have "(i, StClose) \<notin> set (sy_jobs s)"
    using inv(1) eq_key_imp_eq_value [of "sy_jobs s" i "StWire d" StClose] j by (auto simp: owned_def)
  moreover have "i < length (vm_sessions (sy_m s))" "k < length (vm_sessions (sy_m s))"
    using b(2) [OF j] inv(2) assms(2) by (auto simp: owned_def)
  ultimately show "i \<in> sy_fatal s"
    using inv(3) [OF assms(2)] inv(4) [of i] inv(5) [of i] inv(6) [of i] by fastforce
qed

section \<open>A run\<close>

text \<open>A manager whose system answers every call, and the state after one start.\<close>

definition demo_config :: mgr_config where
  "demo_config = mgr_config_new \<lparr>ca_name = ''11010101'', ca_bcd_name = [0x11, 0x01, 0x01, 0x01]\<rparr>"

definition demo_outdoor :: outdoor where
  "demo_outdoor = \<lparr>od_uri = ''11000001@10.0.0.2:18022'', od_name = ''11000001'', od_ip = ''10.0.0.2'',
     od_port = 18022, od_bcd_name = [0x11, 0, 0, 1]\<rparr>"

definition demo_mgr :: mgr where
  "demo_mgr = \<lparr>vn_step = 0, vn_clock = (\<lambda>_. 0), vn_is_ipv6 = (\<lambda>_. False), vn_dial = (\<lambda>_. None),
     vn_setopt = (\<lambda>_. None), vn_write = (\<lambda>_. None),
     vn_read = (\<lambda>_. Ok ([0x07, 0xb8, 0, 0, 0, 0] @ as_bytes ''req=705'')), vn_udp = (\<lambda>_. None), vn_log = [],
     vm_bind = (\<lambda>_. None), vm_random = (\<lambda>_. Ok (\<lambda>_. 1)), vm_sessions = [], vm_current = None, vm_cleanups = []\<rparr>"

definition demo_started :: mgr where
  "demo_started = snd (the (mgr_start demo_config demo_outdoor demo_mgr))"

lemma demo_start_preview:
  "fst (mgr_start_preview demo_config None demo_outdoor (snd (vask vm_bind demo_mgr))) = Ok ()"
proof -
  have "ipv4_from_str ''10.0.0.2'' \<noteq> None" by code_simp
  then show ?thesis
    by (simp add: mgr_start_preview_def start_preview_def dial_and_exchange_def demo_outdoor_def demo_mgr_def vask_def
        vlog_def Let_def PREVIEW_DIAL_TIMEOUT_def secs_def ACK_READ_BUF_def validate_start_ack_def
        validate_preview_ack_def PREVIEW_HEADER_SIZE_def PREVIEW_MAGIC_HI_def PREVIEW_MAGIC_LO_def slice_def as_bytes_def)
qed

lemma demo_run:
  "mgr_start demo_config demo_outdoor demo_mgr \<noteq> None" "vm_current demo_started = Some 0"
proof -
  define m1 where "m1 = snd (vask vm_bind demo_mgr)"
  obtain m2 where m2: "mgr_start_preview demo_config None demo_outdoor m1 = (Ok (), m2)"
    using demo_start_preview unfolding m1_def by (metis prod.collapse)
  have same: "vm_random m2 = vm_random demo_mgr" "vm_sessions m2 = []"
    using start_preview_log [where tmo = None and ip = "od_ip demo_outdoor" and port = "od_port demo_outdoor"
        and callee = "od_bcd_name demo_outdoor" and caller = "ca_bcd_name (mc_caller demo_config)" and s = m1] m2
    by (auto simp: mgr_start_preview_def exchanged_def m1_def vask_def demo_mgr_def)
  obtain m3 where m3: "read_random 16 m2 = (Ok (replicate 16 1), m3)" "vm_random m3 = vm_random demo_mgr" "vm_sessions m3 = []"
    using same by (auto simp: read_random_def vask_def demo_mgr_def map_replicate_const)
  have "\<exists>x m4. random_ssrc m3 = Some (Ok x, m4) \<and> vm_sessions m4 = []"
    using m3(2,3) by (subst random_ssrc.simps)
      (auto simp: read_random_def vask_def demo_mgr_def Let_def u32_from_be_bytes_def)
  then obtain x m4 where m4: "random_ssrc m3 = Some (Ok x, m4)" "vm_sessions m4 = []" by blast
  note run = mgr_start_free [OF _ _ m1_def m2 m3(1)]
  show "mgr_start demo_config demo_outdoor demo_mgr \<noteq> None" "vm_current demo_started = Some 0"
    using run m4 by (simp_all add: demo_started_def demo_mgr_def Let_def)
qed

lemma demo_reach: "mreach demo_config \<lparr>sy_m = demo_started, sy_jobs = [], sy_done = [], sy_fatal = {}\<rparr>"
proof -
  have "mstep demo_config \<lparr>sy_m = demo_mgr, sy_jobs = [], sy_done = [], sy_fatal = {}\<rparr>
      \<lparr>sy_m = demo_started, sy_jobs = [], sy_done = [], sy_fatal = {}\<rparr>"
    using demo_run(1) by (intro ms_start [where ?o1.0 = demo_outdoor and r = "fst (the (mgr_start demo_config demo_outdoor demo_mgr))"])
      (auto simp: demo_started_def demo_mgr_def)
  then show ?thesis by (rule mreach_step [rotated]) (simp add: mreach_init mgr_idle_def demo_mgr_def)
qed

theorem session_single_owner_witness:
  "distinct (owned \<lparr>sy_m = demo_started, sy_jobs = [], sy_done = [], sy_fatal = {}\<rparr>)"
  using session_single_owner [OF demo_reach] by blast

theorem no_late_stop_witness:
  "{i. \<exists>d. (i, StWire d) \<in> set (sy_jobs \<lparr>sy_m = demo_started, sy_jobs = [], sy_done = [], sy_fatal = {}\<rparr>)} \<subseteq> {}"
  using no_late_stop [OF demo_reach, of 0] demo_run(2) by simp

end
